(* ===== verification/Prelude.thy ===== *)
theory Prelude
  imports Main "HOL-Library.Word"
begin

unbundle bit_operations_syntax

text \<open>
  What the components share: bytes and byte strings, the Python exceptions of the program as
  values, the results of fallible code as a sum, readers over an in-memory byte stream
  (\<open>io.BytesIO\<close>), \<open>int.to_bytes\<close>/\<open>int.from_bytes\<close> and the part of the
  \<open>struct\<close> module the program uses, with the generic round-trip lemmas.
\<close>

section \<open>Bytes, results and streams\<close>

type_synonym byte = "8 word"
type_synonym bytes = "byte list"

text \<open>
  A Python \<open>str\<close> is a list of code points; ASCII-only texts are HOL strings and
  \<open>ustr\<close> embeds them.
\<close>

type_synonym ustr = "nat list"

definition ustr :: "string \<Rightarrow> ustr" where
  "ustr s = map of_char s"

text \<open>The exceptions the modelled code raises, one constructor per class.\<close>

datatype py_exn =
    ValueError
  | UnicodeError
  | BinasciiError
  | KeyError int
  | KeyErrorText ustr
  | IndexError
  | TypeError
  | AttributeError
  | OverflowError
  | StructError
  | OSError
  | TimeoutError
  | ConnectionError
  | ConnectionResetError
  | NameError
  | RuntimeError
  | EOFError
  | WebCarrierError
  | IntegrityError
  | SecurityCheckMismatch
  | PlainException
  | OutOfFuel

text \<open>The standard library's class hierarchy, as far as an \<open>except\<close> clause tests it.\<close>

fun is_ValueError :: "py_exn \<Rightarrow> bool" where
  "is_ValueError ValueError = True"
| "is_ValueError UnicodeError = True"
| "is_ValueError BinasciiError = True"
| "is_ValueError _ = False"

fun is_OSError :: "py_exn \<Rightarrow> bool" where
  "is_OSError OSError = True"
| "is_OSError TimeoutError = True"
| "is_OSError ConnectionError = True"
| "is_OSError ConnectionResetError = True"
| "is_OSError WebCarrierError = True"
| "is_OSError _ = False"

type_synonym 'a result = "py_exn + 'a"

definition bindR :: "'a result \<Rightarrow> ('a \<Rightarrow> 'b result) \<Rightarrow> 'b result" where
  "bindR m f = (case m of Inl e \<Rightarrow> Inl e | Inr x \<Rightarrow> f x)"

definition check :: "bool \<Rightarrow> py_exn \<Rightarrow> unit result" where
  "check c e = (if c then Inr () else Inl e)"

lemma bindR_simps [simp]:
  "bindR (Inl e) f = Inl e"
  "bindR (Inr x) f = f x"
  by (simp_all add: bindR_def)

lemma bindR_Inr_iff: "bindR m f = Inr y \<longleftrightarrow> (\<exists>x. m = Inr x \<and> f x = Inr y)"
  by (cases m) auto

lemma check_Inr_iff [simp]: "check c e = Inr u \<longleftrightarrow> c"
  by (auto simp: check_def)

lemma check_True [simp]: "check True e = Inr ()"
  by (simp add: check_def)

lemma check_False [simp]: "check False e = Inl e"
  by (simp add: check_def)

text \<open>\<open>[f(x) for x in xs]\<close> for a fallible \<open>f\<close>: the first exception ends it.\<close>

fun mapR :: "('a \<Rightarrow> 'b result) \<Rightarrow> 'a list \<Rightarrow> 'b list result" where
  "mapR f [] = Inr []"
| "mapR f (x # xs) = bindR (f x) (\<lambda>y. bindR (mapR f xs) (\<lambda>ys. Inr (y # ys)))"

lemma mapR_length: "mapR f xs = Inr ys \<Longrightarrow> length ys = length xs"
  by (induction xs arbitrary: ys) (auto simp: bindR_Inr_iff)

lemma mapR_map: "(\<And>x. x \<in> set xs \<Longrightarrow> f x = Inr (g x)) \<Longrightarrow> mapR f xs = Inr (map g xs)"
  by (induction xs) auto

text \<open>
  A reader takes the unread part of a \<open>BytesIO\<close> and returns its result with what is left
  unread, also when it raises: a caller that catches the exception goes on from there.
\<close>

type_synonym stream = bytes
type_synonym 'a reader = "stream \<Rightarrow> 'a result \<times> stream"

definition retS :: "'a \<Rightarrow> 'a reader" where
  "retS x s = (Inr x, s)"

definition liftS :: "'a result \<Rightarrow> 'a reader" where
  "liftS r s = (r, s)"

definition bindS :: "'a reader \<Rightarrow> ('a \<Rightarrow> 'b reader) \<Rightarrow> 'b reader" where
  "bindS m f s = (case m s of (Inl e, t) \<Rightarrow> (Inl e, t) | (Inr x, t) \<Rightarrow> f x t)"

text \<open>\<open>BytesIO.read(n)\<close>: at most \<open>n\<close> bytes, everything for a negative \<open>n\<close>.\<close>

definition readS :: "int \<Rightarrow> bytes reader" where
  "readS n s = (if n < 0 then (Inr s, []) else (Inr (take (nat n) s), drop (nat n) s))"

lemma retS_apply [simp]: "retS x s = (Inr x, s)"
  by (simp add: retS_def)

lemma liftS_apply [simp]: "liftS r s = (r, s)"
  by (simp add: liftS_def)

lemma bindS_Inr: "m s = (Inr x, t) \<Longrightarrow> bindS m f s = f x t"
  by (simp add: bindS_def)

lemma bindS_Inl: "m s = (Inl e, t) \<Longrightarrow> bindS m f s = (Inl e, t)"
  by (simp add: bindS_def)

lemma readS_append: "n = int (length xs) \<Longrightarrow> readS n (xs @ ys) = (Inr xs, ys)"
  by (simp add: readS_def)

lemma readS_nonneg: "0 \<le> n \<Longrightarrow> readS n s = (Inr (take (nat n) s), drop (nat n) s)"
  by (simp add: readS_def)

text \<open>Reading \<open>count\<close> items in a row, the list comprehension of the readers.\<close>

fun repeatS :: "nat \<Rightarrow> 'a reader \<Rightarrow> 'a list reader" where
  "repeatS 0 r = retS []"
| "repeatS (Suc n) r = bindS r (\<lambda>x. bindS (repeatS n r) (\<lambda>xs. retS (x # xs)))"

lemma repeatS_concat:
  assumes "\<And>x rest. x \<in> set xs \<Longrightarrow> r (enc x @ rest) = (Inr x, rest)"
  shows "repeatS (length xs) r (concat (map enc xs) @ rest) = (Inr xs, rest)"
  using assms
proof (induction xs)
  case (Cons x xs)
  then show ?case by (simp add: bindS_def)
qed simp

section \<open>Integers as bytes\<close>

text \<open>\<open>le_bytes n v\<close> are the low \<open>n\<close> bytes of \<open>v\<close>, the least significant first.\<close>

primrec le_bytes :: "nat \<Rightarrow> nat \<Rightarrow> bytes" where
  "le_bytes 0 v = []"
| "le_bytes (Suc n) v = word_of_nat v # le_bytes n (v div 256)"

primrec le_nat :: "bytes \<Rightarrow> nat" where
  "le_nat [] = 0"
| "le_nat (b # bs) = unat b + 256 * le_nat bs"

definition be_bytes :: "nat \<Rightarrow> nat \<Rightarrow> bytes" where
  "be_bytes n v = rev (le_bytes n v)"

definition be_nat :: "bytes \<Rightarrow> nat" where
  "be_nat bs = le_nat (rev bs)"

lemma unat_byte_lt [simp]: "unat (b :: byte) < 256"
  using unsigned_less [of b, where ?'a = nat] by simp

lemma unat_byte_le [simp]: "unat (b :: byte) \<le> 255"
  using unat_byte_lt [of b] by linarith

lemma unat_word_of_nat_byte [simp]: "unat (word_of_nat v :: byte) = v mod 256"
  by (simp add: unat_of_nat)

text \<open>The byte with the value \<open>n\<close>, modulo 256.\<close>

definition byte_of :: "nat \<Rightarrow> byte" where
  "byte_of n = word_of_nat n"

lemma unat_byte_of [simp]: "n < 256 \<Longrightarrow> unat (byte_of n) = n"
  by (simp add: byte_of_def)

lemma byte_of_unat [simp]: "byte_of (unat b) = b"
  by (simp add: byte_of_def)

lemma length_le_bytes [simp]: "length (le_bytes n v) = n"
  by (induction n arbitrary: v) auto

lemma length_be_bytes [simp]: "length (be_bytes n v) = n"
  by (simp add: be_bytes_def)

lemma le_nat_le_bytes: "le_nat (le_bytes n v) = v mod 256 ^ n"
proof (induction n arbitrary: v)
  case (Suc n)
  have "v mod (256 * 256 ^ n) = 256 * (v div 256 mod 256 ^ n) + v mod 256"
    by (rule mod_mult2_eq)
  then show ?case by (simp add: Suc.IH)
qed simp

lemma le_nat_lt: "le_nat bs < 256 ^ length bs"
proof (induction bs)
  case (Cons b bs)
  have "unat b + 256 * le_nat bs < 256 * Suc (le_nat bs)" by simp
  also have "\<dots> \<le> 256 * 256 ^ length bs" using Cons.IH by simp
  finally show ?case by simp
qed simp

lemma word_of_nat_add_256: "(word_of_nat (unat b + 256 * k) :: byte) = b"
proof -
  have "unat (word_of_nat (unat b + 256 * k) :: byte) = (unat b + 256 * k) mod 256"
    by (rule unat_word_of_nat_byte)
  also have "\<dots> = unat b" by simp
  finally show ?thesis by (simp only: word_unat_eq_iff)
qed

lemma le_bytes_le_nat: "le_bytes (length bs) (le_nat bs) = bs"
proof (induction bs)
  case (Cons b bs)
  have "(unat b + 256 * le_nat bs) div 256 = le_nat bs" by simp
  then show ?case using Cons.IH word_of_nat_add_256 by simp
qed simp

lemma be_nat_be_bytes: "be_nat (be_bytes n v) = v mod 256 ^ n"
  by (simp add: be_nat_def be_bytes_def le_nat_le_bytes)

lemma be_bytes_be_nat: "be_bytes (length bs) (be_nat bs) = bs"
  using le_bytes_le_nat [of "rev bs"] by (simp add: be_nat_def be_bytes_def)

lemma be_nat_lt: "be_nat bs < 256 ^ length bs"
  using le_nat_lt [of "rev bs"] by (simp add: be_nat_def)

text \<open>Two's complement: \<open>int.from_bytes(bs, "little", signed=...)\<close>.\<close>

definition sign_int :: "nat \<Rightarrow> nat \<Rightarrow> int" where
  "sign_int n u = (if 2 * int u < 256 ^ n then int u else int u - 256 ^ n)"

definition le_int :: "bool \<Rightarrow> bytes \<Rightarrow> int" where
  "le_int sg bs = (if sg then sign_int (length bs) (le_nat bs) else int (le_nat bs))"

definition fits :: "bool \<Rightarrow> nat \<Rightarrow> int \<Rightarrow> bool" where
  "fits sg n v =
     (if sg then - (256 ^ n) \<le> 2 * v \<and> 2 * v < 256 ^ n else 0 \<le> v \<and> v < 256 ^ n)"

text \<open>\<open>v.to_bytes(n, "little", signed=...)\<close>: \<open>OverflowError\<close> when it does not fit.\<close>

definition le_of_int :: "nat \<Rightarrow> int \<Rightarrow> bytes" where
  "le_of_int n v = le_bytes n (nat (v mod 256 ^ n))"

definition to_bytes_le :: "nat \<Rightarrow> bool \<Rightarrow> int \<Rightarrow> bytes result" where
  "to_bytes_le n sg v = (if fits sg n v then Inr (le_of_int n v) else Inl OverflowError)"

lemma length_le_of_int [simp]: "length (le_of_int n v) = n"
  by (simp add: le_of_int_def)

lemma le_nat_le_of_int: "int (le_nat (le_of_int n v)) = v mod 256 ^ n"
proof -
  have "0 \<le> v mod 256 ^ n" by simp
  then show ?thesis
    by (simp add: le_of_int_def le_nat_le_bytes nat_mod_distrib [symmetric] zmod_int)
qed

lemma sign_int_mod:
  assumes "fits True n v"
  shows "sign_int n (nat (v mod 256 ^ n)) = v"
proof (cases "0 \<le> v")
  case True
  with assms have "v mod 256 ^ n = v" by (intro mod_pos_pos_trivial) (auto simp: fits_def)
  with True assms show ?thesis by (simp add: sign_int_def fits_def)
next
  case False
  have "(v + 256 ^ n) mod 256 ^ n = v mod 256 ^ n" by simp
  moreover have "(v + 256 ^ n) mod 256 ^ n = v + 256 ^ n"
    using False assms by (intro mod_pos_pos_trivial) (auto simp: fits_def)
  ultimately show ?thesis using False assms by (auto simp: sign_int_def fits_def)
qed

lemma le_int_le_of_int: "fits sg n v \<Longrightarrow> le_int sg (le_of_int n v) = v"
proof (cases sg)
  case True
  assume "fits sg n v"
  moreover have "le_nat (le_of_int n v) = nat (v mod 256 ^ n)"
    using le_nat_le_of_int [of n v] by linarith
  ultimately show ?thesis using True by (simp add: le_int_def sign_int_mod)
next
  case False
  assume "fits sg n v"
  with False show ?thesis by (simp add: le_int_def le_nat_le_of_int fits_def)
qed

lemma wrap_range:
  "0 \<le> a \<Longrightarrow> a < m \<Longrightarrow>
     - m \<le> 2 * (if 2 * a < m then a else a - m) \<and> 2 * (if 2 * a < m then a else a - m) < (m :: int)"
  by auto

lemma sign_int_range:
  assumes "u < 256 ^ n"
  shows "fits True n (sign_int n u)"
proof -
  have "int u < int (256 ^ n)" using assms by (simp only: of_nat_less_iff)
  then have "int u < 256 ^ n" by (simp only: of_nat_power of_nat_numeral)
  moreover have "0 \<le> int u" by simp
  ultimately show ?thesis
    unfolding fits_def sign_int_def if_True by (intro wrap_range)
qed

lemma fits_le_int: "fits sg (length bs) (le_int sg bs)"
proof (cases sg)
  case True
  then show ?thesis by (simp add: le_int_def sign_int_range le_nat_lt)
next
  case False
  have "int (le_nat bs) < int (256 ^ length bs)"
    unfolding of_nat_less_iff by (rule le_nat_lt)
  with False show ?thesis by (simp add: le_int_def fits_def)
qed

lemma le_of_int_le_int: "le_of_int (length bs) (le_int sg bs) = bs"
proof -
  have b: "int (le_nat bs) < 256 ^ length bs"
    using le_nat_lt [of bs] by (metis of_nat_less_iff of_nat_numeral of_nat_power)
  then have m: "int (le_nat bs) mod 256 ^ length bs = int (le_nat bs)"
    by (intro mod_pos_pos_trivial) auto
  have "(int (le_nat bs) - 256 ^ length bs) mod 256 ^ length bs = int (le_nat bs) mod 256 ^ length bs"
    by simp
  with m have "le_int sg bs mod 256 ^ length bs = int (le_nat bs)"
    by (simp add: le_int_def sign_int_def)
  then show ?thesis by (simp add: le_of_int_def le_bytes_le_nat)
qed

definition to_bytes_be :: "nat \<Rightarrow> int \<Rightarrow> bytes result" where
  "to_bytes_be n v = (if 0 \<le> v \<and> v < 256 ^ n then Inr (be_bytes n (nat v)) else Inl OverflowError)"

lemma to_bytes_be_Inr: "to_bytes_be n v = Inr bs \<longleftrightarrow> 0 \<le> v \<and> v < 256 ^ n \<and> bs = be_bytes n (nat v)"
  by (auto simp: to_bytes_be_def)

lemma to_bytes_le_Inr: "to_bytes_le n sg v = Inr bs \<longleftrightarrow> fits sg n v \<and> bs = le_of_int n v"
  by (auto simp: to_bytes_le_def)

text \<open>\<open>pow(b, e, m)\<close>.\<close>

fun pow_mod :: "int \<Rightarrow> nat \<Rightarrow> int \<Rightarrow> int" where
  "pow_mod b e m =
     (if e = 0 then 1 mod m
      else (let h = pow_mod (b * b mod m) (e div 2) m in if odd e then b * h mod m else h))"

declare pow_mod.simps [simp del]

lemma pow_mod_eq: "pow_mod b e m = b ^ e mod m"
proof (induction b e m rule: pow_mod.induct)
  case (1 b e m)
  show ?case
  proof (cases "e = 0")
    case True
    then show ?thesis by (simp add: pow_mod.simps)
  next
    case False
    have h: "pow_mod (b * b mod m) (e div 2) m = (b * b) ^ (e div 2) mod m"
      using "1.IH" [OF False] by (simp add: power_mod)
    have sq: "(b * b) ^ (e div 2) = b ^ (2 * (e div 2))" by (simp add: power_mult power2_eq_square)
    show ?thesis
    proof (cases "odd e")
      case True
      then have "b ^ e = b * (b * b) ^ (e div 2)" unfolding sq by (metis odd_two_times_div_two_succ power_Suc Suc_eq_plus1)
      with False True h show ?thesis by (simp add: pow_mod.simps [of b e m] mod_mult_right_eq)
    next
      case e: False
      then have "b ^ e = (b * b) ^ (e div 2)" unfolding sq by simp
      with False e h show ?thesis by (simp add: pow_mod.simps [of b e m])
    qed
  qed
qed

text \<open>\<open>decode("ascii")\<close> and \<open>encode("ascii")\<close>.\<close>

definition ascii_decode :: "bytes \<Rightarrow> ustr result" where
  "ascii_decode bs = (if list_all (\<lambda>b. unat b < 128) bs then Inr (map unat bs) else Inl UnicodeError)"

definition ascii_encode :: "ustr \<Rightarrow> bytes result" where
  "ascii_encode s = (if list_all (\<lambda>c. c < 128) s then Inr (map byte_of s) else Inl UnicodeError)"

section \<open>The struct module\<close>

text \<open>
  A format is a list of field codes, with the byte order given once. \<open>CInt n s\<close> is an
  integer of \<open>n\<close> bytes (\<open>b B h H i I q Q\<close>), \<open>CBool\<close> is \<open>?\<close> and
  \<open>CStr n\<close> is \<open>ns\<close>, which pads with zero bytes and cuts what is too long. An absent
  Python value (\<open>None\<close>) is no integer and no byte string, but it has a truth value.
\<close>

datatype scode = CInt nat bool | CBool | CStr nat
datatype sval = VInt int | VBool bool | VBytes bytes | VText ustr | VNone

fun truthy :: "sval \<Rightarrow> bool" where
  "truthy (VInt i) = (i \<noteq> 0)"
| "truthy (VBool b) = b"
| "truthy (VBytes b) = (b \<noteq> [])"
| "truthy (VText t) = (t \<noteq> [])"
| "truthy VNone = False"

definition order :: "bool \<Rightarrow> bytes \<Rightarrow> bytes" where
  "order big bs = (if big then rev bs else bs)"

lemma order_order [simp]: "order big (order big bs) = bs"
  by (simp add: order_def)

lemma length_order [simp]: "length (order big bs) = length bs"
  by (simp add: order_def)

definition pack_int :: "bool \<Rightarrow> nat \<Rightarrow> bool \<Rightarrow> int \<Rightarrow> bytes result" where
  "pack_int big n s i = (if fits s n i then Inr (order big (le_of_int n i)) else Inl StructError)"

fun pack_field :: "bool \<Rightarrow> scode \<Rightarrow> sval \<Rightarrow> bytes result" where
  "pack_field big (CInt n s) (VInt i) = pack_int big n s i"
| "pack_field big (CInt n s) (VBool b) = pack_int big n s (if b then 1 else 0)"
| "pack_field big (CStr n) (VBytes bs) = Inr (take n bs @ replicate (n - length bs) 0)"
| "pack_field big CBool v = Inr [if truthy v then 1 else 0]"
| "pack_field big _ _ = Inl StructError"

fun struct_pack :: "bool \<Rightarrow> scode list \<Rightarrow> sval list \<Rightarrow> bytes result" where
  "struct_pack big [] [] = Inr []"
| "struct_pack big (c # cs) (v # vs) =
     bindR (pack_field big c v) (\<lambda>b. bindR (struct_pack big cs vs) (\<lambda>bs. Inr (b @ bs)))"
| "struct_pack big _ _ = Inl StructError"

fun code_size :: "scode \<Rightarrow> nat" where
  "code_size (CInt n s) = n"
| "code_size CBool = 1"
| "code_size (CStr n) = n"

definition calcsize :: "scode list \<Rightarrow> nat" where
  "calcsize cs = sum_list (map code_size cs)"

fun unpack_field :: "bool \<Rightarrow> scode \<Rightarrow> bytes \<Rightarrow> sval" where
  "unpack_field big (CInt n s) bs = VInt (le_int s (order big bs))"
| "unpack_field big CBool bs = VBool (bs \<noteq> [0])"
| "unpack_field big (CStr n) bs = VBytes bs"

fun unpack_fields :: "bool \<Rightarrow> scode list \<Rightarrow> bytes \<Rightarrow> sval list" where
  "unpack_fields big [] bs = []"
| "unpack_fields big (c # cs) bs =
     unpack_field big c (take (code_size c) bs) # unpack_fields big cs (drop (code_size c) bs)"

definition struct_unpack :: "bool \<Rightarrow> scode list \<Rightarrow> bytes \<Rightarrow> sval list result" where
  "struct_unpack big cs bs =
     (if length bs = calcsize cs then Inr (unpack_fields big cs bs) else Inl StructError)"

text \<open>The values a field reproduces exactly.\<close>

fun exact :: "scode \<Rightarrow> sval \<Rightarrow> bool" where
  "exact (CInt n s) (VInt i) = fits s n i"
| "exact CBool (VBool b) = True"
| "exact (CStr n) (VBytes bs) = (length bs = n)"
| "exact _ _ = False"

fun exacts :: "scode list \<Rightarrow> sval list \<Rightarrow> bool" where
  "exacts [] [] = True"
| "exacts (c # cs) (v # vs) = (exact c v \<and> exacts cs vs)"
| "exacts _ _ = False"

lemma calcsize_simps [simp]:
  "calcsize [] = 0" "calcsize (c # cs) = code_size c + calcsize cs"
  by (simp_all add: calcsize_def)

lemma pack_field_length: "pack_field big c v = Inr bs \<Longrightarrow> length bs = code_size c"
  by (induction big c v rule: pack_field.induct) (auto simp: pack_int_def split: if_splits)

lemma struct_pack_length: "struct_pack big cs vs = Inr bs \<Longrightarrow> length bs = calcsize cs"
  by (induction big cs vs arbitrary: bs rule: struct_pack.induct)
    (auto simp: bindR_Inr_iff dest: pack_field_length)

lemma exact_pack:
  assumes "exact c v"
  obtains bs where "pack_field big c v = Inr bs" "unpack_field big c bs = v"
  using assms
  by (cases c; cases v) (auto simp: pack_int_def le_int_le_of_int)

lemma struct_pack_exact: "exacts cs vs \<Longrightarrow> \<exists>bs. struct_pack big cs vs = Inr bs"
proof (induction cs vs rule: exacts.induct)
  case (2 c cs v vs)
  then obtain b where "pack_field big c v = Inr b" by (auto elim: exact_pack)
  with 2 show ?case by auto
qed auto

lemma unpack_fields_pack:
  "exacts cs vs \<Longrightarrow> struct_pack big cs vs = Inr bs \<Longrightarrow> unpack_fields big cs (bs @ rest) = vs"
proof (induction cs vs arbitrary: bs rule: exacts.induct)
  case (2 c cs v vs)
  from 2(2) obtain b where b: "pack_field big c v = Inr b" "unpack_field big c b = v"
    by (auto elim: exact_pack)
  from 2(3) b obtain bs' where bs': "struct_pack big cs vs = Inr bs'" "bs = b @ bs'"
    by (auto simp: bindR_Inr_iff)
  with 2 b show ?case by (simp add: pack_field_length [OF b(1)])
qed auto

lemma struct_roundtrip:
  "exacts cs vs \<Longrightarrow> struct_pack big cs vs = Inr bs \<Longrightarrow> struct_unpack big cs bs = Inr vs"
  using unpack_fields_pack [of cs vs big bs "[]"]
  by (simp add: struct_unpack_def struct_pack_length)

section \<open>Lists and options\<close>

lemma removeAll_id: "x \<notin> set xs \<Longrightarrow> removeAll x xs = xs"
  by (induction xs) auto

lemma distinct_map_filter: "distinct (map g xs) \<Longrightarrow> distinct (map g (filter Q xs))"
  by (induction xs) auto

lemma nth_default_take_drop: "i < length xs \<Longrightarrow> xs = take i xs @ xs ! i # drop (Suc i) xs"
  by (simp add: id_take_nth_drop)

lemma drop_take_slice: "drop i (take j xs) = take (j - i) (drop i xs)"
  by (simp add: drop_take)

end
