(* ===== verification/TL_Primitives.thy ===== *)
theory TL_Primitives
  imports Prelude
begin

text \<open>
  The primitive serializers of \<open>pyrogram/raw/core/primitives\<close>: integers of 32, 64, 128
  and 256 bits, length-prefixed byte strings padded to four bytes, UTF-8 strings and booleans.
  A \<open>read\<close> method is a reader of the stream, a constructor call (which returns the
  serialized bytes) is a function into results. \<open>Double\<close> moves the eight bytes of a float
  and is modelled on its bit pattern.
\<close>

section \<open>Int, Long, Int128, Int256 (int.py)\<close>

text \<open>\<open>Struct("<i").unpack(data.read(n))\<close>: a short read raises \<open>struct.error\<close>.\<close>

definition unpack1 :: "nat \<Rightarrow> bool \<Rightarrow> bytes \<Rightarrow> int result" where
  "unpack1 n sg bs = (if length bs = n then Inr (le_int sg bs) else Inl StructError)"

definition Int_read :: "bool \<Rightarrow> int reader" where
  "Int_read sg = bindS (readS 4) (\<lambda>bs. liftS (unpack1 4 sg bs))"

definition Int_new :: "bool \<Rightarrow> int \<Rightarrow> bytes result" where
  "Int_new sg v = to_bytes_le 4 sg v"

definition Long_read :: "bool \<Rightarrow> int reader" where
  "Long_read sg = bindS (readS 8) (\<lambda>bs. liftS (unpack1 8 sg bs))"

definition Long_new :: "bool \<Rightarrow> int \<Rightarrow> bytes result" where
  "Long_new sg v = to_bytes_le 8 sg v"

text \<open>\<open>int.from_bytes\<close> accepts whatever was left to read.\<close>

definition Int128_read :: "bool \<Rightarrow> int reader" where
  "Int128_read sg = bindS (readS 16) (\<lambda>bs. retS (le_int sg bs))"

definition Int128_new :: "bool \<Rightarrow> int \<Rightarrow> bytes result" where
  "Int128_new sg v = to_bytes_le 16 sg v"

definition Int256_read :: "bool \<Rightarrow> int reader" where
  "Int256_read sg = bindS (readS 32) (\<lambda>bs. retS (le_int sg bs))"

definition Int256_new :: "bool \<Rightarrow> int \<Rightarrow> bytes result" where
  "Int256_new sg v = to_bytes_le 32 sg v"

lemma read_exact: "n = length bs \<Longrightarrow> readS (int n) (bs @ rest) = (Inr bs, rest)"
  by (simp add: readS_def)

lemma Int_roundtrip: "Int_new sg v = Inr bs \<Longrightarrow> Int_read sg (bs @ rest) = (Inr v, rest)"
  using read_exact [of 4 bs rest]
  by (auto simp: Int_new_def Int_read_def to_bytes_le_Inr bindS_def unpack1_def le_int_le_of_int)

lemma Long_roundtrip: "Long_new sg v = Inr bs \<Longrightarrow> Long_read sg (bs @ rest) = (Inr v, rest)"
  using read_exact [of 8 bs rest]
  by (auto simp: Long_new_def Long_read_def to_bytes_le_Inr bindS_def unpack1_def le_int_le_of_int)

lemma Int128_roundtrip: "Int128_new sg v = Inr bs \<Longrightarrow> Int128_read sg (bs @ rest) = (Inr v, rest)"
  using read_exact [of 16 bs rest]
  by (auto simp: Int128_new_def Int128_read_def to_bytes_le_Inr bindS_def le_int_le_of_int)

lemma Int256_roundtrip: "Int256_new sg v = Inr bs \<Longrightarrow> Int256_read sg (bs @ rest) = (Inr v, rest)"
  using read_exact [of 32 bs rest]
  by (auto simp: Int256_new_def Int256_read_def to_bytes_le_Inr bindS_def le_int_le_of_int)

lemma Int_new_length: "Int_new sg v = Inr bs \<Longrightarrow> length bs = 4"
  by (simp add: Int_new_def to_bytes_le_Inr)

lemma Int_new_fits: "Int_new sg v = (if fits sg 4 v then Inr (le_of_int 4 v) else Inl OverflowError)"
  by (simp add: Int_new_def to_bytes_le_def)

lemma Int_read_split:
  "Int_read sg s = (if length s < 4 then (Inl StructError, []) else (Inr (le_int sg (take 4 s)), drop 4 s))"
  by (auto simp: Int_read_def readS_def bindS_def unpack1_def)

lemma Long_read_split:
  "Long_read sg s = (if length s < 8 then (Inl StructError, []) else (Inr (le_int sg (take 8 s)), drop 8 s))"
  by (auto simp: Long_read_def readS_def bindS_def unpack1_def)

section \<open>Double (double.py)\<close>

text \<open>The float is represented by the eight bytes of its native encoding.\<close>

definition Double_read :: "bytes reader" where
  "Double_read = bindS (readS 8) (\<lambda>bs. liftS (if length bs = 8 then Inr bs else Inl StructError))"

definition Double_new :: "bytes \<Rightarrow> bytes result" where
  "Double_new d = Inr d"

lemma Double_roundtrip: "length d = 8 \<Longrightarrow> Double_new d = Inr bs \<Longrightarrow> Double_read (bs @ rest) = (Inr d, rest)"
  using read_exact [of 8 bs rest] by (auto simp: Double_new_def Double_read_def bindS_def)

section \<open>Bytes (bytes.py)\<close>

text \<open>\<open>-n % 4\<close>, the number of padding bytes after \<open>n\<close> bytes.\<close>

definition pad4 :: "nat \<Rightarrow> nat" where
  "pad4 n = nat (- int n mod 4)"

definition Bytes_read :: "bytes reader" where
  "Bytes_read =
     bindS (readS 1) (\<lambda>head.
       let len = (case head of [] \<Rightarrow> 0 | b # _ \<Rightarrow> unat b) in
       if len \<le> 253 then
         bindS (readS (int len)) (\<lambda>x. bindS (readS (int (pad4 (len + 1)))) (\<lambda>_. retS x))
       else
         bindS (readS 3) (\<lambda>l.
           let n = le_nat l in
           bindS (readS (int n)) (\<lambda>x. bindS (readS (int (pad4 n))) (\<lambda>_. retS x))))"

definition Bytes_new :: "bytes \<Rightarrow> bytes result" where
  "Bytes_new value =
     (let len = length value in
      if len \<le> 253 then Inr ([word_of_nat len] @ value @ replicate (pad4 (len + 1)) 0)
      else bindR (to_bytes_le 3 False (int len))
             (\<lambda>l. Inr ([254] @ l @ value @ replicate (pad4 len) 0)))"

lemma pad4_dvd: "4 dvd n + pad4 n"
proof -
  have "(int n + - int n mod 4) mod 4 = 0" by (simp add: mod_add_right_eq)
  then have "int (n + pad4 n) mod 4 = 0" by (simp add: pad4_def)
  then show ?thesis by presburger
qed

lemma pad4_less: "pad4 n < 4"
  by (simp add: pad4_def nat_less_iff)

lemma to_bytes3: "n < 2 ^ 24 \<Longrightarrow> to_bytes_le 3 False (int n) = Inr (le_of_int 3 (int n))"
  by (simp add: to_bytes_le_def fits_def)

lemma Bytes_new_Inr:
  assumes "Bytes_new value = Inr bs"
  shows "length value < 2 ^ 24"
  using assms by (auto simp: Bytes_new_def Let_def bindR_Inr_iff to_bytes_le_Inr fits_def split: if_splits)

lemma Bytes_new_total: "length value < 2 ^ 24 \<Longrightarrow> \<exists>bs. Bytes_new value = Inr bs"
  by (auto simp: Bytes_new_def Let_def to_bytes3)

lemma readS_replicate: "readS (int n) (replicate n x @ rest) = (Inr (replicate n x), rest)"
  by (simp add: read_exact)

lemma Bytes_roundtrip:
  assumes "Bytes_new value = Inr bs"
  shows "Bytes_read (bs @ rest) = (Inr value, rest)"
proof (cases "length value \<le> 253")
  case True
  with assms have bs: "bs = word_of_nat (length value) # value @ replicate (pad4 (length value + 1)) 0"
    by (simp add: Bytes_new_def Let_def)
  from True have "unat (word_of_nat (length value) :: byte) = length value" by simp
  with bs True show ?thesis
    by (simp add: Bytes_read_def bindS_def readS_def Let_def)
next
  case False
  with assms have fits: "fits False 3 (int (length value))"
    and bs: "bs = 254 # le_of_int 3 (int (length value)) @ value @ replicate (pad4 (length value)) 0"
    by (auto simp: Bytes_new_def Let_def bindR_Inr_iff to_bytes_le_Inr)
  from fits have "le_nat (le_of_int 3 (int (length value))) = length value"
    using le_int_le_of_int [OF fits] by (simp add: le_int_def)
  with bs False show ?thesis
    by (simp add: Bytes_read_def bindS_def readS_def Let_def)
qed

lemma Bytes_new_aligned:
  assumes "Bytes_new value = Inr bs"
  shows "4 dvd length bs"
proof (cases "length value \<le> 253")
  case True
  with assms have "length bs = (length value + 1) + pad4 (length value + 1)"
    by (auto simp: Bytes_new_def Let_def)
  then show ?thesis by (simp only: pad4_dvd)
next
  case False
  with assms have "length bs = 4 + (length value + pad4 (length value))"
    by (auto simp: Bytes_new_def Let_def bindR_Inr_iff to_bytes_le_Inr)
  then show ?thesis using pad4_dvd [of "length value"] by presburger
qed

section \<open>String (string.py)\<close>

text \<open>
  \<open>str.encode()\<close>: UTF-8, a lone surrogate raises \<open>UnicodeEncodeError\<close>.
\<close>

definition utf8_char :: "nat \<Rightarrow> bytes result" where
  "utf8_char c =
     (if c < 128 then Inr [byte_of c]
      else if c < 2048 then Inr [byte_of (192 + c div 64), byte_of (128 + c mod 64)]
      else if 55296 \<le> c \<and> c \<le> 57343 then Inl UnicodeError
      else if c < 65536 then
        Inr [byte_of (224 + c div 4096), byte_of (128 + c div 64 mod 64), byte_of (128 + c mod 64)]
      else Inr [byte_of (240 + c div 262144), byte_of (128 + c div 4096 mod 64),
                byte_of (128 + c div 64 mod 64), byte_of (128 + c mod 64)])"

definition utf8_encode :: "ustr \<Rightarrow> bytes result" where
  "utf8_encode s = bindR (mapR utf8_char s) (\<lambda>bss. Inr (concat bss))"

text \<open>
  \<open>bytes.decode(errors="replace")\<close>: every maximal prefix of an ill-formed sequence
  becomes one replacement character. \<open>second_ok\<close> is the range the second byte of a
  sequence has to lie in, which rules out overlong forms, surrogates and values above
  \<open>0x10FFFF\<close>.
\<close>

abbreviation replacement :: nat where
  "replacement \<equiv> 65533"

definition cont :: "byte \<Rightarrow> bool" where
  "cont b = (128 \<le> unat b \<and> unat b \<le> 191)"

definition second_ok :: "byte \<Rightarrow> byte \<Rightarrow> bool" where
  "second_ok b c =
     (cont c \<and> (unat b = 224 \<longrightarrow> 160 \<le> unat c) \<and> (unat b = 237 \<longrightarrow> unat c \<le> 159)
       \<and> (unat b = 240 \<longrightarrow> 144 \<le> unat c) \<and> (unat b = 244 \<longrightarrow> unat c \<le> 143))"

definition low6 :: "byte \<Rightarrow> nat" where
  "low6 b = unat b - 128"

fun utf8_decode :: "bytes \<Rightarrow> ustr" where
  "utf8_decode [] = []"
| "utf8_decode (b # bs) =
     (let v = unat b in
      if v < 128 then v # utf8_decode bs
      else if 194 \<le> v \<and> v \<le> 223 then
        (case bs of
           c # cs \<Rightarrow> if cont c then ((v - 192) * 64 + low6 c) # utf8_decode cs
                    else replacement # utf8_decode bs
         | [] \<Rightarrow> [replacement])
      else if 224 \<le> v \<and> v \<le> 239 then
        (case bs of
           c # d # ds \<Rightarrow>
             if \<not> second_ok b c then replacement # utf8_decode bs
             else if \<not> cont d then replacement # utf8_decode (d # ds)
             else ((v - 224) * 4096 + low6 c * 64 + low6 d) # utf8_decode ds
         | [c] \<Rightarrow> if second_ok b c then [replacement] else replacement # utf8_decode bs
         | [] \<Rightarrow> [replacement])
      else if 240 \<le> v \<and> v \<le> 244 then
        (case bs of
           c # d # e # es \<Rightarrow>
             if \<not> second_ok b c then replacement # utf8_decode bs
             else if \<not> cont d then replacement # utf8_decode (d # e # es)
             else if \<not> cont e then replacement # utf8_decode (e # es)
             else ((v - 240) * 262144 + low6 c * 4096 + low6 d * 64 + low6 e) # utf8_decode es
         | [c, d] \<Rightarrow>
             if \<not> second_ok b c then replacement # utf8_decode bs
             else if \<not> cont d then replacement # utf8_decode [d]
             else [replacement]
         | [c] \<Rightarrow> if second_ok b c then [replacement] else replacement # utf8_decode bs
         | [] \<Rightarrow> [replacement])
      else replacement # utf8_decode bs)"

declare utf8_decode.simps [simp del]

text \<open>The code points of a Python string are at most \<open>0x10FFFF\<close>.\<close>

definition is_ustr :: "ustr \<Rightarrow> bool" where
  "is_ustr s = (\<forall>c \<in> set s. c \<le> 1114111)"

lemma sextets3: "c div 4096 * 4096 + c div 64 mod 64 * 64 + c mod 64 = (c :: nat)"
proof -
  have "c div 4096 = c div 64 div 64" by (simp add: div_mult2_eq [symmetric])
  then show ?thesis
    using div_mult_mod_eq [of "c div 64" 64] div_mult_mod_eq [of c 64] by linarith
qed

lemma sextets4:
  "c div 262144 * 262144 + c div 4096 mod 64 * 4096 + c div 64 mod 64 * 64 + c mod 64 = (c :: nat)"
proof -
  have "c div 262144 = c div 4096 div 64" by (simp add: div_mult2_eq [symmetric])
  then show ?thesis
    using div_mult_mod_eq [of "c div 4096" 64] sextets3 [of c] by linarith
qed

lemma utf8_decode_char:
  assumes "utf8_char c = Inr bs" "c \<le> 1114111"
  shows "utf8_decode (bs @ rest) = c # utf8_decode rest"
proof -
  consider "c < 128" | "128 \<le> c" "c < 2048" | "2048 \<le> c" "c < 65536" "\<not> (55296 \<le> c \<and> c \<le> 57343)"
    | "65536 \<le> c"
    using assms(1) by (fastforce simp: utf8_char_def split: if_splits)
  then show ?thesis
  proof cases
    case 1
    with assms show ?thesis by (auto simp: utf8_char_def utf8_decode.simps Let_def)
  next
    case 2
    with assms have bs: "bs = [byte_of (192 + c div 64), byte_of (128 + c mod 64)]"
      by (simp add: utf8_char_def)
    define a b where ab: "a = c div 64" "b = c mod 64"
    have "2 \<le> a" "a < 32" "b < 64" "a * 64 + b = c" using 2 unfolding ab by auto
    then show ?thesis
      by (simp add: bs ab [symmetric] utf8_decode.simps(2) [of "byte_of (192 + a)"] Let_def cont_def low6_def)
  next
    case 3
    then have bs: "bs = [byte_of (224 + c div 4096), byte_of (128 + c div 64 mod 64), byte_of (128 + c mod 64)]"
      using assms by (auto simp: utf8_char_def split: if_splits)
    define a b d where abd: "a = c div 4096" "b = c div 64 mod 64" "d = c mod 64"
    have c: "a * 4096 + b * 64 + d = c" unfolding abd by (rule sextets3)
    have r: "a < 16" "b < 64" "d < 64" using 3 unfolding abd by auto
    have "a = 0 \<longrightarrow> 32 \<le> b" using 3 c r by linarith
    moreover have "a = 13 \<longrightarrow> b \<le> 31"
    proof
      assume "a = 13"
      with 3 c r show "b \<le> 31" by linarith
    qed
    ultimately show ?thesis
      using r c
      by (simp add: bs abd [symmetric] utf8_decode.simps(2) [of "byte_of (224 + a)"] Let_def cont_def second_ok_def low6_def)
  next
    case 4
    then have bs: "bs = [byte_of (240 + c div 262144), byte_of (128 + c div 4096 mod 64),
        byte_of (128 + c div 64 mod 64), byte_of (128 + c mod 64)]"
      using assms by (auto simp: utf8_char_def split: if_splits)
    define a b d e where abde: "a = c div 262144" "b = c div 4096 mod 64" "d = c div 64 mod 64" "e = c mod 64"
    have c: "a * 262144 + b * 4096 + d * 64 + e = c" unfolding abde by (rule sextets4)
    have r: "a \<le> 4" "b < 64" "d < 64" "e < 64" using assms(2) unfolding abde by auto
    have "a = 0 \<longrightarrow> 16 \<le> b" "a = 4 \<longrightarrow> b \<le> 15" using 4 c r assms(2) by linarith+
    with r c show ?thesis
      by (simp add: bs abde [symmetric] utf8_decode.simps(2) [of "byte_of (240 + a)"] Let_def cont_def second_ok_def low6_def)
  qed
qed

lemma utf8_roundtrip: "utf8_encode s = Inr bs \<Longrightarrow> is_ustr s \<Longrightarrow> utf8_decode bs = s"
proof (induction s arbitrary: bs)
  case Nil
  then show ?case by (simp add: utf8_encode_def utf8_decode.simps)
next
  case (Cons c s)
  then obtain b bs' where b: "utf8_char c = Inr b" and bs': "utf8_encode s = Inr bs'" and "bs = b @ bs'"
    by (auto simp: utf8_encode_def bindR_Inr_iff)
  moreover have "utf8_decode bs' = s" using Cons bs' by (simp add: is_ustr_def)
  ultimately show ?case using Cons.prems by (simp add: utf8_decode_char is_ustr_def)
qed

definition String_read :: "ustr reader" where
  "String_read = bindS Bytes_read (\<lambda>b. retS (utf8_decode b))"

definition String_new :: "ustr \<Rightarrow> bytes result" where
  "String_new value = bindR (utf8_encode value) Bytes_new"

lemma String_roundtrip:
  "String_new value = Inr bs \<Longrightarrow> is_ustr value \<Longrightarrow> String_read (bs @ rest) = (Inr value, rest)"
  by (auto simp: String_new_def String_read_def bindR_Inr_iff bindS_def Bytes_roundtrip utf8_roundtrip)

section \<open>Bool (bool.py)\<close>

definition BoolFalse_ID :: int where "BoolFalse_ID = 0xBC799737"
definition BoolTrue_ID :: int where "BoolTrue_ID = 0x997275B5"

definition true_id :: bytes where
  "true_id = le_of_int 4 0x997275B5"

definition BoolFalse_new :: bytes where
  "BoolFalse_new = le_of_int 4 BoolFalse_ID"

definition BoolTrue_new :: bytes where
  "BoolTrue_new = le_of_int 4 BoolTrue_ID"

definition Bool_read :: "bool reader" where
  "Bool_read = bindS (readS 4) (\<lambda>bs. retS (bs = true_id))"

definition Bool_new :: "bool \<Rightarrow> bytes" where
  "Bool_new value = (if value then BoolTrue_new else BoolFalse_new)"

lemma true_ne_false: "BoolFalse_new \<noteq> true_id"
proof
  assume "BoolFalse_new = true_id"
  then have "le_int False (le_of_int 4 0xBC799737) = le_int False (le_of_int 4 0x997275B5)"
    by (simp add: BoolFalse_new_def true_id_def BoolFalse_ID_def)
  then show False by (simp add: le_int_le_of_int fits_def)
qed

lemma Bool_roundtrip: "Bool_read (Bool_new v @ rest) = (Inr v, rest)"
proof -
  have "length (Bool_new v) = 4" by (simp add: Bool_new_def BoolTrue_new_def BoolFalse_new_def)
  moreover have "Bool_new v = true_id \<longleftrightarrow> v"
    using true_ne_false by (simp add: Bool_new_def BoolTrue_new_def BoolTrue_ID_def true_id_def)
  ultimately show ?thesis using read_exact [of 4 "Bool_new v" rest] by (simp add: Bool_read_def bindS_def)
qed

end
