(* ===== verification/TL_Object.thy ===== *)
theory TL_Object
  imports TL_Primitives
begin

text \<open>
  The TL object layer: \<open>TLObject.read\<close> and its dispatch on the constructor id, the classes
  parsed by hand (\<open>Message\<close>, \<open>MsgContainer\<close>, \<open>GzipPacked\<close>, \<open>FutureSalt\<close>,
  \<open>FutureSalts\<close>, \<open>Vector\<close>) and the classes \<open>compiler/api/compiler.py\<close> generates from
  the schema. The generator emits one \<open>read\<close> and one \<open>write\<close> body per combinator; both are
  modelled once, as the interpretation of the combinator's argument list
  (\<open>read_fields\<close> and \<open>write_arg\<close>). The schema itself, the path-to-class import and
  gzip are parameters, bundled in the record \<open>tl_env\<close>.
\<close>

section \<open>The schema\<close>

text \<open>\<open>CORE_TYPES\<close> of the compiler.\<close>

datatype core_type = Cint | Clong | Cint128 | Cint256 | Cdouble | Cbytes | Cstring | CtBool | Ctrue

text \<open>
  \<open>AFlags k\<close> is a \<open>flags:#\<close> argument (\<open>k\<close> is the digit of its name, 0 for none),
  \<open>AVector\<close> a vector of a core type or of boxed values, \<open>ABoxed\<close> any other type. The flag of
  an argument \<open>flagsk.i?t\<close> is the pair \<open>(k, i)\<close>.
\<close>

datatype arg_type = AFlags nat | ACore core_type | AVector "core_type option" | ABoxed

record tl_arg =
  a_flag :: "(nat \<times> nat) option"
  a_type :: arg_type

text \<open>
  Values. A generated object has the value of each argument in schema order; a flags argument is
  no attribute and has \<open>TNone\<close> at its place. \<open>TMsg body msg_id seq_no length\<close> is a
  \<open>Message\<close>.
\<close>

datatype tlval =
    TInt int
  | TDouble bytes
  | TBytes bytes
  | TStr ustr
  | TBool bool
  | TNone
  | TList "tlval list"
  | TObj int "tlval list"
  | TMsg tlval int int int
  | TContainer "tlval list"
  | TGzip tlval
  | TFutureSalt int int int
  | TFutureSalts int int "tlval list"

record tl_env =
  env_schema :: "int \<Rightarrow> tl_arg list option"
  env_class :: "string \<Rightarrow> int option"
  gz_compress :: "bytes \<Rightarrow> bytes"
  gz_decompress :: "bytes \<Rightarrow> bytes result"

definition Vector_ID :: int where "Vector_ID = 0x1CB5C415"
definition Message_ID :: int where "Message_ID = 0x5BB8E511"
definition MsgContainer_ID :: int where "MsgContainer_ID = 0x73F1F8DC"
definition GzipPacked_ID :: int where "GzipPacked_ID = 0x3072CFA1"
definition FutureSalt_ID :: int where "FutureSalt_ID = 0x0949D9DC"
definition FutureSalts_ID :: int where "FutureSalts_ID = 0xAE500895"

definition core_ids :: "int list" where
  "core_ids = [BoolFalse_ID, BoolTrue_ID, Vector_ID, MsgContainer_ID, FutureSalts_ID, FutureSalt_ID,
     GzipPacked_ID, Message_ID]"

lemmas tl_ids = Vector_ID_def Message_ID_def MsgContainer_ID_def GzipPacked_ID_def FutureSalt_ID_def
  FutureSalts_ID_def BoolFalse_ID_def BoolTrue_ID_def

section \<open>Writing\<close>

text \<open>\<open>bool(value)\<close>; a TL object is always true, a list when it is not empty.\<close>

fun tl_truthy :: "tlval \<Rightarrow> bool" where
  "tl_truthy (TInt i) = (i \<noteq> 0)"
| "tl_truthy (TBytes b) = (b \<noteq> [])"
| "tl_truthy (TStr s) = (s \<noteq> [])"
| "tl_truthy (TBool b) = b"
| "tl_truthy TNone = False"
| "tl_truthy (TList vs) = (vs \<noteq> [])"
| "tl_truthy _ = True"

text \<open>The call \<open>Int(value)\<close>, \<open>String(value)\<close>, \dots of a core type.\<close>

definition core_new :: "core_type \<Rightarrow> tlval \<Rightarrow> bytes result" where
  "core_new t v =
     (case t of
        Cint \<Rightarrow> (case v of TInt i \<Rightarrow> Int_new True i | _ \<Rightarrow> Inl TypeError)
      | Clong \<Rightarrow> (case v of TInt i \<Rightarrow> Long_new True i | _ \<Rightarrow> Inl TypeError)
      | Cint128 \<Rightarrow> (case v of TInt i \<Rightarrow> Int128_new True i | _ \<Rightarrow> Inl TypeError)
      | Cint256 \<Rightarrow> (case v of TInt i \<Rightarrow> Int256_new True i | _ \<Rightarrow> Inl TypeError)
      | Cdouble \<Rightarrow> (case v of TDouble d \<Rightarrow> Double_new d | _ \<Rightarrow> Inl TypeError)
      | Cbytes \<Rightarrow> (case v of TBytes b \<Rightarrow> Bytes_new b | _ \<Rightarrow> Inl TypeError)
      | Cstring \<Rightarrow> (case v of TStr s \<Rightarrow> String_new s | _ \<Rightarrow> Inl TypeError)
      | CtBool \<Rightarrow> Inr (Bool_new (tl_truthy v))
      | Ctrue \<Rightarrow> Inl TypeError)"

definition Vector_new :: "(tlval \<Rightarrow> bytes result) \<Rightarrow> tlval list \<Rightarrow> bytes result" where
  "Vector_new w vs =
     bindR (Int_new False Vector_ID) (\<lambda>h.
     bindR (Int_new True (int (length vs))) (\<lambda>n.
     bindR (mapR w vs) (\<lambda>bs. Inr (h @ n @ concat bs))))"

text \<open>Whether an optional argument sets its bit (\<open>write_flags\<close> of the compiler).\<close>

definition present :: "tl_arg \<Rightarrow> tlval \<Rightarrow> bool" where
  "present a v =
     (case a_type a of
        ACore t \<Rightarrow> if t = Ctrue then tl_truthy v else v \<noteq> TNone
      | AVector _ \<Rightarrow> tl_truthy v
      | _ \<Rightarrow> v \<noteq> TNone)"

fun flag_word :: "nat \<Rightarrow> (tl_arg \<times> tlval) list \<Rightarrow> int" where
  "flag_word k [] = 0"
| "flag_word k ((a, v) # avs) =
     (case a_flag a of
        Some (k', i) \<Rightarrow> (if k' = k \<and> present a v then 2 ^ i OR flag_word k avs else flag_word k avs)
      | None \<Rightarrow> flag_word k avs)"

text \<open>The statement generated for one argument (\<open>write_types\<close> of the compiler).\<close>

definition write_arg :: "(tlval \<Rightarrow> bytes result) \<Rightarrow> (tl_arg \<times> tlval) list \<Rightarrow> tl_arg \<times> tlval \<Rightarrow> bytes result" where
  "write_arg w avs av =
     (case av of (a, v) \<Rightarrow>
        let flagged = a_flag a \<noteq> None in
        (case a_type a of
           AFlags k \<Rightarrow> Int_new True (flag_word k avs)
         | ACore t \<Rightarrow>
             if flagged \<and> (t = Ctrue \<or> v = TNone) then Inr [] else core_new t v
         | AVector t \<Rightarrow>
             if flagged \<and> \<not> tl_truthy v then Inr []
             else (case v of
                     TList ws \<Rightarrow> (case t of Some ct \<Rightarrow> Vector_new (core_new ct) ws | None \<Rightarrow> Vector_new w ws)
                   | _ \<Rightarrow> Inl TypeError)
         | ABoxed \<Rightarrow> if flagged \<and> v = TNone then Inr [] else w v))"

lemma mapR_cong [fundef_cong]:
  "xs = ys \<Longrightarrow> (\<And>x. x \<in> set ys \<Longrightarrow> f x = g x) \<Longrightarrow> mapR f xs = mapR g ys"
  by (induction ys arbitrary: xs) auto

lemma Vector_new_cong [fundef_cong]:
  "vs = ws \<Longrightarrow> (\<And>x. x \<in> set ws \<Longrightarrow> f x = g x) \<Longrightarrow> Vector_new f vs = Vector_new g ws"
  by (simp add: Vector_new_def cong: mapR_cong)

lemma write_arg_cong [fundef_cong]:
  assumes "avs = avs'" "av = av'" "\<And>a v. av' = (a, v) \<Longrightarrow> f v = g v"
    and "\<And>a ws x. av' = (a, TList ws) \<Longrightarrow> x \<in> set ws \<Longrightarrow> f x = g x"
  shows "write_arg f avs av = write_arg g avs' av'"
proof -
  obtain a v where av: "av' = (a, v)" by (cases av')
  have "v = TList ws \<Longrightarrow> Vector_new f ws = Vector_new g ws" for ws
    using assms(4) av by (auto intro: Vector_new_cong)
  then show ?thesis
    using assms(1-3) av
    by (auto simp: write_arg_def Let_def split: arg_type.splits tlval.splits option.splits)
qed

lemma size_zip_less [termination_simp]:
  "(a, v) \<in> set (zip c vs) \<Longrightarrow> size v < Suc (size_list size vs)"
  by (auto dest!: set_zip_rightD simp: less_Suc_eq_le intro: size_list_estimation')

lemma size_zip_list_less [termination_simp]:
  assumes "(a, TList ws) \<in> set (zip c vs)" "x \<in> set ws"
  shows "size x < Suc (size_list size vs)"
proof -
  have "size x \<le> size_list size ws" using assms(2) by (simp add: size_list_estimation')
  then have "size x < size (TList ws)" by simp
  also have "\<dots> \<le> size_list size vs"
    using assms(1) by (meson size_list_estimation' set_zip_rightD order_refl)
  finally show ?thesis by simp
qed

text \<open>\<open>obj.write()\<close>; a plain Python value has no such method.\<close>

fun tl_write :: "tl_env \<Rightarrow> tlval \<Rightarrow> bytes result" where
  "tl_write env (TObj cid vs) =
     (case env_schema env cid of
        None \<Rightarrow> Inl AttributeError
      | Some c \<Rightarrow>
          bindR (Int_new False cid) (\<lambda>h.
          bindR (mapR (write_arg (tl_write env) (zip c vs)) (zip c vs)) (\<lambda>bs. Inr (h @ concat bs))))"
| "tl_write env (TMsg body msg_id seq_no len) =
     bindR (Long_new True msg_id) (\<lambda>a. bindR (Int_new True seq_no) (\<lambda>b.
     bindR (Int_new True len) (\<lambda>c. bindR (tl_write env body) (\<lambda>d. Inr (a @ b @ c @ d)))))"
| "tl_write env (TContainer ms) =
     bindR (Int_new False MsgContainer_ID) (\<lambda>h.
     bindR (Int_new True (int (length ms))) (\<lambda>n.
     bindR (mapR (tl_write env) ms) (\<lambda>bs. Inr (h @ n @ concat bs))))"
| "tl_write env (TGzip v) =
     bindR (Int_new False GzipPacked_ID) (\<lambda>h.
     bindR (tl_write env v) (\<lambda>b. bindR (Bytes_new (gz_compress env b)) (\<lambda>d. Inr (h @ d))))"
| "tl_write env (TFutureSalt since until salt) =
     bindR (Int_new True since) (\<lambda>a. bindR (Int_new True until) (\<lambda>b.
     bindR (Long_new True salt) (\<lambda>c. Inr (a @ b @ c))))"
| "tl_write env (TFutureSalts req now salts) =
     bindR (Int_new False FutureSalts_ID) (\<lambda>h.
     bindR (Long_new True req) (\<lambda>a. bindR (Int_new True now) (\<lambda>b.
     bindR (Int_new True (int (length salts))) (\<lambda>n.
     bindR (mapR (tl_write env) salts) (\<lambda>bs. Inr (h @ a @ b @ n @ concat bs))))))"
| "tl_write env _ = Inl AttributeError"

section \<open>Reading\<close>

fun core_read :: "core_type \<Rightarrow> tlval reader" where
  "core_read Cint = bindS (Int_read True) (\<lambda>i. retS (TInt i))"
| "core_read Clong = bindS (Long_read True) (\<lambda>i. retS (TInt i))"
| "core_read Cint128 = bindS (Int128_read True) (\<lambda>i. retS (TInt i))"
| "core_read Cint256 = bindS (Int256_read True) (\<lambda>i. retS (TInt i))"
| "core_read Cdouble = bindS Double_read (\<lambda>d. retS (TDouble d))"
| "core_read Cbytes = bindS Bytes_read (\<lambda>b. retS (TBytes b))"
| "core_read Cstring = bindS String_read (\<lambda>s. retS (TStr s))"
| "core_read CtBool = bindS Bool_read (\<lambda>b. retS (TBool b))"
| "core_read Ctrue = liftS (Inl AttributeError)"

text \<open>The statement generated to read one argument (\<open>read_types\<close> of the compiler).\<close>

definition read_arg :: "(core_type option \<Rightarrow> tlval reader) \<Rightarrow> (nat \<rightharpoonup> int) \<Rightarrow> tl_arg \<Rightarrow> tlval reader" where
  "read_arg rd fl a =
     (let body = (case a_type a of ACore t \<Rightarrow> core_read t | AVector t \<Rightarrow> rd t | _ \<Rightarrow> rd None) in
      case a_flag a of
        None \<Rightarrow> body
      | Some (k, i) \<Rightarrow>
          (case fl k of
             None \<Rightarrow> liftS (Inl NameError)
           | Some n \<Rightarrow>
               (case a_type a of
                  ACore Ctrue \<Rightarrow> retS (TBool (bit n i))
                | AVector _ \<Rightarrow> if bit n i then body else retS (TList [])
                | _ \<Rightarrow> if bit n i then body else retS TNone)))"

fun read_fields :: "(core_type option \<Rightarrow> tlval reader) \<Rightarrow> (nat \<rightharpoonup> int) \<Rightarrow> tl_arg list \<Rightarrow> tlval list reader" where
  "read_fields rd fl [] = retS []"
| "read_fields rd fl (a # c) =
     (case a_type a of
        AFlags k \<Rightarrow>
          bindS (Int_read True) (\<lambda>n. bindS (read_fields rd (fl(k \<mapsto> n)) c) (\<lambda>vs. retS (TNone # vs)))
      | _ \<Rightarrow> bindS (read_arg rd fl a) (\<lambda>v. bindS (read_fields rd fl c) (\<lambda>vs. retS (v # vs))))"

text \<open>
  \<open>Vector.read\<close>: without an element type the elements are first read as boxed objects; when
  that raises, the size of what is left decides between bare ints, bare longs and boxed objects.
\<close>

definition Vector_read :: "tlval reader \<Rightarrow> core_type option \<Rightarrow> tlval reader" where
  "Vector_read obj t =
     bindS (Int_read True) (\<lambda>count.
       case t of
         Some ct \<Rightarrow> bindS (repeatS (nat count) (core_read ct)) (\<lambda>vs. retS (TList vs))
       | None \<Rightarrow>
           if count = 0 then retS (TList [])
           else (\<lambda>s.
             case repeatS (nat count) obj s of
               (Inr vs, s') \<Rightarrow> (Inr (TList vs), s')
             | (Inl OutOfFuel, s') \<Rightarrow> (Inl OutOfFuel, s')
             | (Inl _, _) \<Rightarrow>
                 let size = int (length s);
                     rd = (if size = 4 * count then core_read Cint
                           else if size = 8 * count then core_read Clong else obj)
                 in bindS (repeatS (nat count) rd) (\<lambda>vs. retS (TList vs)) s))"

text \<open>\<open>Message.read\<close>: the body is cut out of the stream before it is parsed.\<close>

definition Message_read :: "tlval reader \<Rightarrow> tlval reader" where
  "Message_read obj =
     bindS (Long_read True) (\<lambda>msg_id. bindS (Int_read True) (\<lambda>seq_no.
     bindS (Int_read True) (\<lambda>len. bindS (readS len) (\<lambda>body.
       liftS (bindR (fst (obj body)) (\<lambda>b. Inr (TMsg b msg_id seq_no len)))))))"

text \<open>The loop of \<open>MsgContainer.read\<close>: a message with an unknown constructor is skipped.\<close>

fun container_loop :: "nat \<Rightarrow> tlval reader \<Rightarrow> tlval list reader" where
  "container_loop 0 rd s = (Inr [], s)"
| "container_loop (Suc n) rd s =
     (case rd s of
        (Inr m, t) \<Rightarrow>
          (case container_loop n rd t of (Inr ms, u) \<Rightarrow> (Inr (m # ms), u) | (Inl e, u) \<Rightarrow> (Inl e, u))
      | (Inl (KeyError k), t) \<Rightarrow> container_loop n rd t
      | (Inl e, t) \<Rightarrow> (Inl e, t))"

definition MsgContainer_read :: "tlval reader \<Rightarrow> tlval reader" where
  "MsgContainer_read obj =
     bindS (Int_read True) (\<lambda>count. bindS (container_loop (nat count) (Message_read obj))
       (\<lambda>ms. retS (TContainer ms)))"

definition GzipPacked_read :: "tl_env \<Rightarrow> tlval reader \<Rightarrow> tlval reader" where
  "GzipPacked_read env obj =
     bindS Bytes_read (\<lambda>b. liftS (bindR (gz_decompress env b) (\<lambda>d. fst (obj d))))"

definition FutureSalt_read :: "tlval reader" where
  "FutureSalt_read =
     bindS (Int_read True) (\<lambda>since. bindS (Int_read True) (\<lambda>until. bindS (Long_read True) (\<lambda>salt.
       retS (TFutureSalt since until salt))))"

definition FutureSalts_read :: "tlval reader" where
  "FutureSalts_read =
     bindS (Long_read True) (\<lambda>req. bindS (Int_read True) (\<lambda>now. bindS (Int_read True) (\<lambda>count.
     bindS (repeatS (nat count) FutureSalt_read) (\<lambda>salts. retS (TFutureSalts req now salts)))))"

definition legacy_objects :: "int \<rightharpoonup> string" where
  "legacy_objects = [0xf2355507 \<mapsto> ''pyrogram.raw.types.ChannelFull'',
     0xc9d31138 \<mapsto> ''pyrogram.raw.types.ChatFull'', 0x31774388 \<mapsto> ''pyrogram.raw.types.User'']"

text \<open>\<open>objects[id]\<close>, then the legacy table: the id whose class reads the object.\<close>

definition resolve_class :: "tl_env \<Rightarrow> int \<Rightarrow> int option" where
  "resolve_class env cid =
     (if cid \<in> set core_ids \<or> env_schema env cid \<noteq> None then Some cid
      else (case legacy_objects cid of None \<Rightarrow> None | Some path \<Rightarrow> env_class env path))"

text \<open>\<open>obj_class.read(b, *args)\<close> for the class the id resolves to.\<close>

definition class_read ::
    "tl_env \<Rightarrow> (core_type option \<Rightarrow> tlval reader) \<Rightarrow> core_type option \<Rightarrow> int \<Rightarrow> tlval reader" where
  "class_read env rd t cid =
     (if cid = BoolFalse_ID then retS (TBool False)
      else if cid = BoolTrue_ID then retS (TBool True)
      else if cid = Vector_ID then Vector_read (rd None) t
      else if cid = MsgContainer_ID then MsgContainer_read (rd None)
      else if cid = FutureSalts_ID then FutureSalts_read
      else if cid = FutureSalt_ID then FutureSalt_read
      else if cid = GzipPacked_ID then GzipPacked_read env (rd None)
      else if cid = Message_ID then Message_read (rd None)
      else (case env_schema env cid of
              None \<Rightarrow> liftS (Inl (KeyError cid))
            | Some c \<Rightarrow> bindS (read_fields rd Map.empty c) (\<lambda>vs. retS (TObj cid vs))))"

text \<open>
  \<open>TLObject.read(b, *args)\<close>. The recursion follows the data, which a compressed payload can
  make as deep as it likes, so it is bounded by fuel; the interpreter's own bound is its recursion
  limit.
\<close>

fun tl_read :: "tl_env \<Rightarrow> nat \<Rightarrow> core_type option \<Rightarrow> tlval reader" where
  "tl_read env 0 t s = (Inl OutOfFuel, s)"
| "tl_read env (Suc fuel) t s =
     bindS (Int_read False) (\<lambda>cid.
       case resolve_class env cid of
         None \<Rightarrow> liftS (Inl (KeyError cid))
       | Some k \<Rightarrow> class_read env (tl_read env fuel) t k) s"

end
