(* ===== verification/TL_Codec.thy ===== *)
theory TL_Codec
  imports TL_Object
begin

text \<open>
  What the TL object layer promises: reading what \<open>write\<close> produced gives the object back and
  leaves the rest of the stream, for every schema and every well-typed value; a container delivers
  every message it can parse, whatever unknown ones stand between them.
\<close>

section \<open>Well-typed values\<close>

definition core_val :: "core_type \<Rightarrow> tlval \<Rightarrow> bool" where
  "core_val t v =
     (case t of
        Cint \<Rightarrow> (case v of TInt i \<Rightarrow> True | _ \<Rightarrow> False)
      | Clong \<Rightarrow> (case v of TInt i \<Rightarrow> True | _ \<Rightarrow> False)
      | Cint128 \<Rightarrow> (case v of TInt i \<Rightarrow> True | _ \<Rightarrow> False)
      | Cint256 \<Rightarrow> (case v of TInt i \<Rightarrow> True | _ \<Rightarrow> False)
      | Cdouble \<Rightarrow> (case v of TDouble d \<Rightarrow> length d = 8 | _ \<Rightarrow> False)
      | Cbytes \<Rightarrow> (case v of TBytes b \<Rightarrow> True | _ \<Rightarrow> False)
      | Cstring \<Rightarrow> (case v of TStr s \<Rightarrow> is_ustr s | _ \<Rightarrow> False)
      | CtBool \<Rightarrow> (case v of TBool b \<Rightarrow> True | _ \<Rightarrow> False)
      | Ctrue \<Rightarrow> False)"

text \<open>Every optional argument refers to a flags field that comes before it.\<close>

fun wf_args :: "nat list \<Rightarrow> tl_arg list \<Rightarrow> bool" where
  "wf_args ks [] = True"
| "wf_args ks (a # c) =
     (case a_type a of
        AFlags k \<Rightarrow> a_flag a = None \<and> k \<notin> set ks \<and> wf_args (k # ks) c
      | _ \<Rightarrow> (case a_flag a of None \<Rightarrow> a_type a \<noteq> ACore Ctrue | Some (k, i) \<Rightarrow> k \<in> set ks) \<and> wf_args ks c)"

text \<open>
  The value of one argument. Arguments that share a flag bit have to be present together: the
  bit is set when one of them is there, and the reader then expects both.
\<close>

definition agrees :: "(tl_arg \<times> tlval) list \<Rightarrow> tl_arg \<Rightarrow> tlval \<Rightarrow> bool" where
  "agrees avs a v = (case a_flag a of None \<Rightarrow> True | Some (k, i) \<Rightarrow> bit (flag_word k avs) i = present a v)"

definition arg_wt :: "(tlval \<Rightarrow> bool) \<Rightarrow> (tl_arg \<times> tlval) list \<Rightarrow> tl_arg \<times> tlval \<Rightarrow> bool" where
  "arg_wt w avs av =
     (case av of (a, v) \<Rightarrow>
        agrees avs a v \<and>
        (case a_type a of
           AFlags k \<Rightarrow> v = TNone
         | ACore Ctrue \<Rightarrow> (case v of TBool b \<Rightarrow> True | _ \<Rightarrow> False)
         | ACore t \<Rightarrow> (a_flag a \<noteq> None \<and> v = TNone) \<or> core_val t v
         | AVector t \<Rightarrow>
             (case v of
                TList ws \<Rightarrow> (case t of Some ct \<Rightarrow> list_all (core_val ct) ws | None \<Rightarrow> list_all w ws)
              | _ \<Rightarrow> False)
         | ABoxed \<Rightarrow> (a_flag a \<noteq> None \<and> v = TNone) \<or> (v \<noteq> TNone \<and> w v)))"

lemma arg_wt_cong [fundef_cong]:
  assumes "avs = avs'" "av = av'" "\<And>a v. av' = (a, v) \<Longrightarrow> f v = g v"
    and "\<And>a ws x. av' = (a, TList ws) \<Longrightarrow> x \<in> set ws \<Longrightarrow> f x = g x"
  shows "arg_wt f avs av = arg_wt g avs' av'"
proof -
  obtain a v where av: "av' = (a, v)" by (cases av')
  have "v = TList ws \<Longrightarrow> list_all f ws = list_all g ws" for ws
    using assms(4) av by (auto simp: list_all_iff)
  then show ?thesis
    using assms(1-3) av
    by (auto simp: arg_wt_def split: arg_type.splits core_type.splits tlval.splits option.splits)
qed

text \<open>
  Values that \<open>TLObject.read\<close> gives back: generated objects of the schema, containers whose
  messages carry the size of their body, and future salts.
\<close>

fun wt :: "tl_env \<Rightarrow> tlval \<Rightarrow> bool" where
  "wt env (TObj cid vs) =
     (cid \<notin> set core_ids \<and>
      (case env_schema env cid of
         None \<Rightarrow> False
       | Some c \<Rightarrow> wf_args [] c \<and> length vs = length c \<and> list_all (arg_wt (wt env) (zip c vs)) (zip c vs)))"
| "wt env (TContainer ms) =
     list_all (\<lambda>m. case m of
         TMsg body msg_id seq_no len \<Rightarrow>
           wt env body \<and> (case tl_write env body of Inr b \<Rightarrow> len = int (length b) | Inl _ \<Rightarrow> False)
       | _ \<Rightarrow> False) ms"
| "wt env (TFutureSalts req now salts) =
     list_all (\<lambda>s. case s of TFutureSalt _ _ _ \<Rightarrow> True | _ \<Rightarrow> False) salts"
| "wt env _ = False"

section \<open>Flags\<close>

lemma bit_flag_word:
  "bit (flag_word k avs) i = (\<exists>a v. (a, v) \<in> set avs \<and> a_flag a = Some (k, i) \<and> present a v)"
proof (induction k avs rule: flag_word.induct)
  case (2 k a v avs)
  then show ?case by (auto simp: bit_or_iff bit_exp_iff split: option.splits)
qed simp

section \<open>Reading back what was written\<close>

lemma core_new_roundtrip:
  "core_new t v = Inr bs \<Longrightarrow> core_val t v \<Longrightarrow> core_read t (bs @ rest) = (Inr v, rest)"
  by (cases t)
    (auto simp: core_new_def core_val_def bindS_def Int_roundtrip Long_roundtrip Int128_roundtrip
      Int256_roundtrip Double_roundtrip Bytes_roundtrip String_roundtrip Bool_roundtrip
      split: tlval.splits)

lemma bindS_assoc_Inr: "m s = (Inr x, t) \<Longrightarrow> bindS m (\<lambda>x. retS (f x)) s = (Inr (f x), t)"
  by (simp add: bindS_def)

text \<open>A sequence of encoded items reads back item by item.\<close>

lemma repeatS_mapR:
  assumes "mapR w vs = Inr bss"
    and "\<And>v bs rest. v \<in> set vs \<Longrightarrow> w v = Inr bs \<Longrightarrow> r (bs @ rest) = (Inr v, rest)"
  shows "repeatS (length vs) r (concat bss @ rest) = (Inr vs, rest)"
  using assms
proof (induction vs arbitrary: bss)
  case (Cons v vs)
  from Cons.prems(1) obtain b bs where b: "w v = Inr b" and bs: "mapR w vs = Inr bs" "bss = b # bs"
    by (auto simp: bindR_Inr_iff)
  have "r (b @ concat bs @ rest) = (Inr v, concat bs @ rest)" using Cons.prems(2) b by simp
  moreover have "repeatS (length vs) r (concat bs @ rest) = (Inr vs, rest)"
    using Cons.IH [OF bs(1)] Cons.prems(2) by simp
  ultimately show ?case using bs(2) by (simp add: bindS_def)
qed simp

lemma Int_new_ID: "Int_new False cid = Inr h \<Longrightarrow> Int_read False (h @ rest) = (Inr cid, rest)"
  by (rule Int_roundtrip)

lemma resolve_Vector [simp]: "resolve_class env Vector_ID = Some Vector_ID"
  by (simp add: resolve_class_def core_ids_def)

lemma class_read_Vector [simp]: "class_read env rd t Vector_ID = Vector_read (rd None) t"
  by (simp add: class_read_def tl_ids)

text \<open>A vector written with an element writer reads back with the matching element reader.\<close>

lemma Vector_read_written:
  assumes n: "Int_new True (int (length vs)) = Inr n" and bss: "mapR w vs = Inr bss"
    and rd: "\<And>v bs rest. v \<in> set vs \<Longrightarrow> w v = Inr bs \<Longrightarrow>
        (case t of Some ct \<Rightarrow> core_read ct | None \<Rightarrow> obj) (bs @ rest) = (Inr v, rest)"
  shows "Vector_read obj t (n @ concat bss @ rest) = (Inr (TList vs), rest)"
proof -
  have c: "Int_read True (n @ concat bss @ rest) = (Inr (int (length vs)), concat bss @ rest)"
    using n by (rule Int_roundtrip)
  have r: "repeatS (length vs) (case t of Some ct \<Rightarrow> core_read ct | None \<Rightarrow> obj) (concat bss @ rest)
      = (Inr vs, rest)"
    using bss rd by (rule repeatS_mapR)
  show ?thesis
  proof (cases t)
    case None
    show ?thesis
    proof (cases "vs = []")
      case True
      with bss have "bss = []" by simp
      with True c None show ?thesis by (simp add: Vector_read_def bindS_def)
    next
      case False
      with c r None show ?thesis by (simp add: Vector_read_def bindS_def)
    qed
  next
    case (Some ct)
    with c r show ?thesis by (simp add: Vector_read_def bindS_def)
  qed
qed

lemma tl_read_Vector:
  assumes w: "Vector_new w vs = Inr bs"
    and rd: "\<And>v b rest. v \<in> set vs \<Longrightarrow> w v = Inr b \<Longrightarrow>
        (case t of Some ct \<Rightarrow> core_read ct | None \<Rightarrow> tl_read env fuel None) (b @ rest) = (Inr v, rest)"
  shows "tl_read env (Suc fuel) t (bs @ rest) = (Inr (TList vs), rest)"
proof -
  from w obtain h n bss where h: "Int_new False Vector_ID = Inr h" "Int_new True (int (length vs)) = Inr n"
    "mapR w vs = Inr bss" and bs: "bs = h @ n @ concat bss"
    by (auto simp: Vector_new_def bindR_Inr_iff)
  have "Int_read False (bs @ rest) = (Inr Vector_ID, n @ concat bss @ rest)"
    unfolding bs append_assoc using h(1) by (rule Int_new_ID)
  moreover have "Vector_read (tl_read env fuel None) t (n @ concat bss @ rest) = (Inr (TList vs), rest)"
    using h(2,3) rd by (rule Vector_read_written)
  ultimately show ?thesis by (simp add: bindS_def)
qed

text \<open>One argument, given that the boxed values below it read back.\<close>

lemma read_arg_written:
  assumes w: "write_arg w avs (a, v) = Inr bs" and ok: "arg_wt p avs (a, v)"
    and nofl: "\<And>k. a_type a \<noteq> AFlags k" and true: "a_flag a = None \<Longrightarrow> a_type a \<noteq> ACore Ctrue"
    and fl: "\<And>k i. a_flag a = Some (k, i) \<Longrightarrow> fl k = Some (flag_word k avs)"
    and boxed: "\<And>b rest. w v = Inr b \<Longrightarrow> p v \<Longrightarrow> rd None (b @ rest) = (Inr v, rest)"
    and vec: "\<And>ws b rest. v = TList ws \<Longrightarrow> Vector_new w ws = Inr b \<Longrightarrow> list_all p ws \<Longrightarrow>
        rd None (b @ rest) = (Inr v, rest)"
    and cvec: "\<And>ws ct b rest. v = TList ws \<Longrightarrow> Vector_new (core_new ct) ws = Inr b \<Longrightarrow>
        list_all (core_val ct) ws \<Longrightarrow> rd (Some ct) (b @ rest) = (Inr v, rest)"
  shows "read_arg rd fl a (bs @ rest) = (Inr v, rest)"
proof (cases "a_type a")
  case (AFlags k)
  with nofl [of k] show ?thesis by simp
next
  case (ACore t)
  then show ?thesis
    using w ok fl true
    by (cases t; cases "a_flag a")
      (auto simp: write_arg_def arg_wt_def agrees_def read_arg_def present_def core_new_roundtrip
        simp del: core_read.simps split: if_splits tlval.splits)
next
  case (AVector t)
  with ok obtain ws where ws: "v = TList ws" by (auto simp: arg_wt_def split: tlval.splits)
  show ?thesis
    using w ok fl vec [OF ws] cvec [OF ws] AVector ws
    by (cases "a_flag a"; cases t)
      (auto simp: write_arg_def arg_wt_def agrees_def read_arg_def present_def split: if_splits)
next
  case ABoxed
  then show ?thesis
    using w ok fl boxed
    by (cases "a_flag a")
      (auto simp: write_arg_def arg_wt_def agrees_def read_arg_def present_def split: if_splits)
qed

text \<open>
  All arguments of a combinator: \<open>fl\<close> holds the flag words read so far, \<open>ks\<close> their names.
\<close>

lemma read_fields_written:
  assumes "mapR (write_arg w avs) (zip c vs) = Inr bss" "list_all (arg_wt p avs) (zip c vs)"
    and "length vs = length c" "wf_args ks c" "\<And>k. k \<in> set ks \<Longrightarrow> fl k = Some (flag_word k avs)"
    and "\<And>v b rest. v \<in> set vs \<Longrightarrow> w v = Inr b \<Longrightarrow> p v \<Longrightarrow> rd None (b @ rest) = (Inr v, rest)"
    and "\<And>v ws b rest. v \<in> set vs \<Longrightarrow> v = TList ws \<Longrightarrow> Vector_new w ws = Inr b \<Longrightarrow> list_all p ws \<Longrightarrow>
        rd None (b @ rest) = (Inr v, rest)"
    and "\<And>ws ct b rest. Vector_new (core_new ct) ws = Inr b \<Longrightarrow> list_all (core_val ct) ws \<Longrightarrow>
        rd (Some ct) (b @ rest) = (Inr (TList ws), rest)"
  shows "read_fields rd fl c (concat bss @ rest) = (Inr vs, rest)"
  using assms
proof (induction c arbitrary: vs bss ks fl)
  case Nil
  then show ?case by simp
next
  case (Cons a c)
  from Cons.prems(3) obtain v us where vs: "vs = v # us" by (cases vs) auto
  from Cons.prems(1) vs obtain b bs where b: "write_arg w avs (a, v) = Inr b"
    and bs: "mapR (write_arg w avs) (zip c us) = Inr bs" and bss: "bss = b # bs"
    by (auto simp: bindR_Inr_iff)
  have ok: "arg_wt p avs (a, v)" and oks: "list_all (arg_wt p avs) (zip c us)"
    using Cons.prems(2) vs by auto
  have len: "length us = length c" using Cons.prems(3) vs by simp
  have IH: "read_fields rd fl' c (concat bs @ rest) = (Inr us, rest)"
    if "wf_args ks' c" "\<And>k. k \<in> set ks' \<Longrightarrow> fl' k = Some (flag_word k avs)" for ks' fl'
    by (rule Cons.IH [OF bs oks len that]) (use Cons.prems(6-8) vs in \<open>auto\<close>)
  show ?case
  proof (cases "\<exists>k. a_type a = AFlags k")
    case True
    then obtain k where k: "a_type a = AFlags k" by auto
    have v: "v = TNone" using ok k by (simp add: arg_wt_def)
    have "Int_read True (b @ concat bs @ rest) = (Inr (flag_word k avs), concat bs @ rest)"
      using b k by (auto simp: write_arg_def Let_def intro: Int_roundtrip)
    moreover have "read_fields rd (fl(k \<mapsto> flag_word k avs)) c (concat bs @ rest) = (Inr us, rest)"
      using Cons.prems(4,5) k by (intro IH [of "k # ks"]) auto
    ultimately show ?thesis using k v bss vs by (simp add: bindS_def)
  next
    case False
    have wf: "wf_args ks c" and a: "a_flag a = None \<Longrightarrow> a_type a \<noteq> ACore Ctrue"
      and k: "\<And>k i. a_flag a = Some (k, i) \<Longrightarrow> k \<in> set ks"
      using Cons.prems(4) False by (auto split: arg_type.splits)
    have "read_arg rd fl a (b @ concat bs @ rest) = (Inr v, concat bs @ rest)"
      by (rule read_arg_written [OF b ok _ a]) (use False Cons.prems(5-8) k vs in \<open>auto\<close>)
    moreover have "read_fields rd fl c (concat bs @ rest) = (Inr us, rest)"
      using wf Cons.prems(5) by (rule IH)
    ultimately show ?thesis using False bss vs by (auto simp: bindS_def split: arg_type.splits)
  qed
qed

section \<open>Containers\<close>

lemma Message_read_header:
  assumes "Long_new True msg_id = Inr a" "Int_new True seq_no = Inr b" "Int_new True (int (length d)) = Inr c"
  shows "Message_read obj (a @ b @ c @ d @ rest) =
    (bindR (fst (obj d)) (\<lambda>x. Inr (TMsg x msg_id seq_no (int (length d)))), rest)"
  using Long_roundtrip [OF assms(1), of "b @ c @ d @ rest"] Int_roundtrip [OF assms(2), of "c @ d @ rest"]
    Int_roundtrip [OF assms(3), of "d @ rest"]
  by (simp add: Message_read_def bindS_def read_exact)

text \<open>What a container carries on the wire: a message it can parse or one it cannot.\<close>

datatype wire_msg = Known tlval int int | Unknown int bytes int int

definition body_bytes :: "tl_env \<Rightarrow> wire_msg \<Rightarrow> bytes result" where
  "body_bytes env m =
     (case m of
        Known v msg_id seq_no \<Rightarrow> tl_write env v
      | Unknown cid d msg_id seq_no \<Rightarrow> bindR (Int_new False cid) (\<lambda>h. Inr (h @ d)))"

definition wire_bytes :: "tl_env \<Rightarrow> wire_msg \<Rightarrow> bytes result" where
  "wire_bytes env m =
     (case m of
        Known v msg_id seq_no \<Rightarrow>
          bindR (tl_write env v) (\<lambda>d. tl_write env (TMsg v msg_id seq_no (int (length d))))
      | Unknown cid d msg_id seq_no \<Rightarrow>
          bindR (Long_new True msg_id) (\<lambda>a. bindR (Int_new True seq_no) (\<lambda>b.
          bindR (Int_new True (int (length d) + 4)) (\<lambda>c. bindR (Int_new False cid) (\<lambda>h.
            Inr (a @ b @ c @ h @ d))))))"

definition delivered :: "tl_env \<Rightarrow> wire_msg list \<Rightarrow> tlval list" where
  "delivered env ms =
     concat (map (\<lambda>m. case m of
         Known v msg_id seq_no \<Rightarrow>
           (case tl_write env v of Inr d \<Rightarrow> [TMsg v msg_id seq_no (int (length d))] | Inl _ \<Rightarrow> [])
       | Unknown _ _ _ _ \<Rightarrow> []) ms)"

section \<open>Objects\<close>

lemma resolve_schema: "env_schema env cid = Some c \<Longrightarrow> resolve_class env cid = Some cid"
  by (simp add: resolve_class_def)

lemma class_read_schema:
  "cid \<notin> set core_ids \<Longrightarrow> env_schema env cid = Some c \<Longrightarrow>
     class_read env rd t cid = bindS (read_fields rd Map.empty c) (\<lambda>vs. retS (TObj cid vs))"
  by (simp add: class_read_def core_ids_def)

lemma resolve_core [simp]:
  "resolve_class env MsgContainer_ID = Some MsgContainer_ID"
  "resolve_class env FutureSalts_ID = Some FutureSalts_ID"
  "resolve_class env GzipPacked_ID = Some GzipPacked_ID"
  by (simp_all add: resolve_class_def core_ids_def)

lemma class_read_core [simp]:
  "class_read env rd t MsgContainer_ID = MsgContainer_read (rd None)"
  "class_read env rd t FutureSalts_ID = FutureSalts_read"
  "class_read env rd t GzipPacked_ID = GzipPacked_read env (rd None)"
  by (simp_all add: class_read_def tl_ids)

lemma core_new_ok: "core_val t v \<Longrightarrow> core_new t v = Inr bs \<Longrightarrow> core_read t (bs @ rest) = (Inr v, rest)"
  by (rule core_new_roundtrip)

text \<open>A vector of a core type, read with its element type.\<close>

lemma tl_read_core_Vector:
  assumes "Vector_new (core_new ct) ws = Inr bs" "list_all (core_val ct) ws" "0 < fuel"
  shows "tl_read env fuel (Some ct) (bs @ rest) = (Inr (TList ws), rest)"
proof -
  obtain f where f: "fuel = Suc f" using assms(3) by (cases fuel) auto
  show ?thesis
    unfolding f
    by (rule tl_read_Vector [OF assms(1)]) (use assms(2) in \<open>auto simp: list_all_iff core_new_roundtrip\<close>)
qed

lemma size_in_list: "x \<in> set xs \<Longrightarrow> size x \<le> size_list size xs"
  by (simp add: size_list_estimation')

lemma container_loop_written:
  assumes "mapR (tl_write env) ms = Inr bss"
    and "\<And>m b rest. m \<in> set ms \<Longrightarrow> tl_write env m = Inr b \<Longrightarrow> rd (b @ rest) = (Inr m, rest)"
  shows "container_loop (length ms) rd (concat bss @ rest) = (Inr ms, rest)"
  using assms
proof (induction ms arbitrary: bss)
  case (Cons m ms)
  from Cons.prems(1) obtain b bs where b: "tl_write env m = Inr b" and bs: "mapR (tl_write env) ms = Inr bs"
    and bss: "bss = b # bs" by (auto simp: bindR_Inr_iff)
  have "rd (b @ concat bs @ rest) = (Inr m, concat bs @ rest)" using Cons.prems(2) b by simp
  moreover have "container_loop (length ms) rd (concat bs @ rest) = (Inr ms, rest)"
    using Cons.IH [OF bs] Cons.prems(2) by simp
  ultimately show ?case using bss by simp
qed simp

lemma FutureSalt_written:
  "tl_write env (TFutureSalt a b c) = Inr bs \<Longrightarrow> FutureSalt_read (bs @ rest) = (Inr (TFutureSalt a b c), rest)"
  by (auto simp: bindR_Inr_iff FutureSalt_read_def bindS_def Int_roundtrip Long_roundtrip)

lemma FutureSalts_written:
  assumes "tl_write env (TFutureSalts req now salts) = Inr bs" "wt env (TFutureSalts req now salts)"
  shows "tl_read env (Suc f) t (bs @ rest) = (Inr (TFutureSalts req now salts), rest)"
proof -
  from assms(1) obtain h a b n bss where w: "Int_new False FutureSalts_ID = Inr h"
    "Long_new True req = Inr a" "Int_new True now = Inr b" "Int_new True (int (length salts)) = Inr n"
    "mapR (tl_write env) salts = Inr bss" and bs: "bs = h @ a @ b @ n @ concat bss"
    by (auto simp: bindR_Inr_iff)
  have "repeatS (length salts) FutureSalt_read (concat bss @ rest) = (Inr salts, rest)"
    using w(5)
  proof (rule repeatS_mapR)
    fix v bs rest assume "v \<in> set salts" "tl_write env v = Inr bs"
    moreover from this(1) assms(2) have "case v of TFutureSalt _ _ _ \<Rightarrow> True | _ \<Rightarrow> False"
      by (simp add: list_all_iff)
    then obtain x y z where "v = TFutureSalt x y z" by (cases v) auto
    ultimately show "FutureSalt_read (bs @ rest) = (Inr v, rest)" using FutureSalt_written by simp
  qed
  with w(1-4) show ?thesis
    by (simp add: bs bindS_def Int_roundtrip Long_roundtrip FutureSalts_read_def)
qed

text \<open>A message read out of a container, given that its body reads back.\<close>

lemma Message_written:
  assumes "tl_write env (TMsg v msg_id seq_no len) = Inr bs"
    and "tl_write env v = Inr d" "len = int (length d)" "obj d = (Inr v, [])"
  shows "Message_read obj (bs @ rest) = (Inr (TMsg v msg_id seq_no len), rest)"
proof -
  from assms(1,2) obtain a b c where w: "Long_new True msg_id = Inr a" "Int_new True seq_no = Inr b"
    "Int_new True (int (length d)) = Inr c" and bs: "bs = a @ b @ c @ d"
    using assms(3) by (auto simp: bindR_Inr_iff)
  from Message_read_header [OF w, of obj rest] assms(3,4) bs show ?thesis by simp
qed

text \<open>The values below a generated object read back with less fuel.\<close>

lemma TObj_written:
  assumes w: "tl_write env (TObj cid vs) = Inr bs" and ok: "wt env (TObj cid vs)"
    and sz: "size_list size vs < f" and f: "0 < f"
    and IH: "\<And>v b f rest. size v \<le> size_list size vs \<Longrightarrow> size v < f \<Longrightarrow> tl_write env v = Inr b \<Longrightarrow>
        wt env v \<Longrightarrow> tl_read env f None (b @ rest) = (Inr v, rest)"
  shows "tl_read env (Suc f) t (bs @ rest) = (Inr (TObj cid vs), rest)"
proof -
  from ok obtain c where c: "env_schema env cid = Some c" and cid: "cid \<notin> set core_ids"
    and wf: "wf_args [] c" and len: "length vs = length c"
    and args: "list_all (arg_wt (wt env) (zip c vs)) (zip c vs)"
    by (auto split: option.splits)
  from w c obtain h bss where h: "Int_new False cid = Inr h"
    and bss: "mapR (write_arg (tl_write env) (zip c vs)) (zip c vs) = Inr bss" and bs: "bs = h @ concat bss"
    by (auto simp: bindR_Inr_iff)
  have "read_fields (tl_read env f) Map.empty c (concat bss @ rest) = (Inr vs, rest)"
  proof (rule read_fields_written [OF bss args len wf])
    fix v b rest assume "v \<in> set vs" "tl_write env v = Inr b" "wt env v"
    then show "tl_read env f None (b @ rest) = (Inr v, rest)"
      using sz by (intro IH) (auto dest: size_in_list)
  next
    fix v ws b rest
    assume v: "v \<in> set vs" "v = TList ws" and b: "Vector_new (tl_write env) ws = Inr b"
      and ws: "list_all (wt env) ws"
    obtain f' where f': "f = Suc f'" using f by (cases f) auto
    have s: "size_list size ws < size_list size vs" using size_in_list [OF v(1)] v(2) by simp
    show "tl_read env f None (b @ rest) = (Inr v, rest)"
      unfolding f' v(2)
    proof (rule tl_read_Vector [OF b], unfold option.case)
      fix x bx rest assume x: "x \<in> set ws" "tl_write env x = Inr bx"
      have "size x \<le> size_list size ws" using x(1) by (rule size_in_list)
      with s sz f' x ws show "tl_read env f' None (bx @ rest) = (Inr x, rest)"
        by (intro IH) (auto simp: list_all_iff)
    qed
  qed (auto intro: tl_read_core_Vector f)
  with h show ?thesis
    by (simp add: bs bindS_def Int_new_ID resolve_schema [OF c] class_read_schema [OF cid c])
qed

lemma TContainer_written:
  assumes w: "tl_write env (TContainer ms) = Inr bs" and ok: "wt env (TContainer ms)"
    and IH: "\<And>v b rest. size v < size_list size ms \<Longrightarrow> tl_write env v = Inr b \<Longrightarrow>
        wt env v \<Longrightarrow> tl_read env f None (b @ rest) = (Inr v, rest)"
  shows "tl_read env (Suc f) t (bs @ rest) = (Inr (TContainer ms), rest)"
proof -
  from w obtain h n bss where h: "Int_new False MsgContainer_ID = Inr h"
    and n: "Int_new True (int (length ms)) = Inr n" and bss: "mapR (tl_write env) ms = Inr bss"
    and bs: "bs = h @ n @ concat bss"
    by (auto simp: bindR_Inr_iff)
  have "container_loop (length ms) (Message_read (tl_read env f None)) (concat bss @ rest) = (Inr ms, rest)"
    using bss
  proof (rule container_loop_written)
    fix m b rest assume m: "m \<in> set ms" and b: "tl_write env m = Inr b"
    from ok m have "case m of
         TMsg body msg_id seq_no len \<Rightarrow>
           wt env body \<and> (case tl_write env body of Inr b \<Rightarrow> len = int (length b) | Inl _ \<Rightarrow> False)
       | _ \<Rightarrow> False"
      by (simp add: list_all_iff)
    then obtain v msg_id seq_no len d where v: "m = TMsg v msg_id seq_no len" "wt env v"
      "tl_write env v = Inr d" "len = int (length d)"
      by (cases m) (auto split: sum.splits)
    have "size v < size_list size ms" using size_in_list [OF m] v(1) by simp
    from IH [OF this v(3,2), of "[]"] have "tl_read env f None d = (Inr v, [])" by simp
    with b v show "Message_read (tl_read env f None) (b @ rest) = (Inr m, rest)"
      using Message_written [of env v msg_id seq_no len b d] by simp
  qed
  with h n show ?thesis by (simp add: bs bindS_def Int_roundtrip MsgContainer_read_def)
qed

lemma object_read: "tl_write env v = Inr bs \<Longrightarrow> wt env v \<Longrightarrow> size v < fuel \<Longrightarrow>
    tl_read env fuel None (bs @ rest) = (Inr v, rest)"
proof (induction "size v" arbitrary: v bs fuel rest rule: less_induct)
  case less
  obtain f where f: "fuel = Suc f" using less.prems(3) by (cases fuel) auto
  show ?case
  proof (cases v)
    case (TObj cid vs)
    show ?thesis
      unfolding f TObj
    proof (rule TObj_written)
      show "tl_write env (TObj cid vs) = Inr bs" "wt env (TObj cid vs)" using less.prems TObj by simp_all
      show "size_list size vs < f" "0 < f" using less.prems(3) TObj f by simp_all
    qed (use less.hyps TObj in auto)
  next
    case (TContainer ms)
    show ?thesis
      unfolding f TContainer
    proof (rule TContainer_written)
      show "tl_write env (TContainer ms) = Inr bs" "wt env (TContainer ms)"
        using less.prems TContainer by simp_all
    qed (use less.hyps less.prems(3) TContainer f in auto)
  next
    case (TFutureSalts req now salts)
    with less.prems f show ?thesis using FutureSalts_written by blast
  qed (use less.prems in simp_all)
qed

text \<open>
  C1. Every object a schema describes survives the wire: what \<open>write\<close> produces, \<open>TLObject.read\<close>
  turns back into the object, and the rest of the stream is left alone. One unit of fuel for each
  level of nesting is enough.
\<close>

theorem tl_object_roundtrip:
  assumes "tl_write env v = Inr bs" "wt env v" "size v < fuel"
  shows "tl_read env fuel None (bs @ rest) = (Inr v, rest)"
  using assms by (rule object_read)

text \<open>A concrete schema: \<open>flags:# name:string nick:flags.0?string self:flags.1?true ids:Vector\<close>.\<close>

definition demo_env :: tl_env where
  "demo_env = \<lparr>env_schema = [0x11223344 \<mapsto>
       [\<lparr>a_flag = None, a_type = AFlags 0\<rparr>, \<lparr>a_flag = None, a_type = ACore Cstring\<rparr>,
        \<lparr>a_flag = Some (0, 0), a_type = ACore Cstring\<rparr>, \<lparr>a_flag = Some (0, 1), a_type = ACore Ctrue\<rparr>,
        \<lparr>a_flag = Some (0, 2), a_type = AVector (Some Clong)\<rparr>]],
     env_class = Map.empty, gz_compress = (\<lambda>b. b), gz_decompress = Inr\<rparr>"

definition demo_obj :: tlval where
  "demo_obj = TObj 0x11223344 [TNone, TStr (ustr ''ann''), TNone, TBool True, TList [TInt 5, TInt (-7)]]"

lemma demo_schema: "env_schema demo_env 0x11223344 = Some
     [\<lparr>a_flag = None, a_type = AFlags 0\<rparr>, \<lparr>a_flag = None, a_type = ACore Cstring\<rparr>,
        \<lparr>a_flag = Some (0, 0), a_type = ACore Cstring\<rparr>, \<lparr>a_flag = Some (0, 1), a_type = ACore Ctrue\<rparr>,
        \<lparr>a_flag = Some (0, 2), a_type = AVector (Some Clong)\<rparr>]"
  by (simp add: demo_env_def)

lemma demo_obj_wt: "wt demo_env demo_obj"
  by (simp add: demo_obj_def demo_schema tl_ids core_ids_def ustr_def arg_wt_def agrees_def present_def
      core_val_def is_ustr_def bit_iff_odd)

lemma demo_obj_written: "\<exists>bs. tl_write demo_env demo_obj = Inr bs \<and> length bs < 100"
  by (simp add: demo_obj_def demo_schema ustr_def write_arg_def present_def core_new_def Let_def Int_new_def
    Long_new_def String_new_def utf8_encode_def utf8_char_def to_bytes_le_def fits_def Bytes_new_def
    Vector_new_def Vector_ID_def pad4_def)

lemma tl_object_roundtrip_witness:
  "\<exists>bs. tl_write demo_env demo_obj = Inr bs \<and> tl_read demo_env 40 None (bs @ [1, 2]) = (Inr demo_obj, [1, 2])"
proof -
  obtain bs where bs: "tl_write demo_env demo_obj = Inr bs" using demo_obj_written by blast
  have "size demo_obj < 40" by (simp add: demo_obj_def)
  from tl_object_roundtrip [OF bs demo_obj_wt this] bs show ?thesis by blast
qed

section \<open>Messages with unknown constructors\<close>

definition container_bytes :: "tl_env \<Rightarrow> wire_msg list \<Rightarrow> bytes result" where
  "container_bytes env ms =
     bindR (Int_new False MsgContainer_ID) (\<lambda>h.
     bindR (Int_new True (int (length ms))) (\<lambda>n.
     bindR (mapR (wire_bytes env) ms) (\<lambda>bs. Inr (h @ n @ concat bs))))"

definition parseable :: "tl_env \<Rightarrow> nat \<Rightarrow> wire_msg \<Rightarrow> bool" where
  "parseable env fuel m =
     (case m of
        Known v msg_id seq_no \<Rightarrow> wt env v \<and> size v < fuel
      | Unknown cid d msg_id seq_no \<Rightarrow> resolve_class env cid = None \<and> 0 < fuel)"

lemma Message_read_unknown:
  assumes "wire_bytes env (Unknown cid d msg_id seq_no) = Inr bs" "resolve_class env cid = None"
  shows "Message_read (tl_read env (Suc f) None) (bs @ rest) = (Inl (KeyError cid), rest)"
proof -
  from assms(1) obtain a b c h where w: "Long_new True msg_id = Inr a" "Int_new True seq_no = Inr b"
    "Int_new True (int (length d) + 4) = Inr c" "Int_new False cid = Inr h" and bs: "bs = a @ b @ c @ h @ d"
    by (auto simp: wire_bytes_def bindR_Inr_iff)
  have len: "int (length (h @ d)) = int (length d) + 4" using Int_new_length [OF w(4)] by simp
  with w(3) have c: "Int_new True (int (length (h @ d))) = Inr c" by (simp only:)
  show ?thesis
    using Message_read_header [OF w(1,2) c, of "tl_read env (Suc f) None" rest] assms(2) Int_new_ID [OF w(4), of d]
    by (simp add: bs bindS_def)
qed

lemma Message_read_known:
  assumes "wire_bytes env (Known v msg_id seq_no) = Inr bs" "wt env v" "size v < fuel"
  shows "\<exists>d. tl_write env v = Inr d \<and>
    Message_read (tl_read env fuel None) (bs @ rest) = (Inr (TMsg v msg_id seq_no (int (length d))), rest)"
proof -
  from assms(1) obtain d where d: "tl_write env v = Inr d"
    and bs: "tl_write env (TMsg v msg_id seq_no (int (length d))) = Inr bs"
    by (auto simp: wire_bytes_def bindR_Inr_iff simp del: tl_write.simps)
  have "tl_read env fuel None d = (Inr v, [])" using object_read [OF d assms(2,3), of "[]"] by simp
  with Message_written [OF bs d] d show ?thesis by auto
qed

lemma container_loop_skips:
  assumes "mapR (wire_bytes env) ms = Inr bss" "list_all (parseable env fuel) ms"
  shows "container_loop (length ms) (Message_read (tl_read env fuel None)) (concat bss @ rest)
    = (Inr (delivered env ms), rest)"
  using assms
proof (induction ms arbitrary: bss)
  case (Cons m ms)
  from Cons.prems(1) obtain b bs where b: "wire_bytes env m = Inr b" and bs: "mapR (wire_bytes env) ms = Inr bs"
    and bss: "bss = b # bs" by (auto simp: bindR_Inr_iff)
  have IH: "container_loop (length ms) (Message_read (tl_read env fuel None)) (concat bs @ rest)
    = (Inr (delivered env ms), rest)"
    using Cons.IH [OF bs] Cons.prems(2) by simp
  show ?case
  proof (cases m)
    case (Known v msg_id seq_no)
    with Cons.prems(2) have "wt env v" "size v < fuel" by (simp_all add: parseable_def)
    from Message_read_known [OF b [unfolded Known] this, of "concat bs @ rest"] IH Known bss
    show ?thesis by (auto simp: delivered_def)
  next
    case (Unknown cid d msg_id seq_no)
    with Cons.prems(2) obtain f where "resolve_class env cid = None" "fuel = Suc f"
      by (cases fuel) (simp_all add: parseable_def)
    with Message_read_unknown [OF b [unfolded Unknown], of f "concat bs @ rest"] IH Unknown bss
    show ?thesis by (simp add: delivered_def del: tl_read.simps)
  qed
qed (simp add: delivered_def)

text \<open>
  C14. A container delivers exactly the messages it can parse, in order: one with an unknown
  constructor costs nothing but itself, because its body was cut out of the stream first.
\<close>

theorem container_skips_unknown:
  assumes "container_bytes env ms = Inr bs" "list_all (parseable env fuel) ms"
  shows "tl_read env (Suc fuel) None (bs @ rest) = (Inr (TContainer (delivered env ms)), rest)"
proof -
  from assms(1) obtain h n bss where h: "Int_new False MsgContainer_ID = Inr h"
    and n: "Int_new True (int (length ms)) = Inr n" and bss: "mapR (wire_bytes env) ms = Inr bss"
    and bs: "bs = h @ n @ concat bss"
    by (auto simp: container_bytes_def bindR_Inr_iff)
  show ?thesis
    using h n container_loop_skips [OF bss assms(2), of rest]
    by (simp add: bs bindS_def Int_roundtrip MsgContainer_read_def)
qed

lemma container_skips_unknown_witness:
  "\<exists>bs. container_bytes demo_env [Unknown 0x99887766 [1, 2, 3] 4 1, Known demo_obj 8 3] = Inr bs \<and>
     tl_read demo_env 41 None (bs @ [9]) =
       (Inr (TContainer (delivered demo_env [Unknown 0x99887766 [1, 2, 3] 4 1, Known demo_obj 8 3])), [9])"
proof -
  let ?ms = "[Unknown 0x99887766 [1, 2, 3] 4 1, Known demo_obj 8 3]"
  obtain d where d: "tl_write demo_env demo_obj = Inr d" "length d < 100" using demo_obj_written by blast
  have "resolve_class demo_env 0x99887766 = None"
    by (simp add: resolve_class_def core_ids_def tl_ids demo_env_def legacy_objects_def)
  then have p: "list_all (parseable demo_env 40) ?ms"
    using demo_obj_wt by (simp add: parseable_def demo_obj_def)
  obtain bs where bs: "container_bytes demo_env ?ms = Inr bs"
    using d by (fastforce simp: container_bytes_def wire_bytes_def Int_new_def Long_new_def to_bytes_le_def
      fits_def MsgContainer_ID_def)
  from container_skips_unknown [OF bs p] bs show ?thesis by simp
qed

text \<open>
  A packed object reads back as the object itself, whatever compressor is used, as long as
  decompressing undoes compressing.
\<close>

theorem gzip_transparent:
  assumes "tl_write env (TGzip v) = Inr bs" "wt env v" "size v < fuel"
    and "\<And>b. gz_decompress env (gz_compress env b) = Inr b"
  shows "tl_read env (Suc fuel) t (bs @ rest) = (Inr v, rest)"
proof -
  from assms(1) obtain h b d where h: "Int_new False GzipPacked_ID = Inr h" and b: "tl_write env v = Inr b"
    and d: "Bytes_new (gz_compress env b) = Inr d" and bs: "bs = h @ d"
    by (auto simp: bindR_Inr_iff)
  have "tl_read env fuel None b = (Inr v, [])" using object_read [OF b assms(2,3), of "[]"] by simp
  with h d assms(4) show ?thesis
    by (simp add: bs bindS_def Int_new_ID GzipPacked_read_def Bytes_roundtrip)
qed

lemma gzip_transparent_witness:
  "\<exists>bs. tl_write demo_env (TGzip demo_obj) = Inr bs \<and>
     tl_read demo_env 41 None (bs @ [7]) = (Inr demo_obj, [7])"
proof -
  obtain d where d: "tl_write demo_env demo_obj = Inr d" "length d < 100" using demo_obj_written by blast
  have "gz_decompress demo_env (gz_compress demo_env b) = Inr b" for b by (simp add: demo_env_def)
  moreover obtain bs where "tl_write demo_env (TGzip demo_obj) = Inr bs"
    using d Bytes_new_total [of d]
    by (fastforce simp: Int_new_def to_bytes_le_def fits_def GzipPacked_ID_def demo_env_def)
  moreover have "size demo_obj < 40" by (simp add: demo_obj_def)
  ultimately show ?thesis using gzip_transparent [of demo_env demo_obj bs 40] demo_obj_wt by simp
qed

end
