(* ===== verification/Base64.thy ===== *)
theory Base64
  imports Prelude
begin

text \<open>
  The part of \<open>base64\<close> and \<open>binascii\<close> the program uses: the URL-safe alphabet, the
  encoder, and the decoder as the interpreter runs it (\<open>a2b_base64\<close> in its default,
  non-strict mode), which skips characters outside the alphabet and stops at the first complete
  padding.
\<close>

section \<open>The alphabet\<close>

definition b64_sym :: "nat \<Rightarrow> nat" where
  "b64_sym v =
     (if v < 26 then 65 + v else if v < 52 then 71 + v else if v < 62 then v - 4
      else if v = 62 then 45 else 95)"

text \<open>Both alphabets decode: the URL-safe one is first translated to the standard one.\<close>

definition b64_val :: "nat \<Rightarrow> nat option" where
  "b64_val c =
     (if 65 \<le> c \<and> c \<le> 90 then Some (c - 65)
      else if 97 \<le> c \<and> c \<le> 122 then Some (c - 71)
      else if 48 \<le> c \<and> c \<le> 57 then Some (c + 4)
      else if c = 45 \<or> c = 43 then Some 62
      else if c = 95 \<or> c = 47 then Some 63
      else None)"

abbreviation eq_sign :: nat where
  "eq_sign \<equiv> 61"

lemma b64_val_sym [simp]: "v < 64 \<Longrightarrow> b64_val (b64_sym v) = Some v"
  by (auto simp: b64_val_def b64_sym_def)

lemma b64_sym_ne_eq [simp]: "v < 64 \<Longrightarrow> b64_sym v \<noteq> eq_sign"
  by (auto simp: b64_sym_def)

lemma b64_sym_ascii: "v < 64 \<Longrightarrow> b64_sym v < 128"
  by (auto simp: b64_sym_def)

section \<open>Encoding\<close>

text \<open>\<open>urlsafe_b64encode(s)\<close>, with its padding.\<close>

fun b64_groups :: "bytes \<Rightarrow> ustr" where
  "b64_groups (a # b # c # bs) =
     b64_sym (unat a div 4) # b64_sym (unat a mod 4 * 16 + unat b div 16)
       # b64_sym (unat b mod 16 * 4 + unat c div 64) # b64_sym (unat c mod 64) # b64_groups bs"
| "b64_groups [a, b] =
     [b64_sym (unat a div 4), b64_sym (unat a mod 4 * 16 + unat b div 16), b64_sym (unat b mod 16 * 4), eq_sign]"
| "b64_groups [a] = [b64_sym (unat a div 4), b64_sym (unat a mod 4 * 16), eq_sign, eq_sign]"
| "b64_groups [] = []"

definition strip_eq :: "ustr \<Rightarrow> ustr" where
  "strip_eq s = rev (dropWhile (\<lambda>c. c = eq_sign) (rev (dropWhile (\<lambda>c. c = eq_sign) s)))"

section \<open>Decoding\<close>

text \<open>
  \<open>a2b_base64\<close>: the position in the quad, the bits left over from the last character and
  the padding seen since.
\<close>

fun b64_scan :: "nat \<Rightarrow> nat \<Rightarrow> nat \<Rightarrow> ustr \<Rightarrow> bytes result" where
  "b64_scan qp left pads [] = (if qp = 0 then Inr [] else Inl BinasciiError)"
| "b64_scan qp left pads (c # cs) =
     (if c = eq_sign then
        (if 2 \<le> qp then
           (if 4 \<le> qp + (pads + 1) then Inr [] else b64_scan qp left (pads + 1) cs)
         else b64_scan qp left pads cs)
      else
        (case b64_val c of
           None \<Rightarrow> b64_scan qp left pads cs
         | Some v \<Rightarrow>
             if qp = 0 then b64_scan 1 v 0 cs
             else if qp = 1 then
               bindR (b64_scan 2 (v mod 16) 0 cs) (\<lambda>bs. Inr (byte_of (left * 4 + v div 16) # bs))
             else if qp = 2 then
               bindR (b64_scan 3 (v mod 4) 0 cs) (\<lambda>bs. Inr (byte_of (left * 16 + v div 4) # bs))
             else
               bindR (b64_scan 0 0 0 cs) (\<lambda>bs. Inr (byte_of (left * 64 + v) # bs))))"

text \<open>\<open>urlsafe_b64decode(s)\<close>: a text with a character that is not ASCII is refused first.\<close>

definition urlsafe_b64decode :: "ustr \<Rightarrow> bytes result" where
  "urlsafe_b64decode s = (if \<exists>c \<in> set s. 128 \<le> c then Inl ValueError else b64_scan 0 0 0 s)"

section \<open>Round trip\<close>

lemma byte_lt [simp]:
  "unat (a :: byte) div 4 < 64"
  "unat (a :: byte) mod 4 * 16 < 64"
  "unat (a :: byte) mod 4 * 16 + unat (b :: byte) div 16 < 64"
  "unat (b :: byte) mod 16 * 4 < 64"
  "unat (b :: byte) mod 16 * 4 + unat (c :: byte) div 64 < 64"
proof -
  have "unat a mod 4 < 4" "unat b div 16 < 16" "unat b mod 16 < 16" "unat c div 64 < 4" "unat a div 4 < 64"
    using unat_byte_lt [of a] unat_byte_lt [of b] unat_byte_lt [of c] by (simp_all add: less_mult_imp_div_less)
  then show "unat a div 4 < 64" "unat a mod 4 * 16 < 64" "unat a mod 4 * 16 + unat b div 16 < 64"
    "unat b mod 16 * 4 < 64" "unat b mod 16 * 4 + unat c div 64 < 64"
    by simp_all
qed

lemma sextet_parts:
  fixes a b c :: byte
  shows "unat a div 4 * 4 + unat a mod 4 * 16 div 16 = unat a"
    and "unat a div 4 * 4 + (unat a mod 4 * 16 + unat b div 16) div 16 = unat a"
    and "(unat a mod 4 * 16 + unat b div 16) mod 16 * 16 + unat b mod 16 * 4 div 4 = unat b"
    and "(unat a mod 4 * 16 + unat b div 16) mod 16 * 16 + (unat b mod 16 * 4 + unat c div 64) div 4 = unat b"
    and "(unat b mod 16 * 4 + unat c div 64) mod 4 * 64 + unat c mod 64 = unat c"
proof -
  have l: "unat b div 16 < 16" "unat c div 64 < 4"
    using unat_byte_lt [of b] unat_byte_lt [of c] by (simp_all add: less_mult_imp_div_less)
  show "unat a div 4 * 4 + unat a mod 4 * 16 div 16 = unat a" by simp
  show "unat a div 4 * 4 + (unat a mod 4 * 16 + unat b div 16) div 16 = unat a" using l by simp
  show "(unat a mod 4 * 16 + unat b div 16) mod 16 * 16 + unat b mod 16 * 4 div 4 = unat b" using l by simp
  show "(unat a mod 4 * 16 + unat b div 16) mod 16 * 16 + (unat b mod 16 * 4 + unat c div 64) div 4 = unat b"
    using l by simp
  show "(unat b mod 16 * 4 + unat c div 64) mod 4 * 64 + unat c mod 64 = unat c" using l by simp
qed

lemma scan_quad:
  assumes "v1 < 64" "v2 < 64" "v3 < 64" "v4 < 64"
  shows "b64_scan 0 0 0 (b64_sym v1 # b64_sym v2 # b64_sym v3 # b64_sym v4 # cs) =
    bindR (b64_scan 0 0 0 cs) (\<lambda>bs. Inr (byte_of (v1 * 4 + v2 div 16) #
      byte_of (v2 mod 16 * 16 + v3 div 4) # byte_of (v3 mod 4 * 64 + v4) # bs))"
  using assms by (auto simp: bindR_def split: sum.splits)

lemma scan_pad1:
  assumes "v1 < 64" "v2 < 64" "v3 < 64"
  shows "b64_scan 0 0 0 (b64_sym v1 # b64_sym v2 # b64_sym v3 # eq_sign # cs) =
    Inr [byte_of (v1 * 4 + v2 div 16), byte_of (v2 mod 16 * 16 + v3 div 4)]"
  using assms by simp

lemma scan_pad2:
  assumes "v1 < 64" "v2 < 64"
  shows "b64_scan 0 0 0 (b64_sym v1 # b64_sym v2 # eq_sign # eq_sign # cs) = Inr [byte_of (v1 * 4 + v2 div 16)]"
  using assms by simp

lemma b64_scan_groups: "b64_scan 0 0 0 (b64_groups bs) = Inr bs"
proof (induction bs rule: b64_groups.induct)
  case (1 a b c bs)
  show ?case
    unfolding b64_groups.simps(1) using 1
    by (subst scan_quad) (simp_all only: byte_lt sextet_parts byte_of_unat bindR_simps mod_less_divisor zero_less_numeral)
next
  case (2 a b)
  show ?case
    unfolding b64_groups.simps(2)
    by (subst scan_pad1) (simp_all only: byte_lt sextet_parts byte_of_unat)
next
  case (3 a)
  show ?case
    unfolding b64_groups.simps(3)
    by (subst scan_pad2) (simp_all only: byte_lt sextet_parts byte_of_unat)
qed simp

text \<open>The encoding without its padding, and how much padding was cut.\<close>

fun b64_core :: "bytes \<Rightarrow> ustr" where
  "b64_core (a # b # c # bs) =
     b64_sym (unat a div 4) # b64_sym (unat a mod 4 * 16 + unat b div 16)
       # b64_sym (unat b mod 16 * 4 + unat c div 64) # b64_sym (unat c mod 64) # b64_core bs"
| "b64_core [a, b] = [b64_sym (unat a div 4), b64_sym (unat a mod 4 * 16 + unat b div 16), b64_sym (unat b mod 16 * 4)]"
| "b64_core [a] = [b64_sym (unat a div 4), b64_sym (unat a mod 4 * 16)]"
| "b64_core [] = []"

lemma b64_core_chars: "c \<in> set (b64_core bs) \<Longrightarrow> \<exists>v < 64. c = b64_sym v"
proof (induction bs rule: b64_core.induct)
  case (1 x y z bs)
  have w: "v < 64 \<Longrightarrow> \<exists>w < 64. b64_sym v = b64_sym w" for v by blast
  from 1 show ?case
    by (auto simp del: byte_lt intro!: w byte_lt)
qed (auto intro: byte_lt)

lemma pad_cases: "nat (- int n mod 4) = (if n mod 4 = 0 then 0 else 4 - n mod 4)"
proof (cases "n mod 4 = 0")
  case True
  then have "4 dvd int n" by presburger
  then show ?thesis using True by (simp add: dvd_eq_mod_eq_0 zmod_zminus1_eq_if)
next
  case False
  then have "\<not> 4 dvd int n" by presburger
  then have "- int n mod 4 = 4 - int n mod 4" by (simp add: zmod_zminus1_eq_if dvd_eq_mod_eq_0)
  moreover have "int n mod 4 = int (n mod 4)" by (simp add: zmod_int)
  ultimately show ?thesis using False by simp
qed

lemma b64_groups_core: "b64_groups bs = b64_core bs @ replicate (nat (- int (length (b64_core bs)) mod 4)) eq_sign"
  unfolding pad_cases by (induction bs rule: b64_core.induct) (auto simp: numeral_2_eq_2)

lemma b64_core_no_eq: "eq_sign \<notin> set (b64_core bs)"
  using b64_core_chars b64_sym_ne_eq by metis

lemma dropWhile_not_in: "x \<notin> set xs \<Longrightarrow> dropWhile (\<lambda>c. c = x) xs = xs"
  by (cases xs) auto

lemma dropWhile_replicate: "dropWhile (\<lambda>c. c = x) (replicate n x @ ys) = dropWhile (\<lambda>c. c = x) ys"
  by (induction n) auto

lemma strip_eq_groups: "strip_eq (b64_groups bs) = b64_core bs"
proof -
  define k where "k = nat (- int (length (b64_core bs)) mod 4)"
  have g: "b64_groups bs = b64_core bs @ replicate k eq_sign" unfolding k_def by (rule b64_groups_core)
  show ?thesis
  proof (cases "b64_core bs")
    case Nil
    then show ?thesis using b64_groups_core [of bs] by (simp add: strip_eq_def)
  next
    case (Cons c cs)
    have "dropWhile (\<lambda>c. c = eq_sign) (b64_core bs @ replicate k eq_sign) = b64_core bs @ replicate k eq_sign"
      using b64_core_no_eq [of bs] Cons by auto
    moreover have "dropWhile (\<lambda>c. c = eq_sign) (rev (b64_core bs)) = rev (b64_core bs)"
      using b64_core_no_eq [of bs] by (intro dropWhile_not_in) simp
    ultimately show ?thesis
      unfolding strip_eq_def g by (simp add: dropWhile_replicate)
  qed
qed

text \<open>Cutting the padding and adding it back by the length of what is left loses nothing.\<close>

lemma urlsafe_b64decode_groups:
  "urlsafe_b64decode (b64_core bs @ replicate (nat (- int (length (b64_core bs)) mod 4)) eq_sign) = Inr bs"
proof -
  have "c < 128" if "c \<in> set (b64_groups bs)" for c
    using that b64_groups_core [of bs] b64_core_chars [of c bs] b64_sym_ascii by auto
  then show ?thesis
    unfolding b64_groups_core [symmetric] urlsafe_b64decode_def by (auto simp: b64_scan_groups not_le [symmetric])
qed

end
