(* ===== verification/File_Id.thy ===== *)
theory File_Id
  imports TL_Primitives Base64 "HOL-Library.Sublist"
begin

text \<open>
  \<open>pyrogram/file_id.py\<close>: the text form of file identifiers. A file id is a packed record,
  run-length encoded over its zero bytes, in URL-safe base64 without padding; the decoder checks
  the two enumerations and reads a layout that depends on the version, the type and the thumbnail
  source.
\<close>

section \<open>Base64 and run-length encoding\<close>

definition b64_encode :: "bytes \<Rightarrow> ustr" where
  "b64_encode s = strip_eq (b64_groups s)"

definition b64_decode :: "ustr \<Rightarrow> bytes result" where
  "b64_decode s = urlsafe_b64decode (s @ replicate (nat (- int (length s) mod 4)) eq_sign)"

text \<open>The loop of \<open>rle_encode\<close>; \<open>n\<close> counts the zeros seen and not yet written.\<close>

fun rle_loop :: "nat \<Rightarrow> bytes \<Rightarrow> nat list" where
  "rle_loop n [] = (if n \<noteq> 0 then [0, n] else [])"
| "rle_loop n (b # s) =
     (if b = 0 then rle_loop (n + 1) s
      else (if n \<noteq> 0 then [0, n] else []) @ unat b # rle_loop 0 s)"

text \<open>\<open>bytes(r)\<close> of a list of integers.\<close>

definition bytes_of_ints :: "nat list \<Rightarrow> bytes result" where
  "bytes_of_ints r = (if \<forall>n \<in> set r. n < 256 then Inr (map byte_of r) else Inl ValueError)"

definition rle_encode :: "bytes \<Rightarrow> bytes result" where
  "rle_encode s = bytes_of_ints (rle_loop 0 s)"

fun rle_dec_loop :: "bool \<Rightarrow> bytes \<Rightarrow> bytes" where
  "rle_dec_loop z [] = []"
| "rle_dec_loop z (b # s) =
     (if b = 0 then rle_dec_loop True s
      else if z then replicate (unat b) 0 @ rle_dec_loop False s
      else b # rle_dec_loop z s)"

definition rle_decode :: "bytes \<Rightarrow> bytes" where
  "rle_decode s = rle_dec_loop False s"

lemma b64_roundtrip: "b64_decode (b64_encode s) = Inr s"
  by (simp add: b64_decode_def b64_encode_def strip_eq_groups urlsafe_b64decode_groups)

lemma rle_dec_zeros:
  "n < 256 \<Longrightarrow> rle_dec_loop z (map byte_of (if n \<noteq> 0 then [0, n] else []) @ s) =
     replicate n 0 @ rle_dec_loop (z \<and> n = 0) s"
proof -
  assume "n < 256"
  then have "byte_of n = 0 \<longleftrightarrow> n = 0" by (metis unat_0 unat_byte_of unat_eq_zero)
  with \<open>n < 256\<close> show ?thesis by (simp add: byte_of_def)
qed

lemma rle_dec_loop_encoded:
  "\<forall>k \<in> set (rle_loop n s). k < 256 \<Longrightarrow> rle_dec_loop False (map byte_of (rle_loop n s)) = replicate n 0 @ s"
proof (induction n s rule: rle_loop.induct)
  case (1 n)
  then show ?case using rle_dec_zeros [of n False "[]"] by (cases "n = 0") auto
next
  case (2 n b s)
  show ?case
  proof (cases "b = 0")
    case True
    with 2 show ?thesis by (simp flip: replicate_append_same)
  next
    case False
    with 2 have "n < 256 \<or> n = 0" by (auto split: if_splits)
    with 2 False have n: "n < 256" by auto
    have IH: "rle_dec_loop False (map byte_of (rle_loop 0 s)) = s" using 2 False by simp
    show ?thesis
      using False IH rle_dec_zeros [OF n, of False "b # map byte_of (rle_loop 0 s)"] by simp
  qed
qed

lemma rle_roundtrip: "rle_encode s = Inr e \<Longrightarrow> rle_decode e = s"
  using rle_dec_loop_encoded [of 0 s]
  by (auto simp: rle_encode_def rle_decode_def bytes_of_ints_def split: if_splits)

text \<open>The encoder fails exactly on a run of more than 255 zero bytes.\<close>

lemma sublist_replicate: "sublist (replicate k x) (replicate n x) \<longleftrightarrow> k \<le> n"
proof
  assume "sublist (replicate k x) (replicate n x)"
  then show "k \<le> n" by (metis length_replicate sublist_length_le)
next
  assume "k \<le> n"
  then have "replicate n x = replicate k x @ replicate (n - k) x" by (simp add: replicate_add [symmetric])
  then show "sublist (replicate k x) (replicate n x)" by (metis append_Nil sublist_appendI)
qed

lemma sublist_run_append:
  assumes "b \<noteq> x" "0 < k"
  shows "sublist (replicate k x) (replicate n x @ b # s) \<longleftrightarrow> k \<le> n \<or> sublist (replicate k x) s"
proof -
  have "ys = []" if "replicate k x = xs @ ys" "prefix ys (b # s)" for xs ys
  proof (cases ys)
    case (Cons y zs)
    then have "y \<in> set (replicate k x)" using that(1) by simp
    with that(2) Cons assms(1) show ?thesis by simp
  qed
  then have "k \<le> n"
    if "replicate k x = xs @ ys" "suffix xs (replicate n x)" "prefix ys (b # s)" for xs ys
    using that suffix_length_le by (metis append_Nil2 length_replicate)
  moreover have "\<not> prefix (replicate k x) (b # s)" using assms by (cases k) auto
  ultimately show ?thesis
    unfolding sublist_append sublist_Cons_right sublist_replicate by blast
qed

lemma rle_loop_big:
  "(\<exists>k \<in> set (rle_loop n s). 256 \<le> k) \<longleftrightarrow> sublist (replicate 256 0) (replicate n 0 @ s)"
proof (induction n s rule: rle_loop.induct)
  case (1 n)
  then show ?case by (auto simp: sublist_replicate)
next
  case (2 n b s)
  show ?case
  proof (cases "b = 0")
    case True
    with 2 show ?thesis by (simp flip: replicate_append_same)
  next
    case False
    have "\<not> 256 \<le> unat b" using unat_byte_lt [of b] by linarith
    with 2 False show ?thesis by (auto simp: sublist_run_append)
  qed
qed

text \<open>
  The zero-run encoder fails exactly on data with 256 zero bytes in a row, with
  \<open>ValueError\<close>; everything else it encodes comes back from the decoder.
\<close>

theorem rle_encode_exact:
  "(case rle_encode s of
      Inl e \<Rightarrow> e = ValueError \<and> sublist (replicate 256 0) s
    | Inr e \<Rightarrow> rle_decode e = s \<and> \<not> sublist (replicate 256 0) s)"
proof -
  have "(\<exists>k \<in> set (rle_loop 0 s). \<not> k < 256) \<longleftrightarrow> sublist (replicate 256 0) s"
    using rle_loop_big [of 0 s] by (simp add: not_less)
  moreover have "rle_encode s = Inr e \<Longrightarrow> rle_decode e = s" for e by (rule rle_roundtrip)
  ultimately show ?thesis
    by (auto simp: rle_encode_def bytes_of_ints_def)
qed

section \<open>The enumerations\<close>

datatype FileType =
    FT_THUMBNAIL | FT_CHAT_PHOTO | FT_PHOTO | FT_VOICE | FT_VIDEO | FT_DOCUMENT | FT_ENCRYPTED | FT_TEMP
  | FT_STICKER | FT_AUDIO | FT_ANIMATION | FT_ENCRYPTED_THUMBNAIL | FT_WALLPAPER | FT_VIDEO_NOTE
  | FT_SECURE_RAW | FT_SECURE | FT_BACKGROUND | FT_DOCUMENT_AS_FILE

definition FileTypes :: "FileType list" where
  "FileTypes = [FT_THUMBNAIL, FT_CHAT_PHOTO, FT_PHOTO, FT_VOICE, FT_VIDEO, FT_DOCUMENT, FT_ENCRYPTED, FT_TEMP,
     FT_STICKER, FT_AUDIO, FT_ANIMATION, FT_ENCRYPTED_THUMBNAIL, FT_WALLPAPER, FT_VIDEO_NOTE,
     FT_SECURE_RAW, FT_SECURE, FT_BACKGROUND, FT_DOCUMENT_AS_FILE]"

datatype ThumbnailSource =
    TS_LEGACY | TS_THUMBNAIL | TS_CHAT_PHOTO_SMALL | TS_CHAT_PHOTO_BIG | TS_STICKER_SET_THUMBNAIL
  | TS_FULL_LEGACY | TS_CHAT_PHOTO_SMALL_LEGACY | TS_CHAT_PHOTO_BIG_LEGACY
  | TS_STICKER_SET_THUMBNAIL_LEGACY | TS_STICKER_SET_THUMBNAIL_VERSION

definition ThumbnailSources :: "ThumbnailSource list" where
  "ThumbnailSources = [TS_LEGACY, TS_THUMBNAIL, TS_CHAT_PHOTO_SMALL, TS_CHAT_PHOTO_BIG, TS_STICKER_SET_THUMBNAIL,
     TS_FULL_LEGACY, TS_CHAT_PHOTO_SMALL_LEGACY, TS_CHAT_PHOTO_BIG_LEGACY, TS_STICKER_SET_THUMBNAIL_LEGACY,
     TS_STICKER_SET_THUMBNAIL_VERSION]"

datatype FileUniqueType = FU_WEB | FU_PHOTO | FU_DOCUMENT | FU_SECURE | FU_ENCRYPTED | FU_TEMP

definition FileUniqueTypes :: "FileUniqueType list" where
  "FileUniqueTypes = [FU_WEB, FU_PHOTO, FU_DOCUMENT, FU_SECURE, FU_ENCRYPTED, FU_TEMP]"

text \<open>
  The members of the three enumerations are numbered from 0 in this order: the value of a member is
  its position, and calling the class with a number looks it up.
\<close>

definition enum_value :: "'e list \<Rightarrow> 'e \<Rightarrow> int" where
  "enum_value es e = int (length (takeWhile (\<lambda>x. x \<noteq> e) es))"

definition enum_of :: "'e list \<Rightarrow> int \<Rightarrow> 'e result" where
  "enum_of es n = (if 0 \<le> n \<and> n < int (length es) then Inr (es ! nat n) else Inl ValueError)"

lemma enum_of_value:
  assumes "e \<in> set es"
  shows "enum_of es (enum_value es e) = Inr e"
proof -
  have "length (takeWhile (\<lambda>x. x \<noteq> e) es) < length es"
    using assms by (metis (mono_tags, lifting) le_neq_implies_less length_takeWhile_le set_takeWhileD takeWhile_eq_take take_all_iff le_refl)
  moreover from this have "es ! length (takeWhile (\<lambda>x. x \<noteq> e) es) = e"
    using nth_length_takeWhile by blast
  ultimately show ?thesis by (simp add: enum_of_def enum_value_def)
qed

lemma enum_complete [simp]: "t \<in> set FileTypes" "ts \<in> set ThumbnailSources" "u \<in> set FileUniqueTypes"
proof -
  show "t \<in> set FileTypes" by (cases t) (simp_all add: FileTypes_def)
  show "ts \<in> set ThumbnailSources" by (cases ts) (simp_all add: ThumbnailSources_def)
  show "u \<in> set FileUniqueTypes" by (cases u) (simp_all add: FileUniqueTypes_def)
qed

definition PHOTO_TYPES :: "FileType list" where
  "PHOTO_TYPES = [FT_THUMBNAIL, FT_CHAT_PHOTO, FT_PHOTO, FT_WALLPAPER, FT_ENCRYPTED_THUMBNAIL]"

definition DOCUMENT_TYPES :: "FileType list" where
  "DOCUMENT_TYPES = filter (\<lambda>t. t \<notin> set PHOTO_TYPES) FileTypes"

definition WEB_LOCATION_FLAG :: int where "WEB_LOCATION_FLAG = push_bit 24 1"
definition FILE_REFERENCE_FLAG :: int where "FILE_REFERENCE_FLAG = push_bit 25 1"

section \<open>FileId\<close>

record FileId =
  fi_major :: int
  fi_minor :: int
  file_type :: FileType
  dc_id :: int
  file_reference :: bytes
  url :: "ustr option"
  media_id :: "int option"
  access_hash :: "int option"
  volume_id :: "int option"
  thumbnail_source :: "ThumbnailSource option"
  thumbnail_file_type :: "int option"
  thumbnail_size :: ustr
  secret :: "int option"
  local_id :: "int option"
  chat_id :: "int option"
  chat_access_hash :: "int option"
  sticker_set_id :: "int option"
  sticker_set_access_hash :: "int option"
  sticker_set_version :: "int option"

text \<open>The constructor with the defaults of its keyword arguments.\<close>

definition FileId_new :: "int \<Rightarrow> int \<Rightarrow> FileType \<Rightarrow> int \<Rightarrow> FileId" where
  "FileId_new ma mi t dc =
     \<lparr>fi_major = ma, fi_minor = mi, file_type = t, dc_id = dc, file_reference = [], url = None, media_id = None,
      access_hash = None, volume_id = None, thumbnail_source = None, thumbnail_file_type = None,
      thumbnail_size = [], secret = None, local_id = None, chat_id = None, chat_access_hash = None,
      sticker_set_id = None, sticker_set_access_hash = None, sticker_set_version = None\<rparr>"

text \<open>
  \<open>struct.unpack(fmt, buffer.read(n))\<close> for a format of little-endian signed integers, given by
  their sizes, and \<open>struct.pack\<close> of attributes that may be \<open>None\<close>.
\<close>

definition unpackS :: "nat list \<Rightarrow> int list reader" where
  "unpackS ns =
     bindS (readS (int (sum_list ns))) (\<lambda>bs.
       liftS (bindR (struct_unpack False (map (\<lambda>n. CInt n True) ns) bs)
         (\<lambda>vs. Inr (map (\<lambda>v. case v of VInt i \<Rightarrow> i | _ \<Rightarrow> 0) vs))))"

definition oval :: "int option \<Rightarrow> sval" where
  "oval v = (case v of None \<Rightarrow> VNone | Some i \<Rightarrow> VInt i)"

definition packI :: "nat list \<Rightarrow> int option list \<Rightarrow> bytes result" where
  "packI ns vs = struct_pack False (map (\<lambda>n. CInt n True) ns) (map oval vs)"

lemma packI_Cons:
  "packI (n # ns) (v # vs) = Inr bs \<longleftrightarrow>
     (\<exists>i bs'. v = Some i \<and> fits True n i \<and> packI ns vs = Inr bs' \<and> bs = le_of_int n i @ bs')"
  by (cases v) (auto simp: packI_def oval_def bindR_Inr_iff pack_int_def order_def)

lemma packI_Nil [simp]: "packI [] [] = Inr []"
  by (simp add: packI_def)

lemma packI_exact:
  "packI ns vs = Inr bs \<Longrightarrow>
     (\<exists>is. vs = map Some is \<and> exacts (map (\<lambda>n. CInt n True) ns) (map VInt is))"
proof (induction ns arbitrary: vs bs)
  case Nil
  then show ?case by (cases vs) (auto simp: packI_def)
next
  case (Cons n ns)
  then obtain v vs' where vs: "vs = v # vs'" by (cases vs) (auto simp: packI_def)
  with Cons.prems obtain i bs' where i: "v = Some i" "fits True n i" "packI ns vs' = Inr bs'"
    by (auto simp: packI_Cons)
  from Cons.IH [OF i(3)] obtain js where "vs' = map Some js" "exacts (map (\<lambda>n. CInt n True) ns) (map VInt js)"
    by blast
  with i(1,2) vs show ?case by (intro exI [of _ "i # js"]) simp
qed

lemma calcsize_ints: "calcsize (map (\<lambda>n. CInt n True) ns) = sum_list ns"
  by (induction ns) auto

text \<open>What was packed is unpacked, and only whole integers are packed.\<close>

lemma unpackS_packI:
  assumes "packI ns vs = Inr bs"
  shows "unpackS ns (bs @ rest) = (Inr (map the vs), rest)"
proof -
  from packI_exact [OF assms] obtain js where js: "vs = map Some js"
    "exacts (map (\<lambda>n. CInt n True) ns) (map VInt js)" by blast
  have p: "struct_pack False (map (\<lambda>n. CInt n True) ns) (map VInt js) = Inr bs"
    using assms js(1) by (simp add: packI_def oval_def comp_def)
  have "struct_unpack False (map (\<lambda>n. CInt n True) ns) bs = Inr (map VInt js)"
    using js(2) p by (rule struct_roundtrip)
  moreover have "length bs = sum_list ns"
    using struct_pack_length [OF p] by (simp add: calcsize_ints)
  ultimately show ?thesis
    using read_exact [of "sum_list ns" bs rest] js(1) by (simp add: unpackS_def bindS_def comp_def)
qed

text \<open>The block of fields a thumbnail source has, read and written.\<close>

definition read_source :: "ThumbnailSource \<Rightarrow> FileId \<Rightarrow> FileId reader" where
  "read_source ts f =
     (case ts of
        TS_LEGACY \<Rightarrow> bindS (unpackS [8]) (\<lambda>v. retS (f\<lparr>secret := Some (v ! 0)\<rparr>))
      | TS_THUMBNAIL \<Rightarrow> bindS (unpackS [4, 4]) (\<lambda>v.
          if 0 \<le> v ! 1 \<and> v ! 1 \<le> 1114111
          then retS (f\<lparr>thumbnail_file_type := Some (v ! 0), thumbnail_size := [nat (v ! 1)]\<rparr>)
          else liftS (Inl ValueError))
      | TS_CHAT_PHOTO_SMALL \<Rightarrow> bindS (unpackS [8, 8]) (\<lambda>v.
          retS (f\<lparr>chat_id := Some (v ! 0), chat_access_hash := Some (v ! 1)\<rparr>))
      | TS_CHAT_PHOTO_BIG \<Rightarrow> bindS (unpackS [8, 8]) (\<lambda>v.
          retS (f\<lparr>chat_id := Some (v ! 0), chat_access_hash := Some (v ! 1)\<rparr>))
      | TS_STICKER_SET_THUMBNAIL \<Rightarrow> bindS (unpackS [8, 8]) (\<lambda>v.
          retS (f\<lparr>sticker_set_id := Some (v ! 0), sticker_set_access_hash := Some (v ! 1)\<rparr>))
      | TS_FULL_LEGACY \<Rightarrow> bindS (unpackS [8, 8, 4]) (\<lambda>v.
          retS (f\<lparr>volume_id := Some (v ! 0), secret := Some (v ! 1), local_id := Some (v ! 2)\<rparr>))
      | TS_STICKER_SET_THUMBNAIL_LEGACY \<Rightarrow> bindS (unpackS [8, 8, 8, 4]) (\<lambda>v.
          retS (f\<lparr>sticker_set_id := Some (v ! 0), sticker_set_access_hash := Some (v ! 1),
            volume_id := Some (v ! 2), local_id := Some (v ! 3)\<rparr>))
      | TS_STICKER_SET_THUMBNAIL_VERSION \<Rightarrow> bindS (unpackS [8, 8, 4]) (\<lambda>v.
          retS (f\<lparr>sticker_set_id := Some (v ! 0), sticker_set_access_hash := Some (v ! 1),
            sticker_set_version := Some (v ! 2)\<rparr>))
      | _ \<Rightarrow> bindS (unpackS [8, 8, 8, 4]) (\<lambda>v.
          retS (f\<lparr>chat_id := Some (v ! 0), chat_access_hash := Some (v ! 1),
            volume_id := Some (v ! 2), local_id := Some (v ! 3)\<rparr>)))"

text \<open>\<open>ord(s)\<close>.\<close>

definition py_ord :: "ustr \<Rightarrow> int result" where
  "py_ord s = (case s of [c] \<Rightarrow> Inr (int c) | _ \<Rightarrow> Inl TypeError)"

definition write_source :: "FileId \<Rightarrow> bytes result" where
  "write_source f =
     (case thumbnail_source f of
        None \<Rightarrow> Inr []
      | Some ts \<Rightarrow>
          (case ts of
             TS_LEGACY \<Rightarrow> packI [8] [secret f]
           | TS_THUMBNAIL \<Rightarrow>
               bindR (py_ord (thumbnail_size f)) (\<lambda>c. packI [4, 4] [thumbnail_file_type f, Some c])
           | TS_CHAT_PHOTO_SMALL \<Rightarrow> packI [8, 8] [chat_id f, chat_access_hash f]
           | TS_CHAT_PHOTO_BIG \<Rightarrow> packI [8, 8] [chat_id f, chat_access_hash f]
           | TS_STICKER_SET_THUMBNAIL \<Rightarrow> packI [8, 8] [sticker_set_id f, sticker_set_access_hash f]
           | TS_FULL_LEGACY \<Rightarrow> packI [8, 8, 4] [volume_id f, secret f, local_id f]
           | TS_STICKER_SET_THUMBNAIL_LEGACY \<Rightarrow>
               packI [8, 8, 8, 4] [sticker_set_id f, sticker_set_access_hash f, volume_id f, local_id f]
           | TS_STICKER_SET_THUMBNAIL_VERSION \<Rightarrow>
               packI [8, 8, 4] [sticker_set_id f, sticker_set_access_hash f, sticker_set_version f]
           | _ \<Rightarrow> packI [8, 8, 8, 4] [chat_id f, chat_access_hash f, volume_id f, local_id f]))"

text \<open>The photo part of \<open>_decode\<close>, after the media id and the access hash.\<close>

definition read_photo :: "FileId \<Rightarrow> FileId reader" where
  "read_photo f =
     (let has_volume_and_local_id = fi_minor f < 32 in
      bindS (if has_volume_and_local_id
             then bindS (unpackS [8]) (\<lambda>v. retS (Some (v ! 0))) else retS None) (\<lambda>vol.
      bindS (if fi_major f < 4 then retS 0 else bindS (unpackS [4]) (\<lambda>v. retS (v ! 0))) (\<lambda>src.
      bindS (liftS (enum_of ThumbnailSources src)) (\<lambda>ts.
      bindS (read_source ts (f\<lparr>volume_id := vol, thumbnail_source := Some ts\<rparr>)) (\<lambda>g.
        if has_volume_and_local_id
        then bindS (unpackS [4]) (\<lambda>v. retS (g\<lparr>local_id := Some (v ! 0)\<rparr>))
        else retS g)))))"

definition FileId_read :: "int \<Rightarrow> int \<Rightarrow> FileId reader" where
  "FileId_read ma mi =
     bindS (unpackS [4, 4]) (\<lambda>hd.
       let word = hd ! 0;
           has_web_location = word AND WEB_LOCATION_FLAG \<noteq> 0;
           has_file_reference = word AND FILE_REFERENCE_FLAG \<noteq> 0;
           word = word AND NOT WEB_LOCATION_FLAG;
           word = word AND NOT FILE_REFERENCE_FLAG
       in bindS (liftS (enum_of FileTypes word)) (\<lambda>t.
         let f = FileId_new ma mi t (hd ! 1) in
         if has_web_location then
           bindS String_read (\<lambda>u. bindS (unpackS [8]) (\<lambda>v.
             retS (f\<lparr>url := Some u, access_hash := Some (v ! 0)\<rparr>)))
         else
           bindS (if has_file_reference then Bytes_read else retS []) (\<lambda>ref.
           bindS (unpackS [8, 8]) (\<lambda>v.
             let f = f\<lparr>file_reference := ref, media_id := Some (v ! 0), access_hash := Some (v ! 1)\<rparr> in
             if t \<in> set PHOTO_TYPES then read_photo f else retS f))))"

text \<open>\<open>_decode\<close>: the version at the end, then the fields.\<close>

definition FileId_decode0 :: "ustr \<Rightarrow> FileId result" where
  "FileId_decode0 file_id =
     bindR (b64_decode file_id) (\<lambda>b.
       let decoded = rle_decode b in
       if decoded = [] then Inl IndexError
       else
         let major = int (unat (last decoded)) in
         if major < 4 then fst (FileId_read major 0 (butlast decoded))
         else if length decoded < 2 then Inl IndexError
         else fst (FileId_read major (int (unat (last (butlast decoded)))) (butlast (butlast decoded))))"

text \<open>\<open>decode\<close>: the errors of a malformed buffer become \<open>ValueError\<close>.\<close>

definition as_ValueError :: "'a result \<Rightarrow> 'a result" where
  "as_ValueError r =
     (case r of Inl e \<Rightarrow> Inl (if e \<in> {StructError, IndexError, TypeError} then ValueError else e) | Inr x \<Rightarrow> Inr x)"

definition FileId_decode :: "ustr \<Rightarrow> FileId result" where
  "FileId_decode file_id = as_ValueError (FileId_decode0 file_id)"

definition write_photo :: "FileId \<Rightarrow> int \<Rightarrow> int \<Rightarrow> bytes result" where
  "write_photo f major minor =
     (let has_volume_and_local_id = minor < 32 in
      bindR (if has_volume_and_local_id then packI [8] [volume_id f] else Inr []) (\<lambda>vol.
      bindR (if 4 \<le> major
             then packI [4] [map_option (enum_value ThumbnailSources) (thumbnail_source f)] else Inr []) (\<lambda>src.
      bindR (write_source f) (\<lambda>body.
      bindR (if has_volume_and_local_id then packI [4] [local_id f] else Inr []) (\<lambda>loc.
        Inr (vol @ src @ body @ loc))))))"

text \<open>
  \<open>encode\<close>. The document branch tests the type with its flags, so a flagged document gets no
  second copy of the version.
\<close>

definition FileId_encode :: "FileId \<Rightarrow> int option \<Rightarrow> int option \<Rightarrow> ustr result" where
  "FileId_encode f major_arg minor_arg =
     (let major = (case major_arg of None \<Rightarrow> fi_major f | Some m \<Rightarrow> m);
          minor = (case minor_arg of None \<Rightarrow> fi_minor f | Some m \<Rightarrow> m);
          has_url = (case url f of None \<Rightarrow> False | Some u \<Rightarrow> u \<noteq> []);
          has_ref = (file_reference f \<noteq> []);
          word0 = enum_value FileTypes (file_type f);
          word1 = (if has_url then word0 OR WEB_LOCATION_FLAG else word0);
          word = (if has_ref then word1 OR FILE_REFERENCE_FLAG else word1)
      in
      bindR (packI [4, 4] [Some word, Some (dc_id f)]) (\<lambda>hd.
      bindR (if has_url then String_new (the (url f)) else Inr []) (\<lambda>u.
      bindR (if has_ref then Bytes_new (file_reference f) else Inr []) (\<lambda>ref.
      bindR (packI [8, 8] [media_id f, access_hash f]) (\<lambda>ids.
      bindR (if file_type f \<in> set PHOTO_TYPES then write_photo f major minor
             else if word \<in> enum_value FileTypes ` set DOCUMENT_TYPES
               then packI [4, 4] [Some minor, Some major]
             else Inr []) (\<lambda>body.
      bindR (packI [1, 1] [Some minor, Some major]) (\<lambda>ver.
      bindR (rle_encode (hd @ u @ ref @ ids @ body @ ver)) (\<lambda>r.
        Inr (b64_encode r)))))))))"

section \<open>Round trip\<close>

text \<open>
  The identifiers \<open>decode\<close> builds, web locations apart: exactly the fields of the thumbnail
  source are there, the version fits a signed byte, and versions below 4 have no minor part and only
  the legacy source.
\<close>

definition has :: "bool \<Rightarrow> 'a option \<Rightarrow> bool" where
  "has b x = (if b then x \<noteq> None else x = None)"

abbreviation legacy_sources :: "ThumbnailSource list" where
  "legacy_sources \<equiv> [TS_FULL_LEGACY, TS_CHAT_PHOTO_SMALL_LEGACY, TS_CHAT_PHOTO_BIG_LEGACY,
     TS_STICKER_SET_THUMBNAIL_LEGACY]"

abbreviation chat_sources :: "ThumbnailSource list" where
  "chat_sources \<equiv> [TS_CHAT_PHOTO_SMALL, TS_CHAT_PHOTO_BIG, TS_CHAT_PHOTO_SMALL_LEGACY, TS_CHAT_PHOTO_BIG_LEGACY]"

abbreviation sticker_sources :: "ThumbnailSource list" where
  "sticker_sources \<equiv> [TS_STICKER_SET_THUMBNAIL, TS_STICKER_SET_THUMBNAIL_LEGACY, TS_STICKER_SET_THUMBNAIL_VERSION]"

definition photo_canonical :: "FileId \<Rightarrow> bool" where
  "photo_canonical f =
     (case thumbnail_source f of
        None \<Rightarrow> False
      | Some ts \<Rightarrow>
          (fi_major f < 4 \<longrightarrow> ts = TS_LEGACY) \<and>
          has (ts \<in> set [TS_LEGACY, TS_FULL_LEGACY]) (secret f) \<and>
          has (ts = TS_THUMBNAIL) (thumbnail_file_type f) \<and>
          (if ts = TS_THUMBNAIL then length (thumbnail_size f) = 1 \<and> is_ustr (thumbnail_size f)
           else thumbnail_size f = []) \<and>
          has (ts \<in> set chat_sources) (chat_id f) \<and> has (ts \<in> set chat_sources) (chat_access_hash f) \<and>
          has (ts \<in> set sticker_sources) (sticker_set_id f) \<and>
          has (ts \<in> set sticker_sources) (sticker_set_access_hash f) \<and>
          has (ts = TS_STICKER_SET_THUMBNAIL_VERSION) (sticker_set_version f) \<and>
          has (fi_minor f < 32 \<or> ts \<in> set legacy_sources) (volume_id f) \<and>
          has (fi_minor f < 32 \<or> ts \<in> set legacy_sources) (local_id f))"

definition canonical :: "FileId \<Rightarrow> bool" where
  "canonical f =
     (0 \<le> fi_major f \<and> 0 \<le> fi_minor f \<and> (fi_major f < 4 \<longrightarrow> fi_minor f = 0) \<and> url f = None \<and>
      (if file_type f \<in> set PHOTO_TYPES then photo_canonical f
       else f = (FileId_new (fi_major f) (fi_minor f) (file_type f) (dc_id f))
              \<lparr>file_reference := file_reference f, media_id := media_id f, access_hash := access_hash f\<rparr>))"

lemma bindS_ret_unpack: "packI ns vs = Inr bs \<Longrightarrow>
    bindS (unpackS ns) f (bs @ rest) = f (map the vs) rest"
  by (simp add: bindS_def unpackS_packI)

lemma packI_unpackS_nil: "packI ns vs = Inr bs \<Longrightarrow> unpackS ns bs = (Inr (map the vs), [])"
  using unpackS_packI [of ns vs bs "[]"] by simp

lemma py_ord_Inr: "py_ord s = Inr c \<longleftrightarrow> (\<exists>x. s = [x] \<and> c = int x)"
  by (auto simp: py_ord_def split: list.splits)

lemma bindS_bindS: "bindS (bindS m f) g s = bindS m (\<lambda>x. bindS (f x) g) s"
  by (auto simp: bindS_def split: prod.splits sum.splits)

lemma FileId_eqI:
  assumes "fi_major f = fi_major g" "fi_minor f = fi_minor g" "file_type f = file_type g" "dc_id f = dc_id g"
    "file_reference f = file_reference g" "url f = url g" "media_id f = media_id g" "access_hash f = access_hash g"
    "volume_id f = volume_id g" "thumbnail_source f = thumbnail_source g"
    "thumbnail_file_type f = thumbnail_file_type g" "thumbnail_size f = thumbnail_size g" "secret f = secret g"
    "local_id f = local_id g" "chat_id f = chat_id g" "chat_access_hash f = chat_access_hash g"
    "sticker_set_id f = sticker_set_id g" "sticker_set_access_hash f = sticker_set_access_hash g"
    "sticker_set_version f = sticker_set_version g"
  shows "f = (g :: FileId)"
  by (rule FileId.equality) (simp_all add: assms)

definition same_base :: "FileId \<Rightarrow> FileId \<Rightarrow> bool" where
  "same_base g f =
     (fi_major g = fi_major f \<and> fi_minor g = fi_minor f \<and> file_type g = file_type f \<and> dc_id g = dc_id f \<and>
      file_reference g = file_reference f \<and> url g = url f \<and> media_id g = media_id f \<and>
      access_hash g = access_hash f \<and> thumbnail_source g = thumbnail_source f \<and>
      volume_id g = (if fi_minor f < 32 then volume_id f else None) \<and>
      thumbnail_file_type g = None \<and> thumbnail_size g = [] \<and> secret g = None \<and> local_id g = None \<and>
      chat_id g = None \<and> chat_access_hash g = None \<and> sticker_set_id g = None \<and>
      sticker_set_access_hash g = None \<and> sticker_set_version g = None)"

lemma read_source_written:
  assumes "write_source f = Inr bs" "photo_canonical f" "thumbnail_source f = Some ts" "same_base g f"
  shows "read_source ts g (bs @ rest) =
    (Inr (f\<lparr>local_id := if ts \<in> set legacy_sources then local_id f else None\<rparr>), rest)"
proof -
  note wr = assms(1) [unfolded write_source_def assms(3) option.case]
  note ok = assms(2) [unfolded photo_canonical_def assms(3) option.case]
  note g = assms(4) [unfolded same_base_def assms(3)]
  show ?thesis
  proof (cases ts)
    case TS_THUMBNAIL
    with wr obtain c where c: "thumbnail_size f = [c]" and p: "packI [4, 4] [thumbnail_file_type f, Some (int c)] = Inr bs"
      by (auto simp: bindR_Inr_iff py_ord_Inr)
    have "c \<le> 1114111" using ok TS_THUMBNAIL c by (simp add: is_ustr_def)
    then show ?thesis
      unfolding TS_THUMBNAIL
      by (simp add: read_source_def bindS_ret_unpack [OF p])
        (rule FileId_eqI; use ok g TS_THUMBNAIL c assms(3) in \<open>auto simp: has_def\<close>)
  next
    case TS_LEGACY
    show ?thesis
      using wr unfolding TS_LEGACY
      by (simp add: read_source_def bindS_ret_unpack)
        (rule FileId_eqI; use ok g TS_LEGACY assms(3) in \<open>auto simp: has_def\<close>)
  next
    case TS_CHAT_PHOTO_SMALL
    show ?thesis
      using wr unfolding TS_CHAT_PHOTO_SMALL
      by (simp add: read_source_def bindS_ret_unpack)
        (rule FileId_eqI; use ok g TS_CHAT_PHOTO_SMALL assms(3) in \<open>auto simp: has_def\<close>)
  next
    case TS_CHAT_PHOTO_BIG
    show ?thesis
      using wr unfolding TS_CHAT_PHOTO_BIG
      by (simp add: read_source_def bindS_ret_unpack)
        (rule FileId_eqI; use ok g TS_CHAT_PHOTO_BIG assms(3) in \<open>auto simp: has_def\<close>)
  next
    case TS_STICKER_SET_THUMBNAIL
    show ?thesis
      using wr unfolding TS_STICKER_SET_THUMBNAIL
      by (simp add: read_source_def bindS_ret_unpack)
        (rule FileId_eqI; use ok g TS_STICKER_SET_THUMBNAIL assms(3) in \<open>auto simp: has_def\<close>)
  next
    case TS_FULL_LEGACY
    show ?thesis
      using wr unfolding TS_FULL_LEGACY
      by (simp add: read_source_def bindS_ret_unpack)
        (rule FileId_eqI; use ok g TS_FULL_LEGACY assms(3) in \<open>auto simp: has_def\<close>)
  next
    case TS_CHAT_PHOTO_SMALL_LEGACY
    show ?thesis
      using wr unfolding TS_CHAT_PHOTO_SMALL_LEGACY
      by (simp add: read_source_def bindS_ret_unpack)
        (rule FileId_eqI; use ok g TS_CHAT_PHOTO_SMALL_LEGACY assms(3) in \<open>auto simp: has_def\<close>)
  next
    case TS_CHAT_PHOTO_BIG_LEGACY
    show ?thesis
      using wr unfolding TS_CHAT_PHOTO_BIG_LEGACY
      by (simp add: read_source_def bindS_ret_unpack)
        (rule FileId_eqI; use ok g TS_CHAT_PHOTO_BIG_LEGACY assms(3) in \<open>auto simp: has_def\<close>)
  next
    case TS_STICKER_SET_THUMBNAIL_LEGACY
    show ?thesis
      using wr unfolding TS_STICKER_SET_THUMBNAIL_LEGACY
      by (simp add: read_source_def bindS_ret_unpack)
        (rule FileId_eqI; use ok g TS_STICKER_SET_THUMBNAIL_LEGACY assms(3) in \<open>auto simp: has_def\<close>)
  next
    case TS_STICKER_SET_THUMBNAIL_VERSION
    show ?thesis
      using wr unfolding TS_STICKER_SET_THUMBNAIL_VERSION
      by (simp add: read_source_def bindS_ret_unpack)
        (rule FileId_eqI; use ok g TS_STICKER_SET_THUMBNAIL_VERSION assms(3) in \<open>auto simp: has_def\<close>)
  qed
qed

lemma read_photo_written:
  assumes w: "write_photo f (fi_major f) (fi_minor f) = Inr bs" and ok: "photo_canonical f"
    and g': "g = (FileId_new (fi_major f) (fi_minor f) (file_type f) (dc_id f))
        \<lparr>file_reference := file_reference f, url := url f, media_id := media_id f, access_hash := access_hash f\<rparr>"
  shows "read_photo g (bs @ rest) = (Inr f, rest)"
proof -
  have g: "fi_major g = fi_major f" "fi_minor g = fi_minor f" by (simp_all add: g' FileId_new_def)
  obtain ts where ts: "thumbnail_source f = Some ts" using ok by (auto simp: photo_canonical_def split: option.splits)
  define hv where "hv = (fi_minor f < 32)"
  from w obtain vol src body loc where
    vol: "(if hv then packI [8] [volume_id f] else Inr []) = Inr vol" and
    src: "(if 4 \<le> fi_major f then packI [4] [Some (enum_value ThumbnailSources ts)] else Inr []) = Inr src" and
    body: "write_source f = Inr body" and
    loc: "(if hv then packI [4] [local_id f] else Inr []) = Inr loc" and
    bs: "bs = vol @ src @ body @ loc"
    by (auto simp: write_photo_def Let_def bindR_Inr_iff hv_def ts cong: if_cong)
  have ok': "volume_id f \<noteq> None \<longleftrightarrow> hv \<or> ts \<in> set legacy_sources" "local_id f \<noteq> None \<longleftrightarrow> volume_id f \<noteq> None"
    "fi_major f < 4 \<Longrightarrow> ts = TS_LEGACY"
    using ok by (auto simp: photo_canonical_def has_def ts hv_def split: if_splits)
  have e: "enum_of ThumbnailSources (enum_value ThumbnailSources ts) = Inr ts"
    by (rule enum_of_value) simp
  have z: "enum_of ThumbnailSources 0 = Inr TS_LEGACY" by (simp add: enum_of_def ThumbnailSources_def)
  have 1: "(if hv then bindS (unpackS [8]) (\<lambda>v. retS (Some (v ! 0))) else retS None)
      (vol @ src @ body @ loc @ rest) = (Inr (if hv then volume_id f else None), src @ body @ loc @ rest)"
    using vol ok' by (auto simp: bindS_ret_unpack)
  obtain n where 2: "(if fi_major f < 4 then retS 0 else bindS (unpackS [4]) (\<lambda>v. retS (v ! 0)))
      (src @ body @ loc @ rest) = (Inr n, body @ loc @ rest)" and n: "enum_of ThumbnailSources n = Inr ts"
    using src e z ok'(3) by (cases "fi_major f < 4") (auto simp: bindS_ret_unpack)
  have 3: "(if hv then bindS (unpackS [4]) (\<lambda>v. retS (h\<lparr>local_id := Some (v ! 0)\<rparr>)) else retS h)
      (loc @ rest) = (Inr f, rest)"
    if h: "h = f\<lparr>local_id := if ts \<in> set legacy_sources then local_id f else None\<rparr>" for h
  proof (cases hv)
    case True
    with ok' obtain l where "local_id f = Some l" by auto
    with True loc h show ?thesis by (simp add: bindS_ret_unpack)
  next
    case False
    then have "local_id f = (if ts \<in> set legacy_sources then local_id f else None)" using ok' by auto
    with False loc h show ?thesis by simp
  qed
  have "same_base (g\<lparr>volume_id := if hv then volume_id f else None, thumbnail_source := Some ts\<rparr>) f"
    by (simp add: same_base_def g' FileId_new_def hv_def ts)
  moreover define h where "h = f\<lparr>local_id := if ts \<in> set legacy_sources then local_id f else None\<rparr>"
  ultimately have "read_source ts (g\<lparr>volume_id := if hv then volume_id f else None, thumbnail_source := Some ts\<rparr>)
      (body @ loc @ rest) = (Inr h, loc @ rest)"
    using read_source_written [OF body ok ts] by simp
  with 1 2 n 3 [OF h_def] show ?thesis
    unfolding read_photo_def Let_def bs g hv_def [symmetric] append_assoc
    by (simp add: bindS_Inr del: if_split)
qed

lemma photo_or_document: "t \<notin> set PHOTO_TYPES \<longleftrightarrow> t \<in> set DOCUMENT_TYPES"
  by (cases t) (simp_all add: PHOTO_TYPES_def DOCUMENT_TYPES_def FileTypes_def)

text \<open>The type survives the flag bits, and the flags are read back as they were set.\<close>

lemma flag_bits:
  fixes t :: FileType
  defines "n \<equiv> enum_value FileTypes t"
  shows "n AND WEB_LOCATION_FLAG = 0" "n AND FILE_REFERENCE_FLAG = 0"
    "(n AND NOT WEB_LOCATION_FLAG) AND NOT FILE_REFERENCE_FLAG = n"
    "(n OR FILE_REFERENCE_FLAG) AND WEB_LOCATION_FLAG = 0"
    "(n OR FILE_REFERENCE_FLAG) AND FILE_REFERENCE_FLAG \<noteq> 0"
    "((n OR FILE_REFERENCE_FLAG) AND NOT WEB_LOCATION_FLAG) AND NOT FILE_REFERENCE_FLAG = n"
  unfolding n_def
  by (cases t; simp add: enum_value_def FileTypes_def WEB_LOCATION_FLAG_def FILE_REFERENCE_FLAG_def push_bit_eq_mult)+

lemma version_bytes:
  assumes "packI [1, 1] [Some mi, Some ma] = Inr ver" "0 \<le> mi" "0 \<le> ma"
  obtains b c where "ver = [b, c]" "int (unat b) = mi" "int (unat c) = ma"
proof
  from assms have r: "mi < 128" "ma < 128" "ver = [byte_of (nat (mi mod 256)), byte_of (nat (ma mod 256))]"
    by (auto simp: packI_Cons fits_def le_of_int_def byte_of_def)
  show "ver = [byte_of (nat (mi mod 256)), byte_of (nat (ma mod 256))]" by (rule r(3))
  show "int (unat (byte_of (nat (mi mod 256)))) = mi" "int (unat (byte_of (nat (ma mod 256)))) = ma"
    using r(1,2) assms(2,3) by simp_all
qed

lemma FileId_read_written:
  assumes ok: "canonical f"
    and hdr: "packI [4, 4] [Some (if file_reference f \<noteq> []
        then enum_value FileTypes (file_type f) OR FILE_REFERENCE_FLAG else enum_value FileTypes (file_type f)),
        Some (dc_id f)] = Inr hdr"
    and ref: "(if file_reference f \<noteq> [] then Bytes_new (file_reference f) else Inr []) = Inr ref"
    and ids: "packI [8, 8] [media_id f, access_hash f] = Inr ids"
    and body: "file_type f \<in> set PHOTO_TYPES \<Longrightarrow> write_photo f (fi_major f) (fi_minor f) = Inr body"
  shows "fst (FileId_read (fi_major f) (fi_minor f) (hdr @ ref @ ids @ body @ rest)) = Inr f"
proof -
  have e: "enum_of FileTypes (enum_value FileTypes (file_type f)) = Inr (file_type f)"
    by (rule enum_of_value) simp
  have url: "url f = None" using ok by (simp add: canonical_def)
  from ids obtain m a where ma: "media_id f = Some m" "access_hash f = Some a" by (auto simp: packI_Cons)
  have r: "(if file_reference f \<noteq> [] then Bytes_read else retS []) (ref @ ids @ body @ rest) =
      (Inr (file_reference f), ids @ body @ rest)"
    using ref by (auto intro: Bytes_roundtrip split: if_splits)
  define g where "g = (FileId_new (fi_major f) (fi_minor f) (file_type f) (dc_id f))
      \<lparr>file_reference := file_reference f, media_id := media_id f, access_hash := access_hash f\<rparr>"
  have h: "FileId_read (fi_major f) (fi_minor f) (hdr @ ref @ ids @ body @ rest) =
      (if file_type f \<in> set PHOTO_TYPES then read_photo g else retS g) (body @ rest)"
    using hdr r e ids ma flag_bits [of "file_type f"]
    by (cases "file_reference f = []")
      (simp_all add: FileId_read_def Let_def bindS_ret_unpack g_def bindS_def [of "if _ then _ else _"]
        bindS_def [of "liftS _"] bindS_def [of Bytes_read] bindS_def [of "retS _"])
  show ?thesis
  proof (cases "file_type f \<in> set PHOTO_TYPES")
    case True
    have "read_photo g (body @ rest) = (Inr f, rest)"
      using body [OF True] ok True
      by (intro read_photo_written) (simp_all add: canonical_def g_def FileId_new_def url)
    with True h show ?thesis by simp
  next
    case False
    with ok have "f = g" by (simp add: canonical_def g_def)
    with False h show ?thesis by simp
  qed
qed

lemma FileId_decode0_tail:
  assumes "b64_decode s = Inr r" "rle_decode r = xs @ [b, c]"
  shows "FileId_decode0 s =
    (if int (unat c) < 4 then fst (FileId_read (int (unat c)) 0 (xs @ [b]))
     else fst (FileId_read (int (unat c)) (int (unat b)) xs))"
  using assms by (simp add: FileId_decode0_def Let_def butlast_append)

text \<open>
  C2. A file id survives its text form: for photos of every thumbnail source, in both layouts of the
  volume, and for documents, with or without a file reference, \<open>decode\<close> gives back every field
  \<open>encode\<close> was given.
\<close>

theorem FileId_roundtrip:
  assumes "FileId_encode f None None = Inr s" "canonical f"
  shows "FileId_decode s = Inr f"
proof -
  have url: "url f = None" and nn: "0 \<le> fi_minor f" "0 \<le> fi_major f"
    and old: "fi_major f < 4 \<Longrightarrow> fi_minor f = 0" using assms(2) by (simp_all add: canonical_def)
  define n where "n = (if file_reference f \<noteq> []
      then enum_value FileTypes (file_type f) OR FILE_REFERENCE_FLAG else enum_value FileTypes (file_type f))"
  define bodyR where "bodyR =
    (if file_type f \<in> set PHOTO_TYPES then write_photo f (fi_major f) (fi_minor f)
     else if n \<in> enum_value FileTypes ` set DOCUMENT_TYPES then packI [4, 4] [Some (fi_minor f), Some (fi_major f)]
     else Inr [])"
  from assms(1) obtain hdr ref ids body ver r where
    hdr: "packI [4, 4] [Some n, Some (dc_id f)] = Inr hdr" and
    ref: "(if file_reference f \<noteq> [] then Bytes_new (file_reference f) else Inr []) = Inr ref" and
    ids: "packI [8, 8] [media_id f, access_hash f] = Inr ids" and
    bodyR: "bodyR = Inr body" and
    ver: "packI [1, 1] [Some (fi_minor f), Some (fi_major f)] = Inr ver" and
    r: "rle_encode (hdr @ ref @ ids @ body @ ver) = Inr r" and s: "s = b64_encode r"
    unfolding FileId_encode_def Let_def url option.case if_False n_def [symmetric] bodyR_def [symmetric] bindR_simps
    by (auto simp: bindR_Inr_iff simp del: One_nat_def)
  have body: "file_type f \<in> set PHOTO_TYPES \<Longrightarrow> write_photo f (fi_major f) (fi_minor f) = Inr body"
    using bodyR by (simp add: bodyR_def)
  obtain b c where v: "ver = [b, c]" "int (unat b) = fi_minor f" "int (unat c) = fi_major f"
    using ver nn by (rule version_bytes)
  note rd = FileId_read_written [OF assms(2) hdr [unfolded n_def] ref ids body]
  have d: "rle_decode r = (hdr @ ref @ ids @ body) @ [b, c]"
    using rle_roundtrip [OF r] v(1) by simp
  have "FileId_decode0 s = Inr f"
    unfolding s FileId_decode0_tail [OF b64_roundtrip d] v(2,3)
    using rd [of "[b]"] rd [of "[]"] old by (cases "fi_major f < 4") simp_all
  then show ?thesis by (simp add: FileId_decode_def as_ValueError_def)
qed

definition demo_photo :: FileId where
  "demo_photo = (FileId_new 4 30 FT_CHAT_PHOTO 2)
     \<lparr>file_reference := [1, 0, 0, 7], media_id := Some 5, access_hash := Some (-3), volume_id := Some 9,
      thumbnail_source := Some TS_CHAT_PHOTO_SMALL, chat_id := Some 77, chat_access_hash := Some 8, local_id := Some 4\<rparr>"

lemma rle_encode_short:
  assumes "length s < 256"
  shows "\<exists>e. rle_encode s = Inr e"
proof -
  have "\<not> sublist (replicate 256 0) s" using assms by (auto dest: sublist_length_le)
  then have "\<forall>k \<in> set (rle_loop 0 s). k < 256" using rle_loop_big [of 0 s] by (auto simp: not_less)
  then show ?thesis by (simp add: rle_encode_def bytes_of_ints_def)
qed

lemma packI_fits: "fits True n i \<Longrightarrow>
    packI (n # ns) (Some i # vs) = bindR (packI ns vs) (\<lambda>b. Inr (le_of_int n i @ b))"
  by (simp add: packI_def oval_def pack_int_def order_def)

lemma demo_photo_encoded: "\<exists>s. FileId_encode demo_photo None None = Inr s"
proof -
  have w: "write_photo demo_photo 4 30 = Inr (le_of_int 8 9 @ le_of_int 4 2 @ (le_of_int 8 77 @ le_of_int 8 8) @ le_of_int 4 4)"
    by (simp add: write_photo_def demo_photo_def FileId_new_def packI_fits fits_def write_source_def
      enum_value_def ThumbnailSources_def)
  let ?b = "(le_of_int 4 33554433 @ le_of_int 4 2) @ ([4, 1, 0, 0, 7] @ replicate 3 0) @
      (le_of_int 8 5 @ le_of_int 8 (-3)) @
      (le_of_int 8 9 @ le_of_int 4 2 @ (le_of_int 8 77 @ le_of_int 8 8) @ le_of_int 4 4) @
      (le_of_int 1 30 @ le_of_int 1 4)"
  have "FileId_encode demo_photo None None = bindR (rle_encode ?b) (\<lambda>r. Inr (b64_encode r))"
    using w by (simp add: FileId_encode_def demo_photo_def FileId_new_def packI_fits fits_def Bytes_new_def pad4_def
      PHOTO_TYPES_def enum_value_def FileTypes_def FILE_REFERENCE_FLAG_def push_bit_eq_mult)
  moreover obtain r where "rle_encode ?b = Inr r" using rle_encode_short [of ?b] by auto
  ultimately show ?thesis by (simp only: bindR_simps) blast
qed

lemma FileId_roundtrip_witness:
  "\<exists>s. FileId_encode demo_photo None None = Inr s \<and> FileId_decode s = Inr demo_photo"
proof -
  obtain s where s: "FileId_encode demo_photo None None = Inr s" using demo_photo_encoded by blast
  have "canonical demo_photo"
    by (simp add: canonical_def demo_photo_def FileId_new_def PHOTO_TYPES_def photo_canonical_def has_def)
  from FileId_roundtrip [OF s this] s show ?thesis by blast
qed

section \<open>FileUniqueId\<close>

record FileUniqueId =
  file_unique_type :: FileUniqueType
  fu_url :: "ustr option"
  fu_media_id :: "int option"
  fu_volume_id :: "int option"
  fu_local_id :: "int option"

definition FileUniqueId_new :: "FileUniqueType \<Rightarrow> FileUniqueId" where
  "FileUniqueId_new t =
     \<lparr>file_unique_type = t, fu_url = None, fu_media_id = None, fu_volume_id = None, fu_local_id = None\<rparr>"

text \<open>\<open>struct.unpack(fmt, buffer.read())\<close>: everything that is left has to fit the format.\<close>

definition unpack_all :: "nat list \<Rightarrow> int list reader" where
  "unpack_all ns s =
     (if length s = sum_list ns then unpackS ns s else (Inl StructError, []))"

definition FileUniqueId_read :: "FileUniqueId reader" where
  "FileUniqueId_read =
     bindS (unpackS [4]) (\<lambda>v.
     bindS (liftS (enum_of FileUniqueTypes (v ! 0))) (\<lambda>t.
       let f = FileUniqueId_new t in
       case t of
         FU_WEB \<Rightarrow> bindS String_read (\<lambda>u. retS (f\<lparr>fu_url := Some u\<rparr>))
       | FU_PHOTO \<Rightarrow> bindS (unpack_all [8, 4]) (\<lambda>v.
           retS (f\<lparr>fu_volume_id := Some (v ! 0), fu_local_id := Some (v ! 1)\<rparr>))
       | FU_DOCUMENT \<Rightarrow> bindS (unpack_all [8]) (\<lambda>v. retS (f\<lparr>fu_media_id := Some (v ! 0)\<rparr>))
       | _ \<Rightarrow> liftS (Inl ValueError)))"

definition FileUniqueId_decode :: "ustr \<Rightarrow> FileUniqueId result" where
  "FileUniqueId_decode file_unique_id =
     as_ValueError (bindR (b64_decode file_unique_id) (\<lambda>b. fst (FileUniqueId_read (rle_decode b))))"

text \<open>
  \<open>encode\<close>. The format of the web case, \<open><is\<close>, has room for one byte of the string.
\<close>

definition FileUniqueId_encode :: "FileUniqueId \<Rightarrow> ustr result" where
  "FileUniqueId_encode f =
     (let t = enum_value FileUniqueTypes (file_unique_type f) in
      bindR (case file_unique_type f of
          FU_WEB \<Rightarrow>
            bindR (case fu_url f of None \<Rightarrow> Inl AttributeError | Some u \<Rightarrow> String_new u) (\<lambda>u.
              struct_pack False [CInt 4 True, CStr 1] [VInt t, VBytes u])
        | FU_PHOTO \<Rightarrow> packI [4, 8, 4] [Some t, fu_volume_id f, fu_local_id f]
        | FU_DOCUMENT \<Rightarrow> packI [4, 8] [Some t, fu_media_id f]
        | _ \<Rightarrow> Inl ValueError) (\<lambda>string.
      bindR (rle_encode string) (\<lambda>r. Inr (b64_encode r))))"

definition unique_canonical :: "FileUniqueId \<Rightarrow> bool" where
  "unique_canonical f =
     (case file_unique_type f of
        FU_PHOTO \<Rightarrow> fu_url f = None \<and> fu_media_id f = None
      | FU_DOCUMENT \<Rightarrow> fu_url f = None \<and> fu_volume_id f = None \<and> fu_local_id f = None
      | _ \<Rightarrow> False)"

text \<open>
  The unique ids of photos and documents survive their text form; the unfinished types are
  refused with \<open>ValueError\<close>.
\<close>

theorem FileUniqueId_roundtrip:
  assumes "unique_canonical f" "FileUniqueId_encode f = Inr s"
  shows "FileUniqueId_decode s = Inr f"
proof -
  define t where "t = enum_value FileUniqueTypes (file_unique_type f)"
  have e: "enum_of FileUniqueTypes t = Inr (file_unique_type f)" unfolding t_def by (rule enum_of_value) simp
  consider (photo) "file_unique_type f = FU_PHOTO" | (doc) "file_unique_type f = FU_DOCUMENT"
    using assms(1) by (auto simp: unique_canonical_def split: FileUniqueType.splits)
  then show ?thesis
  proof cases
    case photo
    with assms(2) obtain b r where b: "packI [4, 8, 4] [Some t, fu_volume_id f, fu_local_id f] = Inr b"
      and r: "rle_encode b = Inr r" and s: "s = b64_encode r"
      by (auto simp: FileUniqueId_encode_def t_def bindR_Inr_iff)
    from b obtain h p v l where p: "packI [4] [Some t] = Inr h" "packI [8, 4] [Some v, Some l] = Inr p" "b = h @ p"
      and vl: "fu_volume_id f = Some v" "fu_local_id f = Some l" by (auto simp: packI_Cons)
    have len: "length p = 12" using p(2) by (auto simp: packI_Cons)
    have "FileUniqueId_read b = (Inr f, [])"
      using e photo assms(1) vl len
      by (simp add: FileUniqueId_read_def p(3) unpackS_packI [OF p(1)] bindS_def unpack_all_def Let_def
        packI_unpackS_nil [OF p(2)] FileUniqueId_new_def unique_canonical_def)
    then show ?thesis by (simp add: FileUniqueId_decode_def s b64_roundtrip rle_roundtrip [OF r] as_ValueError_def)
  next
    case doc
    with assms(2) obtain b r where b: "packI [4, 8] [Some t, fu_media_id f] = Inr b"
      and r: "rle_encode b = Inr r" and s: "s = b64_encode r"
      by (auto simp: FileUniqueId_encode_def t_def bindR_Inr_iff)
    from b obtain h p v where p: "packI [4] [Some t] = Inr h" "packI [8] [Some v] = Inr p" "b = h @ p"
      and v: "fu_media_id f = Some v" by (auto simp: packI_Cons)
    have len: "length p = 8" using p(2) by (auto simp: packI_Cons)
    have "FileUniqueId_read b = (Inr f, [])"
      using e doc assms(1) v len
      by (simp add: FileUniqueId_read_def p(3) unpackS_packI [OF p(1)] bindS_def unpack_all_def Let_def
        packI_unpackS_nil [OF p(2)] FileUniqueId_new_def unique_canonical_def)
    then show ?thesis by (simp add: FileUniqueId_decode_def s b64_roundtrip rle_roundtrip [OF r] as_ValueError_def)
  qed
qed

definition demo_unique :: FileUniqueId where
  "demo_unique = (FileUniqueId_new FU_PHOTO)\<lparr>fu_volume_id := Some 12, fu_local_id := Some (-5)\<rparr>"

lemma FileUniqueId_roundtrip_witness:
  "\<exists>s. FileUniqueId_encode demo_unique = Inr s \<and> FileUniqueId_decode s = Inr demo_unique"
proof -
  let ?b = "le_of_int 4 1 @ le_of_int 8 12 @ le_of_int 4 (-5)"
  have "FileUniqueId_encode demo_unique = bindR (rle_encode ?b) (\<lambda>r. Inr (b64_encode r))"
    by (simp add: FileUniqueId_encode_def demo_unique_def FileUniqueId_new_def packI_fits fits_def enum_value_def
      FileUniqueTypes_def)
  moreover obtain r where "rle_encode ?b = Inr r" using rle_encode_short [of ?b] by auto
  ultimately have s: "FileUniqueId_encode demo_unique = Inr (b64_encode r)" by simp
  have "unique_canonical demo_unique"
    by (simp add: unique_canonical_def demo_unique_def FileUniqueId_new_def)
  from FileUniqueId_roundtrip [OF this s] s show ?thesis by blast
qed

text \<open>
  A unique id of a web location cannot come back: its url is packed into one byte, the length
  byte of the string, so two urls of the same length get the same id.
\<close>

theorem FileUniqueId_web_collides:
  assumes "fu_url f = Some u" "fu_url g = Some v" "file_unique_type f = FU_WEB" "file_unique_type g = FU_WEB"
    and "\<forall>c \<in> set (u @ v). c < 128" "length u = length v" "length u \<le> 253"
  shows "FileUniqueId_encode f = FileUniqueId_encode g"
proof -
  have enc: "utf8_encode w = Inr (map byte_of w)" if "\<forall>c \<in> set w. c < 128" for w
    using that by (induction w) (auto simp: utf8_encode_def utf8_char_def bindR_def split: sum.splits)
  have str: "\<exists>bs. String_new w = Inr (word_of_nat (length w) # bs)" if "\<forall>c \<in> set w. c < 128" "length w \<le> 253" for w
    using that by (simp add: String_new_def enc Bytes_new_def Let_def)
  from str [of u] str [of v] assms show ?thesis
    by (auto simp: FileUniqueId_encode_def)
qed

lemma FileUniqueId_web_collides_witness:
  "FileUniqueId_encode ((FileUniqueId_new FU_WEB)\<lparr>fu_url := Some (ustr ''a.com/1'')\<rparr>) =
   FileUniqueId_encode ((FileUniqueId_new FU_WEB)\<lparr>fu_url := Some (ustr ''b.org/2'')\<rparr>)"
  by (rule FileUniqueId_web_collides [of _ "ustr ''a.com/1''" _ "ustr ''b.org/2''"])
    (simp_all add: ustr_def FileUniqueId_new_def)

lemma web_flag_bits:
  fixes t :: FileType
  defines "n \<equiv> enum_value FileTypes t"
  shows "(n OR WEB_LOCATION_FLAG) AND WEB_LOCATION_FLAG \<noteq> 0"
    "((n OR WEB_LOCATION_FLAG) AND NOT WEB_LOCATION_FLAG) AND NOT FILE_REFERENCE_FLAG = n"
  unfolding n_def
  by (cases t; simp add: enum_value_def FileTypes_def WEB_LOCATION_FLAG_def FILE_REFERENCE_FLAG_def push_bit_eq_mult)+

text \<open>
  An id with a web location does not come back: \<open>encode\<close> writes the media id before the
  access hash, \<open>decode\<close> reads one number and takes the media id for the access hash.
\<close>

theorem FileId_web_shifted:
  assumes "FileId_encode f None None = Inr s" "url f = Some u" "u \<noteq> []" "is_ustr u" "file_reference f = []"
    and "4 \<le> fi_major f" "0 \<le> fi_minor f"
  shows "FileId_decode s = Inr ((FileId_new (fi_major f) (fi_minor f) (file_type f) (dc_id f))
           \<lparr>url := Some u, access_hash := media_id f\<rparr>)"
proof -
  define n where "n = enum_value FileTypes (file_type f) OR WEB_LOCATION_FLAG"
  from assms(1) obtain hdr ub ids body ver r where
    hdr: "packI [4, 4] [Some n, Some (dc_id f)] = Inr hdr" and
    ub: "String_new u = Inr ub" and
    ids: "packI [8, 8] [media_id f, access_hash f] = Inr ids" and
    ver: "packI [1, 1] [Some (fi_minor f), Some (fi_major f)] = Inr ver" and
    r: "rle_encode (hdr @ ub @ ids @ body @ ver) = Inr r" and s: "s = b64_encode r"
    using assms(2,3,5) unfolding FileId_encode_def Let_def n_def
    by (auto simp: bindR_Inr_iff simp del: One_nat_def)
  have "0 \<le> fi_major f" using assms(6) by simp
  with ver assms(7) obtain b c where v: "ver = [b, c]" "int (unat b) = fi_minor f" "int (unat c) = fi_major f"
    by (rule version_bytes)
  from ids obtain m a where ma: "packI [8] [Some m] = Inr (le_of_int 8 m)" "media_id f = Some m"
    and i: "ids = le_of_int 8 m @ le_of_int 8 a"
    by (auto simp: packI_Cons)
  have e: "enum_of FileTypes (enum_value FileTypes (file_type f)) = Inr (file_type f)"
    by (rule enum_of_value) simp
  have "fst (FileId_read (fi_major f) (fi_minor f) (hdr @ ub @ ids @ body)) =
      Inr ((FileId_new (fi_major f) (fi_minor f) (file_type f) (dc_id f))\<lparr>url := Some u, access_hash := media_id f\<rparr>)"
    using hdr e web_flag_bits [of "file_type f"] String_roundtrip [OF ub assms(4)]
    by (simp add: FileId_read_def Let_def bindS_ret_unpack n_def bindS_def [of "liftS _"] bindS_def [of String_read]
      i bindS_ret_unpack [OF ma(1)] ma(2))
  moreover have d: "rle_decode r = (hdr @ ub @ ids @ body) @ [b, c]"
    using rle_roundtrip [OF r] v(1) by simp
  ultimately show ?thesis
    unfolding FileId_decode_def s FileId_decode0_tail [OF b64_roundtrip d] v(2,3)
    using assms(6) by (simp add: as_ValueError_def)
qed

definition demo_web :: FileId where
  "demo_web = (FileId_new 4 30 FT_DOCUMENT 2)\<lparr>url := Some (ustr ''a.b''), media_id := Some 5, access_hash := Some 6\<rparr>"

lemma FileId_web_shifted_witness:
  "\<exists>s. FileId_encode demo_web None None = Inr s \<and>
     FileId_decode s = Inr ((FileId_new 4 30 FT_DOCUMENT 2)\<lparr>url := Some (ustr ''a.b''), access_hash := Some 5\<rparr>)"
proof -
  let ?b = "(le_of_int 4 16777221 @ le_of_int 4 2) @ [3, 97, 46, 98] @
      (le_of_int 8 5 @ le_of_int 8 6) @ le_of_int 1 30 @ le_of_int 1 4"
  have "enum_value FileTypes t \<noteq> 16777221" for t
    by (cases t) (simp_all add: enum_value_def FileTypes_def)
  then have nm: "16777221 \<notin> enum_value FileTypes ` set DOCUMENT_TYPES" by (metis image_iff)
  have w: "enum_value FileTypes FT_DOCUMENT OR WEB_LOCATION_FLAG = 16777221"
    by (simp add: enum_value_def FileTypes_def WEB_LOCATION_FLAG_def push_bit_eq_mult)
  have "FileId_encode demo_web None None = bindR (rle_encode ?b) (\<lambda>r. Inr (b64_encode r))"
    by (simp add: FileId_encode_def demo_web_def FileId_new_def packI_fits fits_def String_new_def utf8_encode_def
      utf8_char_def ustr_def Bytes_new_def pad4_def PHOTO_TYPES_def byte_of_def w nm)
  moreover obtain r where "rle_encode ?b = Inr r" using rle_encode_short [of ?b] by auto
  ultimately have s: "FileId_encode demo_web None None = Inr (b64_encode r)" by simp
  have "FileId_decode (b64_encode r) = Inr ((FileId_new (fi_major demo_web) (fi_minor demo_web) (file_type demo_web)
      (dc_id demo_web))\<lparr>url := Some (ustr ''a.b''), access_hash := media_id demo_web\<rparr>)"
    by (rule FileId_web_shifted [OF s]) (simp_all add: demo_web_def FileId_new_def ustr_def is_ustr_def)
  with s show ?thesis by (simp add: demo_web_def FileId_new_def)
qed

section \<open>Errors\<close>

text \<open>The exceptions a reader may end with.\<close>

definition raises :: "py_exn set \<Rightarrow> 'a reader \<Rightarrow> bool" where
  "raises E r = (\<forall>s. case r s of (Inl e, t) \<Rightarrow> e \<in> E | _ \<Rightarrow> True)"

named_theorems raises_intros

lemma raises_bind [raises_intros]:
  "raises E r \<Longrightarrow> (\<And>x. raises E (f x)) \<Longrightarrow> raises E (bindS r f)"
  by (fastforce simp: raises_def bindS_def split: prod.splits sum.splits)

lemma raises_ret [raises_intros]: "raises E (retS x)"
  by (simp add: raises_def)

lemma raises_if [raises_intros]: "raises E r \<Longrightarrow> raises E q \<Longrightarrow> raises E (if b then r else q)"
  by simp

lemma raises_readS [raises_intros]: "raises E (readS n)"
  by (simp add: raises_def readS_def)

lemma raises_unpackS [raises_intros]: "StructError \<in> E \<Longrightarrow> raises E (unpackS ns)"
  unfolding unpackS_def
  by (intro raises_intros) (simp add: raises_def struct_unpack_def bindR_def split: sum.splits)

lemma raises_enum [raises_intros]: "ValueError \<in> E \<Longrightarrow> raises E (liftS (enum_of es n))"
  by (simp add: raises_def enum_of_def)

lemma raises_fail [raises_intros]: "e \<in> E \<Longrightarrow> raises E (liftS (Inl e))"
  by (simp add: raises_def)

lemma raises_Bytes [raises_intros]: "raises E Bytes_read"
  unfolding Bytes_read_def Let_def by (intro raises_intros)

lemma raises_String [raises_intros]: "raises E String_read"
  unfolding String_read_def by (intro raises_intros)

lemma raises_FileId_read: "raises {StructError, ValueError} (FileId_read ma mi)"
proof -
  have src: "raises {StructError, ValueError} (read_source ts f)" for ts f
    by (cases ts) (simp_all add: read_source_def raises_intros)
  have "raises {StructError, ValueError} (read_photo f)" for f
    unfolding read_photo_def Let_def by (intro raises_intros src) simp_all
  then show ?thesis
    unfolding FileId_read_def Let_def by (intro raises_intros) simp_all
qed

lemma b64_scan_error: "b64_scan qp left pads cs = Inl e \<Longrightarrow> e = BinasciiError"
  by (induction qp left pads cs arbitrary: e rule: b64_scan.induct)
    (fastforce simp: bindR_def split: if_splits option.splits sum.splits)+

text \<open>
  Whatever text is decoded, a failure is a \<open>ValueError\<close> (or its subclass for malformed
  base64): no \<open>struct.error\<close>, \<open>IndexError\<close> or \<open>TypeError\<close> gets out.
\<close>

theorem FileId_decode_errors:
  "case FileId_decode s of Inl e \<Rightarrow> is_ValueError e | Inr f \<Rightarrow> True"
proof (cases "FileId_decode0 s")
  case (Inl e)
  have "e \<in> {StructError, ValueError}" if "fst (FileId_read ma mi xs) = Inl e" for ma mi xs
    using raises_FileId_read [of ma mi] that unfolding raises_def
    by (metis (mono_tags, lifting) old.prod.case old.sum.simps(5) prod.collapse)
  with Inl have "e \<in> {StructError, ValueError, BinasciiError, IndexError}"
    unfolding FileId_decode0_def
    by (auto simp: bindR_def Let_def b64_decode_def urlsafe_b64decode_def dest: b64_scan_error
      split: sum.splits if_splits)
  with Inl show ?thesis by (auto simp: FileId_decode_def as_ValueError_def)
qed (simp add: FileId_decode_def as_ValueError_def)

end
