(* ===== verification/Session_Ids.thy ===== *)
theory Session_Ids
  imports Prelude Complex_Main
begin

text \<open>
  \<open>pyrogram/session/internals\<close>: message ids derived from the server's clock, sequence numbers,
  and the addresses of the data centers. The two clocks are inputs of every call; times are exact
  rationals where the program has floats.
\<close>

section \<open>Message ids (msg\_id.py)\<close>

record msg_id_gen =
  last_msg_id :: int
  base_wall :: rat
  base_mono :: rat
  time_offset :: rat

text \<open>\<open>int(x)\<close> of a float rounds towards zero.\<close>

definition py_trunc :: "rat \<Rightarrow> int" where
  "py_trunc x = (if 0 \<le> x then \<lfloor>x\<rfloor> else - \<lfloor>- x\<rfloor>)"

definition MsgId_now :: "msg_id_gen \<Rightarrow> rat \<Rightarrow> rat" where
  "MsgId_now g mt = base_wall g + (mt - base_mono g) + time_offset g"

definition MsgId_sync :: "rat \<Rightarrow> rat \<Rightarrow> int \<Rightarrow> bool \<Rightarrow> msg_id_gen \<Rightarrow> msg_id_gen" where
  "MsgId_sync wall mt server_msg_id rejected g =
     (let g = g\<lparr>base_wall := wall, base_mono := mt,
                time_offset := of_int (drop_bit 32 server_msg_id) - wall\<rparr>
      in if rejected then g\<lparr>last_msg_id := 0\<rparr> else g)"

definition MsgId_call :: "rat \<Rightarrow> msg_id_gen \<Rightarrow> int \<times> msg_id_gen" where
  "MsgId_call mt g =
     (let now = MsgId_now g mt;
          msg_id = py_trunc (now * 2 ^ 32) AND NOT 3;
          msg_id = (if msg_id \<le> last_msg_id g then last_msg_id g + 4 else msg_id)
      in (msg_id, g\<lparr>last_msg_id := msg_id\<rparr>))"

lemma and_not_3_dvd: "4 dvd (x AND NOT (3 :: int))"
proof -
  have m: "(3 :: int) = mask 2" by (simp add: mask_eq_exp_minus_1)
  have "take_bit 2 (x AND NOT 3) = 0"
    unfolding m by (rule bit_eqI) (auto simp: bit_take_bit_iff bit_and_iff bit_not_iff bit_mask_iff)
  then show ?thesis by (simp add: take_bit_eq_mod dvd_eq_mod_eq_0)
qed

lemma MsgId_call_mono:
  assumes "4 dvd last_msg_id g" "MsgId_call mt g = (i, g')"
  shows "last_msg_id g < i" "4 dvd i" "last_msg_id g' = i"
  using assms and_not_3_dvd by (auto simp: MsgId_call_def Let_def split: if_splits)

lemma MsgId_sync_now: "MsgId_now (MsgId_sync wall mt s rejected g) mt = of_int (drop_bit 32 s)"
  by (simp add: MsgId_now_def MsgId_sync_def Let_def)

text \<open>A run of the generator: calls at any clock reading, synchronisations in between.\<close>

datatype gen_op = GCall rat | GSync rat rat int

fun gen_run :: "gen_op list \<Rightarrow> msg_id_gen \<Rightarrow> int list \<times> msg_id_gen" where
  "gen_run [] g = ([], g)"
| "gen_run (GCall mt # ops) g =
     (let (i, g) = MsgId_call mt g; (is, g) = gen_run ops g in (i # is, g))"
| "gen_run (GSync wall mt s # ops) g = gen_run ops (MsgId_sync wall mt s False g)"

lemma MsgId_sync_last: "last_msg_id (MsgId_sync wall mt s False g) = last_msg_id g"
  by (simp add: MsgId_sync_def Let_def)


definition demo_gen :: msg_id_gen where
  "demo_gen = \<lparr>last_msg_id = 8, base_wall = 0, base_mono = 0, time_offset = 0\<rparr>"


section \<open>Sequence numbers (seq\_no.py) and the message factory (msg\_factory.py)\<close>

definition SeqNo_call :: "bool \<Rightarrow> int \<Rightarrow> int \<times> int" where
  "SeqNo_call is_content_related sent =
     (sent * 2 + (if is_content_related then 1 else 0), if is_content_related then sent + 1 else sent)"

record msg_factory =
  seq_no_sent :: int
  msg_id_gen :: msg_id_gen

text \<open>
  \<open>MsgFactory.__call__\<close>: the id, the sequence number and the length of a message; the flag says
  whether the body is one of \<open>Ping\<close>, \<open>HttpWait\<close>, \<open>MsgsAck\<close>, \<open>MsgContainer\<close>.
\<close>

definition MsgFactory_call :: "rat \<Rightarrow> bool \<Rightarrow> int \<Rightarrow> int option \<Rightarrow> msg_factory \<Rightarrow> (int \<times> int \<times> int) \<times> msg_factory" where
  "MsgFactory_call mt not_content_related body_len len f =
     (let (i, g) = MsgId_call mt (msg_id_gen f);
          (s, n) = SeqNo_call (\<not> not_content_related) (seq_no_sent f)
      in ((i, s, case len of None \<Rightarrow> body_len | Some l \<Rightarrow> l), f\<lparr>msg_id_gen := g, seq_no_sent := n\<rparr>))"

lemma SeqNo_call_parity:
  assumes "SeqNo_call c n = (s, n')"
  shows "odd s \<longleftrightarrow> c" "2 * n \<le> s" "s < 2 * n' \<or> s = 2 * n'"
  using assms by (auto simp: SeqNo_call_def split: if_splits)

section \<open>Data centers (data\_center.py)\<close>

definition DC_TEST :: "int \<rightharpoonup> string" where
  "DC_TEST = [1 \<mapsto> ''149.154.175.10'', 2 \<mapsto> ''149.154.167.40'', 3 \<mapsto> ''149.154.175.117'']"

definition DC_PROD :: "int \<rightharpoonup> string" where
  "DC_PROD = [1 \<mapsto> ''149.154.175.53'', 2 \<mapsto> ''149.154.167.51'', 3 \<mapsto> ''149.154.175.100'',
     4 \<mapsto> ''149.154.167.91'', 5 \<mapsto> ''91.108.56.130'', 203 \<mapsto> ''91.105.192.100'']"

definition DC_PROD_MEDIA :: "int \<rightharpoonup> string" where
  "DC_PROD_MEDIA = [2 \<mapsto> ''149.154.167.151'', 4 \<mapsto> ''149.154.164.250'']"

definition DC_TEST_IPV6 :: "int \<rightharpoonup> string" where
  "DC_TEST_IPV6 = [1 \<mapsto> ''2001:b28:f23d:f001::e'', 2 \<mapsto> ''2001:67c:4e8:f002::e'', 3 \<mapsto> ''2001:b28:f23d:f003::e'']"

definition DC_PROD_IPV6 :: "int \<rightharpoonup> string" where
  "DC_PROD_IPV6 = [1 \<mapsto> ''2001:b28:f23d:f001::a'', 2 \<mapsto> ''2001:67c:4e8:f002::a'', 3 \<mapsto> ''2001:b28:f23d:f003::a'',
     4 \<mapsto> ''2001:67c:4e8:f004::a'', 5 \<mapsto> ''2001:b28:f23f:f005::a'',
     203 \<mapsto> ''2a0a:f280:0203:000a:5000:0000:0000:0100'']"

definition DC_PROD_IPV6_MEDIA :: "int \<rightharpoonup> string" where
  "DC_PROD_IPV6_MEDIA = [2 \<mapsto> ''2001:067c:04e8:f002:0000:0000:0000:000b'',
     4 \<mapsto> ''2001:067c:04e8:f004:0000:0000:0000:000b'']"

definition lookup :: "(int \<rightharpoonup> 'a) \<Rightarrow> int \<Rightarrow> 'a result" where
  "lookup m k = (case m k of None \<Rightarrow> Inl (KeyError k) | Some v \<Rightarrow> Inr v)"

text \<open>The default of \<open>dict.get\<close> is evaluated in any case, so an unknown id raises there too.\<close>

definition get_or :: "(int \<rightharpoonup> 'a) \<Rightarrow> int \<Rightarrow> 'a result \<Rightarrow> 'a result" where
  "get_or m k dflt = bindR dflt (\<lambda>d. Inr (case m k of None \<Rightarrow> d | Some v \<Rightarrow> v))"

definition get_dc_address :: "int \<Rightarrow> bool \<Rightarrow> bool \<Rightarrow> bool \<Rightarrow> (string \<times> int) result" where
  "get_dc_address dc_id test_mode ipv6 media =
     (if test_mode then
        bindR (if ipv6 then lookup DC_TEST_IPV6 dc_id else lookup DC_TEST dc_id) (\<lambda>ip. Inr (ip, 80))
      else
        bindR (if ipv6 then
                 (if media then get_or DC_PROD_IPV6_MEDIA dc_id (lookup DC_PROD_IPV6 dc_id)
                  else lookup DC_PROD_IPV6 dc_id)
               else
                 (if media then get_or DC_PROD_MEDIA dc_id (lookup DC_PROD dc_id)
                  else lookup DC_PROD dc_id)) (\<lambda>ip. Inr (ip, 443)))"

text \<open>
  An address is found exactly for the known data centers, three in test mode and six otherwise,
  the same ones over both protocols and for media; the port tells the modes apart.
\<close>

theorem get_dc_address_total:
  "(case get_dc_address dc_id test_mode ipv6 media of
      Inr (ip, port) \<Rightarrow> dc_id \<in> (if test_mode then {1, 2, 3} else {1, 2, 3, 4, 5, 203})
        \<and> port = (if test_mode then 80 else 443)
    | Inl e \<Rightarrow> e = KeyError dc_id \<and> dc_id \<notin> (if test_mode then {1, 2, 3} else {1, 2, 3, 4, 5, 203}))"
  by (cases test_mode; cases ipv6; cases media)
    (auto simp: get_dc_address_def lookup_def get_or_def DC_TEST_def DC_PROD_def DC_PROD_MEDIA_def
      DC_TEST_IPV6_def DC_PROD_IPV6_def DC_PROD_IPV6_MEDIA_def split: if_splits)

end
