(* ===== verification/Session_Packets.thy ===== *)
theory Session_Packets
  imports Session_Ids
begin

text \<open>
  The receiving side of \<open>pyrogram/session/session.py\<close>: the state of a \<open>Session\<close>,
  \<open>handle_packet\<close> with its security checks, the replay window, the clock-skew guard, the salts,
  the acknowledgements and the delivery of results, the throttle on update tasks, and the teardown.
  Message bodies are the cases the code tells apart; the payload type is left open.
\<close>

section \<open>State\<close>

datatype 'r body =
    BadMsgNotification int int
  | BadServerSalt int int int
  | DetailedInfo int
  | NewSessionCreated int
  | BFutureSalts int 'r
  | RpcResult int 'r
  | Pong int
  | Update 'r

record 'r msg =
  m_body :: "'r body"
  m_id :: int
  m_seq :: int
  m_len :: int

text \<open>What a waiting request can find: the result, the body, a lost connection, an exception.\<close>

datatype 'r answer = AResult 'r | ABody "'r body" | AConnectionLost | AException

type_synonym 'r waiter = "'r answer option \<times> bool"

record 'r session =
  salt :: int
  pending_acks :: "int set"
  results :: "int \<rightharpoonup> 'r waiter"
  stored_msg_ids :: "int list"
  msg_id_floor :: int
  skew_breaches :: int
  pending_updates :: int
  dropped_updates :: int
  scheduled :: "'r body list"
  teardown_started :: bool
  restarts_requested :: nat
  is_started :: bool
  stopping :: bool
  closed :: bool
  connected :: bool
  factory :: msg_factory

definition STORED_MSG_IDS_MAX_SIZE :: nat where "STORED_MSG_IDS_MAX_SIZE = 2000"
definition MAX_SKEW_AHEAD :: rat where "MAX_SKEW_AHEAD = 30"
definition MAX_SKEW_BEHIND :: rat where "MAX_SKEW_BEHIND = 300"
definition MAX_SKEW_BREACHES :: int where "MAX_SKEW_BREACHES = 3"
definition ACKS_THRESHOLD :: nat where "ACKS_THRESHOLD = 10"

lemmas session_consts = STORED_MSG_IDS_MAX_SIZE_def MAX_SKEW_AHEAD_def MAX_SKEW_BEHIND_def
  MAX_SKEW_BREACHES_def ACKS_THRESHOLD_def

section \<open>bisect\<close>

text \<open>The binary searches of the standard library; they agree with a scan on a sorted list.\<close>

function bisect_left_go :: "int list \<Rightarrow> int \<Rightarrow> nat \<Rightarrow> nat \<Rightarrow> nat" where
  "bisect_left_go a x lo hi =
     (if lo < hi then
        let mid = (lo + hi) div 2 in
        if a ! mid < x then bisect_left_go a x (mid + 1) hi else bisect_left_go a x lo mid
      else lo)"
  by auto
termination by (relation "measure (\<lambda>(a, x, lo, hi). hi - lo)") auto

function bisect_right_go :: "int list \<Rightarrow> int \<Rightarrow> nat \<Rightarrow> nat \<Rightarrow> nat" where
  "bisect_right_go a x lo hi =
     (if lo < hi then
        let mid = (lo + hi) div 2 in
        if x < a ! mid then bisect_right_go a x lo mid else bisect_right_go a x (mid + 1) hi
      else lo)"
  by auto
termination by (relation "measure (\<lambda>(a, x, lo, hi). hi - lo)") auto

declare bisect_left_go.simps [simp del] bisect_right_go.simps [simp del]

definition bisect_left :: "int list \<Rightarrow> int \<Rightarrow> nat" where
  "bisect_left a x = bisect_left_go a x 0 (length a)"

definition insort :: "int list \<Rightarrow> int \<Rightarrow> int list" where
  "insort a x = (let i = bisect_right_go a x 0 (length a) in take i a @ x # drop i a)"

lemma bisect_left_go_spec:
  assumes "sorted a" "lo \<le> hi" "hi \<le> length a" "\<forall>i < lo. a ! i < x"
    "\<forall>i. hi \<le> i \<and> i < length a \<longrightarrow> x \<le> a ! i"
  shows "bisect_left_go a x lo hi \<le> length a \<and> (\<forall>i < bisect_left_go a x lo hi. a ! i < x) \<and>
    (\<forall>i. bisect_left_go a x lo hi \<le> i \<and> i < length a \<longrightarrow> x \<le> a ! i)"
  using assms
proof (induction a x lo hi rule: bisect_left_go.induct)
  case (1 a x lo hi)
  show ?case
  proof (cases "lo < hi")
    case True
    let ?mid = "(lo + hi) div 2"
    have mid: "lo \<le> ?mid" "?mid < hi" using True by auto
    show ?thesis
    proof (cases "a ! ?mid < x")
      case less: True
      have "\<forall>i < ?mid + 1. a ! i < x"
      proof (intro allI impI)
        fix i assume "i < ?mid + 1"
        then have "a ! i \<le> a ! ?mid" using 1(3,5) mid by (intro sorted_nth_mono) auto
        with less show "a ! i < x" by simp
      qed
      moreover have e: "bisect_left_go a x lo hi = bisect_left_go a x (?mid + 1) hi"
        using True less by (subst bisect_left_go.simps) (simp add: Let_def)
      ultimately show ?thesis
        unfolding e using 1(3,4,5,6,7) mid by (intro 1(1) [OF True refl less]) auto
    next
      case False
      have "\<forall>i. ?mid \<le> i \<and> i < length a \<longrightarrow> x \<le> a ! i"
        using False 1(3) by (meson leI order_trans sorted_nth_mono)
      moreover have e: "bisect_left_go a x lo hi = bisect_left_go a x lo ?mid"
        using True False by (subst bisect_left_go.simps) (simp add: Let_def)
      ultimately show ?thesis
        unfolding e using 1(3,4,5,6,7) mid by (intro 1(2) [OF True refl False]) auto
    qed
  next
    case False
    then have e: "bisect_left_go a x lo hi = lo" by (subst bisect_left_go.simps) simp
    show ?thesis unfolding e using 1(4-7) False by auto
  qed
qed

lemma bisect_right_go_spec:
  assumes "sorted a" "lo \<le> hi" "hi \<le> length a" "\<forall>i < lo. a ! i \<le> x"
    "\<forall>i. hi \<le> i \<and> i < length a \<longrightarrow> x < a ! i"
  shows "bisect_right_go a x lo hi \<le> length a \<and> (\<forall>i < bisect_right_go a x lo hi. a ! i \<le> x) \<and>
    (\<forall>i. bisect_right_go a x lo hi \<le> i \<and> i < length a \<longrightarrow> x < a ! i)"
  using assms
proof (induction a x lo hi rule: bisect_right_go.induct)
  case (1 a x lo hi)
  show ?case
  proof (cases "lo < hi")
    case True
    let ?mid = "(lo + hi) div 2"
    have mid: "lo \<le> ?mid" "?mid < hi" using True by auto
    show ?thesis
    proof (cases "x < a ! ?mid")
      case less: True
      have "\<forall>i. ?mid \<le> i \<and> i < length a \<longrightarrow> x < a ! i"
        using less 1(3) by (meson less_le_trans sorted_nth_mono)
      moreover have e: "bisect_right_go a x lo hi = bisect_right_go a x lo ?mid"
        using True less by (subst bisect_right_go.simps) (simp add: Let_def)
      ultimately show ?thesis
        unfolding e using 1(3,4,5,6,7) mid by (intro 1(1) [OF True refl less]) auto
    next
      case False
      have "\<forall>i < ?mid + 1. a ! i \<le> x"
      proof (intro allI impI)
        fix i assume "i < ?mid + 1"
        then have "a ! i \<le> a ! ?mid" using 1(3,5) mid by (intro sorted_nth_mono) auto
        with False show "a ! i \<le> x" by simp
      qed
      moreover have e: "bisect_right_go a x lo hi = bisect_right_go a x (?mid + 1) hi"
        using True False by (subst bisect_right_go.simps) (simp add: Let_def)
      ultimately show ?thesis
        unfolding e using 1(3,4,5,6,7) mid by (intro 1(2) [OF True refl False]) auto
    qed
  next
    case False
    then have e: "bisect_right_go a x lo hi = lo" by (subst bisect_right_go.simps) simp
    show ?thesis unfolding e using 1(4-7) False by auto
  qed
qed

text \<open>On a sorted list the membership test of the code is membership, and insertion keeps the order.\<close>

lemma bisect_left_member:
  assumes "sorted a"
  shows "bisect_left a x < length a \<and> a ! bisect_left a x = x \<longleftrightarrow> x \<in> set a"
proof -
  let ?i = "bisect_left a x"
  have s: "?i \<le> length a" "\<forall>i < ?i. a ! i < x" "\<forall>i. ?i \<le> i \<and> i < length a \<longrightarrow> x \<le> a ! i"
    using bisect_left_go_spec [of a 0 "length a" x] assms by (auto simp: bisect_left_def)
  show ?thesis
  proof
    assume "x \<in> set a"
    then obtain j where j: "j < length a" "a ! j = x" by (auto simp: in_set_conv_nth)
    with s(2) have "?i \<le> j" by (meson leI less_irrefl)
    moreover from this s(3) j have "a ! ?i \<le> x" using assms by (metis sorted_nth_mono)
    moreover from calculation s(3) j have "x \<le> a ! ?i" by auto
    ultimately show "?i < length a \<and> a ! ?i = x" using j by auto
  next
    assume "?i < length a \<and> a ! ?i = x"
    then show "x \<in> set a" by (metis nth_mem)
  qed
qed

lemma insort_spec:
  assumes "sorted a"
  shows "sorted (insort a x)" "set (insort a x) = insert x (set a)" "length (insort a x) = Suc (length a)"
proof -
  define i where "i = bisect_right_go a x 0 (length a)"
  have s: "i \<le> length a" "\<forall>j < i. a ! j \<le> x" "\<forall>j. i \<le> j \<and> j < length a \<longrightarrow> x < a ! j"
    using bisect_right_go_spec [of a 0 "length a" x] assms by (auto simp: i_def)
  have e: "insort a x = take i a @ x # drop i a" by (simp add: insort_def i_def Let_def)
  have "\<forall>y \<in> set (take i a). y \<le> x" using s(1,2) by (auto simp: in_set_conv_nth)
  moreover have "\<forall>y \<in> set (drop i a). x \<le> y"
    using s(1,3) by (auto simp: in_set_conv_nth intro!: less_imp_le)
  ultimately show "sorted (insort a x)"
    unfolding e using assms by (fastforce simp: sorted_append)
  show "set (insort a x) = insert x (set a)"
    unfolding e by (metis Un_insert_right append_take_drop_id list.simps(15) set_append)
  show "length (insort a x) = Suc (length a)" using s(1) by (simp add: e)
qed

section \<open>Updates: the throttle on background tasks\<close>

definition MAX_PENDING_UPDATES :: int where "MAX_PENDING_UPDATES = 256"

definition schedule_update :: "'r body \<Rightarrow> 'r session \<Rightarrow> 'r session" where
  "schedule_update b s =
     (if MAX_PENDING_UPDATES \<le> pending_updates s then s\<lparr>dropped_updates := dropped_updates s + 1\<rparr>
      else s\<lparr>scheduled := scheduled s @ [b], pending_updates := pending_updates s + 1\<rparr>)"

definition update_done :: "'r session \<Rightarrow> 'r session" where
  "update_done s =
     (let s = s\<lparr>pending_updates := pending_updates s - 1\<rparr> in
      if dropped_updates s \<noteq> 0 \<and> pending_updates s \<le> MAX_PENDING_UPDATES div 2
      then s\<lparr>dropped_updates := 0\<rparr> else s)"

section \<open>One message of a packet\<close>

definition is_bad_notification :: "'r body \<Rightarrow> bool" where
  "is_bad_notification b = (case b of BadMsgNotification _ _ \<Rightarrow> True | BadServerSalt _ _ _ \<Rightarrow> True | _ \<Rightarrow> False)"

definition error_code :: "'r body \<Rightarrow> int" where
  "error_code b = (case b of BadMsgNotification _ c \<Rightarrow> c | BadServerSalt _ c _ \<Rightarrow> c | _ \<Rightarrow> 0)"

definition note_ack :: "'r msg \<Rightarrow> 'r session \<Rightarrow> 'r session" where
  "note_ack m s = (if m_seq m mod 2 \<noteq> 0 then s\<lparr>pending_acks := insert (m_id m) (pending_acks s)\<rparr> else s)"

definition note_salt :: "'r msg \<Rightarrow> 'r session \<Rightarrow> 'r session" where
  "note_salt m s = (case m_body m of BadServerSalt _ _ n \<Rightarrow> s\<lparr>salt := n\<rparr> | _ \<Rightarrow> s)"

text \<open>\<open>MsgId.sync\<close> and \<open>MsgId.now\<close> on the generator the session's factory uses.\<close>

type_synonym clock = "rat \<times> rat"

definition sync :: "clock \<Rightarrow> int \<Rightarrow> bool \<Rightarrow> 'r session \<Rightarrow> 'r session" where
  "sync c i rejected s =
     s\<lparr>factory := (factory s)\<lparr>msg_id_gen := MsgId_sync (fst c) (snd c) i rejected (msg_id_gen (factory s))\<rparr>\<rparr>"

definition now :: "clock \<Rightarrow> 'r session \<Rightarrow> rat" where
  "now c s = MsgId_now (msg_id_gen (factory s)) (snd c)"

definition trim_window :: "'r session \<Rightarrow> 'r session" where
  "trim_window s =
     (if STORED_MSG_IDS_MAX_SIZE < length (stored_msg_ids s) then
        let cut = STORED_MSG_IDS_MAX_SIZE div 2 in
        s\<lparr>msg_id_floor := stored_msg_ids s ! (cut - 1), stored_msg_ids := drop cut (stored_msg_ids s)\<rparr>
      else s)"

definition replayed :: "'r msg \<Rightarrow> 'r session \<Rightarrow> bool" where
  "replayed m s =
     (stored_msg_ids s \<noteq> [] \<and>
      (m_id m \<le> msg_id_floor s \<or>
       (let index = bisect_left (stored_msg_ids s) (m_id m) in
        index < length (stored_msg_ids s) \<and> stored_msg_ids s ! index = m_id m)))"

definition skewed :: "clock \<Rightarrow> 'r msg \<Rightarrow> 'r session \<Rightarrow> bool" where
  "skewed c m s =
     (stored_msg_ids s \<noteq> [] \<and> \<not> is_bad_notification (m_body m) \<and>
      (let time_diff = of_int (drop_bit 32 (m_id m)) - now c s in
       time_diff > MAX_SKEW_AHEAD \<or> time_diff < - MAX_SKEW_BEHIND))"

definition breach :: "clock \<Rightarrow> 'r msg \<Rightarrow> 'r session \<Rightarrow> 'r session" where
  "breach c m s =
     (let s = s\<lparr>skew_breaches := skew_breaches s + 1\<rparr> in
      if MAX_SKEW_BREACHES \<le> skew_breaches s then sync c (m_id m) False (s\<lparr>skew_breaches := 0\<rparr>) else s)"

definition accept :: "'r msg \<Rightarrow> 'r session \<Rightarrow> 'r session" where
  "accept m s = s\<lparr>skew_breaches := 0, stored_msg_ids := insort (stored_msg_ids s) (m_id m)\<rparr>"

text \<open>What an accepted message does: acknowledge, change the salt, answer a request, run handlers.\<close>

definition deliver :: "int option \<Rightarrow> 'r body \<Rightarrow> 'r session \<Rightarrow> 'r session" where
  "deliver req b s =
     (case req of
        None \<Rightarrow> s
      | Some i \<Rightarrow>
          (if results s i \<noteq> None
           then s\<lparr>results := (results s)(i \<mapsto>
                  (Some (case b of RpcResult _ r \<Rightarrow> AResult r | _ \<Rightarrow> ABody b), True))\<rparr>
           else s))"

definition dispatch :: "'r msg \<Rightarrow> 'r session \<Rightarrow> 'r session" where
  "dispatch m s =
     (case m_body m of
        DetailedInfo a \<Rightarrow> s\<lparr>pending_acks := insert a (pending_acks s)\<rparr>
      | NewSessionCreated n \<Rightarrow> s\<lparr>salt := n\<rparr>
      | BadMsgNotification i _ \<Rightarrow> deliver (Some i) (m_body m) s
      | BadServerSalt i _ _ \<Rightarrow> deliver (Some i) (m_body m) s
      | BFutureSalts i _ \<Rightarrow> deliver (Some i) (m_body m) s
      | RpcResult i _ \<Rightarrow> deliver (Some i) (m_body m) s
      | Pong i \<Rightarrow> deliver (Some i) (m_body m) s
      | Update _ \<Rightarrow> deliver None (m_body m) (schedule_update (m_body m) s))"

text \<open>The three clock readings of an iteration: at the first sync, at the skew check, at the last sync.\<close>

type_synonym clocks = "clock \<times> clock \<times> clock"

definition before_checks :: "clocks \<Rightarrow> 'r msg \<Rightarrow> 'r session \<Rightarrow> 'r session" where
  "before_checks c m s =
     (let rejected = is_bad_notification (m_body m) \<and> error_code (m_body m) \<in> {16, 17};
          s = note_salt m (note_ack m s);
          s = (if rejected \<or> stored_msg_ids s = [] then sync (fst c) (m_id m) rejected s else s)
      in trim_window s)"

definition handle_message :: "clocks \<Rightarrow> 'r msg \<Rightarrow> 'r session \<Rightarrow> 'r session" where
  "handle_message c m s =
     (let s = before_checks c m s in
      if replayed m s then s
      else if skewed (fst (snd c)) m s then breach (snd (snd c)) m s
      else dispatch m (accept m s))"

definition accepts :: "clocks \<Rightarrow> 'r msg \<Rightarrow> 'r session \<Rightarrow> bool" where
  "accepts c m s =
     (let s = before_checks c m s in \<not> replayed m s \<and> \<not> skewed (fst (snd c)) m s)"

section \<open>A packet\<close>

text \<open>
  What decrypting gives: the header fields, the parsed body (a single message or the messages of a
  container, or the exception of the parser) and the total length. \<open>None\<close> is a failed
  decryption.
\<close>

record 'r packet =
  p_msg_id :: int
  p_seq_no :: int
  p_length :: int
  p_body :: "('r body + 'r msg list) result"
  p_total :: int

definition security_ok :: "'r packet \<Rightarrow> bool" where
  "security_ok p =
     (let padding_len = p_total p - 16 - p_length p in
      12 \<le> padding_len \<and> padding_len \<le> 1024 \<and> p_total p mod 4 = 0 \<and> p_msg_id p mod 2 \<noteq> 0)"

definition teardown :: "'r session \<Rightarrow> 'r session" where
  "teardown s =
     (if teardown_started s then s
      else s\<lparr>teardown_started := True, restarts_requested := restarts_requested s + 1\<rparr>)"

definition messages_of :: "'r packet \<Rightarrow> 'r body + 'r msg list \<Rightarrow> 'r msg list" where
  "messages_of p b =
     (case b of
        Inr ms \<Rightarrow> ms
      | Inl b \<Rightarrow> [\<lparr>m_body = b, m_id = p_msg_id p, m_seq = p_seq_no p, m_len = p_length p\<rparr>])"

fun handle_messages :: "(nat \<Rightarrow> clocks) \<Rightarrow> 'r msg list \<Rightarrow> 'r session \<Rightarrow> 'r session" where
  "handle_messages cs [] s = s"
| "handle_messages cs (m # ms) s = handle_messages (\<lambda>i. cs (Suc i)) ms (handle_message (cs 0) m s)"

text \<open>The acks that are due are taken out of the state and returned for sending.\<close>

definition take_acks :: "'r session \<Rightarrow> int set option \<times> 'r session" where
  "take_acks s =
     (if ACKS_THRESHOLD \<le> card (pending_acks s)
      then (Some (pending_acks s), s\<lparr>pending_acks := {}\<rparr>) else (None, s))"

definition flush_acks :: "'r session \<Rightarrow> int set option \<times> 'r session" where
  "flush_acks s =
     (if pending_acks s = {} then (None, s) else (Some (pending_acks s), s\<lparr>pending_acks := {}\<rparr>))"

definition handle_packet :: "(nat \<Rightarrow> clocks) \<Rightarrow> 'r packet option \<Rightarrow> 'r session \<Rightarrow> int set option \<times> 'r session" where
  "handle_packet cs pkt s =
     (case pkt of
        None \<Rightarrow> (None, s)
      | Some p \<Rightarrow>
          if teardown_started s then (None, s)
          else if \<not> security_ok p then (None, teardown s)
          else (case p_body p of
                  Inl e \<Rightarrow> (None, s)
                | Inr b \<Rightarrow> take_acks (handle_messages cs (messages_of p b) s)))"

section \<open>Ending a session\<close>

definition fail_pending :: "'r answer \<Rightarrow> 'r session \<Rightarrow> 'r session" where
  "fail_pending v s =
     s\<lparr>results := (\<lambda>i. case results s i of
         None \<Rightarrow> None | Some (a, _) \<Rightarrow> Some (case a of None \<Rightarrow> Some v | Some x \<Rightarrow> Some x, True))\<rparr>"

definition stop0 :: "'r session \<Rightarrow> 'r session" where
  "stop0 s =
     fail_pending AConnectionLost
       (s\<lparr>is_started := False, stopping := True, stored_msg_ids := [], msg_id_floor := 0, connected := False\<rparr>)"

definition stop :: "'r session \<Rightarrow> 'r session" where
  "stop s = stop0 (s\<lparr>closed := True\<rparr>)"

text \<open>
  \<open>recv_worker\<close>: what the connection hands over, and whether the loop goes on. The restart it
  asks for is counted, a packet is handed to its own task. \<open>stopping_then\<close> is the flag as it is
  once the packet semaphore has been acquired.
\<close>

datatype 'p received = RTimeout | RError | RTransport | RPacket 'p

definition recv_step :: "'p received \<Rightarrow> bool \<Rightarrow> 'r session \<Rightarrow> (bool \<times> 'p option) \<times> 'r session" where
  "recv_step r stopping_then s =
     (case r of
        RTimeout \<Rightarrow> ((True, None), s)
      | RPacket p \<Rightarrow>
          if stopping s then ((True, None), s)
          else if stopping_then then ((False, None), s\<lparr>stopping := True\<rparr>)
          else ((True, Some p), s)
      | _ \<Rightarrow> ((False, None),
          let s = fail_pending AException s in
          if is_started s then s\<lparr>restarts_requested := restarts_requested s + 1\<rparr> else s))"

section \<open>The replay window\<close>

text \<open>
  The stored ids are sorted and distinct; at most one of them, the first accepted on a connection, can
  lie at or below the floor.
\<close>

definition window_ok :: "'r session \<Rightarrow> bool" where
  "window_ok s =
     (sorted (stored_msg_ids s) \<and> distinct (stored_msg_ids s) \<and>
      length (stored_msg_ids s) \<le> STORED_MSG_IDS_MAX_SIZE + 1 \<and>
      card {i \<in> set (stored_msg_ids s). i \<le> msg_id_floor s} \<le> 1)"

text \<open>Everything accepted is still recognised: it is stored or not above the floor.\<close>

definition remembers :: "int list \<Rightarrow> 'r session \<Rightarrow> bool" where
  "remembers acc s =
     (set acc \<subseteq> {i. i \<le> msg_id_floor s} \<union> set (stored_msg_ids s) \<and> (stored_msg_ids s = [] \<longrightarrow> acc = []))"

lemma window_frame:
  "stored_msg_ids t = stored_msg_ids s \<Longrightarrow> msg_id_floor t = msg_id_floor s \<Longrightarrow>
     window_ok t = window_ok s \<and> remembers acc t = remembers acc s"
  by (simp add: window_ok_def remembers_def)

lemma deliver_frame [simp]:
  "stored_msg_ids (deliver r b s) = stored_msg_ids s" "msg_id_floor (deliver r b s) = msg_id_floor s"
  by (simp_all add: deliver_def split: option.splits)

lemma schedule_frame [simp]:
  "stored_msg_ids (schedule_update b s) = stored_msg_ids s" "msg_id_floor (schedule_update b s) = msg_id_floor s"
  by (simp_all add: schedule_update_def)

lemma dispatch_frame [simp]:
  "stored_msg_ids (dispatch m s) = stored_msg_ids s" "msg_id_floor (dispatch m s) = msg_id_floor s"
  by (simp_all add: dispatch_def split: body.splits)

lemma sync_frame [simp]:
  "stored_msg_ids (sync c i r s) = stored_msg_ids s" "msg_id_floor (sync c i r s) = msg_id_floor s"
  by (simp_all add: sync_def)

lemma breach_frame [simp]:
  "stored_msg_ids (breach c m s) = stored_msg_ids s" "msg_id_floor (breach c m s) = msg_id_floor s"
  by (simp_all add: breach_def Let_def)

lemma note_frame [simp]:
  "stored_msg_ids (note_ack m s) = stored_msg_ids s" "msg_id_floor (note_ack m s) = msg_id_floor s"
  "stored_msg_ids (note_salt m s) = stored_msg_ids s" "msg_id_floor (note_salt m s) = msg_id_floor s"
  by (simp_all add: note_ack_def note_salt_def split: body.splits)

lemma trim_window_ok:
  assumes "window_ok s" "remembers acc s"
  shows "window_ok (trim_window s)" "remembers acc (trim_window s)"
    "length (stored_msg_ids (trim_window s)) \<le> STORED_MSG_IDS_MAX_SIZE"
proof -
  let ?xs = "stored_msg_ids s"
  have s: "sorted ?xs" "distinct ?xs" "length ?xs \<le> 2001"
    and c: "card {i \<in> set ?xs. i \<le> msg_id_floor s} \<le> 1"
    using assms(1) by (simp_all add: window_ok_def session_consts)
  have "window_ok (trim_window s) \<and> remembers acc (trim_window s) \<and>
    length (stored_msg_ids (trim_window s)) \<le> STORED_MSG_IDS_MAX_SIZE"
  proof (cases "2000 < length ?xs")
    case True
    let ?f = "?xs ! 999"
    have t: "stored_msg_ids (trim_window s) = drop 1000 ?xs" "msg_id_floor (trim_window s) = ?f"
      using True by (simp_all add: trim_window_def session_consts Let_def)
    have low: "i \<le> ?f" if "i \<in> set (take 1000 ?xs)" for i
      using that s(1) True by (auto simp: in_set_conv_nth intro!: sorted_nth_mono)
    have high: "?f < i" if "i \<in> set (drop 1000 ?xs)" for i
    proof -
      from that obtain j where j: "j < length ?xs - 1000" "i = ?xs ! (1000 + j)"
        using True by (auto simp: in_set_conv_nth)
      then have "?f \<le> i" using s(1) by (auto intro!: sorted_nth_mono)
      moreover have "?f \<noteq> i" using s(2) j by (simp add: nth_eq_iff_index_eq)
      ultimately show ?thesis by simp
    qed
    have fl: "msg_id_floor s \<le> ?f"
    proof (rule ccontr)
      assume "\<not> msg_id_floor s \<le> ?f"
      then have "set (take 1000 ?xs) \<subseteq> {i \<in> set ?xs. i \<le> msg_id_floor s}"
        using low by (fastforce dest: in_set_takeD)
      from card_mono [OF _ this] c have "card (set (take 1000 ?xs)) \<le> 1" by simp
      moreover have "card (set (take 1000 ?xs)) = 1000"
        using s(2) True by (simp add: distinct_card)
      ultimately show False by simp
    qed
    have e: "{i \<in> set (drop 1000 ?xs). i \<le> ?f} = {}" using high by force
    have cz: "card {i \<in> set (drop 1000 ?xs). i \<le> ?f} \<le> 1" unfolding e by simp
    have len: "length ?xs - 1000 \<le> 2000" using s(3) by simp
    have "set acc \<subseteq> {i. i \<le> ?f} \<union> set (drop 1000 ?xs)"
    proof
      fix i assume "i \<in> set acc"
      moreover have "set ?xs = set (take 1000 ?xs) \<union> set (drop 1000 ?xs)"
        by (metis append_take_drop_id set_append)
      ultimately have "i \<le> msg_id_floor s \<or> i \<in> set (take 1000 ?xs) \<or> i \<in> set (drop 1000 ?xs)"
        using assms(2) by (auto simp: remembers_def)
      with fl low show "i \<in> {i. i \<le> ?f} \<union> set (drop 1000 ?xs)" by auto
    qed
    with s True cz len show ?thesis
      by (simp add: window_ok_def remembers_def t session_consts sorted_wrt_drop)
  next
    case False
    with assms show ?thesis by (simp add: trim_window_def session_consts)
  qed
  then show "window_ok (trim_window s)" "remembers acc (trim_window s)"
    "length (stored_msg_ids (trim_window s)) \<le> STORED_MSG_IDS_MAX_SIZE" by simp_all
qed

lemma before_checks_ok:
  assumes "window_ok s" "remembers acc s"
  shows "window_ok (before_checks c m s)" "remembers acc (before_checks c m s)"
    "length (stored_msg_ids (before_checks c m s)) \<le> STORED_MSG_IDS_MAX_SIZE"
proof -
  let ?rejected = "is_bad_notification (m_body m) \<and> error_code (m_body m) \<in> {16, 17}"
  define t where "t = note_salt m (note_ack m s)"
  define u where "u = (if ?rejected \<or> stored_msg_ids t = [] then sync (fst c) (m_id m) ?rejected t else t)"
  have b: "before_checks c m s = trim_window u" unfolding before_checks_def u_def t_def Let_def by (rule refl)
  have "window_ok u \<and> remembers acc u"
    using assms window_frame [of u s acc] by (simp add: u_def t_def)
  then show "window_ok (before_checks c m s)" "remembers acc (before_checks c m s)"
    "length (stored_msg_ids (before_checks c m s)) \<le> STORED_MSG_IDS_MAX_SIZE"
    unfolding b by (auto intro: trim_window_ok)
qed

lemma replayed_iff:
  assumes "window_ok s"
  shows "replayed m s \<longleftrightarrow>
    stored_msg_ids s \<noteq> [] \<and> (m_id m \<le> msg_id_floor s \<or> m_id m \<in> set (stored_msg_ids s))"
  using bisect_left_member [of "stored_msg_ids s" "m_id m"] assms
  by (simp add: replayed_def window_ok_def Let_def)

lemma accept_ok:
  assumes "window_ok s" "remembers acc s" "\<not> replayed m s"
    and "length (stored_msg_ids s) \<le> STORED_MSG_IDS_MAX_SIZE"
  shows "window_ok (accept m s)" "remembers (acc @ [m_id m]) (accept m s)" "m_id m \<notin> set acc"
proof -
  let ?xs = "stored_msg_ids s" and ?i = "m_id m"
  have xs: "sorted ?xs" "distinct ?xs" using assms(1) by (simp_all add: window_ok_def)
  note ins = insort_spec [OF xs(1), of ?i]
  have new: "?i \<notin> set ?xs" "?xs \<noteq> [] \<Longrightarrow> msg_id_floor s < ?i"
    using assms(3) replayed_iff [OF assms(1), of m] by auto
  have "card (set (insort ?xs ?i)) = length (insort ?xs ?i)"
    using ins xs(2) new(1) by (simp add: distinct_card)
  then have d: "distinct (insort ?xs ?i)" by (rule card_distinct)
  have c: "card {j \<in> insert ?i (set ?xs). j \<le> msg_id_floor s} \<le> 1"
  proof (cases "?xs = []")
    case True
    then have "{j \<in> insert ?i (set ?xs). j \<le> msg_id_floor s} \<subseteq> {?i}" by auto
    from card_mono [OF _ this] show ?thesis by simp
  next
    case False
    then have "{j \<in> insert ?i (set ?xs). j \<le> msg_id_floor s} = {j \<in> set ?xs. j \<le> msg_id_floor s}"
      using new(2) by auto
    then show ?thesis using assms(1) by (simp add: window_ok_def)
  qed
  show "window_ok (accept m s)"
    using ins d c assms(4) by (simp add: window_ok_def accept_def)
  show "remembers (acc @ [?i]) (accept m s)"
    using assms(2) ins by (auto simp: remembers_def accept_def)
  show "?i \<notin> set acc"
    using assms(2) new by (auto simp: remembers_def)
qed

text \<open>
  The life of a connection: it starts with an empty window, messages are handled one after the other,
  and whatever else the session does in between leaves the window alone. \<open>acc\<close> are the ids
  accepted so far.
\<close>

inductive connection_trace :: "'r session \<Rightarrow> int list \<Rightarrow> bool" where
  Start: "stored_msg_ids s = [] \<Longrightarrow> connection_trace s []"
| Handle: "connection_trace s acc \<Longrightarrow>
     connection_trace (handle_message c m s) (if accepts c m s then acc @ [m_id m] else acc)"
| Other: "connection_trace s acc \<Longrightarrow> stored_msg_ids t = stored_msg_ids s \<Longrightarrow>
     msg_id_floor t = msg_id_floor s \<Longrightarrow> connection_trace t acc"

inductive_cases connection_traceE: "connection_trace s acc"

lemma handle_message_window:
  assumes "window_ok s" "remembers acc s"
  shows "window_ok (handle_message c m s)"
    "remembers (if accepts c m s then acc @ [m_id m] else acc) (handle_message c m s)"
    "accepts c m s \<Longrightarrow> m_id m \<notin> set acc"
proof -
  let ?t = "before_checks c m s"
  note b = before_checks_ok [OF assms, of c m]
  have "window_ok (handle_message c m s) \<and>
    remembers (if accepts c m s then acc @ [m_id m] else acc) (handle_message c m s) \<and>
    (accepts c m s \<longrightarrow> m_id m \<notin> set acc)"
  proof (cases "replayed m ?t")
    case True
    with b show ?thesis by (simp add: handle_message_def accepts_def Let_def)
  next
    case False
    note a = accept_ok [OF b(1,2) False b(3)]
    have h: "window_ok (dispatch m (accept m ?t)) = window_ok (accept m ?t)"
      "remembers xs (dispatch m (accept m ?t)) = remembers xs (accept m ?t)"
      "window_ok (breach (snd (snd c)) m ?t) = window_ok ?t"
      "remembers xs (breach (snd (snd c)) m ?t) = remembers xs ?t" for xs
      using window_frame [of "dispatch m (accept m ?t)" "accept m ?t"]
        window_frame [of "breach (snd (snd c)) m ?t" ?t] by simp_all
    show ?thesis
      using False a b h by (simp add: handle_message_def accepts_def Let_def)
  qed
  then show "window_ok (handle_message c m s)"
    "remembers (if accepts c m s then acc @ [m_id m] else acc) (handle_message c m s)"
    "accepts c m s \<Longrightarrow> m_id m \<notin> set acc" by simp_all
qed

lemma connection_trace_window: "connection_trace s acc \<Longrightarrow> window_ok s \<and> remembers acc s \<and> distinct acc"
proof (induction rule: connection_trace.induct)
  case (Start s)
  then show ?case by (simp add: window_ok_def remembers_def)
next
  case (Handle s acc c m)
  with handle_message_window [of s acc c m] show ?case by simp
next
  case (Other s acc t)
  with window_frame [of t s acc] show ?case by simp
qed


definition demo_session :: "nat session" where
  "demo_session =
     \<lparr>salt = 0, pending_acks = {}, results = [4 \<mapsto> (None, False)], stored_msg_ids = [], msg_id_floor = 0,
      skew_breaches = 0, pending_updates = 0, dropped_updates = 0, scheduled = [], teardown_started = False,
      restarts_requested = 0, is_started = True, stopping = False, closed = False, connected = True,
      factory = \<lparr>seq_no_sent = 0, msg_id_gen = demo_gen\<rparr>\<rparr>"

definition demo_msg :: "nat msg" where
  "demo_msg = \<lparr>m_body = RpcResult 4 99, m_id = 4294967301, m_seq = 1, m_len = 12\<rparr>"


section \<open>Acknowledgements, salts and results\<close>

lemma pending_frame [simp]:
  "pending_acks (deliver r b s) = pending_acks s" "pending_acks (schedule_update b s) = pending_acks s"
  "pending_acks (sync c i rej s) = pending_acks s" "pending_acks (breach c m s) = pending_acks s"
  "pending_acks (accept m s) = pending_acks s" "pending_acks (trim_window s) = pending_acks s"
  "pending_acks (note_salt m s) = pending_acks s"
  by (simp_all add: deliver_def schedule_update_def sync_def breach_def accept_def trim_window_def note_salt_def Let_def
    split: option.splits body.splits)

lemma dispatch_acks: "pending_acks s \<subseteq> pending_acks (dispatch m s)"
  by (auto simp: dispatch_def split: body.splits)

lemma handle_message_acks:
  "pending_acks s \<union> (if odd (m_seq m) then {m_id m} else {}) \<subseteq> pending_acks (handle_message c m s)"
proof -
  have "pending_acks (before_checks c m s) = pending_acks s \<union> (if odd (m_seq m) then {m_id m} else {})"
    by (auto simp: before_checks_def Let_def note_ack_def odd_iff_mod_2_eq_one)
  then show ?thesis
    using dispatch_acks [of "accept m (before_checks c m s)" m]
    by (auto simp: handle_message_def Let_def)
qed

lemma handle_messages_acks:
  "pending_acks s \<union> {m_id m | m. m \<in> set ms \<and> odd (m_seq m)} \<subseteq> pending_acks (handle_messages cs ms s)"
proof (induction cs ms s rule: handle_messages.induct)
  case (2 cs m ms s)
  show ?case using 2 handle_message_acks [of s m "cs 0"] by auto
qed simp





text \<open>
  A message out of step with the clock is never acted on; the third in a row sets the clock to the
  server's time, so that the same message would pass the next check.
\<close>

theorem skew_resync:
  assumes "\<not> replayed m (before_checks c m s)" "skewed (fst (snd c)) m (before_checks c m s)"
  shows "(let t = handle_message c m s in
     results t = results s \<and> scheduled t = scheduled s \<and> stored_msg_ids t = stored_msg_ids (before_checks c m s) \<and>
     (if skew_breaches s + 1 < 3
      then skew_breaches t = skew_breaches s + 1 \<and> factory t = factory (before_checks c m s)
      else skew_breaches t = 0 \<and> \<not> skewed (snd (snd c)) m t))"
proof -
  have f: "results (before_checks c m s) = results s" "scheduled (before_checks c m s) = scheduled s"
    "skew_breaches (before_checks c m s) = skew_breaches s"
    by (simp_all add: before_checks_def Let_def trim_window_def note_salt_def note_ack_def sync_def
      split: body.splits)
  have "of_int (drop_bit 32 (m_id m)) - now (snd (snd c)) (sync (snd (snd c)) (m_id m) False u) = 0"
    for u :: "'a session"
    by (simp add: now_def sync_def MsgId_sync_now)
  with assms f show ?thesis
    by (auto simp: handle_message_def Let_def breach_def session_consts skewed_def)
      (simp_all add: sync_def)
qed

definition late_session :: "nat session" where
  "late_session = demo_session\<lparr>stored_msg_ids := [5], skew_breaches := 2\<rparr>"

lemma skew_resync_witness:
  "(let c = ((0, 0), (0, 0), (7, 7)); m = \<lparr>m_body = RpcResult 4 99, m_id = 4294967296 * 1000 + 1, m_seq = 0, m_len = 12\<rparr>;
        t = handle_message c m late_session
    in results t = results late_session \<and> skew_breaches t = 0 \<and> \<not> skewed (7, 7) m t)"
proof -
  let ?c = "((0, 0), (0, 0), (7, 7)) :: clocks"
  let ?m = "\<lparr>m_body = RpcResult 4 99, m_id = 4294967296 * 1000 + 1, m_seq = 0, m_len = 12\<rparr> :: nat msg"
  have b: "before_checks ?c ?m late_session = late_session"
    by (simp add: before_checks_def Let_def late_session_def demo_session_def note_ack_def note_salt_def
      is_bad_notification_def trim_window_def session_consts)
  have "\<not> replayed ?m late_session" by (simp add: replayed_def late_session_def demo_session_def bisect_left_def
      bisect_left_go.simps Let_def)
  moreover have "skewed (0, 0) ?m late_session"
    by (simp add: skewed_def late_session_def demo_session_def is_bad_notification_def now_def MsgId_now_def
      demo_gen_def session_consts drop_bit_eq_div Let_def)
  ultimately show ?thesis
    using skew_resync [of ?m ?c late_session] b by (simp add: Let_def late_session_def)
qed

text \<open>
  Stopping answers everyone: whoever waits for a result when the session goes down finds its event
  set and a value, the real answer when it had arrived and a lost connection otherwise, and a late
  packet is neither handled nor able to restart the session's window.
\<close>

theorem stop_answers_all:
  "(\<forall>i w. results (stop s) i = Some w \<longrightarrow>
      snd w \<and> fst w = Some (case results s i of Some (Some a, _) \<Rightarrow> a | _ \<Rightarrow> AConnectionLost)) \<and>
   dom (results (stop s)) = dom (results s) \<and> stored_msg_ids (stop s) = [] \<and>
   (\<forall>p q. recv_step (RPacket p) q (stop s) = ((True, None), stop s))"
  by (auto simp: stop_def stop0_def fail_pending_def recv_step_def dom_def split: option.splits)

lemma stop_answers_all_witness:
  "results (stop demo_session) 4 = Some (Some AConnectionLost, True)"
proof -
  have r: "results demo_session = [4 \<mapsto> (None, False)]" by (simp add: demo_session_def)
  note st = stop_answers_all [of demo_session, unfolded r]
  from st have "4 \<in> dom (results (stop demo_session))" by (metis domIff fun_upd_same option.distinct(1))
  then obtain w where w: "results (stop demo_session) 4 = Some w" by blast
  with st [THEN conjunct1, rule_format, OF w] show ?thesis by (cases w) simp
qed

end
