(* ===== verification/Session_Calls.thy ===== *)
theory Session_Calls
  imports Session_Packets TL_Object
begin

text \<open>
  The sending side of \<open>session.py\<close>: the hand-written serializer for file parts, \<open>send\<close> with
  its re-sends, \<open>_invoke\<close> with its retries and flood waits, and the attempts of \<open>start\<close>.
\<close>

section \<open>File parts\<close>

datatype file_part =
    SaveFilePart int int bytes
  | SaveBigFilePart int int int bytes

definition SaveFilePart_ID :: int where "SaveFilePart_ID = 0xB304A621"
definition SaveBigFilePart_ID :: int where "SaveBigFilePart_ID = 0xDE7B673D"

definition part_bytes :: "file_part \<Rightarrow> bytes" where
  "part_bytes p = (case p of SaveFilePart _ _ b \<Rightarrow> b | SaveBigFilePart _ _ _ b \<Rightarrow> b)"

definition serialize_file_part :: "file_part \<Rightarrow> bytes result" where
  "serialize_file_part data =
     bindR (case data of
         SaveBigFilePart file_id part parts _ \<Rightarrow>
           struct_pack False [CInt 4 False, CInt 8 True, CInt 4 True, CInt 4 True]
             [VInt SaveBigFilePart_ID, VInt file_id, VInt part, VInt parts]
       | SaveFilePart file_id part _ \<Rightarrow>
           struct_pack False [CInt 4 False, CInt 8 True, CInt 4 True]
             [VInt SaveFilePart_ID, VInt file_id, VInt part]) (\<lambda>header.
     let len = length (part_bytes data) in
     bindR (if 253 < len
            then bindR (to_bytes_le 3 False (int len)) (\<lambda>l. Inr (0xFE # l, nat (- int len mod 4)))
            else Inr ([byte_of len], nat (- (int len + 1) mod 4))) (\<lambda>(prefix, padding).
       Inr (header @ prefix @ part_bytes data @ replicate padding 0)))"

text \<open>The same objects for the generated serializer, with the argument lists of the schema.\<close>

definition part_obj :: "file_part \<Rightarrow> tlval" where
  "part_obj p =
     (case p of
        SaveFilePart file_id part b \<Rightarrow> TObj SaveFilePart_ID [TInt file_id, TInt part, TBytes b]
      | SaveBigFilePart file_id part parts b \<Rightarrow>
          TObj SaveBigFilePart_ID [TInt file_id, TInt part, TInt parts, TBytes b])"

definition plain :: "core_type \<Rightarrow> tl_arg" where
  "plain t = \<lparr>a_flag = None, a_type = ACore t\<rparr>"

definition upload_schema :: "tl_env \<Rightarrow> bool" where
  "upload_schema env =
     (env_schema env SaveFilePart_ID = Some [plain Clong, plain Cint, plain Cbytes] \<and>
      env_schema env SaveBigFilePart_ID = Some [plain Clong, plain Cint, plain Cint, plain Cbytes])"

lemma Int_new_pack: "Int_new sg v = (if fits sg 4 v then Inr (le_of_int 4 v) else Inl OverflowError)"
  by (simp add: Int_new_def to_bytes_le_def)

lemma Long_new_pack: "Long_new sg v = (if fits sg 8 v then Inr (le_of_int 8 v) else Inl OverflowError)"
  by (simp add: Long_new_def to_bytes_le_def)

lemma write_plain: "write_arg w avs (plain t, v) = core_new t v"
  by (simp add: write_arg_def plain_def)

lemma Bytes_new_prefix:
  "Bytes_new b = bindR (if 253 < length b
       then bindR (to_bytes_le 3 False (int (length b))) (\<lambda>l. Inr (0xFE # l, nat (- int (length b) mod 4)))
       else Inr ([byte_of (length b)], nat (- (int (length b) + 1) mod 4)))
     (\<lambda>(prefix, padding). Inr (prefix @ b @ replicate padding 0))"
  by (cases "253 < length b"; cases "to_bytes_le 3 False (int (length b))")
    (simp_all add: Bytes_new_def Let_def pad4_def byte_of_def add.commute)

text \<open>
  C17. The fast serializer of file parts is the generated one: it succeeds on the same parts and gives
  the same bytes.
\<close>

theorem serialize_file_part_equiv:
  assumes "upload_schema env"
  shows "(case serialize_file_part p of
      Inr bs \<Rightarrow> tl_write env (part_obj p) = Inr bs
    | Inl _ \<Rightarrow> (\<exists>e. tl_write env (part_obj p) = Inl e))"
proof (cases p)
  case (SaveFilePart file_id part b)
  with assms show ?thesis
    by (auto simp: serialize_file_part_def part_obj_def upload_schema_def write_plain core_new_def Int_new_pack
      Long_new_pack pack_int_def order_def part_bytes_def Let_def SaveFilePart_ID_def fits_def Bytes_new_prefix
      bindR_def split: sum.splits prod.splits)
next
  case (SaveBigFilePart file_id part parts b)
  with assms show ?thesis
    by (auto simp: serialize_file_part_def part_obj_def upload_schema_def write_plain core_new_def Int_new_pack
      Long_new_pack pack_int_def order_def part_bytes_def Let_def SaveBigFilePart_ID_def fits_def Bytes_new_prefix
      bindR_def split: sum.splits prod.splits)
qed

lemma serialize_file_part_equiv_witness:
  "(let env = \<lparr>env_schema = [SaveFilePart_ID \<mapsto> [plain Clong, plain Cint, plain Cbytes],
        SaveBigFilePart_ID \<mapsto> [plain Clong, plain Cint, plain Cint, plain Cbytes]],
      env_class = Map.empty, gz_compress = (\<lambda>b. b), gz_decompress = Inr\<rparr>
    in upload_schema env \<and> (\<exists>bs. tl_write env (part_obj (SaveFilePart 7 0 [1, 2])) = Inr bs))"
proof -
  define env where "env = \<lparr>env_schema = [SaveFilePart_ID \<mapsto> [plain Clong, plain Cint, plain Cbytes],
        SaveBigFilePart_ID \<mapsto> [plain Clong, plain Cint, plain Cint, plain Cbytes]],
      env_class = Map.empty, gz_compress = (\<lambda>b :: bytes. b), gz_decompress = (Inr :: bytes \<Rightarrow> bytes result)\<rparr>"
  have u: "upload_schema env" by (simp add: upload_schema_def env_def SaveFilePart_ID_def SaveBigFilePart_ID_def)
  obtain bs where "serialize_file_part (SaveFilePart 7 0 [1, 2]) = Inr bs"
    by (simp add: serialize_file_part_def part_bytes_def pack_int_def fits_def SaveFilePart_ID_def)
  with serialize_file_part_equiv [OF u, of "SaveFilePart 7 0 [1, 2]"] u show ?thesis
    by (simp add: Let_def env_def [symmetric])
qed

section \<open>Sending\<close>

text \<open>The exceptions a call can end with, as far as the retry loops tell them apart.\<close>

datatype call_exn =
    EFloodWait int | EServerError | ETimeout | EConnectionReset | EConnection | EOSError
  | EBadMsg int | ERpc | EOther

text \<open>
  One attempt as the environment answers it: the clock, whether there is a connection, the exception of
  packing or writing, and what the other tasks of the session do to its state while the answer is
  awaited.
\<close>

record 'r attempt =
  at_clock :: rat
  at_ready :: bool
  at_fails :: "call_exn option"
  at_during :: "'r session \<Rightarrow> 'r session"

definition register :: "int \<Rightarrow> 'r session \<Rightarrow> 'r session" where
  "register i s = s\<lparr>results := (results s)(i \<mapsto> (None, False))\<rparr>"

definition unregister :: "int \<Rightarrow> 'r session \<Rightarrow> 'r session" where
  "unregister i s = s\<lparr>results := (results s)(i := None)\<rparr>"

definition answer_of :: "int \<Rightarrow> 'r session \<Rightarrow> 'r answer option" where
  "answer_of i s = (case results s i of None \<Rightarrow> None | Some (a, _) \<Rightarrow> a)"

text \<open>
  \<open>send\<close>; \<open>rpc\<close> gives the exception an error result raises. A refused message id or
  sequence number is sent again twice, a refused salt four times in all.
\<close>

function send :: "('r \<Rightarrow> call_exn option) \<Rightarrow> bool \<Rightarrow> int \<Rightarrow> bool \<Rightarrow> (nat \<Rightarrow> 'r attempt) \<Rightarrow> nat \<Rightarrow> 'r session
    \<Rightarrow> (call_exn + 'r answer option) \<times> 'r session" where
  "send rpc nc len wait env retry s =
     (if \<not> at_ready (env 0) then (Inl EOSError, s)
      else
        let (msg, f) = MsgFactory_call (at_clock (env 0)) nc len (Some len) (factory s);
            i = fst msg;
            s = s\<lparr>factory := f\<rparr>;
            s = (if wait then register i s else s)
        in case at_fails (env 0) of
             Some e \<Rightarrow> (Inl e, if wait then unregister i s else s)
           | None \<Rightarrow>
               if \<not> wait then (Inr None, s)
               else
                 let s = at_during (env 0) s;
                     ans = answer_of i s;
                     s = unregister i s
                 in (case ans of
                       None \<Rightarrow> (Inl ETimeout, s)
                     | Some AConnectionLost \<Rightarrow> (Inl EConnectionReset, s)
                     | Some AException \<Rightarrow> (Inl EConnectionReset, s)
                     | Some (AResult r) \<Rightarrow>
                         (case rpc r of Some e \<Rightarrow> (Inl e, s) | None \<Rightarrow> (Inr ans, s))
                     | Some (ABody (BadMsgNotification j c)) \<Rightarrow>
                         if 1 < retry then (Inl (EBadMsg c), s)
                         else send rpc nc len wait (\<lambda>k. env (Suc k)) (retry + 1) s
                     | Some (ABody (BadServerSalt j c n)) \<Rightarrow>
                         if 3 < retry then (Inl (EBadMsg c), s)
                         else send rpc nc len wait (\<lambda>k. env (Suc k)) (retry + 1) (s\<lparr>salt := n\<rparr>)
                     | Some (ABody b) \<Rightarrow> (Inr ans, s)))"
  by auto
termination by (relation "measure (\<lambda>(rpc, nc, len, wait, env, retry, s). 4 - retry)") auto

declare send.simps [simp del]

text \<open>
  A call never sends a request more than five times: what happens depends on the first five
  attempts alone, and so it always ends.
\<close>

theorem send_five_attempts:
  assumes "\<forall>k < 5 - retry. env k = env' k" "retry \<le> 4"
  shows "send rpc nc len wait env retry s = send rpc nc len wait env' retry s"
  using assms
proof (induction "4 - retry" arbitrary: env env' retry s)
  case 0
  then have r: "retry = 4" and e: "env 0 = env' 0" by simp_all
  obtain m f where mf: "MsgFactory_call (at_clock (env' 0)) nc len (Some len) (factory s) = (m, f)" by fastforce
  show ?case
    unfolding r
    by (subst (1 2) send.simps) (auto simp: e mf Let_def split: option.splits answer.splits body.splits)
next
  case (Suc n)
  have e: "env 0 = env' 0" using Suc.prems by simp
  have "send rpc nc len wait (\<lambda>k. env (Suc k)) (retry + 1) t = send rpc nc len wait (\<lambda>k. env' (Suc k)) (retry + 1) t" for t
    using Suc.hyps(2) Suc.prems by (intro Suc.hyps(1)) auto
  then show ?case
    by (subst (1 2) send.simps) (simp only: e)
qed

text \<open>The waiting list does not leak: an entry is taken out on every way out of the call.\<close>

lemma dom_register: "dom (results (register i s)) = insert i (dom (results s))"
  by (auto simp: register_def)

lemma unregister_dom: "dom (results (unregister i s)) = dom (results s) - {i}"
  by (auto simp: unregister_def split: if_splits)

definition adds_only :: "int set \<Rightarrow> ('r session \<Rightarrow> 'r session) \<Rightarrow> bool" where
  "adds_only K f = (\<forall>s. dom (results (f s)) \<subseteq> dom (results s) \<union> K)"

text \<open>
  C31. The table of waiting requests does not leak: whichever way \<open>send\<close> ends, with an answer, a
  timeout, a lost connection, an RPC error, or after re-sends, no entry of its own is left in it.
\<close>

theorem send_no_leak:
  assumes "\<forall>k. adds_only K (at_during (env k))"
  shows "dom (results (snd (send rpc nc len True env retry s))) \<subseteq> dom (results s) \<union> K"
  using assms
proof (induction "4 - retry" arbitrary: env retry s rule: less_induct)
  case less
  obtain m f where mf: "MsgFactory_call (at_clock (env 0)) nc len (Some len) (factory s) = (m, f)" by fastforce
  let ?i = "fst m" and ?s = "register (fst m) (s\<lparr>factory := f\<rparr>)"
  have r: "dom (results (unregister ?i (at_during (env 0) ?s))) \<subseteq> dom (results s) \<union> K"
  proof -
    have "dom (results (at_during (env 0) ?s)) \<subseteq> dom (results ?s) \<union> K"
      using less.prems unfolding adds_only_def by blast
    then show ?thesis by (auto simp: unregister_dom dom_register)
  qed
  have u: "dom (results (unregister ?i ?s)) \<subseteq> dom (results s) \<union> K"
    by (auto simp: unregister_dom dom_register)
  have IH: "dom (results (snd (send rpc nc len True (\<lambda>k. env (Suc k)) (retry + 1) t))) \<subseteq> dom (results s) \<union> K"
    if "dom (results t) \<subseteq> dom (results s) \<union> K" "retry < 4" for t
  proof -
    have "\<forall>k. adds_only K (at_during (env (Suc k)))" using less.prems by simp
    moreover have "4 - (retry + 1) < 4 - retry" using that(2) by simp
    ultimately have "dom (results (snd (send rpc nc len True (\<lambda>k. env (Suc k)) (retry + 1) t)))
        \<subseteq> dom (results t) \<union> K"
      by (intro less.hyps)
    with that(1) show ?thesis by blast
  qed
  have salt: "dom (results (t\<lparr>salt := n\<rparr>)) = dom (results t)" for t :: "'a session" and n by simp
  let ?t = "unregister ?i (at_during (env 0) ?s)"
  show ?case
  proof (cases "at_ready (env 0) \<and> at_fails (env 0) = None")
    case False
    show ?thesis
    proof (cases "at_ready (env 0)")
      case True
      with False obtain e where "at_fails (env 0) = Some e" by auto
      with True u show ?thesis by (subst send.simps) (simp add: mf Let_def)
    qed (subst send.simps; simp; blast)
  next
    case True
    let ?ans = "answer_of ?i (at_during (env 0) ?s)"
    have step: "send rpc nc len True env retry s =
      (case ?ans of
         None \<Rightarrow> (Inl ETimeout, ?t)
       | Some AConnectionLost \<Rightarrow> (Inl EConnectionReset, ?t)
       | Some AException \<Rightarrow> (Inl EConnectionReset, ?t)
       | Some (AResult r) \<Rightarrow> (case rpc r of Some e \<Rightarrow> (Inl e, ?t) | None \<Rightarrow> (Inr ?ans, ?t))
       | Some (ABody (BadMsgNotification j c)) \<Rightarrow>
           if 1 < retry then (Inl (EBadMsg c), ?t) else send rpc nc len True (\<lambda>k. env (Suc k)) (retry + 1) ?t
       | Some (ABody (BadServerSalt j c n)) \<Rightarrow>
           if 3 < retry then (Inl (EBadMsg c), ?t)
           else send rpc nc len True (\<lambda>k. env (Suc k)) (retry + 1) (?t\<lparr>salt := n\<rparr>)
       | Some (ABody b) \<Rightarrow> (Inr ?ans, ?t))"
      using True by (subst send.simps) (simp add: mf Let_def)
    show ?thesis
    proof (cases "\<exists>b. answer_of ?i (at_during (env 0) ?s) = Some (ABody b) \<and> is_bad_notification b")
      case False
      show ?thesis
      proof (cases "answer_of ?i (at_during (env 0) ?s)")
        case None
        then show ?thesis unfolding step using r by simp
      next
        case (Some a)
        show ?thesis
        proof (cases a)
          case (ABody b)
          with Some False have "\<not> is_bad_notification b" by simp
          then show ?thesis unfolding step Some ABody using r by (cases b) (simp_all add: is_bad_notification_def)
        next
          case (AResult x)
          then show ?thesis unfolding step Some using r by (cases "rpc x") simp_all
        next
          case AConnectionLost
          show ?thesis unfolding step Some AConnectionLost using r by simp
        next
          case AException
          show ?thesis unfolding step Some AException using r by simp
        qed
      qed
    next
      case bad: True
      then obtain b where b: "answer_of ?i (at_during (env 0) ?s) = Some (ABody b)" "is_bad_notification b" by blast
      show ?thesis
        unfolding step using b r IH [of ?t] IH [of "?t\<lparr>salt := n\<rparr>" for n]
        by (cases b) (simp_all add: is_bad_notification_def)
    qed
  qed
qed

definition demo_attempt :: "nat attempt" where
  "demo_attempt = \<lparr>at_clock = 0, at_ready = True, at_fails = None,
     at_during = (\<lambda>s. s\<lparr>results := (results s)(12 \<mapsto> (Some (AResult 5), True))\<rparr>)\<rparr>"

lemma send_five_attempts_witness:
  "send (\<lambda>_. None) False 8 True (\<lambda>k. demo_attempt) 0 demo_session
   = send (\<lambda>_. None) False 8 True (\<lambda>k. if k < 5 then demo_attempt else undefined) 0 demo_session"
  by (rule send_five_attempts) simp_all

lemma send_no_leak_witness:
  "dom (results (snd (send (\<lambda>_. None) False 8 True (\<lambda>k. demo_attempt) 0 demo_session))) \<subseteq> {4, 12}"
  using send_no_leak [of "{12}" "\<lambda>k. demo_attempt" "\<lambda>_. None" False 8 0 demo_session]
  by (auto simp: adds_only_def demo_attempt_def demo_session_def)

section \<open>Waiting for a running session and restarting\<close>

text \<open>
  \<open>_wait_started\<close>, once a start that was under way is over: the exception that ends the call, if
  any. \<open>restart\<close> gives the exception of the restart it runs and whether the session is started
  afterwards.
\<close>

definition wait_started :: "bool \<Rightarrow> bool \<Rightarrow> call_exn option \<times> bool \<Rightarrow> call_exn option \<Rightarrow> call_exn option" where
  "wait_started is_closed started restart start_exc =
     (if is_closed then Some EConnection
      else if started then None
      else (case restart of
              (Some e, _) \<Rightarrow> Some e
            | (None, started') \<Rightarrow> if \<not> started' then start_exc else None))"

section \<open>Invoking\<close>

text \<open>
  One round of the loop as the environment answers it: the exception of waiting for the session, the
  outcome of \<open>send\<close>, whether a packet came in within the wait timeout, the exception of a restart.
\<close>

record 'r round =
  rd_wait :: "call_exn option"
  rd_send :: "call_exn + 'r"
  rd_recent :: bool
  rd_restart :: "call_exn option"

datatype action = Slept int | Backoff int | ShortSleep | Restarted

definition retryable :: "call_exn \<Rightarrow> bool" where
  "retryable e = (e \<in> {EServerError, ETimeout, EConnectionReset, EConnection, EOSError})"

text \<open>
  The loop of \<open>_invoke\<close>; \<open>None\<close> is running out of fuel. Times are whole seconds.
\<close>

fun invoke_loop :: "nat \<Rightarrow> (nat \<Rightarrow> 'r round) \<Rightarrow> int \<Rightarrow> int \<Rightarrow> int \<Rightarrow> int \<Rightarrow> nat \<Rightarrow> action list \<times> (call_exn + 'r) option" where
  "invoke_loop 0 env threshold budget slept retries attempt = ([], None)"
| "invoke_loop (Suc fuel) env threshold budget slept retries attempt =
     (if retries \<le> 0 then ([], Some (Inl ETimeout))
      else (case rd_wait (env 0) of
        Some e \<Rightarrow> ([], Some (Inl e))
      | None \<Rightarrow>
          (case rd_send (env 0) of
             Inr r \<Rightarrow> ([], Some (Inr r))
           | Inl (EFloodWait amount) \<Rightarrow>
               if threshold < amount \<and> 0 \<le> threshold then ([], Some (Inl (EFloodWait amount)))
               else if 0 \<le> threshold \<and> budget < slept + amount then ([], Some (Inl (EFloodWait amount)))
               else
                 (let (as, r) = invoke_loop fuel (\<lambda>k. env (Suc k)) threshold budget (slept + amount) retries attempt
                  in (Slept amount # as, r))
           | Inl e \<Rightarrow>
               if \<not> retryable e then ([], Some (Inl e))
               else if retries - 1 = 0 then ([], Some (Inl e))
               else
                 let next = invoke_loop fuel (\<lambda>k. env (Suc k)) threshold budget slept (retries - 1) (attempt + 1) in
                 if e = EConnectionReset then (ShortSleep # fst next, snd next)
                 else if e = EServerError \<or> (e = ETimeout \<and> rd_recent (env 0))
                 then (Backoff (min (2 ^ attempt) 30) # fst next, snd next)
                 else (case rd_restart (env 0) of
                         Some x \<Rightarrow> ([Restarted], Some (Inl x))
                       | None \<Rightarrow> (Restarted # fst next, snd next)))))"

definition invoke :: "nat \<Rightarrow> (nat \<Rightarrow> 'r round) \<Rightarrow> int \<Rightarrow> int \<Rightarrow> action list \<times> (call_exn + 'r) option" where
  "invoke fuel env retries threshold = invoke_loop fuel env threshold (threshold * 10) 0 (max 1 retries) 0"

definition slept_in :: "action list \<Rightarrow> int" where
  "slept_in as = sum_list (map (\<lambda>a. case a of Slept n \<Rightarrow> n | _ \<Rightarrow> 0) as)"

definition tries_in :: "action list \<Rightarrow> nat" where
  "tries_in as = length (filter (\<lambda>a. case a of Slept n \<Rightarrow> False | _ \<Rightarrow> True) as)"

lemma slept_in_simps [simp]:
  "slept_in [] = 0" "slept_in (Slept n # as) = n + slept_in as"
  "slept_in (Backoff k # as) = slept_in as" "slept_in (ShortSleep # as) = slept_in as"
  "slept_in (Restarted # as) = slept_in as"
  by (simp_all add: slept_in_def)

lemma tries_in_simps [simp]:
  "tries_in [] = 0" "tries_in (Slept n # as) = tries_in as"
  "tries_in (Backoff k # as) = Suc (tries_in as)" "tries_in (ShortSleep # as) = Suc (tries_in as)"
  "tries_in (Restarted # as) = Suc (tries_in as)"
  by (simp_all add: tries_in_def)

text \<open>Telegram asks for a wait of at least a second.\<close>

definition floods_positive :: "(nat \<Rightarrow> 'r round) \<Rightarrow> bool" where
  "floods_positive env = (\<forall>k n. rd_send (env k) = Inl (EFloodWait n) \<longrightarrow> 1 \<le> n)"

lemma floods_positive_shift: "floods_positive env \<Longrightarrow> floods_positive (\<lambda>k. env (Suc k))"
  by (simp add: floods_positive_def)

definition ends_well :: "int \<Rightarrow> int \<Rightarrow> int \<Rightarrow> action list \<times> (call_exn + 'r) option \<Rightarrow> bool" where
  "ends_well budget slept retries x =
     (snd x \<noteq> None \<and> slept + slept_in (fst x) \<le> budget \<and> int (tries_in (fst x)) \<le> max 0 (retries - 1))"

lemma invoke_loop_ends:
  assumes "0 \<le> threshold" "floods_positive env" "slept \<le> budget"
    and "nat retries + nat (budget - slept) < fuel"
  shows "ends_well budget slept retries (invoke_loop fuel env threshold budget slept retries attempt)"
  using assms
proof (induction fuel arbitrary: env slept retries attempt)
  case (Suc fuel)
  let ?next = "\<lambda>slept retries attempt. invoke_loop fuel (\<lambda>k. env (Suc k)) threshold budget slept retries attempt"
  have IH: "ends_well budget slept' retries' (?next slept' retries' attempt')"
    if "slept' \<le> budget" "nat retries' + nat (budget - slept') < fuel" for slept' retries' attempt'
    using Suc.IH [OF Suc.prems(1) floods_positive_shift [OF Suc.prems(2)] that] .
  show ?case
  proof (cases "retries \<le> 0 \<or> rd_wait (env 0) \<noteq> None")
    case True
    then have "invoke_loop (Suc fuel) env threshold budget slept retries attempt =
        ([], Some (Inl (if retries \<le> 0 then ETimeout else the (rd_wait (env 0)))))"
      by auto
    with Suc.prems(3) show ?thesis by (simp add: ends_well_def)
  next
    case False
    then have r: "0 < retries" and w: "rd_wait (env 0) = None" by auto
    show ?thesis
    proof (cases "rd_send (env 0)")
      case (Inr x)
      with r w Suc.prems(3) show ?thesis by (simp add: ends_well_def)
    next
      case (Inl e)
      show ?thesis
      proof (cases "\<exists>n. e = EFloodWait n")
        case True
        then obtain n where n: "e = EFloodWait n" by auto
        have pos: "1 \<le> n" using Suc.prems(2) Inl n by (simp add: floods_positive_def)
        show ?thesis
        proof (cases "threshold < n \<or> budget < slept + n")
          case True
          with r w Inl n Suc.prems(1,3) show ?thesis by (auto simp: ends_well_def)
        next
          case False
          then have "ends_well budget (slept + n) retries (?next (slept + n) retries attempt)"
            using Suc.prems(4) pos by (intro IH) auto
          with False r w Inl n show ?thesis
            by (auto simp: ends_well_def split: prod.splits)
        qed
      next
        case False
        show ?thesis
        proof (cases "retryable e \<and> retries - 1 \<noteq> 0")
          case True
          have "ends_well budget slept (retries - 1) (?next slept (retries - 1) (attempt + 1))"
            using Suc.prems(3,4) r by (intro IH) auto
          with True r w Inl Suc.prems(3) show ?thesis
            by (cases e) (auto simp: ends_well_def Let_def retryable_def split: option.splits)
        next
          case nr: False
          with False r w Inl Suc.prems(3) show ?thesis
            by (cases e) (auto simp: ends_well_def)
        qed
      qed
    qed
  qed
qed simp



section \<open>Starting\<close>

text \<open>
  One attempt of \<open>start\<close>: whether the session was closed before it, how it came out, and whether
  it was closed while being taken down again.
\<close>

datatype start_outcome = SReady | SFlood int | STransient call_exn | SFatal call_exn

record start_round =
  sr_closed_before :: bool
  sr_outcome :: start_outcome
  sr_closed_after :: bool

datatype start_result = Started | ClosedEarly | StartRaised call_exn

definition handshake_timeout :: "nat \<Rightarrow> nat" where
  "handshake_timeout attempt = min (2 * attempt) 15"

text \<open>The attempts of \<open>start\<close>: the backoffs slept and the end; \<open>max_attempts\<close> may be \<open>None\<close>.\<close>

fun start_loop :: "nat \<Rightarrow> (nat \<Rightarrow> start_round) \<Rightarrow> nat option \<Rightarrow> nat \<Rightarrow> int list \<times> start_result option" where
  "start_loop 0 env max_attempts attempt0 = ([], None)"
| "start_loop (Suc fuel) env max_attempts attempt0 =
     (let attempt = attempt0 + 1;
          last = (case max_attempts of None \<Rightarrow> False | Some m \<Rightarrow> m \<le> attempt);
          again = (\<lambda>backoff. let (bs, r) = start_loop fuel (\<lambda>k. env (Suc k)) max_attempts attempt in (backoff # bs, r))
      in if sr_closed_before (env 0) then ([], Some ClosedEarly)
         else (case sr_outcome (env 0) of
             SReady \<Rightarrow> ([], Some (if sr_closed_after (env 0) then ClosedEarly else Started))
           | SFlood n \<Rightarrow>
               if sr_closed_after (env 0) then ([], Some ClosedEarly)
               else if last then ([], Some (StartRaised (EFloodWait n)))
               else again (min n 30)
           | STransient e \<Rightarrow>
               if sr_closed_after (env 0) then ([], Some ClosedEarly)
               else if last then ([], Some (StartRaised e))
               else again (min (2 ^ (attempt - 1)) 30)
           | SFatal e \<Rightarrow> ([], Some (StartRaised e))))"

definition start :: "nat \<Rightarrow> (nat \<Rightarrow> start_round) \<Rightarrow> nat option \<Rightarrow> int list \<times> start_result option" where
  "start fuel env max_attempts = start_loop fuel env max_attempts 0"

lemma start_loop_bounded:
  assumes "attempt0 < m" "m - attempt0 \<le> fuel"
  shows "snd (start_loop fuel env (Some m) attempt0) \<noteq> None \<and>
    length (fst (start_loop fuel env (Some m) attempt0)) < m - attempt0 \<and>
    (\<forall>b \<in> set (fst (start_loop fuel env (Some m) attempt0)). b \<le> 30)"
  using assms
proof (induction fuel arbitrary: env attempt0)
  case (Suc fuel)
  show ?case
  proof (cases "m \<le> attempt0 + 1")
    case True
    with Suc.prems show ?thesis by (auto simp: Let_def split: start_outcome.splits)
  next
    case False
    with Suc.prems have "snd (start_loop fuel (\<lambda>k. env (Suc k)) (Some m) (attempt0 + 1)) \<noteq> None \<and>
      length (fst (start_loop fuel (\<lambda>k. env (Suc k)) (Some m) (attempt0 + 1))) < m - (attempt0 + 1) \<and>
      (\<forall>b \<in> set (fst (start_loop fuel (\<lambda>k. env (Suc k)) (Some m) (attempt0 + 1))). b \<le> 30)"
      by (intro Suc.IH) auto
    with False show ?thesis by (auto simp: Let_def split: start_outcome.splits prod.splits)
  qed
qed simp

text \<open>
  A start with an attempt limit ends within it: at most \<open>max_attempts - 1\<close> backoffs, none
  longer than half a minute.
\<close>

theorem start_bounded:
  assumes "0 < m" "m \<le> fuel"
  shows "snd (start fuel env (Some m)) \<noteq> None \<and> length (fst (start fuel env (Some m))) < m \<and>
    (\<forall>b \<in> set (fst (start fuel env (Some m))). b \<le> 30)"
  using start_loop_bounded [of 0 m fuel env] assms by (simp add: start_def)

lemma start_bounded_witness:
  "length (fst (start 10 (\<lambda>k. \<lparr>sr_closed_before = False, sr_outcome = STransient EOSError,
      sr_closed_after = False\<rparr>) (Some 10))) < 10"
  using start_bounded [of 10 10] by simp

end
