(* ===== verification/Py_Text.thy ===== *)
theory Py_Text
  imports Prelude
begin

text \<open>
  The text operations of the language the program uses on headers, links and numbers: whitespace,
  \<open>strip\<close>, \<open>split\<close>, \<open>partition\<close>, \<open>lower\<close> and \<open>int(text, base)\<close>. \<open>lower\<close> and
  \<open>int\<close> are exact on Latin-1 text, which is all they are applied to.
\<close>

section \<open>Whitespace\<close>

definition py_space :: "nat \<Rightarrow> bool" where
  "py_space c =
     (9 \<le> c \<and> c \<le> 13 \<or> 28 \<le> c \<and> c \<le> 32 \<or> c = 133 \<or> c = 160 \<or> c = 5760 \<or> 8192 \<le> c \<and> c \<le> 8202
      \<or> c = 8232 \<or> c = 8233 \<or> c = 8239 \<or> c = 8287 \<or> c = 12288)"

definition ascii_space :: "nat \<Rightarrow> bool" where
  "ascii_space c = (9 \<le> c \<and> c \<le> 13 \<or> c = 32)"

definition strip_by :: "('a \<Rightarrow> bool) \<Rightarrow> 'a list \<Rightarrow> 'a list" where
  "strip_by p s = rev (dropWhile p (rev (dropWhile p s)))"

abbreviation py_strip :: "ustr \<Rightarrow> ustr" where
  "py_strip \<equiv> strip_by py_space"

definition lstrip_by :: "('a \<Rightarrow> bool) \<Rightarrow> 'a list \<Rightarrow> 'a list" where
  "lstrip_by p s = dropWhile p s"

definition rstrip_by :: "('a \<Rightarrow> bool) \<Rightarrow> 'a list \<Rightarrow> 'a list" where
  "rstrip_by p s = rev (dropWhile p (rev s))"

section \<open>Splitting\<close>

text \<open>\<open>s.split(None, n)\<close>: at most \<open>n\<close> cuts at runs of whitespace.\<close>

fun split_space :: "nat \<Rightarrow> ustr \<Rightarrow> ustr list" where
  "split_space n s =
     (let t = dropWhile py_space s in
      if t = [] then []
      else (case n of
              0 \<Rightarrow> [rstrip_by py_space t]
            | Suc m \<Rightarrow> takeWhile (\<lambda>c. \<not> py_space c) t # split_space m (dropWhile (\<lambda>c. \<not> py_space c) t)))"

declare split_space.simps [simp del]

text \<open>\<open>s.partition(c)\<close> for a single character: what is before it, whether it is there, what is after.\<close>

definition partition_at :: "'a \<Rightarrow> 'a list \<Rightarrow> 'a list \<times> bool \<times> 'a list" where
  "partition_at c s =
     (let a = takeWhile (\<lambda>x. x \<noteq> c) s; b = dropWhile (\<lambda>x. x \<noteq> c) s in
      (case b of [] \<Rightarrow> (s, False, []) | _ # r \<Rightarrow> (a, True, r)))"

text \<open>\<open>s.split(c)\<close> for a single character.\<close>

fun split_on :: "'a \<Rightarrow> 'a list \<Rightarrow> 'a list list" where
  "split_on c [] = [[]]"
| "split_on c (x # xs) =
     (if x = c then [] # split_on c xs
      else (case split_on c xs of [] \<Rightarrow> [[x]] | p # ps \<Rightarrow> (x # p) # ps))"

lemma partition_at_append: "c \<notin> set a \<Longrightarrow> partition_at c (a @ c # b) = (a, True, b)"
proof -
  assume "c \<notin> set a"
  then have "takeWhile (\<lambda>x. x \<noteq> c) (a @ c # b) = a" "dropWhile (\<lambda>x. x \<noteq> c) (a @ c # b) = c # b"
    by (induction a) auto
  then show ?thesis by (simp add: partition_at_def Let_def)
qed

text \<open>\<open>sub in s\<close>.\<close>

fun contains :: "'a list \<Rightarrow> 'a list \<Rightarrow> bool" where
  "contains sub [] = (sub = [])"
| "contains sub (x # xs) = (take (length sub) (x # xs) = sub \<or> contains sub xs)"

definition starts_with :: "'a list \<Rightarrow> 'a list \<Rightarrow> bool" where
  "starts_with pre s = (take (length pre) s = pre)"

definition ends_with :: "'a list \<Rightarrow> 'a list \<Rightarrow> bool" where
  "ends_with suf s = (length suf \<le> length s \<and> drop (length s - length suf) s = suf)"

section \<open>Case\<close>

definition lower_char :: "nat \<Rightarrow> nat" where
  "lower_char c = (if 65 \<le> c \<and> c \<le> 90 \<or> 192 \<le> c \<and> c \<le> 222 \<and> c \<noteq> 215 then c + 32 else c)"

definition py_lower :: "ustr \<Rightarrow> ustr" where
  "py_lower s = map lower_char s"

section \<open>Integers\<close>

definition digit_val :: "nat \<Rightarrow> nat option" where
  "digit_val c =
     (if 48 \<le> c \<and> c \<le> 57 then Some (c - 48)
      else if 65 \<le> c \<and> c \<le> 90 then Some (c - 55)
      else if 97 \<le> c \<and> c \<le> 122 then Some (c - 87)
      else None)"

text \<open>Digits, with single underscores between them.\<close>

fun digits_value :: "nat \<Rightarrow> nat \<Rightarrow> ustr \<Rightarrow> nat option" where
  "digits_value base acc [] = Some acc"
| "digits_value base acc (c # cs) =
     (if c = 95 then
        (case cs of
           [] \<Rightarrow> None
         | d # ds \<Rightarrow>
             (case digit_val d of
                None \<Rightarrow> None
              | Some v \<Rightarrow> if v < base then digits_value base (acc * base + v) ds else None))
      else
        (case digit_val c of
           None \<Rightarrow> None
         | Some v \<Rightarrow> if v < base then digits_value base (acc * base + v) cs else None))"

definition number_value :: "nat \<Rightarrow> ustr \<Rightarrow> nat option" where
  "number_value base s = (case s of [] \<Rightarrow> None | c # _ \<Rightarrow> if c = 95 then None else digits_value base 0 s)"

definition int_with :: "(nat \<Rightarrow> bool) \<Rightarrow> nat \<Rightarrow> ustr \<Rightarrow> int result" where
  "int_with space base s =
     (let t = strip_by space s;
          (neg, t) = (case t of [] \<Rightarrow> (False, t) | c # r \<Rightarrow> if c = 45 then (True, r) else if c = 43 then (False, r) else (False, t));
          t = (case t of a # b # r \<Rightarrow>
                 if base = 16 \<and> a = 48 \<and> (b = 120 \<or> b = 88)
                 then (case r of c # q \<Rightarrow> if c = 95 then q else r | [] \<Rightarrow> r) else t
               | _ \<Rightarrow> t)
      in case number_value base t of
           None \<Rightarrow> Inl ValueError
         | Some n \<Rightarrow> Inr (if neg then - int n else int n))"

abbreviation py_int :: "ustr \<Rightarrow> int result" where
  "py_int \<equiv> int_with py_space 10"

text \<open>\<open>str(n)\<close> of a non-negative number.\<close>

fun dec_digits :: "nat \<Rightarrow> ustr" where
  "dec_digits n = (if n < 10 then [48 + n] else dec_digits (n div 10) @ [48 + n mod 10])"

declare dec_digits.simps [simp del]

definition py_str_int :: "int \<Rightarrow> ustr" where
  "py_str_int i = (if i < 0 then 45 # dec_digits (nat (- i)) else dec_digits (nat i))"

text \<open>A printed number reads back.\<close>

lemma dec_digits_range: "list_all (\<lambda>c. 48 \<le> c \<and> c \<le> 57) (dec_digits n)"
proof (induction n rule: dec_digits.induct)
  case (1 n)
  have "n mod 10 < 10" by simp
  then have "48 + n mod 10 \<le> 57" by linarith
  with 1 show ?case by (cases "n < 10") (simp_all add: dec_digits.simps [of n])
qed

lemma dec_digits_nonempty [simp]: "dec_digits n \<noteq> []"
  by (simp add: dec_digits.simps [of n])

lemma digits_value_append:
  "list_all (\<lambda>c. 48 \<le> c \<and> c \<le> 57) xs \<Longrightarrow> digits_value 10 acc (xs @ ys) =
     (case digits_value 10 acc xs of None \<Rightarrow> None | Some a \<Rightarrow> digits_value 10 a ys)"
  by (induction xs arbitrary: acc) (auto simp: digit_val_def)

lemma digits_value_dec: "digits_value 10 0 (dec_digits n) = Some n"
proof (induction n rule: dec_digits.induct)
  case (1 n)
  show ?case
  proof (cases "n < 10")
    case True
    then show ?thesis by (simp add: dec_digits.simps [of n] digit_val_def)
  next
    case False
    then have "digits_value 10 0 (dec_digits (n div 10)) = Some (n div 10)" by (rule "1.IH")
    moreover have "n mod 10 < 10" by simp
    ultimately show ?thesis using False
      by (simp add: dec_digits.simps [of n] digits_value_append [OF dec_digits_range] digit_val_def del: mod_less_divisor)
  qed
qed

lemma number_value_dec: "number_value 10 (dec_digits n) = Some n"
proof -
  obtain c cs where c: "dec_digits n = c # cs" by (cases "dec_digits n") auto
  with dec_digits_range [of n] have "c \<noteq> 95" by auto
  with c digits_value_dec [of n] show ?thesis by (simp add: number_value_def)
qed

lemma strip_by_none: "(\<And>c. c \<in> set s \<Longrightarrow> \<not> p c) \<Longrightarrow> strip_by p s = s"
proof -
  assume n: "\<And>c. c \<in> set s \<Longrightarrow> \<not> p c"
  have d: "dropWhile p t = t" if "set t \<subseteq> set s" for t using that n by (cases t) auto
  then show ?thesis by (simp add: strip_by_def d)
qed

lemma py_int_digits: "list_all (\<lambda>c. 48 \<le> c \<and> c \<le> 57) ds \<Longrightarrow> number_value 10 ds = Some n \<Longrightarrow> py_int ds = Inr (int n)"
proof -
  assume r: "list_all (\<lambda>c. 48 \<le> c \<and> c \<le> 57) ds" and v: "number_value 10 ds = Some n"
  have "strip_by py_space ds = ds"
    by (rule strip_by_none) (use r in \<open>auto simp: list_all_iff py_space_def\<close>)
  moreover obtain c cs where "ds = c # cs" using v by (cases ds) (auto simp: number_value_def)
  ultimately show ?thesis using r v by (auto simp: int_with_def Let_def split: list.splits)
qed

lemma py_int_str_int: "py_int (py_str_int i) = Inr i"
proof (cases "i < 0")
  case False
  then show ?thesis using py_int_digits [OF dec_digits_range number_value_dec, of "nat i"] by (simp add: py_str_int_def)
next
  case True
  have "strip_by py_space (45 # dec_digits (nat (- i))) = 45 # dec_digits (nat (- i))"
    by (rule strip_by_none) (use dec_digits_range [of "nat (- i)"] in \<open>auto simp: list_all_iff py_space_def\<close>)
  with True number_value_dec [of "nat (- i)"] show ?thesis
    by (auto simp: py_str_int_def int_with_def Let_def split: list.splits)
qed

end
