(* ===== verification/Web_Frames.thy ===== *)
theory Web_Frames
  imports Base64
begin

text \<open>
  The frames of the WEB proxy carrier (first part of \<open>web_proxy_carrier.py\<close>): an eight-byte
  header with type, stream id and length, and a payload of at most one mebibyte. Serialization,
  the parser that leaves a partial frame alone, and the parser of a whole HTTP body.
\<close>

section \<open>Frames\<close>

datatype FrameType =
    F_OPEN | F_DATA | F_CLOSE | F_WINDOW | F_PING | F_PONG | F_HELLO | F_WELCOME | F_AUTH_CHALLENGE
  | F_AUTH_RESPONSE | F_BYE

fun frame_code :: "FrameType \<Rightarrow> nat" where
  "frame_code F_OPEN = 0x01"
| "frame_code F_DATA = 0x02"
| "frame_code F_CLOSE = 0x03"
| "frame_code F_WINDOW = 0x04"
| "frame_code F_PING = 0x05"
| "frame_code F_PONG = 0x06"
| "frame_code F_HELLO = 0x10"
| "frame_code F_WELCOME = 0x11"
| "frame_code F_AUTH_CHALLENGE = 0x12"
| "frame_code F_AUTH_RESPONSE = 0x13"
| "frame_code F_BYE = 0x1F"

definition FrameTypes :: "FrameType list" where
  "FrameTypes = [F_OPEN, F_DATA, F_CLOSE, F_WINDOW, F_PING, F_PONG, F_HELLO, F_WELCOME, F_AUTH_CHALLENGE,
     F_AUTH_RESPONSE, F_BYE]"

definition frame_of_code :: "nat \<Rightarrow> FrameType option" where
  "frame_of_code c = find (\<lambda>t. frame_code t = c) FrameTypes"

lemma frame_of_code_inverse [simp]: "frame_of_code (frame_code t) = Some t"
  by (cases t) (simp_all add: frame_of_code_def FrameTypes_def)

lemma frame_code_lt: "frame_code t < 256"
  by (cases t) simp_all

definition FRAME_HEADER_SIZE :: nat where "FRAME_HEADER_SIZE = 8"
definition FRAME_MAX_PAYLOAD :: nat where "FRAME_MAX_PAYLOAD = 1048576"
definition MAX_STREAM_ID :: int where "MAX_STREAM_ID = 0x00FFFFFF"

record frame =
  fr_type :: FrameType
  fr_stream :: int
  fr_payload :: bytes

definition serialize_frame :: "FrameType \<Rightarrow> int \<Rightarrow> bytes \<Rightarrow> bytes result" where
  "serialize_frame t stream_id payload =
     (if \<not> (0 \<le> stream_id \<and> stream_id \<le> MAX_STREAM_ID) then Inl ValueError
      else if FRAME_MAX_PAYLOAD < length payload then Inl ValueError
      else Inr ([byte_of (frame_code t), byte_of (nat (drop_bit 16 stream_id AND 0xFF)),
             byte_of (nat (drop_bit 8 stream_id AND 0xFF)), byte_of (nat (stream_id AND 0xFF))]
           @ be_bytes 4 (length payload) @ payload))"

text \<open>
  The loop of \<open>parse_frames\<close>: the frames and the number of bytes they take. It ends when less than
  a header, or less than a whole frame, is left.
\<close>

function parse_frames :: "bytes \<Rightarrow> (frame list \<times> nat) result" where
  "parse_frames wire =
     (if length wire < FRAME_HEADER_SIZE then Inr ([], 0)
      else
        (case frame_of_code (unat (wire ! 0)) of
           None \<Rightarrow> Inl ValueError
         | Some t \<Rightarrow>
             let stream_id = be_nat (take 3 (drop 1 wire));
                 size = be_nat (take 4 (drop 4 wire)) in
             if FRAME_MAX_PAYLOAD < size then Inl ValueError
             else if length wire < FRAME_HEADER_SIZE + size then Inr ([], 0)
             else
               let full = FRAME_HEADER_SIZE + size in
               bindR (parse_frames (drop full wire)) (\<lambda>(fs, consumed).
                 Inr (\<lparr>fr_type = t, fr_stream = int stream_id, fr_payload = take size (drop FRAME_HEADER_SIZE wire)\<rparr> # fs,
                   full + consumed))))"
  by auto
termination by (relation "measure length") (auto simp: FRAME_HEADER_SIZE_def)

declare parse_frames.simps [simp del]

definition parse_frame_message :: "bytes \<Rightarrow> frame list result" where
  "parse_frame_message body =
     (if body = [] then Inl ValueError
      else bindR (parse_frames body) (\<lambda>(fs, consumed).
        if consumed \<noteq> length body \<or> fs = [] then Inl ValueError else Inr fs))"

lemma stream_id_bytes:
  assumes "0 \<le> i" "i \<le> MAX_STREAM_ID"
  shows "int (be_nat [byte_of (nat (drop_bit 16 i AND 0xFF)), byte_of (nat (drop_bit 8 i AND 0xFF)),
    byte_of (nat (i AND 0xFF))]) = i"
proof -
  have m: "x AND 0xFF = x mod 256" for x :: int
  proof -
    have "(0xFF :: int) = mask 8" by (simp add: mask_eq_exp_minus_1)
    then have "x AND 0xFF = take_bit 8 x" by (simp only: take_bit_eq_mask)
    then show ?thesis by (simp add: take_bit_eq_mod)
  qed
  obtain n where n: "i = int n" using assms(1) nonneg_int_cases by blast
  have d: "drop_bit 16 i = int (n div 65536)" "drop_bit 8 i = int (n div 256)"
    by (simp_all add: n drop_bit_eq_div zdiv_int)
  have "n div 65536 < 256" using assms(2) n by (simp add: MAX_STREAM_ID_def)
  moreover have "n div 65536 = n div 256 div 256" by (simp add: div_mult2_eq [symmetric])
  ultimately have "n mod 256 + 256 * (n div 256 mod 256 + 256 * (n div 65536 mod 256)) = n"
    using div_mult_mod_eq [of n 256] div_mult_mod_eq [of "n div 256" 256] by simp
  then have "int (n mod 256 + 256 * (n div 256 mod 256 + 256 * (n div 65536 mod 256))) = int n" by (simp only:)
  moreover have "nat (drop_bit 16 i mod 256) = n div 65536 mod 256" "nat (drop_bit 8 i mod 256) = n div 256 mod 256"
    unfolding d by (simp_all add: nat_mod_distrib)
  moreover have "nat (i mod 256) = n mod 256" by (simp add: n nat_mod_distrib)
  ultimately show ?thesis
    by (simp add: be_nat_def m n algebra_simps)
qed

text \<open>A serialized frame in front of anything is parsed off.\<close>

lemma parse_frames_serialized:
  assumes "serialize_frame t i p = Inr bs"
  shows "parse_frames (bs @ rest) =
    bindR (parse_frames rest) (\<lambda>(fs, consumed).
      Inr (\<lparr>fr_type = t, fr_stream = i, fr_payload = p\<rparr> # fs, length bs + consumed))"
proof -
  from assms have i: "0 \<le> i" "i \<le> MAX_STREAM_ID" and p: "length p \<le> FRAME_MAX_PAYLOAD"
    and bs: "bs = [byte_of (frame_code t), byte_of (nat (drop_bit 16 i AND 0xFF)),
             byte_of (nat (drop_bit 8 i AND 0xFF)), byte_of (nat (i AND 0xFF))] @ be_bytes 4 (length p) @ p"
    by (auto simp: serialize_frame_def split: if_splits)
  have sz: "be_nat (be_bytes 4 (length p)) = length p"
    using p by (simp add: be_nat_be_bytes FRAME_MAX_PAYLOAD_def)
  have l: "length bs = 8 + length p" by (simp add: bs)
  have t: "take 3 (drop 1 (bs @ rest)) = [byte_of (nat (drop_bit 16 i AND 0xFF)), byte_of (nat (drop_bit 8 i AND 0xFF)),
    byte_of (nat (i AND 0xFF))]" "take 4 (drop 4 (bs @ rest)) = be_bytes 4 (length p)"
    "(bs @ rest) ! 0 = byte_of (frame_code t)"
    by (simp_all add: bs numeral_3_eq_3)
  obtain h where h: "bs = h @ p" "length h = 8" by (rule that [of "take 8 bs"]) (simp_all add: bs)
  have d: "take (length p) (drop 8 (bs @ rest)) = p" "drop (8 + length p) (bs @ rest) = rest"
    by (simp_all add: h)
  show ?thesis
    using p l by (subst parse_frames.simps)
      (simp only: t d sz Let_def FRAME_HEADER_SIZE_def unat_byte_of [OF frame_code_lt] frame_of_code_inverse
        option.case length_append stream_id_bytes [OF i], simp)
qed

lemma parse_frames_short: "length rest < FRAME_HEADER_SIZE \<Longrightarrow> parse_frames rest = Inr ([], 0)"
  by (subst parse_frames.simps) simp

definition wire_of :: "frame list \<Rightarrow> bytes result" where
  "wire_of fs = bindR (mapR (\<lambda>f. serialize_frame (fr_type f) (fr_stream f) (fr_payload f)) fs) (\<lambda>bs. Inr (concat bs))"

lemma parse_frames_wire:
  assumes "wire_of fs = Inr bs"
  shows "parse_frames (bs @ rest) =
    bindR (parse_frames rest) (\<lambda>(gs, consumed). Inr (fs @ gs, length bs + consumed))"
  using assms
proof (induction fs arbitrary: bs)
  case Nil
  then show ?case by (cases "parse_frames rest") (auto simp: wire_of_def)
next
  case (Cons f fs)
  from Cons.prems obtain b cs where b: "serialize_frame (fr_type f) (fr_stream f) (fr_payload f) = Inr b"
    and cs: "wire_of fs = Inr cs" and bs: "bs = b @ cs"
    by (auto simp: wire_of_def bindR_Inr_iff)
  show ?case
    using parse_frames_serialized [OF b, of "cs @ rest"] Cons.IH [OF cs]
    by (cases "parse_frames rest") (auto simp: bs)
qed

text \<open>
  A body made of whole frames is parsed into exactly these frames, and a frame that is cut short
  after whole ones is left unconsumed.
\<close>

lemma frames_partial:
  assumes "wire_of fs = Inr bs" "serialize_frame t i p = Inr lst" "n < length lst"
  shows "parse_frames (bs @ take n lst) = Inr (fs, length bs)"
proof -
  from assms(2) have lst: "lst = [byte_of (frame_code t), byte_of (nat (drop_bit 16 i AND 0xFF)),
             byte_of (nat (drop_bit 8 i AND 0xFF)), byte_of (nat (i AND 0xFF))] @ be_bytes 4 (length p) @ p"
    and p: "length p \<le> FRAME_MAX_PAYLOAD"
    by (auto simp: serialize_frame_def split: if_splits)
  have sz: "be_nat (be_bytes 4 (length p)) = length p"
    using p by (simp add: be_nat_be_bytes FRAME_MAX_PAYLOAD_def)
  have "parse_frames (take n lst) = Inr ([], 0)"
  proof (cases "n < 8")
    case True
    then show ?thesis by (intro parse_frames_short) (simp add: FRAME_HEADER_SIZE_def)
  next
    case False
    have len: "length lst = 8 + length p" by (simp add: lst)
    have "take n lst = [byte_of (frame_code t), byte_of (nat (drop_bit 16 i AND 0xFF)),
             byte_of (nat (drop_bit 8 i AND 0xFF)), byte_of (nat (i AND 0xFF))] @ be_bytes 4 (length p) @ take (n - 8) p"
      using False by (simp add: lst take_Cons')
    from this have "take 4 (drop 4 (take n lst)) = be_bytes 4 (length p)" "take n lst ! 0 = byte_of (frame_code t)"
      by simp_all
    moreover have "length (take n lst) = n" using assms(3) by simp
    ultimately show ?thesis
      using False p assms(3) len
      by (subst parse_frames.simps)
        (simp only: sz Let_def FRAME_HEADER_SIZE_def unat_byte_of [OF frame_code_lt] frame_of_code_inverse option.case, simp)
  qed
  then show ?thesis using parse_frames_wire [OF assms(1)] by simp
qed

text \<open>
  Frames survive the wire: a body of whole frames is parsed into exactly these frames; with a cut
  frame behind them the body is refused, and the parser of a stream stops in front of it.
\<close>

theorem frames_roundtrip:
  assumes "wire_of fs = Inr bs" "fs \<noteq> []"
  shows "parse_frame_message bs = Inr fs \<and>
    (\<forall>t i p cut n. serialize_frame t i p = Inr cut \<and> 0 < n \<and> n < length cut \<longrightarrow>
       parse_frames (bs @ take n cut) = Inr (fs, length bs) \<and>
       parse_frame_message (bs @ take n cut) = Inl ValueError)"
proof -
  from assms obtain f gs where fs: "fs = f # gs" by (cases fs) auto
  with assms obtain b cs where "serialize_frame (fr_type f) (fr_stream f) (fr_payload f) = Inr b" "bs = b @ cs"
    by (auto simp: wire_of_def bindR_Inr_iff)
  then have ne: "bs \<noteq> []" by (auto simp: serialize_frame_def split: if_splits)
  have "parse_frames bs = Inr (fs, length bs)"
    using parse_frames_wire [OF assms(1), of "[]"] parse_frames_short [of "[]"] by (simp add: FRAME_HEADER_SIZE_def)
  then show ?thesis
    using ne assms(2) frames_partial [OF assms(1)] by (auto simp: parse_frame_message_def)
qed

lemma frames_roundtrip_witness:
  "\<exists>bs. wire_of [\<lparr>fr_type = F_DATA, fr_stream = 1, fr_payload = [7, 8]\<rparr>] = Inr bs \<and>
     parse_frame_message bs = Inr [\<lparr>fr_type = F_DATA, fr_stream = 1, fr_payload = [7, 8]\<rparr>]"
proof -
  obtain bs where "wire_of [\<lparr>fr_type = F_DATA, fr_stream = 1, fr_payload = [7, 8]\<rparr>] = Inr bs"
    by (simp add: wire_of_def serialize_frame_def MAX_STREAM_ID_def FRAME_MAX_PAYLOAD_def)
  with frames_roundtrip [OF this] show ?thesis by blast
qed

end
