(* ===== verification/Web_Http.thy ===== *)
theory Web_Http
  imports Py_Text Web_Frames
begin

text \<open>
  The HTTP/1.1 client of \<open>web_proxy_carrier.py\<close>: reading a response off the connection's bytes
  (status line, headers, and a body framed by chunks or by its length), and the one retry of a
  request. The stream is what the peer sends until it closes; header text is Latin-1.
\<close>

section \<open>Reading lines and blocks\<close>

text \<open>\<open>StreamReader.readline\<close>: through the line feed, or what is left before the end.\<close>

definition readline :: "bytes reader" where
  "readline s =
     (case dropWhile (\<lambda>b. b \<noteq> 10) s of
        [] \<Rightarrow> (Inr s, [])
      | b # r \<Rightarrow> (Inr (takeWhile (\<lambda>b. b \<noteq> 10) s @ [10]), r))"

definition readexactly :: "int \<Rightarrow> bytes reader" where
  "readexactly n s =
     (if n < 0 then (Inl ValueError, s)
      else if int (length s) < n then (Inl EOFError, [])
      else (Inr (take (nat n) s), drop (nat n) s))"

definition latin1 :: "bytes \<Rightarrow> ustr" where
  "latin1 b = map unat b"

definition CRLF :: bytes where
  "CRLF = [13, 10]"

lemma readline_line: "10 \<notin> set l \<Longrightarrow> readline (l @ 10 # rest) = (Inr (l @ [10]), rest)"
proof -
  assume "10 \<notin> set l"
  then have "dropWhile (\<lambda>b. b \<noteq> 10) (l @ 10 # rest) = 10 # rest" "takeWhile (\<lambda>b. b \<noteq> 10) (l @ 10 # rest) = l"
    by (induction l) auto
  then show ?thesis by (simp add: readline_def)
qed

lemma readline_shorter:
  assumes "readline s = (Inr l, t)" "l \<noteq> []"
  shows "length t < length s"
proof (cases "dropWhile (\<lambda>b. b \<noteq> 10) s")
  case Nil
  with assms show ?thesis by (auto simp: readline_def)
next
  case (Cons b r)
  with assms have "t = r" by (simp add: readline_def)
  moreover have "length (b # r) \<le> length s" unfolding Cons [symmetric] by (rule length_dropWhile_le)
  ultimately show ?thesis by simp
qed

lemma readexactly_block: "readexactly (int (length d)) (d @ rest) = (Inr d, rest)"
  by (simp add: readexactly_def)

section \<open>Status line and headers\<close>

type_synonym headers = "ustr \<rightharpoonup> ustr"

lemma readline_shorter': "(Inr l, t) = readline s \<Longrightarrow> l \<noteq> [] \<Longrightarrow> length t < length s"
  by (rule readline_shorter) simp_all

function read_headers :: "headers \<Rightarrow> headers reader" where
  "read_headers hs s =
     (case readline s of
        (Inl e, t) \<Rightarrow> (Inl e, t)
      | (Inr line, t) \<Rightarrow>
          if line = CRLF \<or> line = [] then (Inr hs, t)
          else (case partition_at 58 (latin1 line) of
                  (name, _, value) \<Rightarrow> read_headers (hs(py_lower (py_strip name) \<mapsto> py_strip value)) t))"
  by auto
termination
  by (relation "measure (\<lambda>(hs, s). length s)") (auto dest: readline_shorter')

declare read_headers.simps [simp del]

definition read_status_and_headers :: "(int \<times> headers) reader" where
  "read_status_and_headers =
     bindS readline (\<lambda>status_line.
       if status_line = [] then liftS (Inl ConnectionError)
       else
         bindS (liftS (case split_space 2 (latin1 status_line) of
             _ # code # _ \<Rightarrow> (case py_int code of Inr n \<Rightarrow> Inr n | Inl _ \<Rightarrow> Inl ConnectionError)
           | _ \<Rightarrow> Inl ConnectionError)) (\<lambda>status.
         bindS (read_headers Map.empty) (\<lambda>hs. retS (status, hs))))"

section \<open>The body\<close>

text \<open>\<open>int(size_line.split(b";", 1)[0].strip(), 16)\<close>.\<close>

definition chunk_size :: "bytes \<Rightarrow> int result" where
  "chunk_size size_line =
     int_with ascii_space 16 (strip_by ascii_space (latin1 (takeWhile (\<lambda>b. b \<noteq> 59) size_line)))"

function read_trailers :: "unit reader" where
  "read_trailers s =
     (case readline s of
        (Inl e, t) \<Rightarrow> (Inl e, t)
      | (Inr line, t) \<Rightarrow> if line = CRLF \<or> line = [] then (Inr (), t) else read_trailers t)"
  by auto
termination by (relation "measure length") (auto dest: readline_shorter')

declare read_trailers.simps [simp del]

lemma readexactly_le: "readexactly n s = (Inr d, t) \<Longrightarrow> length t \<le> length s"
  by (auto simp: readexactly_def split: if_splits)

function read_chunks :: "bytes reader" where
  "read_chunks s =
     (case readline s of
        (Inl e, t) \<Rightarrow> (Inl e, t)
      | (Inr size_line, t) \<Rightarrow>
          if size_line = [] then (Inl ConnectionError, t)
          else (case chunk_size size_line of
                  Inl _ \<Rightarrow> (Inl ConnectionError, t)
                | Inr n \<Rightarrow>
                    if n = 0 then (Inr [], t)
                    else (case readexactly n t of
                            (Inl e, u) \<Rightarrow> (Inl e, u)
                          | (Inr d, u) \<Rightarrow>
                              (case readexactly 2 u of
                                 (Inl e, v) \<Rightarrow> (Inl e, v)
                               | (Inr crlf, v) \<Rightarrow>
                                   if crlf \<noteq> CRLF then (Inl ConnectionError, v)
                                   else (case read_chunks v of
                                           (Inl e, w) \<Rightarrow> (Inl e, w)
                                         | (Inr ds, w) \<Rightarrow> (Inr (d @ ds), w))))))"
  by auto
termination
proof (relation "measure length")
  fix s x t l n y u d z v c
  assume "(x, t) = readline s" "x = Inr l" "l \<noteq> []" "(y, u) = readexactly n t" "y = Inr d"
    "(z, v) = readexactly 2 u" "z = Inr c"
  then show "(v, s) \<in> measure length"
    using readline_shorter [of s l t] readexactly_le [of n t d u] readexactly_le [of 2 u c v] by simp
qed simp

declare read_chunks.simps [simp del]

definition read_chunked_body :: "bytes reader" where
  "read_chunked_body = bindS read_chunks (\<lambda>body. bindS read_trailers (\<lambda>_. retS body))"

definition hd_of :: "string \<Rightarrow> headers \<Rightarrow> ustr option" where
  "hd_of name hs = hs (ustr name)"

definition read_body :: "int \<Rightarrow> headers \<Rightarrow> bytes reader" where
  "read_body status hs =
     (let transfer_encoding = py_lower (case hd_of ''transfer-encoding'' hs of None \<Rightarrow> [] | Some v \<Rightarrow> v) in
      if contains (ustr ''chunked'') transfer_encoding then read_chunked_body
      else (case hd_of ''content-length'' hs of
              Some v \<Rightarrow>
                (case py_int v of
                   Inl _ \<Rightarrow> liftS (Inl ConnectionError)
                 | Inr n \<Rightarrow> readexactly n)
            | None \<Rightarrow> if status = 204 then retS [] else liftS (Inl ConnectionError)))"

record http_response =
  hr_status :: int
  hr_headers :: headers
  hr_body :: bytes

text \<open>The response half of \<open>_send_and_read\<close>, with whether the connection is dropped after it.\<close>

definition read_response :: "(http_response \<times> bool) reader" where
  "read_response =
     bindS read_status_and_headers (\<lambda>(status, hs).
     bindS (read_body status hs) (\<lambda>body.
       retS (\<lparr>hr_status = status, hr_headers = hs, hr_body = body\<rparr>,
         py_lower (case hd_of ''connection'' hs of None \<Rightarrow> [] | Some v \<Rightarrow> v) = ustr ''close'')))"

section \<open>The request and its retry\<close>

definition REQUEST_ATTEMPTS :: nat where "REQUEST_ATTEMPTS = 2"

text \<open>
  \<open>request\<close>: the outcome of each attempt on a connection of its own; network errors and timeouts
  are retried, anything else ends the call.
\<close>

definition http_retryable :: "py_exn \<Rightarrow> bool" where
  "http_retryable e = (is_OSError e \<or> e = EOFError)"

fun request_loop :: "nat \<Rightarrow> (nat \<Rightarrow> http_response result) \<Rightarrow> http_response result" where
  "request_loop 0 env = Inl WebCarrierError"
| "request_loop (Suc n) env =
     (case env 0 of
        Inr r \<Rightarrow> Inr r
      | Inl e \<Rightarrow> if http_retryable e then request_loop n (\<lambda>k. env (Suc k)) else Inl e)"

definition request :: "(nat \<Rightarrow> http_response result) \<Rightarrow> http_response result" where
  "request env = request_loop REQUEST_ATTEMPTS env"

section \<open>Chunked bodies\<close>

text \<open>
  A chunk as a peer may write it: a size line in any of the accepted spellings, with or without
  extensions, that denotes the length of the data.
\<close>

definition chunk_ok :: "bytes \<times> bytes \<Rightarrow> bool" where
  "chunk_ok c = (case c of (line, d) \<Rightarrow> 10 \<notin> set line \<and> d \<noteq> [] \<and> chunk_size (line @ [10]) = Inr (int (length d)))"

definition chunk_bytes :: "bytes \<times> bytes \<Rightarrow> bytes" where
  "chunk_bytes c = (case c of (line, d) \<Rightarrow> line @ [10] @ d @ CRLF)"

lemma read_chunks_chunk:
  assumes "chunk_ok c"
  shows "read_chunks (chunk_bytes c @ rest) =
    (case read_chunks rest of (Inl e, w) \<Rightarrow> (Inl e, w) | (Inr ds, w) \<Rightarrow> (Inr (snd c @ ds), w))"
proof -
  obtain line d where c: "c = (line, d)" by (cases c)
  with assms have ok: "10 \<notin> set line" "d \<noteq> []" "chunk_size (line @ [10]) = Inr (int (length d))"
    by (simp_all add: chunk_ok_def)
  have l: "readline (line @ 10 # d @ CRLF @ rest) = (Inr (line @ [10]), d @ CRLF @ rest)"
    using ok(1) by (rule readline_line)
  have r: "readexactly 2 (CRLF @ rest) = (Inr CRLF, rest)"
    using readexactly_block [of CRLF rest] by (simp add: CRLF_def)
  show ?thesis
    unfolding c snd_conv by (subst read_chunks.simps) (simp add: chunk_bytes_def l ok readexactly_block r)
qed

text \<open>
  A chunked body is put together from the data of all its chunks, however the peer cut it and
  spelled the sizes, and trailers are read away; nothing behind the body is touched.
\<close>

theorem chunked_body_read:
  assumes "list_all chunk_ok cs" "10 \<notin> set zero" "chunk_size (zero @ [10]) = Inr 0"
    and "\<forall>l \<in> set trailers. 10 \<notin> set l \<and> l \<noteq> [13]"
  shows "read_chunked_body
      (concat (map chunk_bytes cs) @ (zero @ [10]) @ concat (map (\<lambda>l. l @ [10]) trailers) @ CRLF @ rest)
    = (Inr (concat (map snd cs)), rest)"
proof -
  have t: "read_trailers (concat (map (\<lambda>l. l @ [10]) trailers) @ CRLF @ rest) = (Inr (), rest)"
    using assms(4)
  proof (induction trailers)
    case Nil
    show ?case
      using readline_line [of "[13]" rest] by (subst read_trailers.simps) (simp add: CRLF_def)
  next
    case (Cons l trailers)
    have "l @ [10] \<noteq> CRLF" using Cons.prems by (auto simp: CRLF_def append_eq_Cons_conv)
    with Cons show ?case
      by (subst read_trailers.simps) (simp add: readline_line)
  qed
  have "read_chunks (concat (map chunk_bytes cs) @ zero @ 10 # tail) = (Inr (concat (map snd cs)), tail)" for tail
    using assms(1)
  proof (induction cs)
    case Nil
    show ?case
      using assms(2,3) by (subst read_chunks.simps) (simp add: readline_line)
  next
    case (Cons c cs)
    then show ?case by (simp add: read_chunks_chunk)
  qed
  with t show ?thesis by (simp add: read_chunked_body_def bindS_def)
qed

text \<open>The chunks \<open>3;x=1\<close> and \<open>0A\<close>, with a trailer.\<close>

lemma chunked_body_read_witness:
  "read_chunked_body
      (concat (map chunk_bytes [([51, 59, 120], [1, 2, 3]), ([48, 50, 13], [10, 13])]) @
        ([48, 13] @ [10]) @ concat (map (\<lambda>l. l @ [10]) [[65, 58, 66, 13]]) @ CRLF @ [7])
    = (Inr [1, 2, 3, 10, 13], [7])"
proof -
  have s: "chunk_size [51, 59, 120, 10] = Inr 3" "chunk_size [48, 50, 13, 10] = Inr 2" "chunk_size [48, 13, 10] = Inr 0"
    by (simp_all add: chunk_size_def latin1_def strip_by_def ascii_space_def int_with_def number_value_def
      digit_val_def)
  show ?thesis
    using chunked_body_read [of "[([51, 59, 120], [1, 2, 3]), ([48, 50, 13], [10, 13])]" "[48, 13]" "[[65, 58, 66, 13]]" "[7]"] s
    by (simp add: chunk_ok_def)
qed

end
