(* ===== verification/Web_Carrier.thy ===== *)
theory Web_Carrier
  imports Web_Http
begin

text \<open>
  \<open>WebProxyCarrier\<close>: one relay session with one stream, as a byte pipe. The state holds the two
  flow-control windows, the receive queue and buffer, the failure and the posts made so far; the
  operations are the methods, their network answers are arguments, and a step relation lets frames,
  readers, grants and failures interleave.
\<close>

section \<open>State\<close>

datatype reason =
    RBye | RCreditOverrun | RStreamClosed | RMalformedWindow | RCreditTimeout | RUplink int | RHttp py_exn | RPoll
  | RWelcomeTimeout

datatype task = TPong bytes | TFail reason

record carrier =
  up_seq :: nat
  down_cursor :: int
  send_window :: int
  send_event :: bool
  recv_window_remaining :: int
  recv_buffer :: bytes
  pending_grant :: int
  grant_task :: bool
  recv_queue :: "bytes option list"
  welcome_event :: bool
  c_closed :: bool
  fail_exc :: "reason option"
  poll_cancelled :: bool
  tasks :: "task list"
  posted :: "(nat \<times> bytes) list"

definition INITIAL_STREAM_WINDOW :: int where "INITIAL_STREAM_WINDOW = 4194304"
definition UPLINK_FRAME_MAX :: nat where "UPLINK_FRAME_MAX = 65536"
definition DOWNLINK_GRANT_THRESHOLD :: int where "DOWNLINK_GRANT_THRESHOLD = 262144"
definition STREAM_ID :: int where "STREAM_ID = 1"
definition CONTROL_STREAM_ID :: int where "CONTROL_STREAM_ID = 0"

definition carrier_new :: carrier where
  "carrier_new =
     \<lparr>up_seq = 0, down_cursor = 0, send_window = INITIAL_STREAM_WINDOW, send_event = True,
      recv_window_remaining = INITIAL_STREAM_WINDOW, recv_buffer = [], pending_grant = 0, grant_task = False,
      recv_queue = [], welcome_event = False, c_closed = False, fail_exc = None, poll_cancelled = False,
      tasks = [], posted = []\<rparr>"

section \<open>Failing and posting\<close>

definition carrier_fail :: "reason \<Rightarrow> carrier \<Rightarrow> carrier" where
  "carrier_fail r s =
     (if fail_exc s \<noteq> None then s
      else s\<lparr>fail_exc := Some r, welcome_event := True, send_event := True,
             recv_queue := recv_queue s @ [None], poll_cancelled := True\<rparr>)"

text \<open>\<open>_send_frames\<close>; the relay's answer is looked up by the sequence number of the post.\<close>

type_synonym relay = "nat \<Rightarrow> http_response result"

definition send_frames :: "relay \<Rightarrow> bytes list \<Rightarrow> carrier \<Rightarrow> unit result \<times> carrier" where
  "send_frames relay frames s =
     (let seq = up_seq s;
          s = s\<lparr>up_seq := seq + 1, posted := posted s @ [(seq, concat frames)]\<rparr>
      in case relay seq of
           Inl e \<Rightarrow> (Inl WebCarrierError, carrier_fail (RHttp e) s)
         | Inr r \<Rightarrow>
             if hr_status r \<noteq> 200 then (Inl WebCarrierError, carrier_fail (RUplink (hr_status r)) s)
             else (Inr (), s))"

section \<open>Frames from the relay\<close>

definition schedule :: "task \<Rightarrow> carrier \<Rightarrow> carrier" where
  "schedule t s = s\<lparr>tasks := tasks s @ [t]\<rparr>"

definition handle_control_frame :: "frame \<Rightarrow> carrier \<Rightarrow> carrier" where
  "handle_control_frame f s =
     (case fr_type f of
        F_WELCOME \<Rightarrow> s\<lparr>welcome_event := True\<rparr>
      | F_PING \<Rightarrow> schedule (TPong (fr_payload f)) s
      | F_BYE \<Rightarrow> schedule (TFail RBye) s
      | _ \<Rightarrow> s)"

definition handle_stream_frame :: "frame \<Rightarrow> carrier \<Rightarrow> carrier" where
  "handle_stream_frame f s =
     (case fr_type f of
        F_DATA \<Rightarrow>
          let s = s\<lparr>recv_window_remaining := recv_window_remaining s - int (length (fr_payload f))\<rparr> in
          if recv_window_remaining s < 0 then schedule (TFail RCreditOverrun) s
          else s\<lparr>recv_queue := recv_queue s @ [Some (fr_payload f)]\<rparr>
      | F_CLOSE \<Rightarrow> schedule (TFail RStreamClosed) s
      | F_WINDOW \<Rightarrow>
          if length (fr_payload f) \<noteq> 4 then schedule (TFail RMalformedWindow) s
          else s\<lparr>send_window := send_window s + int (be_nat (fr_payload f)), send_event := True\<rparr>
      | _ \<Rightarrow> s)"

definition handle_frame :: "frame \<Rightarrow> carrier \<Rightarrow> carrier" where
  "handle_frame f s =
     (if fr_stream f = CONTROL_STREAM_ID then handle_control_frame f s
      else if fr_stream f \<noteq> STREAM_ID then s
      else handle_stream_frame f s)"

text \<open>\<open>_poll_once\<close> and the error clauses of \<open>_poll_loop\<close>.\<close>

definition poll_once :: "http_response result \<Rightarrow> carrier \<Rightarrow> unit result \<times> carrier" where
  "poll_once response s =
     (case response of
        Inl e \<Rightarrow> (Inl e, s)
      | Inr r \<Rightarrow>
          if hr_status r = 204 then (Inr (), s)
          else if hr_status r \<noteq> 200 then (Inl WebCarrierError, s)
          else
            (case (case hd_of ''x-cursor'' (hr_headers r) of
                     None \<Rightarrow> Inr (down_cursor s) | Some v \<Rightarrow> py_int v) of
               Inl e \<Rightarrow> (Inl e, s)
             | Inr c \<Rightarrow>
                 let s = s\<lparr>down_cursor := c\<rparr> in
                 (case parse_frame_message (hr_body r) of
                    Inl e \<Rightarrow> (Inl e, s)
                  | Inr fs \<Rightarrow> (Inr (), fold handle_frame fs s))))"

definition poll_loop_step :: "http_response result \<Rightarrow> carrier \<Rightarrow> bool \<times> carrier" where
  "poll_loop_step response s =
     (case poll_once response s of
        (Inr _, t) \<Rightarrow> (True, t)
      | (Inl e, t) \<Rightarrow> (False, carrier_fail RPoll t))"

section \<open>Sending\<close>

text \<open>What wakes a sender that waits for credit: a frame, a failing task, or the timeout.\<close>

datatype wake = Arrive frame | TaskFails reason | Expired

text \<open>\<open>_spend_send_window\<close>: the first component is \<open>None\<close> while it is still waiting.\<close>

fun spend_send_window :: "wake list \<Rightarrow> int \<Rightarrow> carrier \<Rightarrow> unit result option \<times> wake list \<times> carrier" where
  "spend_send_window [] amount s =
     (if amount \<le> send_window s then (Some (Inr ()), [], s\<lparr>send_window := send_window s - amount\<rparr>)
      else if fail_exc s \<noteq> None then (Some (Inl WebCarrierError), [], s)
      else (None, [], s\<lparr>send_event := False\<rparr>))"
| "spend_send_window (w # ws) amount s =
     (if amount \<le> send_window s then (Some (Inr ()), w # ws, s\<lparr>send_window := send_window s - amount\<rparr>)
      else if fail_exc s \<noteq> None then (Some (Inl WebCarrierError), w # ws, s)
      else
        let s = s\<lparr>send_event := False\<rparr> in
        (case w of
           Expired \<Rightarrow> (Some (Inl WebCarrierError), ws, carrier_fail RCreditTimeout s)
         | TaskFails r \<Rightarrow> spend_send_window ws amount (carrier_fail r s)
         | Arrive f \<Rightarrow> spend_send_window ws amount (handle_frame f s)))"

definition data_frame :: "bytes \<Rightarrow> bytes" where
  "data_frame chunk = (case serialize_frame F_DATA STREAM_ID chunk of Inr b \<Rightarrow> b | Inl _ \<Rightarrow> [])"

text \<open>The loop of \<open>send\<close>; \<open>pending\<close> are the frames not posted yet.\<close>

function send_loop :: "relay \<Rightarrow> wake list \<Rightarrow> bytes \<Rightarrow> bytes list \<Rightarrow> carrier \<Rightarrow> unit result option \<times> carrier" where
  "send_loop relay ws data pending s =
     (if data = [] then
        (if pending = [] then (Some (Inr ()), s)
         else (case send_frames relay pending s of (r, t) \<Rightarrow> (Some r, t)))
      else
        let chunk = take UPLINK_FRAME_MAX data in
        if send_window s < int (length chunk) then
          (case (if pending = [] then (Inr (), s) else send_frames relay pending s) of
             (Inl e, t) \<Rightarrow> (Some (Inl e), t)
           | (Inr _, t) \<Rightarrow>
               (case spend_send_window ws (int (length chunk)) t of
                  (None, _, u) \<Rightarrow> (None, u)
                | (Some (Inl e), _, u) \<Rightarrow> (Some (Inl e), u)
                | (Some (Inr _), ws', u) \<Rightarrow>
                    send_loop relay ws' (drop UPLINK_FRAME_MAX data) [data_frame chunk] u))
        else
          send_loop relay ws (drop UPLINK_FRAME_MAX data) (pending @ [data_frame chunk])
            (s\<lparr>send_window := send_window s - int (length chunk)\<rparr>))"
  by auto
termination
  by (relation "measure (\<lambda>(relay, ws, data, pending, s). length data)") (auto simp: UPLINK_FRAME_MAX_def)

declare send_loop.simps [simp del]

definition carrier_send :: "relay \<Rightarrow> wake list \<Rightarrow> bytes \<Rightarrow> carrier \<Rightarrow> unit result option \<times> carrier" where
  "carrier_send relay ws data s =
     (if fail_exc s \<noteq> None then (Some (Inl WebCarrierError), s)
      else if data = [] then (Some (Inr ()), s)
      else send_loop relay ws data [] s)"

section \<open>Receiving and granting credit\<close>

definition flush_grant :: "relay \<Rightarrow> carrier \<Rightarrow> carrier" where
  "flush_grant relay s =
     (let amount = pending_grant s; s = s\<lparr>pending_grant := 0\<rparr> in
      if amount \<le> 0 \<or> fail_exc s \<noteq> None then s
      else
        let s = s\<lparr>recv_window_remaining := recv_window_remaining s + amount\<rparr> in
        snd (send_frames relay
          [case serialize_frame F_WINDOW STREAM_ID (be_bytes 4 (nat amount)) of Inr b \<Rightarrow> b | Inl _ \<Rightarrow> []] s))"

definition delayed_grant_flush :: "relay \<Rightarrow> carrier \<Rightarrow> carrier" where
  "delayed_grant_flush relay s = (flush_grant relay s)\<lparr>grant_task := False\<rparr>"

definition grant_credit :: "relay \<Rightarrow> int \<Rightarrow> carrier \<Rightarrow> carrier" where
  "grant_credit relay amount s =
     (if amount \<le> 0 \<or> c_closed s \<or> fail_exc s \<noteq> None then s
      else
        let s = s\<lparr>pending_grant := pending_grant s + amount\<rparr> in
        if DOWNLINK_GRANT_THRESHOLD \<le> pending_grant s then flush_grant relay s
        else s\<lparr>grant_task := True\<rparr>)"

text \<open>The loop that fills the buffer: enough, the end of the stream, or nothing more for now.\<close>

datatype filled = Enough | EndOfStream | Blocked

fun fill :: "nat \<Rightarrow> bytes \<Rightarrow> bytes option list \<Rightarrow> filled \<times> bytes \<times> bytes option list" where
  "fill n buf q =
     (if n \<le> length buf then (Enough, buf, q)
      else (case q of
              [] \<Rightarrow> (Blocked, buf, [])
            | None # q' \<Rightarrow> (EndOfStream, buf, q')
            | Some chunk # q' \<Rightarrow> fill n (buf @ chunk) q'))"

declare fill.simps [simp del]

text \<open>\<open>recv\<close>: the bytes when there are enough, \<open>None\<close> at the end, or it goes on waiting.\<close>

datatype received_bytes = Got bytes | End | Waiting

definition carrier_recv :: "relay \<Rightarrow> nat \<Rightarrow> carrier \<Rightarrow> received_bytes \<times> carrier" where
  "carrier_recv relay n s =
     (case fill n (recv_buffer s) (recv_queue s) of
        (Enough, buf, q) \<Rightarrow>
          (Got (take n buf),
           grant_credit relay (int n) (s\<lparr>recv_buffer := drop n buf, recv_queue := q\<rparr>))
      | (EndOfStream, buf, q) \<Rightarrow> (End, s\<lparr>recv_buffer := buf, recv_queue := q\<rparr>)
      | (Blocked, buf, q) \<Rightarrow> (Waiting, s\<lparr>recv_buffer := buf, recv_queue := q\<rparr>))"

definition run_task :: "relay \<Rightarrow> task \<Rightarrow> carrier \<Rightarrow> carrier" where
  "run_task relay t s =
     (case t of
        TFail r \<Rightarrow> carrier_fail r s
      | TPong p \<Rightarrow> snd (send_frames relay
          [case serialize_frame F_PONG CONTROL_STREAM_ID p of Inr b \<Rightarrow> b | Inl _ \<Rightarrow> []] s))"

text \<open>\<open>close\<close>: the tasks are cancelled and readers see the end of the stream.\<close>

definition carrier_close :: "carrier \<Rightarrow> carrier" where
  "carrier_close s =
     (if c_closed s then s
      else s\<lparr>c_closed := True, poll_cancelled := True, tasks := [], grant_task := False,
             recv_queue := recv_queue s @ [None]\<rparr>)"

section \<open>Opening the session\<close>

text \<open>
  The capability the relay is shown: the keyed hash of the host name, in URL-safe base64 without
  padding; the hash is a parameter.
\<close>

definition BRIDGE_CONTEXT_PREFIX :: ustr where
  "BRIDGE_CONTEXT_PREFIX = ustr ''tdesktop-web-proxy-bridge-v1'' @ [10]"

definition derive_bridge_capability :: "(bytes \<Rightarrow> bytes \<Rightarrow> bytes) \<Rightarrow> (ustr \<Rightarrow> bytes) \<Rightarrow> ustr \<Rightarrow> bytes \<Rightarrow> ustr" where
  "derive_bridge_capability hmac_sha256 encode hostname secret =
     rstrip_by (\<lambda>c. c = eq_sign) (b64_groups (hmac_sha256 secret (encode BRIDGE_CONTEXT_PREFIX @ encode hostname)))"

definition control_frame :: "FrameType \<Rightarrow> int \<Rightarrow> bytes \<Rightarrow> bytes" where
  "control_frame t stream p = (case serialize_frame t stream p of Inr b \<Rightarrow> b | Inl _ \<Rightarrow> [])"

text \<open>
  \<open>start\<close>: the answer that creates the session with the cursor parsed from it, and what happens
  until the WELCOME event is set or the wait times out.
\<close>

definition carrier_start ::
    "relay \<Rightarrow> http_response result \<Rightarrow> int result \<Rightarrow> (carrier \<Rightarrow> bool \<times> carrier) \<Rightarrow> carrier \<Rightarrow> unit result \<times> carrier" where
  "carrier_start relay created cursor during s =
     (case created of
        Inl e \<Rightarrow> (Inl e, s)
      | Inr r \<Rightarrow>
          if hr_status r \<noteq> 200 then (Inl WebCarrierError, s)
          else
            (case cursor of
               Inl _ \<Rightarrow> (Inl WebCarrierError, s)
             | Inr c \<Rightarrow>
                 (case send_frames relay [control_frame F_HELLO CONTROL_STREAM_ID [1]] (s\<lparr>down_cursor := c\<rparr>) of
                    (Inl e, t) \<Rightarrow> (Inl e, t)
                  | (Inr _, t) \<Rightarrow>
                      (case during t of
                         (False, u) \<Rightarrow> (Inl WebCarrierError, carrier_fail RWelcomeTimeout u)
                       | (True, u) \<Rightarrow>
                           if fail_exc u \<noteq> None then (Inl WebCarrierError, u)
                           else send_frames relay [control_frame F_OPEN STREAM_ID []] u))))"

section \<open>The byte stream and the receive credit\<close>

definition queued :: "bytes option list \<Rightarrow> bytes" where
  "queued q = concat (map (\<lambda>c. case c of None \<Rightarrow> [] | Some b \<Rightarrow> b) q)"

lemma queued_simps [simp]:
  "queued [] = []" "queued (None # q) = queued q" "queued (Some b # q) = b @ queued q"
  "queued (q @ r) = queued q @ queued r"
  by (simp_all add: queued_def)

lemma fill_bytes: "fill n buf q = (r, buf', q') \<Longrightarrow> buf @ queued q = buf' @ queued q'"
proof (induction n buf q rule: fill.induct)
  case (1 n buf q)
  from 1(2) show ?case
    by (subst (asm) fill.simps)
      (auto split: if_splits list.splits option.splits dest: 1(1) simp: append_assoc [symmetric] simp del: append_assoc)
qed

lemma fill_enough: "fill n buf q = (Enough, buf', q') \<Longrightarrow> n \<le> length buf'"
proof (induction n buf q rule: fill.induct)
  case (1 n buf q)
  from 1(2) show ?case
    by (subst (asm) fill.simps) (auto split: if_splits list.splits option.splits dest: 1(1))
qed

text \<open>The receiving side of the state, and what leaves it alone.\<close>

definition recv_side :: "carrier \<Rightarrow> bytes \<times> bytes option list \<times> int \<times> int \<times> task list \<times> bool \<times> reason option" where
  "recv_side s = (recv_buffer s, recv_queue s, recv_window_remaining s, pending_grant s, tasks s, c_closed s, fail_exc s)"

definition accepted :: "frame \<Rightarrow> carrier \<Rightarrow> bytes" where
  "accepted f s =
     (if fr_stream f = STREAM_ID \<and> fr_type f = F_DATA \<and> int (length (fr_payload f)) \<le> recv_window_remaining s
      then fr_payload f else [])"

text \<open>
  The runs of a carrier: frames arrive, readers take bytes, tasks run, credit is granted, senders fail
  or change their own side, the carrier is closed, in any order. The two byte strings are what the
  relay has delivered within its credit and what readers have got.
\<close>

inductive carrier_run :: "carrier \<Rightarrow> bytes \<Rightarrow> bytes \<Rightarrow> bool" where
  New: "carrier_run carrier_new [] []"
| Frame: "carrier_run s inn out \<Longrightarrow> carrier_run (handle_frame f s) (inn @ accepted f s) out"
| Recv: "carrier_run s inn out \<Longrightarrow> carrier_recv relay n s = (r, t) \<Longrightarrow>
     carrier_run t inn (out @ (case r of Got b \<Rightarrow> b | _ \<Rightarrow> []))"
| Grant: "carrier_run s inn out \<Longrightarrow> carrier_run (delayed_grant_flush relay s) inn out"
| Task: "carrier_run s inn out \<Longrightarrow> tasks s = xs @ t # ys \<Longrightarrow>
     carrier_run (run_task relay t (s\<lparr>tasks := xs @ ys\<rparr>)) inn out"
| Fail: "carrier_run s inn out \<Longrightarrow> carrier_run (carrier_fail r s) inn out"
| Post: "carrier_run s inn out \<Longrightarrow> carrier_run (snd (send_frames relay frames s)) inn out"
| Sender: "carrier_run s inn out \<Longrightarrow> recv_side t = recv_side s \<Longrightarrow> carrier_run t inn out"
| Close: "carrier_run s inn out \<Longrightarrow> carrier_run (carrier_close s) inn out"

definition stream_ok :: "bytes \<Rightarrow> bytes \<Rightarrow> carrier \<Rightarrow> bool" where
  "stream_ok inn out s = (inn = out @ recv_buffer s @ queued (recv_queue s))"

definition live :: "carrier \<Rightarrow> bool" where
  "live s = (fail_exc s = None \<and> \<not> c_closed s \<and> TFail RCreditOverrun \<notin> set (tasks s))"

definition credit_ok :: "carrier \<Rightarrow> bool" where
  "credit_ok s =
     (live s \<longrightarrow>
      recv_window_remaining s + pending_grant s + int (length (recv_buffer s @ queued (recv_queue s)))
        = INITIAL_STREAM_WINDOW \<and> 0 \<le> pending_grant s \<and> 0 \<le> recv_window_remaining s)"

lemma fail_stream: "stream_ok inn out (carrier_fail r s) = stream_ok inn out s"
  by (simp add: stream_ok_def carrier_fail_def)

lemma fail_credit: "credit_ok s \<Longrightarrow> credit_ok (carrier_fail r s)"
  by (simp add: credit_ok_def carrier_fail_def live_def)

lemma post_stream: "stream_ok inn out (snd (send_frames relay frames s)) = stream_ok inn out s"
  by (simp add: send_frames_def Let_def fail_stream split: sum.splits) (auto simp: stream_ok_def)

lemma post_credit: "credit_ok s \<Longrightarrow> credit_ok (snd (send_frames relay frames s))"
proof -
  assume ok: "credit_ok s"
  let ?s = "s\<lparr>up_seq := up_seq s + 1, posted := posted s @ [(up_seq s, concat frames)]\<rparr>"
  have "credit_ok ?s" using ok by (simp add: credit_ok_def live_def)
  then show ?thesis by (simp add: send_frames_def Let_def fail_credit split: sum.splits)
qed

lemma frame_stream: "stream_ok inn out s \<Longrightarrow> stream_ok (inn @ accepted f s) out (handle_frame f s)"
  by (auto simp: stream_ok_def handle_frame_def handle_control_frame_def handle_stream_frame_def schedule_def
    accepted_def Let_def STREAM_ID_def CONTROL_STREAM_ID_def split: FrameType.splits)

lemma frame_credit: "credit_ok s \<Longrightarrow> credit_ok (handle_frame f s)"
  by (auto simp: credit_ok_def live_def handle_frame_def handle_control_frame_def handle_stream_frame_def
    schedule_def Let_def split: FrameType.splits)

lemma flush_stream: "stream_ok inn out (flush_grant relay s) = stream_ok inn out s"
  by (simp add: flush_grant_def Let_def post_stream) (simp add: stream_ok_def)

lemma flush_credit: "credit_ok s \<Longrightarrow> credit_ok (flush_grant relay s)"
proof -
  assume ok: "credit_ok s"
  let ?s = "s\<lparr>pending_grant := 0, recv_window_remaining := recv_window_remaining s + pending_grant s\<rparr>"
  show ?thesis
  proof (cases "pending_grant s \<le> 0 \<or> fail_exc s \<noteq> None")
    case True
    with ok show ?thesis by (auto simp: flush_grant_def Let_def credit_ok_def live_def)
  next
    case False
    with ok have "credit_ok ?s" by (auto simp: credit_ok_def live_def)
    with False show ?thesis by (simp add: flush_grant_def Let_def post_credit)
  qed
qed

lemma task_credit: "credit_ok (s\<lparr>grant_task := b\<rparr>) = credit_ok s" "stream_ok i u (s\<lparr>grant_task := b\<rparr>) = stream_ok i u s"
  by (simp_all add: credit_ok_def live_def stream_ok_def)

lemma grant_stream: "stream_ok inn out (grant_credit relay n s) = stream_ok inn out s"
  by (simp add: grant_credit_def Let_def flush_stream) (simp add: stream_ok_def)

lemma recv_ok:
  assumes "carrier_recv relay n s = (r, t)" "stream_ok inn out s" "credit_ok s"
  shows "stream_ok inn (out @ (case r of Got b \<Rightarrow> b | _ \<Rightarrow> [])) t \<and> credit_ok t"
proof -
  obtain x buf q where f: "fill n (recv_buffer s) (recv_queue s) = (x, buf, q)" using prod_cases3 by blast
  note b = fill_bytes [OF f]
  show ?thesis
  proof (cases x)
    case Enough
    with f have n: "n \<le> length buf" by (auto dest: fill_enough)
    let ?u = "s\<lparr>recv_buffer := drop n buf, recv_queue := q\<rparr>"
    have r: "r = Got (take n buf)" and t: "t = grant_credit relay (int n) ?u"
      using assms(1) f Enough by (simp_all add: carrier_recv_def)
    have "stream_ok inn (out @ take n buf) ?u"
      using assms(2) b by (simp add: stream_ok_def)
    moreover have "credit_ok t"
    proof (cases "c_closed s \<or> fail_exc s \<noteq> None")
      case True
      then show ?thesis
        by (auto simp: t grant_credit_def credit_ok_def live_def)
    next
      case False
      have l: "length (recv_buffer s @ queued (recv_queue s)) = length (buf @ queued q)" using b by simp
      have "credit_ok (?u\<lparr>pending_grant := pending_grant s + int n\<rparr>)"
        using assms(3) n False l by (auto simp: credit_ok_def live_def)
      then show ?thesis
        using False assms(3) l
        by (auto simp: t grant_credit_def Let_def flush_credit task_credit)
    qed
    ultimately show ?thesis by (simp add: r t grant_stream)
  next
    case EndOfStream
    with f assms(1) have "r = End" "t = s\<lparr>recv_buffer := buf, recv_queue := q\<rparr>" by (simp_all add: carrier_recv_def)
    with assms(2,3) b show ?thesis
      by (auto simp: stream_ok_def credit_ok_def live_def simp flip: length_append)
  next
    case Blocked
    with f assms(1) have "r = Waiting" "t = s\<lparr>recv_buffer := buf, recv_queue := q\<rparr>" by (simp_all add: carrier_recv_def)
    with assms(2,3) b show ?thesis
      by (auto simp: stream_ok_def credit_ok_def live_def simp flip: length_append)
  qed
qed

lemma carrier_run_ok: "carrier_run s inn out \<Longrightarrow> stream_ok inn out s \<and> credit_ok s"
proof (induction rule: carrier_run.induct)
  case New
  then show ?case by (simp add: stream_ok_def credit_ok_def carrier_new_def INITIAL_STREAM_WINDOW_def)
next
  case (Frame s inn out f)
  then show ?case by (simp add: frame_stream frame_credit)
next
  case (Recv s inn out relay n r t)
  then show ?case using recv_ok by blast
next
  case (Grant s inn out relay)
  then show ?case by (simp add: delayed_grant_flush_def task_credit flush_stream flush_credit)
next
  case (Task s inn out xs t ys relay)
  then show ?case
  proof (cases t)
    case (TPong p)
    have "stream_ok inn out (s\<lparr>tasks := xs @ ys\<rparr>)" "credit_ok (s\<lparr>tasks := xs @ ys\<rparr>)"
      using Task TPong by (auto simp: stream_ok_def credit_ok_def live_def)
    then show ?thesis by (simp add: run_task_def TPong post_stream post_credit)
  next
    case (TFail r)
    have "stream_ok inn out (carrier_fail r (s\<lparr>tasks := xs @ ys\<rparr>))"
      using Task by (simp add: fail_stream) (simp add: stream_ok_def)
    moreover have "fail_exc (carrier_fail r (s\<lparr>tasks := xs @ ys\<rparr>)) \<noteq> None" by (simp add: carrier_fail_def)
    ultimately show ?thesis by (auto simp: run_task_def TFail credit_ok_def live_def)
  qed
next
  case (Fail s inn out r)
  then show ?case by (simp add: fail_stream fail_credit)
next
  case (Post s inn out relay frames)
  then show ?case by (simp add: post_stream post_credit)
next
  case (Sender s inn out t)
  then show ?case by (simp add: recv_side_def stream_ok_def credit_ok_def live_def)
next
  case (Close s inn out)
  then show ?case by (simp add: carrier_close_def stream_ok_def credit_ok_def live_def)
qed

text \<open>
  C9. The carrier is a reliable byte pipe: whatever interleaving of frames, reads, grants, failures
  and closing, the bytes readers have got are a prefix of the bytes the relay delivered, and the rest
  is in the buffer and the queue.
\<close>

theorem carrier_pipe:
  assumes "carrier_run s inn out"
  shows "inn = out @ recv_buffer s @ queued (recv_queue s)"
  using carrier_run_ok [OF assms] by (simp add: stream_ok_def)

text \<open>
  C21. Receive credit is conserved: on a live carrier, what the relay may still send, what is granted
  but not yet announced and what is held for readers add up to the initial window; so credit never
  leaks and the buffered bytes never exceed four mebibytes.
\<close>

theorem carrier_credit:
  assumes "carrier_run s inn out" "live s"
  shows "recv_window_remaining s + pending_grant s + int (length (recv_buffer s @ queued (recv_queue s)))
      = INITIAL_STREAM_WINDOW \<and> 0 \<le> pending_grant s \<and> 0 \<le> recv_window_remaining s"
  using carrier_run_ok [OF assms(1)] assms(2) by (simp add: credit_ok_def)

definition demo_relay :: relay where
  "demo_relay = (\<lambda>_. Inr \<lparr>hr_status = 200, hr_headers = Map.empty, hr_body = []\<rparr>)"

definition demo_data :: frame where
  "demo_data = \<lparr>fr_type = F_DATA, fr_stream = 1, fr_payload = [1, 2, 3]\<rparr>"

lemma demo_run:
  "carrier_run (snd (carrier_recv demo_relay 2 (handle_frame demo_data carrier_new))) [1, 2, 3] [1, 2]"
proof -
  have "carrier_run (handle_frame demo_data carrier_new) ([] @ accepted demo_data carrier_new) []"
    by (intro carrier_run.Frame carrier_run.New)
  moreover have "accepted demo_data carrier_new = [1, 2, 3]"
    by (simp add: accepted_def demo_data_def carrier_new_def STREAM_ID_def INITIAL_STREAM_WINDOW_def)
  ultimately have f: "carrier_run (handle_frame demo_data carrier_new) [1, 2, 3] []" by simp
  have "fst (carrier_recv demo_relay 2 (handle_frame demo_data carrier_new)) = Got [1, 2]"
    by (simp add: carrier_recv_def handle_frame_def handle_stream_frame_def demo_data_def carrier_new_def
      STREAM_ID_def CONTROL_STREAM_ID_def INITIAL_STREAM_WINDOW_def fill.simps Let_def)
  then have "carrier_recv demo_relay 2 (handle_frame demo_data carrier_new)
      = (Got [1, 2], snd (carrier_recv demo_relay 2 (handle_frame demo_data carrier_new)))"
    by (metis prod.collapse)
  from carrier_run.Recv [OF f this] show ?thesis by simp
qed

lemma carrier_pipe_witness:
  "[1, 2, 3] = [1, 2] @ recv_buffer (snd (carrier_recv demo_relay 2 (handle_frame demo_data carrier_new)))
     @ queued (recv_queue (snd (carrier_recv demo_relay 2 (handle_frame demo_data carrier_new))))"
  by (rule carrier_pipe [OF demo_run])

lemma carrier_credit_witness:
  "(let s = snd (carrier_recv demo_relay 2 (handle_frame demo_data carrier_new)) in
     recv_window_remaining s + pending_grant s + int (length (recv_buffer s @ queued (recv_queue s))) = 4194304)"
proof -
  have "live (snd (carrier_recv demo_relay 2 (handle_frame demo_data carrier_new)))"
    by (simp add: carrier_recv_def handle_frame_def handle_stream_frame_def demo_data_def carrier_new_def live_def
      STREAM_ID_def CONTROL_STREAM_ID_def INITIAL_STREAM_WINDOW_def fill.simps Let_def grant_credit_def
      DOWNLINK_GRANT_THRESHOLD_def)
  from carrier_credit [OF demo_run this] show ?thesis by (simp add: Let_def INITIAL_STREAM_WINDOW_def)
qed

section \<open>What a sender posts\<close>

text \<open>The data cut into uplink frames.\<close>

function chunks :: "bytes \<Rightarrow> bytes list" where
  "chunks data = (if data = [] then [] else take UPLINK_FRAME_MAX data # chunks (drop UPLINK_FRAME_MAX data))"
  by auto
termination by (relation "measure length") (auto simp: UPLINK_FRAME_MAX_def)

declare chunks.simps [simp del]

lemma concat_chunks: "concat (chunks data) = data"
  by (induction data rule: chunks.induct) (subst chunks.simps, simp)

lemma chunks_sizes: "c \<in> set (chunks data) \<Longrightarrow> 0 < length c \<and> length c \<le> UPLINK_FRAME_MAX"
proof (induction data rule: chunks.induct)
  case (1 data)
  from 1(2) show ?case
    by (subst (asm) chunks.simps) (auto split: if_splits simp: UPLINK_FRAME_MAX_def dest: 1(1))
qed

definition posted_bytes :: "carrier \<Rightarrow> bytes" where
  "posted_bytes s = concat (map snd (posted s))"

lemma posted_simps [simp]:
  "posted (handle_frame f s) = posted s" "posted (carrier_fail r s) = posted s"
  by (auto simp: handle_frame_def handle_control_frame_def handle_stream_frame_def schedule_def carrier_fail_def Let_def
    split: FrameType.splits)

lemma send_frames_posts:
  "send_frames relay frames s = (r, t) \<Longrightarrow> posted_bytes t = posted_bytes s @ concat frames \<and> send_window t = send_window s"
  by (auto simp: send_frames_def Let_def posted_bytes_def carrier_fail_def split: sum.splits if_splits)

lemma handle_frame_window: "send_window s \<le> send_window (handle_frame f s)"
  by (auto simp: handle_frame_def handle_control_frame_def handle_stream_frame_def schedule_def Let_def
    split: FrameType.splits)

lemma fail_window [simp]: "send_window (carrier_fail r s) = send_window s"
  by (simp add: carrier_fail_def)

lemma spend_posts:
  "spend_send_window ws amount s = (r, ws', t) \<Longrightarrow> 0 \<le> send_window s \<Longrightarrow>
     posted t = posted s \<and> 0 \<le> send_window t"
proof (induction ws amount s arbitrary: r ws' t rule: spend_send_window.induct)
  case (2 w ws amount s)
  show ?case
  proof (cases w)
    case (Arrive f)
    with 2 handle_frame_window [of "s\<lparr>send_event := False\<rparr>" f] show ?thesis
      by (auto simp: Let_def split: if_splits)
  next
    case (TaskFails q)
    with 2 show ?thesis by (auto simp: Let_def split: if_splits)
  next
    case Expired
    with 2 show ?thesis by (auto simp: Let_def split: if_splits)
  qed
qed (auto split: if_splits)

lemma send_loop_posts:
  assumes "send_loop relay ws data pending s = (Some (Inr ()), t)" "0 \<le> send_window s"
  shows "posted_bytes t = posted_bytes s @ concat pending @ concat (map data_frame (chunks data)) \<and> 0 \<le> send_window t"
  using assms
proof (induction relay ws data pending s rule: send_loop.induct)
  case (1 relay ws data pending s)
  let ?chunk = "take UPLINK_FRAME_MAX data"
  show ?case
  proof (cases "data = []")
    case True
    with 1(3,4) send_frames_posts [of relay pending s] show ?thesis
      by (subst (asm) send_loop.simps) (auto simp: chunks.simps split: if_splits prod.splits)
  next
    case False
    have ch: "chunks data = ?chunk # chunks (drop UPLINK_FRAME_MAX data)"
      using False by (subst chunks.simps) simp
    show ?thesis
    proof (cases "send_window s < int (length ?chunk)")
      case True
      obtain x u where x: "(if pending = [] then (Inr (), s) else send_frames relay pending s) = (x, u)" by fastforce
      obtain y ws' v where y: "spend_send_window ws (int (length ?chunk)) u = (y, ws', v)" using prod_cases3 by blast
      have r: "x = Inr ()" "y = Some (Inr ())"
        and l: "send_loop relay ws' (drop UPLINK_FRAME_MAX data) [data_frame ?chunk] v = (Some (Inr ()), t)"
        using 1(3) False True x y
        by (subst (asm) send_loop.simps; auto simp: Let_def split: sum.splits option.splits)+
      have u: "posted_bytes u = posted_bytes s @ concat pending" "0 \<le> send_window u"
        using x send_frames_posts [of relay pending s x u] 1(4) by (auto split: if_splits)
      have v: "posted v = posted u" "0 \<le> send_window v" using spend_posts [OF y u(2)] by simp_all
      from 1(1) [OF False refl True] x y r l v
      have "posted_bytes t = posted_bytes v @ data_frame ?chunk @ concat (map data_frame (chunks (drop UPLINK_FRAME_MAX data)))
          \<and> 0 \<le> send_window t"
        by simp
      with u v show ?thesis by (simp add: ch posted_bytes_def)
    next
      case noblock: False
      from 1(3) False noblock
      have l: "send_loop relay ws (drop UPLINK_FRAME_MAX data) (pending @ [data_frame ?chunk])
          (s\<lparr>send_window := send_window s - int (length ?chunk)\<rparr>) = (Some (Inr ()), t)"
        by (subst (asm) send_loop.simps) (simp add: Let_def)
      have "posted_bytes t = posted_bytes (s\<lparr>send_window := send_window s - int (length ?chunk)\<rparr>) @
          concat (pending @ [data_frame ?chunk]) @ concat (map data_frame (chunks (drop UPLINK_FRAME_MAX data)))
          \<and> 0 \<le> send_window t"
        using 1(2) [OF False refl noblock l] noblock by simp
      then show ?thesis by (simp add: ch posted_bytes_def)
    qed
  qed
qed

text \<open>
  A send that returns has posted its data, whole, once and in order, as DATA frames of at most
  64 KiB, whatever credit waits and frames came in between; and it never spends credit it does not have.
\<close>

theorem send_posts_data:
  assumes "carrier_send relay ws data s = (Some (Inr ()), t)" "0 \<le> send_window s"
  shows "posted_bytes t = posted_bytes s @ concat (map data_frame (chunks data)) \<and> concat (chunks data) = data \<and>
    (\<forall>c \<in> set (chunks data). 0 < length c \<and> length c \<le> UPLINK_FRAME_MAX) \<and> 0 \<le> send_window t"
proof (cases "data = []")
  case True
  with assms show ?thesis by (auto simp: carrier_send_def chunks.simps split: if_splits)
next
  case False
  with assms have "send_loop relay ws data [] s = (Some (Inr ()), t)"
    by (auto simp: carrier_send_def split: if_splits)
  moreover have "\<forall>c \<in> set (chunks data). 0 < length c \<and> length c \<le> UPLINK_FRAME_MAX"
    using chunks_sizes by blast
  ultimately show ?thesis using send_loop_posts [OF _ assms(2)] by (simp add: concat_chunks)
qed

lemma send_posts_data_witness:
  "\<exists>t. carrier_send demo_relay [] [5, 6] carrier_new = (Some (Inr ()), t) \<and>
     posted_bytes t = data_frame [5, 6] \<and> 0 \<le> send_window t"
proof -
  obtain t where t: "carrier_send demo_relay [] [5, 6] carrier_new = (Some (Inr ()), t)"
    by (simp add: carrier_send_def carrier_new_def send_loop.simps UPLINK_FRAME_MAX_def INITIAL_STREAM_WINDOW_def
      Let_def send_frames_def demo_relay_def)
  have "chunks [5, 6] = [[5, 6 :: byte]]" by (simp add: chunks.simps UPLINK_FRAME_MAX_def)
  then show ?thesis
    using send_posts_data [OF t] t by (simp add: carrier_new_def posted_bytes_def INITIAL_STREAM_WINDOW_def)
qed

text \<open>
  A failed carrier lets nobody wait: the first reason is kept, a reader that asks for more than is
  buffered gets what is there and then the end, and every sender is refused.
\<close>

theorem failed_carrier_ends:
  assumes "fail_exc s = None"
  shows "(let t = carrier_fail r s in
     fail_exc t = Some r \<and> (\<forall>q. carrier_fail q t = t) \<and> welcome_event t \<and> send_event t \<and>
     (\<forall>relay n. fst (carrier_recv relay n t) \<noteq> Waiting) \<and>
     (\<forall>relay ws data. fst (carrier_send relay ws data t) = Some (Inl WebCarrierError)) \<and>
     (\<forall>ws amount. send_window s < amount \<longrightarrow> fst (spend_send_window ws amount t) = Some (Inl WebCarrierError)))"
proof -
  have fill: "fst (fill n buf (q @ [None])) \<noteq> Blocked" for n buf q
  proof (induction q arbitrary: buf)
    case Nil
    show ?case by (subst fill.simps) simp
  next
    case (Cons c q)
    show ?case using Cons by (subst fill.simps) (simp split: option.split)
  qed
  have "fst (carrier_recv relay n (carrier_fail r s)) \<noteq> Waiting" for relay n
    using fill [of n "recv_buffer s" "recv_queue s"] assms
    by (auto simp: carrier_recv_def carrier_fail_def split: prod.splits filled.splits)
  moreover have "fst (spend_send_window ws amount (carrier_fail r s)) = Some (Inl WebCarrierError)"
    if "send_window s < amount" for ws amount
    using that assms by (cases ws) (auto simp: carrier_fail_def)
  ultimately show ?thesis
    using assms by (simp add: carrier_fail_def carrier_send_def Let_def)
qed

lemma failed_carrier_ends_witness:
  "fst (carrier_recv demo_relay 5 (carrier_fail RBye carrier_new)) \<noteq> Waiting"
  using failed_carrier_ends [of carrier_new RBye] by (simp add: carrier_new_def Let_def)

end
