(* ===== verification/Proxy.thy ===== *)
theory Proxy
  imports Py_Text Base64 TL_Primitives
begin

text \<open>
  Proxy configurations (\<open>pyrogram/connection/proxy.py\<close>): the five kinds of proxy, the three
  forms of an obfuscated secret in their two encodings, and the two public notations, dictionaries
  and links, that are normalised to the same values.
\<close>

section \<open>Proxies\<close>

datatype ProxyScheme = SOCKS4 | SOCKS5 | HTTP | MTPROXY | WEB

definition scheme_value :: "ProxyScheme \<Rightarrow> ustr" where
  "scheme_value s =
     ustr (case s of SOCKS4 \<Rightarrow> ''socks4'' | SOCKS5 \<Rightarrow> ''socks5'' | HTTP \<Rightarrow> ''http'' | MTPROXY \<Rightarrow> ''mtproxy'' | WEB \<Rightarrow> ''web'')"

definition ProxySchemes :: "ProxyScheme list" where
  "ProxySchemes = [SOCKS4, SOCKS5, HTTP, MTPROXY, WEB]"

datatype proxy =
    SOCKS4Proxy ustr int "ustr option" "ustr option"
  | SOCKS5Proxy ustr int "ustr option" "ustr option"
  | HTTPProxy ustr int "ustr option" "ustr option"
  | MTProxy ustr int bytes "ustr option"
  | WebProxy ustr bytes

definition OBFUSCATED2_SECRET_SIZE :: nat where "OBFUSCATED2_SECRET_SIZE = 16"
definition MARKED_SECRET_SIZE :: nat where "MARKED_SECRET_SIZE = OBFUSCATED2_SECRET_SIZE + 1"
definition HTTPS_PORT :: int where "HTTPS_PORT = 443"

fun proxy_scheme :: "proxy \<Rightarrow> ProxyScheme" where
  "proxy_scheme (SOCKS4Proxy _ _ _ _) = SOCKS4"
| "proxy_scheme (SOCKS5Proxy _ _ _ _) = SOCKS5"
| "proxy_scheme (HTTPProxy _ _ _ _) = HTTP"
| "proxy_scheme (MTProxy _ _ _ _) = MTPROXY"
| "proxy_scheme (WebProxy _ _) = WEB"

fun client_proxy_address :: "proxy option \<Rightarrow> (ustr \<times> int) option" where
  "client_proxy_address (Some (MTProxy h p _ _)) = Some (h, p)"
| "client_proxy_address (Some (WebProxy h _)) = Some (h, HTTPS_PORT)"
| "client_proxy_address _ = None"

fun uses_random_padding :: "proxy option \<Rightarrow> bool" where
  "uses_random_padding (Some (MTProxy _ _ secret sni)) = (sni \<noteq> None \<or> length secret = MARKED_SECRET_SIZE)"
| "uses_random_padding (Some (WebProxy _ secret)) = (length secret = MARKED_SECRET_SIZE)"
| "uses_random_padding _ = False"

section \<open>Secrets\<close>

text \<open>\<open>bytes.fromhex\<close>: pairs of digits, with spaces between the pairs.\<close>

definition hex_val :: "nat \<Rightarrow> nat option" where
  "hex_val c = (case digit_val c of Some v \<Rightarrow> if v < 16 then Some v else None | None \<Rightarrow> None)"

fun fromhex :: "ustr \<Rightarrow> bytes result" where
  "fromhex [] = Inr []"
| "fromhex (c # cs) =
     (if ascii_space c then fromhex cs
      else (case cs of
              [] \<Rightarrow> Inl ValueError
            | d # ds \<Rightarrow>
                (case (hex_val c, hex_val d) of
                   (Some a, Some b) \<Rightarrow> bindR (fromhex ds) (\<lambda>r. Inr (byte_of (16 * a + b) # r))
                 | _ \<Rightarrow> Inl ValueError)))"

text \<open>\<open>b64decode(s, validate=True)\<close> on a text whose length is a multiple of four.\<close>

definition b64_wellformed :: "ustr \<Rightarrow> bool" where
  "b64_wellformed s =
     (let data = takeWhile (\<lambda>c. c \<noteq> eq_sign) s; pad = dropWhile (\<lambda>c. c \<noteq> eq_sign) s
      in length s mod 4 = 0 \<and> list_all (\<lambda>c. b64_val c \<noteq> None) data \<and> list_all (\<lambda>c. c = eq_sign) pad \<and> length pad \<le> 2)"

definition b64decode_valid :: "ustr \<Rightarrow> bytes result" where
  "b64decode_valid s = (if b64_wellformed s then b64_scan 0 0 0 s else Inl BinasciiError)"

definition to_standard :: "nat \<Rightarrow> nat" where
  "to_standard c = (if c = 45 then 43 else if c = 95 then 47 else c)"

definition base64_decoded :: "ustr \<Rightarrow> bytes option" where
  "base64_decoded encoded_secret =
     (let padded = encoded_secret @ replicate (nat (- int (length encoded_secret) mod 4)) eq_sign
      in case b64decode_valid (map to_standard padded) of Inr bs \<Rightarrow> Some bs | Inl _ \<Rightarrow> None)"

definition decode_proxy_secret :: "ustr \<Rightarrow> bytes result" where
  "decode_proxy_secret encoded_secret =
     (case fromhex encoded_secret of
        Inr bs \<Rightarrow> Inr bs
      | Inl _ \<Rightarrow> (case base64_decoded encoded_secret of Some bs \<Rightarrow> Inr bs | None \<Rightarrow> Inl ValueError))"

definition MAX_SNI_DOMAIN_SIZE :: nat where "MAX_SNI_DOMAIN_SIZE = 182"

definition decode_fake_tls_secret :: "bytes \<Rightarrow> (bytes \<times> ustr option) result" where
  "decode_fake_tls_secret full_secret =
     (let domain = drop MARKED_SECRET_SIZE full_secret in
      if MAX_SNI_DOMAIN_SIZE < length domain then Inl ValueError
      else (case ascii_decode domain of
              Inl _ \<Rightarrow> Inl ValueError
            | Inr sni_hostname \<Rightarrow> Inr (drop 1 (take MARKED_SECRET_SIZE full_secret), Some sni_hostname)))"

definition decode_mtproxy_secret :: "ustr \<Rightarrow> ProxyScheme \<Rightarrow> (bytes \<times> ustr option) result" where
  "decode_mtproxy_secret encoded_secret scheme =
     bindR (decode_proxy_secret encoded_secret) (\<lambda>full_secret.
       if length full_secret = OBFUSCATED2_SECRET_SIZE then Inr (full_secret, None)
       else if length full_secret = MARKED_SECRET_SIZE \<and> full_secret ! 0 = 0xDD then Inr (full_secret, None)
       else if MARKED_SECRET_SIZE < length full_secret \<and> full_secret ! 0 = 0xEE then
         (if scheme = WEB then Inl ValueError else decode_fake_tls_secret full_secret)
       else Inl ValueError)"

section \<open>Building a proxy\<close>

text \<open>
  What the library does with names and URLs is a parameter: whether a text is an IP literal, the IDNA
  encoding of a name, and the parts of a URL (\<open>urlsplit\<close> with its \<open>hostname\<close>,
  \<open>port\<close>, \<open>username\<close> and \<open>password\<close>; reading the port may raise).
\<close>

record url_parts =
  url_scheme :: ustr
  url_hostname :: "ustr option"
  url_port :: "int option"
  url_username :: "ustr option"
  url_password :: "ustr option"

record net_lib =
  is_ip_literal :: "ustr \<Rightarrow> bool"
  idna :: "ustr \<Rightarrow> ustr option"
  urlsplit :: "ustr \<Rightarrow> url_parts result"

definition canonicalize_web_hostname :: "net_lib \<Rightarrow> ustr \<Rightarrow> ustr result" where
  "canonicalize_web_hostname lib hostname =
     (let hostname = rstrip_by (\<lambda>c. c = 46) (py_strip hostname) in
      if hostname = [] then Inl ValueError
      else if is_ip_literal lib hostname then Inl ValueError
      else (case idna lib hostname of
              None \<Rightarrow> Inl ValueError
            | Some a \<Rightarrow> (let canonical = py_lower a in if 46 \<notin> set canonical then Inl ValueError else Inr canonical)))"

text \<open>A port of a configuration is a number or a text.\<close>

datatype port_value = PortInt int | PortStr ustr

fun port_int :: "port_value \<Rightarrow> int result" where
  "port_int (PortInt n) = Inr n"
| "port_int (PortStr s) = py_int s"

fun port_truthy :: "port_value option \<Rightarrow> bool" where
  "port_truthy None = False"
| "port_truthy (Some (PortInt n)) = (n \<noteq> 0)"
| "port_truthy (Some (PortStr s)) = (s \<noteq> [])"

definition text_truthy :: "ustr option \<Rightarrow> bool" where
  "text_truthy t = (case t of None \<Rightarrow> False | Some s \<Rightarrow> s \<noteq> [])"

definition build_web_proxy :: "net_lib \<Rightarrow> ustr \<Rightarrow> ustr \<Rightarrow> proxy result" where
  "build_web_proxy lib hostname encoded_secret =
     bindR (decode_mtproxy_secret encoded_secret WEB) (\<lambda>(secret, sni).
     bindR (canonicalize_web_hostname lib hostname) (\<lambda>hostname. Inr (WebProxy hostname secret)))"

definition build_mtproxy :: "ustr \<Rightarrow> port_value \<Rightarrow> ustr \<Rightarrow> proxy result" where
  "build_mtproxy hostname port encoded_secret =
     bindR (decode_mtproxy_secret encoded_secret MTPROXY) (\<lambda>(secret, sni_hostname).
     bindR (port_int port) (\<lambda>port. Inr (MTProxy hostname port secret sni_hostname)))"

fun dialed_proxy_type :: "ProxyScheme \<Rightarrow> (ustr \<Rightarrow> int \<Rightarrow> ustr option \<Rightarrow> ustr option \<Rightarrow> proxy) option" where
  "dialed_proxy_type SOCKS4 = Some SOCKS4Proxy"
| "dialed_proxy_type SOCKS5 = Some SOCKS5Proxy"
| "dialed_proxy_type HTTP = Some HTTPProxy"
| "dialed_proxy_type _ = None"

definition build_dialed_proxy :: "ProxyScheme \<Rightarrow> ustr \<Rightarrow> port_value \<Rightarrow> ustr option \<Rightarrow> ustr option \<Rightarrow> proxy result" where
  "build_dialed_proxy scheme hostname port username password =
     (case dialed_proxy_type scheme of
        None \<Rightarrow> Inl (KeyError 0)
      | Some proxy_type \<Rightarrow> bindR (port_int port) (\<lambda>port. Inr (proxy_type hostname port username password)))"

text \<open>\<open>ProxyScheme(value.lower())\<close>; beyond Latin-1 only the Kelvin sign is lowered to a letter.\<close>

definition scheme_lower :: "ustr \<Rightarrow> ustr" where
  "scheme_lower s = map (\<lambda>c. if c = 0x212A then 107 else lower_char c) s"

definition parse_scheme :: "ustr option \<Rightarrow> ProxyScheme result" where
  "parse_scheme scheme_text =
     (case scheme_text of
        None \<Rightarrow> Inl ValueError
      | Some s \<Rightarrow>
          if s = [] then Inl ValueError
          else (case find (\<lambda>p. scheme_value p = scheme_lower s) ProxySchemes of
                  None \<Rightarrow> Inl ValueError
                | Some p \<Rightarrow> Inr p))"

section \<open>Links\<close>

text \<open>
  The three link patterns. After the optional prefixes every alternative ends in \<open>?\<close>, so a link
  matches through one fixed beginning at most, and the rest of its line is the query.
\<close>

definition link_prefixes :: "string \<Rightarrow> ustr list" where
  "link_prefixes kind =
     concat (map (\<lambda>http. concat (map (\<lambda>www.
       map (\<lambda>p. ustr (http @ www @ p))
         (concat (map (\<lambda>t. map (\<lambda>d. t @ d @ ''/'' @ kind @ ''?'') [''org'', ''me'', ''dog'']) [''t.'', ''telegram.''])
          @ [''tg://'' @ kind @ ''?'']))
       ['''', ''www.''])) ['''', ''http://'', ''https://''])"

definition link_match :: "string \<Rightarrow> ustr \<Rightarrow> ustr option" where
  "link_match kind link =
     (case find (\<lambda>p. starts_with p link) (link_prefixes kind) of
        None \<Rightarrow> None
      | Some p \<Rightarrow> (let query = takeWhile (\<lambda>c. c \<noteq> 10) (drop (length p) link)
                   in if query = [] then None else Some query))"

text \<open>\<open>urllib.parse.unquote\<close>: percent-escapes of every ASCII run, decoded as UTF-8.\<close>

fun pct_decode :: "ustr \<Rightarrow> bytes" where
  "pct_decode [] = []"
| "pct_decode (c # cs) =
     (case cs of
        a # b # r \<Rightarrow>
          if c = 37 then
            (case (hex_val a, hex_val b) of
               (Some x, Some y) \<Rightarrow> byte_of (16 * x + y) # pct_decode r
             | _ \<Rightarrow> byte_of c # pct_decode cs)
          else byte_of c # pct_decode cs
      | _ \<Rightarrow> byte_of c # pct_decode cs)"

function unquote :: "ustr \<Rightarrow> ustr" where
  "unquote [] = []"
| "unquote (c # cs) =
     (if c < 128 then utf8_decode (pct_decode (takeWhile (\<lambda>d. d < 128) (c # cs))) @ unquote (dropWhile (\<lambda>d. d < 128) cs)
      else c # unquote cs)"
  by pat_completeness auto
termination by (relation "measure length") (auto simp: le_imp_less_Suc length_dropWhile_le)

definition qs_text :: "ustr \<Rightarrow> ustr" where
  "qs_text s = unquote (map (\<lambda>c. if c = 43 then 32 else c) s)"

definition qs_pair :: "ustr \<Rightarrow> (ustr \<times> ustr) list" where
  "qs_pair name_value =
     (case partition_at 61 name_value of
        (name, True, v) \<Rightarrow> if v = [] then [] else [(qs_text name, qs_text v)]
      | _ \<Rightarrow> [])"

definition parse_qs :: "ustr \<Rightarrow> (ustr \<times> ustr) list" where
  "parse_qs qs = concat (map qs_pair (split_on 38 qs))"

text \<open>The first value of a name.\<close>

definition query_param :: "(ustr \<times> ustr) list \<Rightarrow> string \<Rightarrow> ustr option" where
  "query_param q name = map_of q (ustr name)"

definition or_text :: "ustr option \<Rightarrow> ustr option \<Rightarrow> ustr option" where
  "or_text a b = (if text_truthy a then a else b)"

definition parse_proxy_link :: "net_lib \<Rightarrow> ustr \<Rightarrow> proxy result" where
  "parse_proxy_link lib link =
     (case link_match ''webproxy'' link of
        Some query \<Rightarrow>
          (let q = parse_qs query;
               hostname = or_text (query_param q ''server'') (query_param q ''host'');
               encoded_secret = query_param q ''secret''
           in if \<not> text_truthy hostname \<or> \<not> text_truthy encoded_secret then Inl ValueError
              else build_web_proxy lib (the hostname) (the encoded_secret))
      | None \<Rightarrow>
     (case link_match ''proxy'' link of
        Some query \<Rightarrow>
          (let q = parse_qs query;
               hostname = query_param q ''server''; port = query_param q ''port'';
               encoded_secret = query_param q ''secret''
           in if \<not> text_truthy hostname \<or> \<not> text_truthy port \<or> \<not> text_truthy encoded_secret then Inl ValueError
              else build_mtproxy (the hostname) (PortStr (the port)) (the encoded_secret))
      | None \<Rightarrow>
     (case link_match ''socks'' link of
        Some query \<Rightarrow>
          (let q = parse_qs query; hostname = query_param q ''server''; port = query_param q ''port''
           in if \<not> text_truthy hostname \<or> \<not> text_truthy port then Inl ValueError
              else build_dialed_proxy SOCKS5 (the hostname) (PortStr (the port)) (query_param q ''user'') (query_param q ''pass''))
      | None \<Rightarrow>
          bindR (urlsplit lib link) (\<lambda>parts.
            if url_scheme parts = [] \<or> \<not> text_truthy (url_hostname parts) \<or> \<not> port_truthy (map_option PortInt (url_port parts))
            then Inl ValueError
            else bindR (parse_scheme (Some (url_scheme parts))) (\<lambda>scheme.
              if dialed_proxy_type scheme = None then Inl ValueError
              else build_dialed_proxy scheme (the (url_hostname parts)) (PortInt (the (url_port parts)))
                     (map_option unquote (url_username parts)) (map_option unquote (url_password parts)))))))"

section \<open>Dictionaries\<close>

text \<open>The keys the program reads; \<open>d_other\<close> says whether the dictionary has any further entry.\<close>

record proxy_dict =
  d_scheme :: "ustr option"
  d_hostname :: "ustr option"
  d_port :: "port_value option"
  d_secret :: "ustr option"
  d_username :: "ustr option"
  d_password :: "ustr option"
  d_other :: bool

definition parse_proxy_dict :: "net_lib \<Rightarrow> proxy_dict \<Rightarrow> proxy result" where
  "parse_proxy_dict lib proxy =
     bindR (parse_scheme (d_scheme proxy)) (\<lambda>scheme.
       let hostname = d_hostname proxy; port = d_port proxy; encoded_secret = d_secret proxy in
       if scheme = WEB then
         (if \<not> text_truthy hostname \<or> \<not> text_truthy encoded_secret then Inl ValueError
          else build_web_proxy lib (the hostname) (the encoded_secret))
       else if scheme = MTPROXY then
         (if \<not> text_truthy hostname \<or> \<not> port_truthy port \<or> \<not> text_truthy encoded_secret then Inl ValueError
          else build_mtproxy (the hostname) (the port) (the encoded_secret))
       else if \<not> text_truthy hostname \<or> \<not> port_truthy port then Inl ValueError
       else build_dialed_proxy scheme (the hostname) (the port) (d_username proxy) (d_password proxy))"

datatype proxy_arg = ArgNone | ArgProxy proxy | ArgStr ustr | ArgDict proxy_dict | ArgOther

definition empty_dict :: "proxy_dict \<Rightarrow> bool" where
  "empty_dict d =
     (d_scheme d = None \<and> d_hostname d = None \<and> d_port d = None \<and> d_secret d = None \<and> d_username d = None
      \<and> d_password d = None \<and> \<not> d_other d)"

fun normalize_proxy :: "net_lib \<Rightarrow> proxy_arg \<Rightarrow> proxy option result" where
  "normalize_proxy lib ArgNone = Inr None"
| "normalize_proxy lib (ArgProxy p) = Inr (Some p)"
| "normalize_proxy lib (ArgStr s) = (if s = [] then Inr None else bindR (parse_proxy_link lib s) (\<lambda>p. Inr (Some p)))"
| "normalize_proxy lib (ArgDict d) = (if empty_dict d then Inr None else bindR (parse_proxy_dict lib d) (\<lambda>p. Inr (Some p)))"
| "normalize_proxy lib ArgOther = Inl TypeError"

section \<open>The encodings decode\<close>

definition hex_digit :: "nat \<Rightarrow> nat" where
  "hex_digit v = (if v < 10 then 48 + v else 87 + v)"

text \<open>\<open>bytes.hex()\<close>.\<close>

definition hex_of :: "bytes \<Rightarrow> ustr" where
  "hex_of bs = concat (map (\<lambda>b. [hex_digit (unat b div 16), hex_digit (unat b mod 16)]) bs)"

lemma hex_val_digit: "v < 16 \<Longrightarrow> hex_val (hex_digit v) = Some v"
  by (auto simp: hex_val_def hex_digit_def digit_val_def)

lemma hex_digit_not_space: "v < 16 \<Longrightarrow> \<not> ascii_space (hex_digit v)"
  by (auto simp: ascii_space_def hex_digit_def)

lemma fromhex_hex_of: "fromhex (hex_of bs) = Inr bs"
proof (induction bs)
  case (Cons b bs)
  have "unat b div 16 < 16" "unat b mod 16 < 16" using unat_byte_lt [of b] by (simp_all add: less_mult_imp_div_less)
  with Cons show ?case by (simp add: hex_of_def hex_val_digit hex_digit_not_space)
qed (simp add: hex_of_def)

lemma to_standard_val: "b64_val (to_standard c) = b64_val c"
  by (auto simp: to_standard_def b64_val_def)

lemma to_standard_eq: "to_standard c = eq_sign \<longleftrightarrow> c = eq_sign"
  by (auto simp: to_standard_def)

lemma b64_scan_standard: "b64_scan qp left pads (map to_standard s) = b64_scan qp left pads s"
  by (induction s arbitrary: qp left pads) (simp_all add: to_standard_val to_standard_eq split: option.split)

lemma dropWhile_replicate_same: "dropWhile (\<lambda>c. c \<noteq> x) (replicate n x) = replicate n x"
  by (cases n) simp_all

lemma span_pad:
  assumes "x \<notin> set xs"
  shows "takeWhile (\<lambda>c. c \<noteq> x) (xs @ replicate k x) = xs" "dropWhile (\<lambda>c. c \<noteq> x) (xs @ replicate k x) = replicate k x"
  using assms by (induction xs) (auto simp: dropWhile_replicate_same takeWhile_eq_Nil_iff)

lemma base64_decoded_core: "base64_decoded (b64_core bs) = Some bs"
proof -
  let ?c = "map to_standard (b64_core bs)" and ?k = "nat (- int (length (b64_core bs)) mod 4)"
  have p: "map to_standard (replicate ?k eq_sign) = replicate ?k eq_sign" by (simp add: to_standard_def)
  have "eq_sign \<notin> set ?c" using b64_core_no_eq [of bs] by (auto simp: to_standard_eq dest: sym)
  note core = span_pad [OF this, of ?k]
  have "length (b64_groups bs) mod 4 = 0" by (induction bs rule: b64_groups.induct) auto
  then have l: "length (?c @ replicate ?k eq_sign) mod 4 = 0" by (simp add: b64_groups_core)
  have k: "?k \<le> 2"
  proof -
    have "length (b64_core bs) mod 4 \<noteq> 1" by (induction bs rule: b64_core.induct) auto
    then show ?thesis by (auto simp: pad_cases)
  qed
  have v: "list_all (\<lambda>c. b64_val c \<noteq> None) ?c"
    using b64_core_chars by (fastforce simp: list_all_iff to_standard_val)
  have "b64_wellformed (?c @ replicate ?k eq_sign)"
    unfolding b64_wellformed_def Let_def core using l k v by (simp add: list_all_iff)
  moreover have "b64_scan 0 0 0 (?c @ replicate ?k eq_sign) = Inr bs"
    using b64_scan_standard [of 0 0 0 "b64_core bs @ replicate ?k eq_sign"] b64_scan_groups [of bs]
    by (simp only: map_append p b64_groups_core)
  ultimately show ?thesis by (simp add: base64_decoded_def b64decode_valid_def to_standard_def)
qed

text \<open>A text that carries these bytes in one of the two encodings, hexadecimal being tried first.\<close>

definition carries :: "ustr \<Rightarrow> bytes \<Rightarrow> bool" where
  "carries encoded bs = (encoded = hex_of bs \<or> encoded = b64_core bs \<and> isl (fromhex encoded))"

lemma decode_carried: "carries encoded bs \<Longrightarrow> decode_proxy_secret encoded = Inr bs"
  by (auto simp: carries_def decode_proxy_secret_def fromhex_hex_of base64_decoded_core split: sum.splits)

lemma decoded_secret_shape:
  assumes "decode_mtproxy_secret encoded scheme = Inr (secret, sni)"
  shows "length secret = OBFUSCATED2_SECRET_SIZE \<and> (scheme = WEB \<longrightarrow> sni = None)
       \<or> length secret = MARKED_SECRET_SIZE \<and> secret ! 0 = 0xDD \<and> sni = None"
  using assms
  by (auto simp: decode_mtproxy_secret_def decode_fake_tls_secret_def bindR_Inr_iff Let_def
      OBFUSCATED2_SECRET_SIZE_def MARKED_SECRET_SIZE_def split: if_splits sum.splits)

text \<open>
  The three forms of a secret, hexadecimal or in base64: sixteen bytes are the key whatever they
  begin with, a key behind \<open>dd\<close> keeps its mark, and a key behind \<open>ee\<close> with an ASCII domain of up
  to 182 bytes is cut into the two, for any scheme but the relayed one.
\<close>

theorem proxy_secret_forms:
  assumes "length key = 16" "list_all (\<lambda>c. c < 128) domain" "domain \<noteq> []" "length domain \<le> 182"
  shows "(carries encoded key \<longrightarrow> decode_mtproxy_secret encoded scheme = Inr (key, None)) \<and>
    (carries encoded (0xDD # key) \<longrightarrow> decode_mtproxy_secret encoded scheme = Inr (0xDD # key, None)) \<and>
    (carries encoded (0xEE # key @ map byte_of domain) \<longrightarrow>
       decode_mtproxy_secret encoded scheme = (if scheme = WEB then Inl ValueError else Inr (key, Some domain)))"
proof (intro conjI impI)
  assume "carries encoded (0xEE # key @ map byte_of domain)"
  moreover have "ascii_decode (map byte_of domain) = Inr domain"
    using assms(2) by (auto simp: ascii_decode_def list_all_iff intro!: map_idI)
  ultimately show "decode_mtproxy_secret encoded scheme = (if scheme = WEB then Inl ValueError else Inr (key, Some domain))"
    using assms(1,3,4)
    by (simp add: decode_mtproxy_secret_def decode_carried decode_fake_tls_secret_def OBFUSCATED2_SECRET_SIZE_def
        MARKED_SECRET_SIZE_def MAX_SNI_DOMAIN_SIZE_def)
qed (use assms in \<open>simp_all add: decode_mtproxy_secret_def decode_carried OBFUSCATED2_SECRET_SIZE_def MARKED_SECRET_SIZE_def\<close>)

lemma proxy_secret_forms_witness:
  "decode_mtproxy_secret (hex_of (0xEE # replicate 16 7 @ [97, 46, 98])) MTPROXY = Inr (replicate 16 7, Some [97, 46, 98])"
proof -
  have "map byte_of [97, 46, 98] = [97, 46, 98]" by (simp add: byte_of_def)
  with proxy_secret_forms [of "replicate 16 7" "[97, 46, 98]" "hex_of (0xEE # replicate 16 7 @ [97, 46, 98])" MTPROXY]
  show ?thesis by (simp add: carries_def)
qed

section \<open>Links and dictionaries\<close>

lemma split_on_append: "c \<notin> set a \<Longrightarrow> split_on c (a @ c # b) = a # split_on c b"
  by (induction a) auto

lemma split_on_none: "c \<notin> set a \<Longrightarrow> split_on c a = [a]"
  by (induction a) auto

text \<open>Text that a query carries as it is.\<close>

definition plain_text :: "ustr \<Rightarrow> bool" where
  "plain_text s = (s \<noteq> [] \<and> list_all (\<lambda>c. c < 128 \<and> c \<notin> {10, 37, 38, 43}) s)"

lemma pct_decode_step: "c \<noteq> 37 \<Longrightarrow> pct_decode (c # cs) = byte_of c # pct_decode cs"
  by (simp split: list.split)

declare pct_decode.simps(2) [simp del]

lemma pct_decode_plain: "37 \<notin> set s \<Longrightarrow> pct_decode s = map byte_of s"
  by (induction s) (simp_all add: pct_decode_step)

lemma utf8_decode_ascii: "list_all (\<lambda>c. c < 128) s \<Longrightarrow> utf8_decode (map byte_of s) = s"
  by (induction s) (simp_all add: utf8_decode.simps)

lemma unquote_plain: "plain_text s \<Longrightarrow> unquote s = s"
proof (cases s)
  case (Cons c cs)
  assume p: "plain_text s"
  then have a: "list_all (\<lambda>d. d < 128) (c # cs)" "37 \<notin> set (c # cs)"
    by (auto simp: plain_text_def Cons list_all_iff)
  then have t: "takeWhile (\<lambda>d. d < 128) (c # cs) = c # cs" and d: "dropWhile (\<lambda>d. d < 128) cs = []"
    by (auto simp: list_all_iff takeWhile_eq_all_conv dropWhile_eq_Nil_conv)
  have "unquote (c # cs) = utf8_decode (pct_decode (c # cs))"
    using a(1) by (simp only: unquote.simps t d append_Nil2 list.pred_inject if_True)
  also have "\<dots> = c # cs" by (simp only: pct_decode_plain [OF a(2)] utf8_decode_ascii [OF a(1)])
  finally show ?thesis by (simp only: Cons)
qed simp

lemma qs_text_plain: "plain_text s \<Longrightarrow> qs_text s = s"
proof -
  assume p: "plain_text s"
  then have "map (\<lambda>c. if c = 43 then 32 else c) s = s" by (intro map_idI) (auto simp: plain_text_def list_all_iff)
  then show ?thesis using p by (simp add: qs_text_def unquote_plain)
qed

lemma qs_pair_plain: "plain_text name \<Longrightarrow> 61 \<notin> set name \<Longrightarrow> plain_text v \<Longrightarrow> qs_pair (name @ 61 # v) = [(name, v)]"
  by (simp add: qs_pair_def partition_at_append qs_text_plain) (simp add: plain_text_def)

text \<open>A query of plain names and values is parsed back.\<close>

fun query_of :: "(ustr \<times> ustr) list \<Rightarrow> ustr" where
  "query_of [] = []"
| "query_of [(n, v)] = n @ 61 # v"
| "query_of ((n, v) # p # ps) = n @ 61 # v @ 38 # query_of (p # ps)"

lemma parse_qs_query_of:
  "list_all (\<lambda>(n, v). plain_text n \<and> 61 \<notin> set n \<and> plain_text v) ps \<Longrightarrow> parse_qs (query_of ps) = ps"
proof (induction ps rule: query_of.induct)
  case (2 n v)
  then have "38 \<notin> set (n @ 61 # v)" by (auto simp: plain_text_def list_all_iff)
  with 2 show ?case by (simp add: parse_qs_def split_on_none qs_pair_plain del: split_on.simps set_append)
next
  case (3 n v p ps)
  then have "38 \<notin> set (n @ 61 # v)" by (auto simp: plain_text_def list_all_iff)
  then have "split_on 38 ((n @ 61 # v) @ 38 # query_of (p # ps)) = (n @ 61 # v) # split_on 38 (query_of (p # ps))"
    by (rule split_on_append)
  with 3 show ?case by (simp add: parse_qs_def qs_pair_plain)
qed (simp add: parse_qs_def qs_pair_def partition_at_def)

lemma query_line: "list_all (\<lambda>(n, v). plain_text n \<and> plain_text v) ps \<Longrightarrow> 10 \<notin> set (query_of ps)"
  by (induction ps rule: query_of.induct) (auto simp: plain_text_def list_all_iff)

lemma link_match_tg:
  assumes "10 \<notin> set q" "q \<noteq> []"
  shows "link_match ''proxy'' (ustr ''tg://proxy?'' @ q) = Some q"
    "link_match ''webproxy'' (ustr ''tg://proxy?'' @ q) = None"
    "link_match ''webproxy'' (ustr ''tg://webproxy?'' @ q) = Some q"
    "link_match ''webproxy'' (ustr ''tg://socks?'' @ q) = None"
    "link_match ''proxy'' (ustr ''tg://socks?'' @ q) = None"
    "link_match ''socks'' (ustr ''tg://socks?'' @ q) = Some q"
proof -
  have "takeWhile (\<lambda>c. c \<noteq> 10) q = q" using assms(1) by (auto simp: takeWhile_eq_all_conv)
  then show "link_match ''proxy'' (ustr ''tg://proxy?'' @ q) = Some q"
    "link_match ''webproxy'' (ustr ''tg://webproxy?'' @ q) = Some q"
    "link_match ''socks'' (ustr ''tg://socks?'' @ q) = Some q"
    using assms(2) by (simp_all add: link_match_def Let_def link_prefixes_def starts_with_def ustr_def del: takeWhile_eq_all_conv)
qed (simp_all add: link_match_def link_prefixes_def starts_with_def ustr_def)

lemma scheme_names:
  "parse_scheme (Some (ustr ''mtproxy'')) = Inr MTPROXY" "parse_scheme (Some (ustr ''web'')) = Inr WEB"
  "parse_scheme (Some (ustr ''socks5'')) = Inr SOCKS5"
  by (simp_all add: parse_scheme_def ProxySchemes_def scheme_value_def scheme_lower_def lower_char_def ustr_def)

lemma query_names:
  "plain_text (ustr ''server'')" "plain_text (ustr ''port'')" "plain_text (ustr ''secret'')"
  "plain_text (ustr ''user'')" "plain_text (ustr ''pass'')"
  "61 \<notin> set (ustr ''server'')" "61 \<notin> set (ustr ''port'')" "61 \<notin> set (ustr ''secret'')"
  "61 \<notin> set (ustr ''user'')" "61 \<notin> set (ustr ''pass'')"
  by (simp_all add: plain_text_def ustr_def)

lemma ustr_eq_iff: "ustr a = ustr b \<longleftrightarrow> a = b"
  by (simp add: ustr_def inj_map_eq_map inj_def)

text \<open>
  A proxy written as a \<open>tg://\<close> link and as a dictionary with the same texts is normalised to the
  same value, or refused with the same error: for MTProxy, for the relayed scheme and for SOCKS5.
\<close>

theorem links_and_dicts_agree:
  assumes "plain_text h" "plain_text p" "plain_text s" "plain_text u"
  shows "normalize_proxy lib (ArgStr (ustr ''tg://proxy?'' @ query_of [(ustr ''server'', h), (ustr ''port'', p), (ustr ''secret'', s)])) =
      normalize_proxy lib (ArgDict \<lparr>d_scheme = Some (ustr ''mtproxy''), d_hostname = Some h, d_port = Some (PortStr p),
        d_secret = Some s, d_username = None, d_password = None, d_other = False\<rparr>) \<and>
    normalize_proxy lib (ArgStr (ustr ''tg://webproxy?'' @ query_of [(ustr ''server'', h), (ustr ''secret'', s)])) =
      normalize_proxy lib (ArgDict \<lparr>d_scheme = Some (ustr ''web''), d_hostname = Some h, d_port = None,
        d_secret = Some s, d_username = None, d_password = None, d_other = False\<rparr>) \<and>
    normalize_proxy lib (ArgStr (ustr ''tg://socks?'' @ query_of [(ustr ''server'', h), (ustr ''port'', p), (ustr ''user'', u), (ustr ''pass'', s)])) =
      normalize_proxy lib (ArgDict \<lparr>d_scheme = Some (ustr ''socks5''), d_hostname = Some h, d_port = Some (PortStr p),
        d_secret = None, d_username = Some u, d_password = Some s, d_other = False\<rparr>)"
proof -
  have t: "h \<noteq> []" "p \<noteq> []" "s \<noteq> []" using assms by (auto simp: plain_text_def)
  let ?m = "[(ustr ''server'', h), (ustr ''port'', p), (ustr ''secret'', s)]"
  let ?w = "[(ustr ''server'', h), (ustr ''secret'', s)]"
  let ?s = "[(ustr ''server'', h), (ustr ''port'', p), (ustr ''user'', u), (ustr ''pass'', s)]"
  have q: "parse_qs (query_of ?m) = ?m" "parse_qs (query_of ?w) = ?w" "parse_qs (query_of ?s) = ?s"
    using assms by (simp_all only: parse_qs_query_of list.pred_inject prod.case query_names not_False_eq_True simp_thms)
  have nl: "10 \<notin> set (query_of ?m)" "10 \<notin> set (query_of ?w)" "10 \<notin> set (query_of ?s)"
    using assms by (simp_all only: query_line list.pred_inject prod.case query_names not_False_eq_True simp_thms)
  have ne: "query_of ?m \<noteq> []" "query_of ?w \<noteq> []" "query_of ?s \<noteq> []" by simp_all
  note links = link_match_tg [OF nl(1) ne(1)] link_match_tg [OF nl(2) ne(2)] link_match_tg [OF nl(3) ne(3)]
  have e: "ustr ''tg://proxy?'' \<noteq> []" "ustr ''tg://webproxy?'' \<noteq> []" "ustr ''tg://socks?'' \<noteq> []"
    by (simp_all add: ustr_def)
  show ?thesis
    by (simp add: parse_proxy_link_def parse_proxy_dict_def links q t e empty_dict_def scheme_names query_param_def
        text_truthy_def or_text_def ustr_eq_iff Let_def del: query_of.simps)
qed

definition demo_lib :: net_lib where
  "demo_lib = \<lparr>is_ip_literal = (\<lambda>_. False), idna = Some, urlsplit = (\<lambda>_. Inl ValueError)\<rparr>"

lemma links_and_dicts_agree_witness:
  "normalize_proxy demo_lib (ArgStr (ustr ''tg://proxy?'' @ query_of [(ustr ''server'', ustr ''h''), (ustr ''port'', ustr ''443''), (ustr ''secret'', ustr ''xy'')])) =
     normalize_proxy demo_lib (ArgDict \<lparr>d_scheme = Some (ustr ''mtproxy''), d_hostname = Some (ustr ''h''), d_port = Some (PortStr (ustr ''443'')),
        d_secret = Some (ustr ''xy''), d_username = None, d_password = None, d_other = False\<rparr>)"
proof -
  have "plain_text (ustr ''h'')" "plain_text (ustr ''443'')" "plain_text (ustr ''xy'')" by (simp_all add: plain_text_def ustr_def)
  then show ?thesis using links_and_dicts_agree [of "ustr ''h''" "ustr ''443''" "ustr ''xy''" "ustr ''h''" demo_lib] by blast
qed

end
