(* ===== verification/Transport.thy ===== *)
theory Transport
  imports Prelude
begin

text \<open>
  The packet framings of \<open>pyrogram/connection/transport/tcp\<close> over a byte pipe, plain and
  obfuscated. A pipe is a function that receives a given number of bytes from a state: all of them,
  \<open>None\<close> when the connection ends first, or an exception. The interface \<open>framing\<close> says what a
  framing promises; every framing is an instance of it.
\<close>

section \<open>Pipes\<close>

type_synonym 's pipe = "int \<Rightarrow> 's \<Rightarrow> bytes option result \<times> 's"

definition bindP :: "bytes option result \<times> 's \<Rightarrow> (bytes \<Rightarrow> 's \<Rightarrow> bytes option result \<times> 's) \<Rightarrow> bytes option result \<times> 's" where
  "bindP m f =
     (case m of
        (Inl e, t) \<Rightarrow> (Inl e, t)
      | (Inr None, t) \<Rightarrow> (Inr None, t)
      | (Inr (Some x), t) \<Rightarrow> f x t)"

lemma bindP_simps [simp]:
  "bindP (Inl e, t) f = (Inl e, t)" "bindP (Inr None, t) f = (Inr None, t)" "bindP (Inr (Some x), t) f = f x t"
  by (simp_all add: bindP_def)

definition MAX_FRAME_SIZE :: int where "MAX_FRAME_SIZE = 0xFFFFFF * 4"

text \<open>The pipe of a socket whose peer has sent these bytes and then closes.\<close>

definition byte_pipe :: "bytes pipe" where
  "byte_pipe n s =
     (if n \<le> 0 then (Inr (Some []), s)
      else if MAX_FRAME_SIZE < n then (Inl OSError, s)
      else if int (length s) < n then (Inr None, [])
      else (Inr (Some (take (nat n) s)), drop (nat n) s))"

lemma byte_pipe_append: "int (length d) \<le> MAX_FRAME_SIZE \<Longrightarrow> byte_pipe (int (length d)) (d @ rest) = (Inr (Some d), rest)"
  by (auto simp: byte_pipe_def)

lemma byte_pipe_exact:
  "n = int (length d) \<Longrightarrow> n \<le> MAX_FRAME_SIZE \<Longrightarrow> byte_pipe n (d @ rest) = (Inr (Some d), rest)"
  by (simp add: byte_pipe_append)

section \<open>Keystreams\<close>

text \<open>
  A counter-mode cipher is a keystream and a position in it; encrypting advances the position. The
  keystream itself is not under this code.
\<close>

definition xor_stream :: "(nat \<Rightarrow> byte) \<Rightarrow> nat \<Rightarrow> bytes \<Rightarrow> bytes" where
  "xor_stream ks pos d = map (\<lambda>i. d ! i XOR ks (pos + i)) [0..<length d]"

lemma length_xor_stream [simp]: "length (xor_stream ks pos d) = length d"
  by (simp add: xor_stream_def)

lemma nth_xor_stream: "i < length d \<Longrightarrow> xor_stream ks pos d ! i = d ! i XOR ks (pos + i)"
  by (simp add: xor_stream_def)

lemma xor_stream_inverse [simp]: "xor_stream ks pos (xor_stream ks pos d) = d"
  by (rule nth_equalityI) (simp_all add: nth_xor_stream xor.assoc)

lemma xor_stream_append: "xor_stream ks pos (a @ b) = xor_stream ks pos a @ xor_stream ks (pos + length a) b"
  by (rule nth_equalityI) (auto simp: nth_xor_stream nth_append)

lemma xor_stream_Nil [simp]: "xor_stream ks pos [] = []"
  by (simp add: xor_stream_def)

lemma take_xor_stream: "take n (xor_stream ks pos d) = xor_stream ks pos (take n d)"
  by (rule nth_equalityI) (auto simp: nth_xor_stream)

lemma drop_xor_stream: "drop n (xor_stream ks pos d) = xor_stream ks (pos + min n (length d)) (drop n d)"
  by (rule nth_equalityI) (auto simp: nth_xor_stream add.assoc min_def)

text \<open>A pipe under a keystream: every block is decrypted where the last one ended (\<open>TCP.recv\<close>).\<close>

definition decrypting :: "(nat \<Rightarrow> byte) \<Rightarrow> 's pipe \<Rightarrow> (nat \<times> 's) pipe" where
  "decrypting ks p n st =
     (case p n (snd st) of
        (Inr (Some d), t) \<Rightarrow> (Inr (Some (xor_stream ks (fst st) d)), (fst st + length d, t))
      | (r, t) \<Rightarrow> (r, (fst st, t)))"

section \<open>The framings\<close>

text \<open>CRC-32 (\<open>zlib.crc32\<close>).\<close>

definition crc_bit :: "32 word \<Rightarrow> 32 word" where
  "crc_bit c = (if bit c 0 then drop_bit 1 c XOR 0xEDB88320 else drop_bit 1 c)"

definition crc32 :: "bytes \<Rightarrow> nat" where
  "crc32 bs = unat (NOT (fold (\<lambda>b c. (crc_bit ^^ 8) (c XOR ucast b)) bs 0xFFFFFFFF))"

lemma crc32_lt: "crc32 bs < 2 ^ 32"
  unfolding crc32_def by (rule order_less_le_trans [OF unsigned_less]) simp

text \<open>\<open>TCPFull\<close>: length, sequence number, payload, checksum.\<close>

definition full_frame :: "int \<Rightarrow> bytes \<Rightarrow> bytes result" where
  "full_frame seq_no data =
     bindR (struct_pack False [CInt 4 False, CInt 4 False] [VInt (int (length data) + 12), VInt seq_no]) (\<lambda>h.
       Inr (h @ data @ le_of_int 4 (int (crc32 (h @ data)))))"

definition full_send :: "int \<Rightarrow> bytes \<Rightarrow> bytes result \<times> int" where
  "full_send seq_no data =
     (case full_frame seq_no data of Inl e \<Rightarrow> (Inl e, seq_no) | Inr w \<Rightarrow> (Inr w, seq_no + 1))"

definition full_recv :: "'s pipe \<Rightarrow> 's \<Rightarrow> bytes option result \<times> 's" where
  "full_recv p s =
     bindP (p 4 s) (\<lambda>len s.
     bindP (p (le_int False len - 4) s) (\<lambda>packet s.
       let packet = len @ packet;
           checksum = drop (length packet - 4) packet;
           packet = take (length packet - 4) packet
       in if int (crc32 packet) \<noteq> le_int False checksum then (Inr None, s)
          else (Inr (Some (drop 8 packet)), s)))"

text \<open>\<open>TCPAbridged\<close>: the number of words in one byte, or \<open>7f\<close> and three bytes.\<close>

definition abridged_head :: "nat \<Rightarrow> bytes result" where
  "abridged_head len = (if len \<le> 126 then Inr [byte_of len] else bindR (to_bytes_le 3 False (int len)) (\<lambda>l. Inr (0x7F # l)))"

definition abridged_send :: "bytes \<Rightarrow> bytes result" where
  "abridged_send data = bindR (abridged_head (length data div 4)) (\<lambda>h. Inr (h @ data))"

definition timeout_to_oserror :: "bytes option result \<times> 's \<Rightarrow> bytes option result \<times> 's" where
  "timeout_to_oserror r = (case r of (Inl TimeoutError, s) \<Rightarrow> (Inl OSError, s) | r \<Rightarrow> r)"

definition abridged_recv :: "'s pipe \<Rightarrow> 's \<Rightarrow> bytes option result \<times> 's" where
  "abridged_recv p s =
     bindP (p 1 s) (\<lambda>len s. timeout_to_oserror
       (if len = [0x7F] then bindP (p 3 s) (\<lambda>len s. p (le_int False len * 4) s)
        else p (le_int False len * 4) s))"

text \<open>\<open>TCPIntermediate\<close>: a signed 32-bit length.\<close>

definition intermediate_send :: "bytes \<Rightarrow> bytes result" where
  "intermediate_send data =
     bindR (struct_pack False [CInt 4 True] [VInt (int (length data))]) (\<lambda>h. Inr (h @ data))"

definition intermediate_recv :: "'s pipe \<Rightarrow> 's \<Rightarrow> bytes option result \<times> 's" where
  "intermediate_recv p s = bindP (p 4 s) (\<lambda>len s. p (le_int True len) s)"

text \<open>
  \<open>TCPPaddedIntermediate\<close>: random padding behind the data. The receiver tells the three kinds of
  payload apart: a transport error of four bytes, an unencrypted message with its length inside, and
  an encrypted message, whose length is a multiple of sixteen after the key id.
\<close>

definition padded_send :: "bytes \<Rightarrow> bytes \<Rightarrow> bytes result" where
  "padded_send padding data =
     bindR (struct_pack False [CInt 4 True] [VInt (int (length data) + int (length padding))]) (\<lambda>h.
       Inr (h @ data @ padding))"

definition strip_padding :: "bytes \<Rightarrow> bytes" where
  "strip_padding payload =
     (if length payload < 24 then take 4 payload
      else if le_int False (take 8 payload) = 0
      then take (20 + le_nat (take 4 (drop 16 payload))) payload
      else take (length payload - (length payload - 8) mod 16) payload)"

definition padded_recv :: "'s pipe \<Rightarrow> 's \<Rightarrow> bytes option result \<times> 's" where
  "padded_recv p s =
     bindP (p 4 s) (\<lambda>len s. bindP (p (le_int True len) s) (\<lambda>d s. (Inr (Some (strip_padding d)), s)))"

text \<open>The obfuscated variants decrypt block by block with their own keystream position.\<close>

definition abridged_o_recv :: "(nat \<Rightarrow> byte) \<Rightarrow> 's pipe \<Rightarrow> nat \<times> 's \<Rightarrow> bytes option result \<times> (nat \<times> 's)" where
  "abridged_o_recv ks p st =
     (case st of (pos, s) \<Rightarrow>
       (case p 1 s of
          (Inr (Some l), s) \<Rightarrow>
            (let len = xor_stream ks pos l; pos = pos + length l;
                 body = (\<lambda>len pos s.
                   case p (le_int False len * 4) s of
                     (Inr (Some d), s) \<Rightarrow> (Inr (Some (xor_stream ks pos d)), (pos + length d, s))
                   | (r, s) \<Rightarrow> (r, (pos, s)))
             in if len = [0x7F] then
                  (case p 3 s of
                     (Inr (Some l), s) \<Rightarrow> body (xor_stream ks pos l) (pos + length l) s
                   | (r, s) \<Rightarrow> (r, (pos, s)))
                else body len pos s)
        | (r, s) \<Rightarrow> (r, (pos, s))))"

definition intermediate_o_recv :: "(nat \<Rightarrow> byte) \<Rightarrow> 's pipe \<Rightarrow> nat \<times> 's \<Rightarrow> bytes option result \<times> (nat \<times> 's)" where
  "intermediate_o_recv ks p st =
     (case st of (pos, s) \<Rightarrow>
       (case p 4 s of
          (Inr (Some l), s) \<Rightarrow>
            (let len = xor_stream ks pos l; pos = pos + length l in
             case p (le_int True len) s of
               (Inr (Some d), s) \<Rightarrow> (Inr (Some (xor_stream ks pos d)), (pos + length d, s))
             | (r, s) \<Rightarrow> (r, (pos, s)))
        | (r, s) \<Rightarrow> (r, (pos, s))))"

definition padded_o_recv :: "(nat \<Rightarrow> byte) \<Rightarrow> 's pipe \<Rightarrow> nat \<times> 's \<Rightarrow> bytes option result \<times> (nat \<times> 's)" where
  "padded_o_recv ks p st =
     (case intermediate_o_recv ks p st of
        (Inr (Some d), st) \<Rightarrow> (Inr (Some (strip_padding d)), st)
      | r \<Rightarrow> r)"

text \<open>Sending: the frame is encrypted where the last one ended.\<close>

definition encrypt_send :: "(nat \<Rightarrow> byte) \<Rightarrow> nat \<Rightarrow> bytes result \<Rightarrow> bytes result \<times> nat" where
  "encrypt_send ks pos frame =
     (case frame of Inl e \<Rightarrow> (Inl e, pos) | Inr d \<Rightarrow> (Inr (xor_stream ks pos d), pos + length d))"

lemma timeout_to_oserror_id: "fst r \<noteq> Inl TimeoutError \<Longrightarrow> timeout_to_oserror r = r"
  by (cases r; cases "fst r") (auto simp: timeout_to_oserror_def split: py_exn.splits)

lemma decrypting_simps:
  "p n s = (Inl e, t) \<Longrightarrow> decrypting ks p n (pos, s) = (Inl e, pos, t)"
  "p n s = (Inr None, t) \<Longrightarrow> decrypting ks p n (pos, s) = (Inr None, pos, t)"
  "p n s = (Inr (Some d), t) \<Longrightarrow> decrypting ks p n (pos, s) = (Inr (Some (xor_stream ks pos d)), pos + length d, t)"
  by (simp_all add: decrypting_def)

lemma decrypting_unfold:
  "decrypting ks p n (pos, s) =
     (case p n s of
        (Inr (Some d), t) \<Rightarrow> (Inr (Some (xor_stream ks pos d)), (pos + length d, t))
      | (r, t) \<Rightarrow> (r, (pos, t)))"
  by (auto simp: decrypting_def split: prod.splits sum.splits option.splits)

definition abridged_tail :: "'s pipe \<Rightarrow> bytes \<Rightarrow> 's \<Rightarrow> bytes option result \<times> 's" where
  "abridged_tail p len s =
     (if len = [0x7F] then bindP (p 3 s) (\<lambda>len s. p (le_int False len * 4) s) else p (le_int False len * 4) s)"

lemma abridged_recv_tail: "abridged_recv p s = bindP (p 1 s) (\<lambda>len s. timeout_to_oserror (abridged_tail p len s))"
  by (simp add: abridged_recv_def abridged_tail_def)

lemma abridged_o_recv_tail: "abridged_o_recv ks p st = bindP (decrypting ks p 1 st) (abridged_tail (decrypting ks p))"
proof -
  obtain pos s where st: "st = (pos, s)" by (cases st)
  obtain r t where r: "p 1 s = (r, t)" by (cases "p 1 s")
  consider e where "r = Inl e" | "r = Inr None" | l where "r = Inr (Some l)"
    by (cases r; cases "projr r") auto
  then show ?thesis
  proof cases
    case (3 l)
    show ?thesis
      unfolding abridged_o_recv_def abridged_tail_def st using r 3
      by (auto simp: decrypting_unfold bindP_def Let_def split: prod.splits sum.splits option.splits)
  qed (simp_all add: abridged_o_recv_def st r decrypting_simps)
qed

lemma abridged_equiv:
  assumes "fst (abridged_o_recv ks p st) \<noteq> Inl TimeoutError"
  shows "abridged_o_recv ks p st = abridged_recv (decrypting ks p) st"
  using assms unfolding abridged_o_recv_tail abridged_recv_tail
  by (auto simp: bindP_def timeout_to_oserror_id split: prod.splits sum.splits option.splits)

lemma intermediate_equiv: "intermediate_o_recv ks p st = intermediate_recv (decrypting ks p) st"
  by (cases st) (auto simp: intermediate_o_recv_def intermediate_recv_def decrypting_def bindP_def Let_def
      split: prod.splits sum.splits option.splits)

lemma padded_equiv: "padded_o_recv ks p st = padded_recv (decrypting ks p) st"
  unfolding padded_o_recv_def intermediate_equiv
  by (auto simp: intermediate_recv_def padded_recv_def bindP_def split: prod.splits sum.splits option.splits)

text \<open>
  The obfuscated receivers are the plain ones over a decrypting pipe, whatever pipe is below: the
  same frames, the same ends, the same keystream position. (The obfuscated abridged one alone reports
  a timeout inside a frame as a timeout.)
\<close>

theorem obfuscated_recv_equiv:
  "intermediate_o_recv ks p st = intermediate_recv (decrypting ks p) st \<and>
   padded_o_recv ks p st = padded_recv (decrypting ks p) st \<and>
   (fst (abridged_o_recv ks p st) \<noteq> Inl TimeoutError \<longrightarrow>
      abridged_o_recv ks p st = abridged_recv (decrypting ks p) st)"
  using intermediate_equiv padded_equiv abridged_equiv by blast

lemma obfuscated_recv_equiv_witness:
  "abridged_o_recv (\<lambda>_. 0) byte_pipe (0, [1, 5, 6, 7, 8]) = abridged_recv (decrypting (\<lambda>_. 0) byte_pipe) (0, [1, 5, 6, 7, 8])"
proof -
  have "fst (abridged_o_recv (\<lambda>_. 0) byte_pipe (0, [1, 5, 6, 7, 8])) \<noteq> Inl TimeoutError"
    by (simp add: abridged_o_recv_def byte_pipe_def MAX_FRAME_SIZE_def xor_stream_def le_int_def Let_def)
  with obfuscated_recv_equiv show ?thesis by blast
qed

text \<open>One frame after the other off a pipe, as a receive loop takes them.\<close>

fun receive :: "('s \<Rightarrow> bytes option result \<times> 's) \<Rightarrow> nat \<Rightarrow> 's \<Rightarrow> bytes option list \<times> 's" where
  "receive decode 0 s = ([], s)"
| "receive decode (Suc n) s =
     (case decode s of
        (Inr (Some d), t) \<Rightarrow> (case receive decode n t of (ds, u) \<Rightarrow> (Some d # ds, u))
      | (_, t) \<Rightarrow> ([None], t))"

section \<open>What a framing promises\<close>

text \<open>
  A client of a framing relies on one law: a frame in front of anything is received as the data it was
  made of. \<open>good\<close> says which data (and which choice of the sender, a sequence number or a padding)
  the framing carries.
\<close>

locale framing =
  fixes encode :: "'x \<Rightarrow> bytes \<Rightarrow> bytes result"
    and decode :: "bytes \<Rightarrow> bytes option result \<times> bytes"
    and good :: "'x \<Rightarrow> bytes \<Rightarrow> bool"
  assumes frame: "encode x d = Inr w \<Longrightarrow> good x d \<Longrightarrow> decode (w @ rest) = (Inr (Some d), rest)"
begin

lemma all_received:
  assumes "mapR (\<lambda>(x, d). encode x d) ms = Inr ws" "\<forall>(x, d) \<in> set ms. good x d"
  shows "receive decode (length ms) (concat ws @ rest) = (map (Some \<circ> snd) ms, rest)"
  using assms
proof (induction ms arbitrary: ws)
  case (Cons m ms)
  obtain x d where m: "m = (x, d)" by (cases m)
  from Cons.prems(1) m obtain w vs where w: "encode x d = Inr w" "mapR (\<lambda>(x, d). encode x d) ms = Inr vs" "ws = w # vs"
    by (auto simp: bindR_Inr_iff)
  with Cons.IH [of vs] Cons.prems(2) m frame [OF w(1), of "concat vs @ rest"] show ?case by simp
qed simp

end

definition fits_frame :: "bytes \<Rightarrow> bool" where
  "fits_frame d = (int (length d) + 16 \<le> MAX_FRAME_SIZE)"

definition abridged_good :: "unit \<Rightarrow> bytes \<Rightarrow> bool" where
  "abridged_good u d = (length d mod 4 = 0 \<and> int (length d) \<le> MAX_FRAME_SIZE)"

text \<open>Unencrypted messages, encrypted messages and transport errors, with up to fifteen bytes of padding.\<close>

definition padded_good :: "bytes \<Rightarrow> bytes \<Rightarrow> bool" where
  "padded_good padding d =
     (length padding \<le> 15 \<and> fits_frame d \<and>
      (length d = 4 \<or>
       24 \<le> length d \<and> le_int False (take 8 d) = 0 \<and> length d = 20 + le_nat (take 4 (drop 16 d)) \<or>
       24 \<le> length d \<and> le_int False (take 8 d) \<noteq> 0 \<and> (length d - 8) mod 16 = 0))"

lemma pack_u32: "struct_pack False [CInt 4 sg] [VInt v] = Inr h \<longleftrightarrow> fits sg 4 v \<and> h = le_of_int 4 v"
  by (auto simp: bindR_Inr_iff pack_int_def order_def split: if_splits)

interpretation intermediate: framing "\<lambda>u. intermediate_send" "intermediate_recv byte_pipe" "\<lambda>u. fits_frame"
proof
  fix x :: 'a and d w rest assume w: "intermediate_send d = Inr w" and g: "fits_frame d"
  from w have f: "fits True 4 (int (length d))" and w': "w = le_of_int 4 (int (length d)) @ d"
    by (auto simp: intermediate_send_def bindR_Inr_iff pack_int_def order_def split: if_splits)
  have "byte_pipe 4 (le_of_int 4 (int (length d)) @ d @ rest) = (Inr (Some (le_of_int 4 (int (length d)))), d @ rest)"
    by (rule byte_pipe_exact) (simp_all add: MAX_FRAME_SIZE_def)
  moreover have "byte_pipe (int (length d)) (d @ rest) = (Inr (Some d), rest)"
    using g by (intro byte_pipe_exact) (simp_all add: fits_frame_def)
  ultimately show "intermediate_recv byte_pipe (w @ rest) = (Inr (Some d), rest)"
    by (simp add: intermediate_recv_def w' le_int_le_of_int [OF f])
qed

interpretation abridged: framing "\<lambda>u. abridged_send" "abridged_recv byte_pipe" abridged_good
proof
  fix x :: unit and d w rest assume w: "abridged_send d = Inr w" and g: "abridged_good x d"
  have l: "length d div 4 * 4 = length d" and m: "int (length d) \<le> MAX_FRAME_SIZE"
    using g by (auto simp: abridged_good_def)
  have body: "byte_pipe (int (length d)) (d @ rest) = (Inr (Some d), rest)"
    using m by (intro byte_pipe_exact) simp_all
  show "abridged_recv byte_pipe (w @ rest) = (Inr (Some d), rest)"
  proof (cases "length d div 4 \<le> 126")
    case True
    with w have w': "w = byte_of (length d div 4) # d" by (simp add: abridged_send_def abridged_head_def)
    have b: "unat (byte_of (length d div 4)) = length d div 4" using True by (intro unat_byte_of) simp
    have "unat (0x7F :: byte) = 127" by simp
    with b True have "unat (byte_of (length d div 4)) \<noteq> unat (0x7F :: byte)" by linarith
    then have "byte_of (length d div 4) \<noteq> 0x7F" by metis
    moreover have "byte_pipe 1 (byte_of (length d div 4) # d @ rest) = (Inr (Some [byte_of (length d div 4)]), d @ rest)"
      by (simp add: byte_pipe_def MAX_FRAME_SIZE_def)
    moreover have "le_int False [byte_of (length d div 4)] * 4 = int (length d)"
      using b l by (simp add: le_int_def)
    ultimately show ?thesis
      using body by (simp add: abridged_recv_def w' timeout_to_oserror_def)
  next
    case False
    with w have f: "fits False 3 (int (length d div 4))"
      and w': "w = 0x7F # le_of_int 3 (int (length d div 4)) @ d"
      by (auto simp: abridged_send_def abridged_head_def bindR_Inr_iff to_bytes_le_Inr)
    have "byte_pipe 1 (0x7F # le_of_int 3 (int (length d div 4)) @ d @ rest)
        = (Inr (Some [0x7F]), le_of_int 3 (int (length d div 4)) @ d @ rest)"
      by (simp add: byte_pipe_def MAX_FRAME_SIZE_def)
    moreover have "byte_pipe 3 (le_of_int 3 (int (length d div 4)) @ d @ rest)
        = (Inr (Some (le_of_int 3 (int (length d div 4)))), d @ rest)"
      by (rule byte_pipe_exact) (simp_all add: MAX_FRAME_SIZE_def)
    moreover have "le_int False (le_of_int 3 (int (length d div 4))) * 4 = int (length d)"
      using le_int_le_of_int [OF f] l by simp
    ultimately show ?thesis
      using body by (simp add: abridged_recv_def w' timeout_to_oserror_def)
  qed
qed

interpretation full: framing full_frame "full_recv byte_pipe" "\<lambda>u. fits_frame"
proof
  fix x d w rest assume w: "full_frame x d = Inr w" and g: "fits_frame d"
  let ?l = "le_of_int 4 (int (length d) + 12)" and ?q = "le_of_int 4 x"
  let ?c = "le_of_int 4 (int (crc32 (?l @ ?q @ d)))"
  from w have f: "fits False 4 (int (length d) + 12)" and w': "w = ?l @ ?q @ d @ ?c"
    by (auto simp: full_frame_def bindR_Inr_iff pack_int_def order_def split: if_splits)
  have c: "le_int False ?c = int (crc32 (?l @ ?q @ d))"
    using crc32_lt by (intro le_int_le_of_int) (simp add: fits_def)
  have "byte_pipe 4 (?l @ ?q @ d @ ?c @ rest) = (Inr (Some ?l), ?q @ d @ ?c @ rest)"
    by (rule byte_pipe_exact) (simp_all add: MAX_FRAME_SIZE_def)
  moreover have "byte_pipe (8 + int (length d)) ((?q @ d @ ?c) @ rest) = (Inr (Some (?q @ d @ ?c)), rest)"
    using g by (intro byte_pipe_exact) (simp_all add: fits_frame_def)
  ultimately show "full_recv byte_pipe (w @ rest) = (Inr (Some d), rest)"
    using c by (simp add: full_recv_def w' le_int_le_of_int [OF f])
qed

lemma strip_padding_exact: "padded_good padding d \<Longrightarrow> strip_padding (d @ padding) = d"
  unfolding padded_good_def
proof (elim conjE disjE)
  assume p: "length padding \<le> 15" and l: "24 \<le> length d" "(length d - 8) mod 16 = 0" "le_int False (take 8 d) \<noteq> 0"
  have "(length d + length padding - 8) mod 16 = ((length d - 8) + length padding) mod 16" using l(1) by simp
  also have "\<dots> = length padding" using p l(2) by (simp add: mod_add_eq [symmetric] del: mod_add_eq)
  finally show "strip_padding (d @ padding) = d" using l by (simp add: strip_padding_def)
next
  assume l: "24 \<le> length d" "le_int False (take 8 d) = 0" and n: "length d = 20 + le_nat (take 4 (drop 16 d))"
  have "take 4 (drop 16 (d @ padding)) = take 4 (drop 16 d)" using l(1) by simp
  with l show "strip_padding (d @ padding) = d"
    unfolding strip_padding_def by (simp del: take_append drop_append add: n [symmetric] take_append)
next
  assume "length d = 4" "length padding \<le> 15"
  then show "strip_padding (d @ padding) = d" by (simp add: strip_padding_def)
qed

interpretation padded: framing padded_send "padded_recv byte_pipe" padded_good
proof
  fix x d w rest assume w: "padded_send x d = Inr w" and g: "padded_good x d"
  let ?n = "int (length d) + int (length x)"
  from w have f: "fits True 4 ?n" and w': "w = le_of_int 4 ?n @ d @ x"
    by (auto simp: padded_send_def bindR_Inr_iff pack_int_def order_def split: if_splits)
  have "byte_pipe 4 (le_of_int 4 ?n @ d @ x @ rest) = (Inr (Some (le_of_int 4 ?n)), d @ x @ rest)"
    by (rule byte_pipe_exact) (simp_all add: MAX_FRAME_SIZE_def)
  moreover have "byte_pipe ?n ((d @ x) @ rest) = (Inr (Some (d @ x)), rest)"
    using g by (intro byte_pipe_exact) (simp_all add: padded_good_def fits_frame_def)
  ultimately show "padded_recv byte_pipe (w @ rest) = (Inr (Some d), rest)"
    using strip_padding_exact [OF g] by (simp add: padded_recv_def w' le_int_le_of_int [OF f])
qed

section \<open>Under the keystream\<close>

text \<open>What is received through a decrypting pipe is what would be received from the plain bytes.\<close>

definition hides :: "(nat \<Rightarrow> byte) \<Rightarrow> 'a \<times> bytes \<Rightarrow> 'a \<times> (nat \<times> bytes) \<Rightarrow> bool" where
  "hides ks a b = (fst b = fst a \<and> snd (snd b) = xor_stream ks (fst (snd b)) (snd a))"

lemma hides_pipe: "hides ks (byte_pipe n s) (decrypting ks byte_pipe n (pos, xor_stream ks pos s))"
  by (auto simp: hides_def byte_pipe_def decrypting_def take_xor_stream drop_xor_stream min_def)

lemma hides_bindP:
  assumes "hides ks a b" "\<And>d t pos. hides ks (f d t) (g d (pos, xor_stream ks pos t))"
  shows "hides ks (bindP a f) (bindP b g)"
proof -
  obtain r t pos u where a: "a = (r, t)" and b: "b = (r, pos, u)" and u: "u = xor_stream ks pos t"
    using assms(1) by (cases a; cases b) (auto simp: hides_def)
  show ?thesis
    using assms(2) [of _ t pos] by (auto simp: a b u bindP_def hides_def split: sum.splits option.splits)
qed

lemma hides_tail: "hides ks (abridged_tail byte_pipe len s) (abridged_tail (decrypting ks byte_pipe) len (pos, xor_stream ks pos s))"
  unfolding abridged_tail_def by (simp add: hides_pipe hides_bindP)

lemma byte_pipe_no_timeout: "fst (byte_pipe n s) \<noteq> Inl TimeoutError"
  by (simp add: byte_pipe_def)

lemma abridged_tail_no_timeout: "fst (abridged_tail byte_pipe len s) \<noteq> Inl TimeoutError"
  using byte_pipe_no_timeout by (auto simp: abridged_tail_def bindP_def split: prod.splits sum.splits option.splits)
    (metis fst_conv)+

lemma hides_recv:
  "hides ks (abridged_recv byte_pipe s) (abridged_o_recv ks byte_pipe (pos, xor_stream ks pos s))"
  "hides ks (intermediate_recv byte_pipe s) (intermediate_o_recv ks byte_pipe (pos, xor_stream ks pos s))"
  "hides ks (padded_recv byte_pipe s) (padded_o_recv ks byte_pipe (pos, xor_stream ks pos s))"
proof -
  show "hides ks (abridged_recv byte_pipe s) (abridged_o_recv ks byte_pipe (pos, xor_stream ks pos s))"
    unfolding abridged_o_recv_tail abridged_recv_tail timeout_to_oserror_id [OF abridged_tail_no_timeout]
    by (intro hides_bindP hides_pipe hides_tail)
  show "hides ks (intermediate_recv byte_pipe s) (intermediate_o_recv ks byte_pipe (pos, xor_stream ks pos s))"
    unfolding intermediate_equiv intermediate_recv_def by (intro hides_bindP hides_pipe)
  show "hides ks (padded_recv byte_pipe s) (padded_o_recv ks byte_pipe (pos, xor_stream ks pos s))"
    unfolding padded_equiv padded_recv_def by (intro hides_bindP hides_pipe) (simp add: hides_def)
qed

lemma hides_receive:
  assumes "\<And>s pos. hides ks (f s) (g (pos, xor_stream ks pos s))"
  shows "hides ks (receive f n s) (receive g n (pos, xor_stream ks pos s))"
proof (induction n arbitrary: s pos)
  case (Suc n)
  obtain r t where f: "f s = (r, t)" by (cases "f s")
  obtain r' pos' u where g: "g (pos, xor_stream ks pos s) = (r', pos', u)" by (cases "g (pos, xor_stream ks pos s)")
  from assms [of s pos] f g have e: "r' = r" "u = xor_stream ks pos' t" by (simp_all add: hides_def)
  from Suc.IH [of t pos'] show ?case
    by (auto simp: f g e hides_def split: sum.splits option.splits prod.splits)
qed (simp add: hides_def)

text \<open>The frames of a connection, encrypted one after the other.\<close>

fun encrypt_frames :: "(nat \<Rightarrow> byte) \<Rightarrow> nat \<Rightarrow> bytes result list \<Rightarrow> bytes result" where
  "encrypt_frames ks pos [] = Inr []"
| "encrypt_frames ks pos (f # fs) =
     (case encrypt_send ks pos f of (r, pos') \<Rightarrow> bindR r (\<lambda>w. bindR (encrypt_frames ks pos' fs) (\<lambda>ws. Inr (w @ ws))))"

lemma encrypt_frames_eq:
  "encrypt_frames ks pos fs = Inr ws \<longleftrightarrow> (\<exists>ps. mapR id fs = Inr ps \<and> ws = xor_stream ks pos (concat ps))"
proof (induction fs arbitrary: pos ws)
  case (Cons f fs)
  show ?case
    by (cases f) (auto simp: encrypt_send_def bindR_Inr_iff Cons.IH xor_stream_append)
qed auto

lemma obfuscated_delivers_from:
  assumes "encrypt_frames ks pos fs = Inr ws" "\<And>ps rest. mapR id fs = Inr ps \<Longrightarrow> receive f n (concat ps @ rest) = (ds, rest)"
    and "\<And>s pos. hides ks (f s) (g (pos, xor_stream ks pos s))"
  shows "fst (receive g n (pos, ws @ rest)) = ds"
proof -
  from assms(1) obtain ps where ps: "mapR id fs = Inr ps" and ws: "ws = xor_stream ks pos (concat ps)"
    by (auto simp: encrypt_frames_eq)
  let ?rest = "xor_stream ks (pos + length (concat ps)) rest"
  have s: "ws @ rest = xor_stream ks pos (concat ps @ ?rest)" by (simp add: ws xor_stream_append)
  have "hides ks (receive f n (concat ps @ ?rest)) (receive g n (pos, xor_stream ks pos (concat ps @ ?rest)))"
    by (rule hides_receive) (rule assms(3))
  with assms(2) [OF ps, of ?rest] s show ?thesis by (simp add: hides_def)
qed

lemma mapR_id: "mapR id (map f xs) = mapR f xs"
  by (induction xs) simp_all

text \<open>The sends of one \<open>TCPFull\<close> connection number their frames themselves.\<close>

fun full_sends :: "int \<Rightarrow> bytes list \<Rightarrow> bytes list result" where
  "full_sends seq_no [] = Inr []"
| "full_sends seq_no (d # ds) =
     (case full_send seq_no d of
        (Inl e, _) \<Rightarrow> Inl e
      | (Inr w, seq_no) \<Rightarrow> bindR (full_sends seq_no ds) (\<lambda>ws. Inr (w # ws)))"

fun numbered :: "int \<Rightarrow> bytes list \<Rightarrow> (int \<times> bytes) list" where
  "numbered seq_no [] = []"
| "numbered seq_no (d # ds) = (seq_no, d) # numbered (seq_no + 1) ds"

lemma full_sends_numbered: "full_sends seq_no ds = mapR (\<lambda>(seq_no, d). full_frame seq_no d) (numbered seq_no ds)"
  by (induction ds arbitrary: seq_no) (auto simp: full_send_def split: sum.split)

lemma numbered_simps [simp]: "length (numbered seq_no ds) = length ds" "map (Some \<circ> snd) (numbered seq_no ds) = map Some ds"
  by (induction ds arbitrary: seq_no) simp_all

lemma numbered_all: "(\<forall>(q, d) \<in> set (numbered seq_no ds). P d) \<longleftrightarrow> (\<forall>d \<in> set ds. P d)"
  by (induction ds arbitrary: seq_no) simp_all

text \<open>
  C26. Messages sent one after the other are received one after the other, unchanged, whatever follows
  them: with a fresh sequence number each, in the abridged framing when they are whole words, in the
  intermediate one, and in the padded one with up to fifteen random bytes each.
\<close>

theorem framings_deliver:
  "(full_sends seq_no ds = Inr ws \<longrightarrow> (\<forall>d \<in> set ds. fits_frame d) \<longrightarrow>
      receive (full_recv byte_pipe) (length ds) (concat ws @ rest) = (map Some ds, rest)) \<and>
   (mapR (\<lambda>(u, d). abridged_send d) ns = Inr ws \<longrightarrow> (\<forall>(u, d) \<in> set ns. abridged_good u d) \<longrightarrow>
      receive (abridged_recv byte_pipe) (length ns) (concat ws @ rest) = (map (Some \<circ> snd) ns, rest)) \<and>
   (mapR (\<lambda>(u, d). intermediate_send d) ns = Inr ws \<longrightarrow> (\<forall>(u, d) \<in> set ns. fits_frame d) \<longrightarrow>
      receive (intermediate_recv byte_pipe) (length ns) (concat ws @ rest) = (map (Some \<circ> snd) ns, rest)) \<and>
   (mapR (\<lambda>(padding, d). padded_send padding d) qs = Inr ws \<longrightarrow> (\<forall>(padding, d) \<in> set qs. padded_good padding d) \<longrightarrow>
      receive (padded_recv byte_pipe) (length qs) (concat ws @ rest) = (map (Some \<circ> snd) qs, rest))"
  using full.all_received [of "numbered seq_no ds" ws rest]
  by (intro conjI impI)
    (simp add: full_sends_numbered numbered_all, erule (1) abridged.all_received, erule (1) intermediate.all_received,
     erule (1) padded.all_received)

lemma framings_deliver_witness:
  "receive (padded_recv byte_pipe) 1 ([6, 0, 0, 0, 1, 2, 3, 4, 9, 9] @ [5]) = ([Some [1, 2, 3, 4]], [5])"
proof -
  have "mapR (\<lambda>(padding, d). padded_send padding d) [([9, 9], [1, 2, 3, 4])] = Inr [[6, 0, 0, 0, 1, 2, 3, 4, 9, 9]]"
    by code_simp
  with framings_deliver [of 0 "[]" "[[6, 0, 0, 0, 1, 2, 3, 4, 9, 9]]" "[5]" "[]" "[([9, 9], [1, 2, 3, 4])]"]
  show ?thesis by (simp add: padded_good_def fits_frame_def MAX_FRAME_SIZE_def)
qed

text \<open>
  The same under obfuscation: each side keeps one keystream position over all frames, and what was
  encrypted frame by frame is received message by message.
\<close>

theorem obfuscated_delivers:
  "(encrypt_frames ks pos (map abridged_send ds) = Inr ws \<longrightarrow> (\<forall>d \<in> set ds. abridged_good () d) \<longrightarrow>
      fst (receive (abridged_o_recv ks byte_pipe) (length ds) (pos, ws @ rest)) = map Some ds) \<and>
   (encrypt_frames ks pos (map intermediate_send ds) = Inr ws \<longrightarrow> (\<forall>d \<in> set ds. fits_frame d) \<longrightarrow>
      fst (receive (intermediate_o_recv ks byte_pipe) (length ds) (pos, ws @ rest)) = map Some ds) \<and>
   (encrypt_frames ks pos (map (\<lambda>(padding, d). padded_send padding d) qs) = Inr ws \<longrightarrow>
      (\<forall>(padding, d) \<in> set qs. padded_good padding d) \<longrightarrow>
      fst (receive (padded_o_recv ks byte_pipe) (length qs) (pos, ws @ rest)) = map (Some \<circ> snd) qs)"
proof (intro conjI impI)
  have m: "mapR (\<lambda>(u, d). f d) (map (Pair ()) ds) = mapR f ds" for f :: "bytes \<Rightarrow> bytes result"
    by (induction ds) simp_all
  show "fst (receive (abridged_o_recv ks byte_pipe) (length ds) (pos, ws @ rest)) = map Some ds"
    if "encrypt_frames ks pos (map abridged_send ds) = Inr ws" "\<forall>d \<in> set ds. abridged_good () d"
    using that(1)
  proof (rule obfuscated_delivers_from [where f = "abridged_recv byte_pipe" and g = "abridged_o_recv ks byte_pipe", OF _ _ hides_recv(1)])
    fix ps rest assume "mapR id (map abridged_send ds) = Inr ps"
    with that(2) abridged.all_received [of "map (Pair ()) ds" ps rest]
    show "receive (abridged_recv byte_pipe) (length ds) (concat ps @ rest) = (map Some ds, rest)"
      by (simp add: m mapR_id comp_def)
  qed
  show "fst (receive (intermediate_o_recv ks byte_pipe) (length ds) (pos, ws @ rest)) = map Some ds"
    if "encrypt_frames ks pos (map intermediate_send ds) = Inr ws" "\<forall>d \<in> set ds. fits_frame d"
    using that(1)
  proof (rule obfuscated_delivers_from [where f = "intermediate_recv byte_pipe" and g = "intermediate_o_recv ks byte_pipe", OF _ _ hides_recv(2)])
    fix ps rest assume "mapR id (map intermediate_send ds) = Inr ps"
    with that(2) intermediate.all_received [of "map (Pair ()) ds" ps rest]
    show "receive (intermediate_recv byte_pipe) (length ds) (concat ps @ rest) = (map Some ds, rest)"
      by (simp add: m mapR_id comp_def)
  qed
  show "fst (receive (padded_o_recv ks byte_pipe) (length qs) (pos, ws @ rest)) = map (Some \<circ> snd) qs"
    if "encrypt_frames ks pos (map (\<lambda>(padding, d). padded_send padding d) qs) = Inr ws"
       "\<forall>(padding, d) \<in> set qs. padded_good padding d"
    using that(1)
  proof (rule obfuscated_delivers_from [where f = "padded_recv byte_pipe" and g = "padded_o_recv ks byte_pipe", OF _ _ hides_recv(3)])
    fix ps rest assume "mapR id (map (\<lambda>(padding, d). padded_send padding d) qs) = Inr ps"
    with that(2) padded.all_received [of qs ps rest]
    show "receive (padded_recv byte_pipe) (length qs) (concat ps @ rest) = (map (Some \<circ> snd) qs, rest)"
      by (simp add: mapR_id)
  qed
qed

lemma obfuscated_delivers_witness:
  "fst (receive (abridged_o_recv of_nat byte_pipe) 1 (0, [1, 6, 6, 4, 12] @ [5])) = [Some [7, 4, 7, 8]]"
proof -
  have "encrypt_frames of_nat 0 (map abridged_send [[7, 4, 7, 8]]) = Inr [1, 6, 6, 4, 12]"
    by (simp add: abridged_send_def abridged_head_def encrypt_send_def xor_stream_def byte_of_def)
  with obfuscated_delivers [of of_nat 0 "[[7, 4, 7, 8]]" "[1, 6, 6, 4, 12]" "[5]"]
  show ?thesis by (simp add: abridged_good_def MAX_FRAME_SIZE_def)
qed

end
