(* ===== verification/Obfuscation.thy ===== *)
theory Obfuscation
  imports Proxy Transport
begin

text \<open>
  The obfuscated header that opens a stream (\<open>tcp.py\<close>, and the \<open>connect\<close> methods of the
  \<open>_o\<close> transports): sixty-four random bytes that must not look like another protocol, whose
  middle holds the keys of both directions and whose tail names the framing and the data center.
  The hash and the counter-mode keystream are parameters; the random draws are a list.
\<close>

section \<open>Ciphers\<close>

record cipher =
  c_key :: bytes
  c_iv :: bytes
  c_pos :: nat

type_synonym ctr = "bytes \<Rightarrow> bytes \<Rightarrow> nat \<Rightarrow> byte"

definition ctr256_encrypt :: "ctr \<Rightarrow> bytes \<Rightarrow> cipher \<Rightarrow> bytes \<times> cipher" where
  "ctr256_encrypt ctr data c =
     (xor_stream (ctr (c_key c) (c_iv c)) (c_pos c) data, c\<lparr>c_pos := c_pos c + length data\<rparr>)"

text \<open>The cipher is its own inverse, so decrypting is the same operation.\<close>

definition ctr256_decrypt :: "ctr \<Rightarrow> bytes \<Rightarrow> cipher \<Rightarrow> bytes \<times> cipher" where
  "ctr256_decrypt ctr data c =
     (xor_stream (ctr (c_key c) (c_iv c)) (c_pos c) data, c\<lparr>c_pos := c_pos c + length data\<rparr>)"

section \<open>The nonce\<close>

definition OBFUSCATED2_RESERVED_PREFIXES :: "bytes list" where
  "OBFUSCATED2_RESERVED_PREFIXES =
     [[0x48, 0x45, 0x41, 0x44], [0x50, 0x4F, 0x53, 0x54], [0x47, 0x45, 0x54, 0x20], [0x4F, 0x50, 0x54, 0x49],
      [0xdd, 0xdd, 0xdd, 0xdd], [0xee, 0xee, 0xee, 0xee], [0x16, 0x03, 0x01, 0x02]]"

definition ABRIDGED_OBFUSCATE_TAG :: bytes where "ABRIDGED_OBFUSCATE_TAG = [0xef, 0xef, 0xef, 0xef]"
definition PADDED_INTERMEDIATE_OBFUSCATE_TAG :: bytes where "PADDED_INTERMEDIATE_OBFUSCATE_TAG = [0xdd, 0xdd, 0xdd, 0xdd]"
definition OBFUSCATE_TAG_SIZE :: nat where "OBFUSCATE_TAG_SIZE = 4"

text \<open>What the other transports refuse: the padded one also its own tag.\<close>

definition O_RESERVED :: "bytes list" where
  "O_RESERVED = [[0x48, 0x45, 0x41, 0x44], [0x50, 0x4F, 0x53, 0x54], [0x47, 0x45, 0x54, 0x20], [0x4F, 0x50, 0x54, 0x49],
     [0xee, 0xee, 0xee, 0xee]]"

definition PADDED_O_RESERVED :: "bytes list" where
  "PADDED_O_RESERVED = [[0x48, 0x45, 0x41, 0x44], [0x50, 0x4F, 0x53, 0x54], [0x47, 0x45, 0x54, 0x20], [0x4F, 0x50, 0x54, 0x49],
     [0xdd, 0xdd, 0xdd, 0xdd], [0xee, 0xee, 0xee, 0xee]]"

definition nonce_ok :: "bytes list \<Rightarrow> bytes \<Rightarrow> bool" where
  "nonce_ok reserved_prefixes nonce =
     (nonce ! 0 \<noteq> 0xEF \<and> take 4 nonce \<notin> set reserved_prefixes \<and> take 4 (drop 4 nonce) \<noteq> [0, 0, 0, 0])"

text \<open>The first acceptable draw; \<open>None\<close> when none of these is.\<close>

fun generate_obfuscated2_nonce :: "bytes list \<Rightarrow> bytes list \<Rightarrow> (bytes \<times> bytes list) option" where
  "generate_obfuscated2_nonce reserved_prefixes [] = None"
| "generate_obfuscated2_nonce reserved_prefixes (nonce # draws) =
     (if nonce_ok reserved_prefixes nonce then Some (nonce, draws) else generate_obfuscated2_nonce reserved_prefixes draws)"

section \<open>The header\<close>

text \<open>\<open>nonce[a:b] = x\<close> for a slice as long as \<open>x\<close>.\<close>

definition put :: "nat \<Rightarrow> bytes \<Rightarrow> bytes \<Rightarrow> bytes" where
  "put a x nonce = take a nonce @ x @ drop (a + length x) nonce"

definition finalize_obfuscated2_tag :: "ctr \<Rightarrow> bytes \<Rightarrow> cipher \<Rightarrow> bytes \<times> cipher" where
  "finalize_obfuscated2_tag ctr nonce encrypt =
     (case ctr256_encrypt ctr nonce encrypt of (e, encrypt) \<Rightarrow> (take 8 (drop 56 e), encrypt))"

text \<open>\<open>nonce[55:7:-1]\<close>.\<close>

definition reversed_tail :: "bytes \<Rightarrow> bytes" where
  "reversed_tail nonce = rev (take 48 (drop 8 nonce))"

record obfuscated2_header =
  header :: bytes
  h_encrypt :: cipher
  h_decrypt :: cipher

definition build_obfuscated2_header ::
  "(bytes \<Rightarrow> bytes) \<Rightarrow> ctr \<Rightarrow> bytes \<Rightarrow> int \<Rightarrow> bytes \<Rightarrow> bytes list \<Rightarrow> (obfuscated2_header \<times> bytes list) result" where
  "build_obfuscated2_header sha256 ctr secret dc_id obfuscate_tag draws =
     (if length secret \<noteq> OBFUSCATED2_SECRET_SIZE then Inl ValueError
      else if length obfuscate_tag \<noteq> OBFUSCATE_TAG_SIZE then Inl ValueError
      else (case generate_obfuscated2_nonce OBFUSCATED2_RESERVED_PREFIXES draws of
              None \<Rightarrow> Inl OutOfFuel
            | Some (nonce, draws) \<Rightarrow>
                (let tail = reversed_tail nonce;
                     encrypt = \<lparr>c_key = sha256 (take 32 (drop 8 nonce) @ secret), c_iv = take 16 (drop 40 nonce), c_pos = 0\<rparr>;
                     decrypt = \<lparr>c_key = sha256 (take 32 tail @ secret), c_iv = take 16 (drop 32 tail), c_pos = 0\<rparr>;
                     nonce = put 56 obfuscate_tag nonce
                 in bindR (to_bytes_le 2 True dc_id) (\<lambda>d.
                      let nonce = put 60 d nonce in
                      case finalize_obfuscated2_tag ctr nonce encrypt of
                        (tag, encrypt) \<Rightarrow>
                          Inr (\<lparr>header = put 56 tag nonce, h_encrypt = encrypt, h_decrypt = decrypt\<rparr>, draws)))))"

text \<open>The header of an \<open>_o\<close> transport: no secret, no data center.\<close>

definition o_header :: "ctr \<Rightarrow> bytes list \<Rightarrow> byte \<Rightarrow> bytes list \<Rightarrow> (obfuscated2_header \<times> bytes list) option" where
  "o_header ctr reserved tag draws =
     (case generate_obfuscated2_nonce reserved draws of
        None \<Rightarrow> None
      | Some (nonce, draws) \<Rightarrow>
          (let nonce = put 56 (replicate 4 tag) nonce;
               temp = reversed_tail nonce;
               encrypt = \<lparr>c_key = take 32 (drop 8 nonce), c_iv = take 16 (drop 40 nonce), c_pos = 0\<rparr>;
               decrypt = \<lparr>c_key = take 32 temp, c_iv = take 16 (drop 32 temp), c_pos = 0\<rparr>
           in case ctr256_encrypt ctr nonce encrypt of
                (e, encrypt) \<Rightarrow> Some (\<lparr>header = put 56 (take 8 (drop 56 e)) nonce, h_encrypt = encrypt, h_decrypt = decrypt\<rparr>, draws)))"

section \<open>What the other side reads\<close>

text \<open>
  The receiver takes the keys out of the header as it came, decrypts all of it, and finds the tag and
  the data center; its two ciphers are the sender's, crossed.
\<close>

definition read_header :: "(bytes \<Rightarrow> bytes) \<Rightarrow> ctr \<Rightarrow> bytes \<Rightarrow> (bytes \<times> int) \<times> cipher \<times> cipher" where
  "read_header key ctr h =
     (let up = \<lparr>c_key = key (take 32 (drop 8 h)), c_iv = take 16 (drop 40 h), c_pos = 0\<rparr>;
          tail = rev (take 48 (drop 8 h));
          down = \<lparr>c_key = key (take 32 tail), c_iv = take 16 (drop 32 tail), c_pos = 0\<rparr>
      in case ctr256_decrypt ctr h up of
           (p, up) \<Rightarrow> ((take 4 (drop 56 p), le_int True (take 2 (drop 60 p))), up, down))"

lemma length_put [simp]: "a + length x \<le> length n \<Longrightarrow> length (put a x n) = length n"
  by (simp add: put_def)

lemma take_put [simp]: "k \<le> a \<Longrightarrow> a \<le> length n \<Longrightarrow> take k (put a x n) = take k n"
  by (simp add: put_def min_def)

lemma slice_put: "i + k \<le> a \<Longrightarrow> a \<le> length n \<Longrightarrow> take k (drop i (put a x n)) = take k (drop i n)"
proof -
  assume "i + k \<le> a" "a \<le> length n"
  then have "length (drop i (take a n)) = a - i" "k \<le> a - i" by simp_all
  then have "take k (drop i (put a x n)) = take k (drop i (take a n))" by (simp add: put_def)
  also have "\<dots> = take k (drop i n)" using \<open>k \<le> a - i\<close> by (simp add: drop_take min_def)
  finally show ?thesis .
qed

lemma drop_put: "a \<le> length n \<Longrightarrow> drop a (put a x n) = x @ drop (a + length x) n"
  by (simp add: put_def min_def)

text \<open>Encrypting the tail in place: the receiver recovers the whole plain tail.\<close>

lemma tail_recovered:
  assumes "length n = 64"
  shows "drop 56 (xor_stream ks 0 (put 56 (take 8 (drop 56 (xor_stream ks 0 n))) n)) = drop 56 n"
proof -
  have "take 8 (drop 56 (xor_stream ks 0 n)) = xor_stream ks 56 (drop 56 n)"
    using assms by (simp add: drop_xor_stream take_xor_stream)
  then have "put 56 (take 8 (drop 56 (xor_stream ks 0 n))) n = take 56 n @ xor_stream ks 56 (drop 56 n)"
    using assms by (simp add: put_def)
  then show ?thesis using assms by (simp add: xor_stream_append)
qed

lemma generate_nonce:
  "generate_obfuscated2_nonce res draws = Some (n, rest) \<Longrightarrow> n \<in> set draws \<and> nonce_ok res n"
  by (induction draws) (auto split: if_splits)

lemma generate_nonce_found: "\<exists>n \<in> set draws. nonce_ok res n \<Longrightarrow> \<exists>n rest. generate_obfuscated2_nonce res draws = Some (n, rest)"
  by (induction draws) auto

text \<open>
  When a key, a tag, a data center id of two bytes and an acceptable draw are there, the header is
  built; on the wire it opens like none of the reserved protocols; and whoever knows the secret reads
  the tag and the data center off it and holds the ciphers of both directions, at the same positions.
\<close>

theorem obfuscated2_header_read:
  assumes "length secret = 16" "length tag = 4" "fits True 2 dc_id"
    and "\<forall>d \<in> set draws. length d = 64" "\<exists>d \<in> set draws. nonce_ok OBFUSCATED2_RESERVED_PREFIXES d"
  shows "\<exists>h rest. build_obfuscated2_header sha256 ctr secret dc_id tag draws = Inr (h, rest) \<and>
    length (header h) = 64 \<and> nonce_ok OBFUSCATED2_RESERVED_PREFIXES (header h) \<and>
    read_header (\<lambda>k. sha256 (k @ secret)) ctr (header h) = ((tag, dc_id), h_encrypt h, h_decrypt h)"
proof -
  obtain n rest where g: "generate_obfuscated2_nonce OBFUSCATED2_RESERVED_PREFIXES draws = Some (n, rest)"
    using generate_nonce_found [OF assms(5)] by blast
  with generate_nonce assms(4) have n: "length n = 64" "nonce_ok OBFUSCATED2_RESERVED_PREFIXES n" by blast+
  let ?d = "le_of_int 2 dc_id"
  let ?p = "put 60 ?d (put 56 tag n)"
  let ?e = "\<lparr>c_key = sha256 (take 32 (drop 8 n) @ secret), c_iv = take 16 (drop 40 n), c_pos = 0\<rparr>"
  let ?ks = "ctr (c_key ?e) (c_iv ?e)"
  define t where "t = take 8 (drop 56 (xor_stream ?ks 0 ?p))"
  have lt: "length t = 8" by (simp add: t_def n assms)
  define h where "h = put 56 t ?p"
  have lh: "length h = 64" by (simp add: h_def lt n assms)
  have early: "take k (drop i h) = take k (drop i n)" if "i + k \<le> 56" for i k
    unfolding h_def using that n assms by (simp add: slice_put)
  have b: "build_obfuscated2_header sha256 ctr secret dc_id tag draws =
      Inr (\<lparr>header = h, h_encrypt = ?e\<lparr>c_pos := 64\<rparr>,
            h_decrypt = \<lparr>c_key = sha256 (take 32 (reversed_tail n) @ secret), c_iv = take 16 (drop 32 (reversed_tail n)), c_pos = 0\<rparr>\<rparr>, rest)"
    using g assms n
    by (simp add: build_obfuscated2_header_def OBFUSCATED2_SECRET_SIZE_def OBFUSCATE_TAG_SIZE_def finalize_obfuscated2_tag_def
        ctr256_encrypt_def Let_def to_bytes_le_def h_def t_def)
  have "h ! 0 = n ! 0" using early [of 0 1] lh n by (simp add: take_Suc_conv_app_nth)
  then have ok: "nonce_ok OBFUSCATED2_RESERVED_PREFIXES h"
    using n(2) early [of 0 4] early [of 4 4] by (simp add: nonce_ok_def)
  have plain: "drop 56 (xor_stream ?ks 0 h) = tag @ ?d @ drop 62 n"
  proof -
    have "drop 56 ?p = tag @ ?d @ drop 62 n"
      using n assms by (simp add: put_def min_def)
    then show ?thesis using tail_recovered [of ?p ?ks] n assms by (simp add: h_def t_def)
  qed
  have k: "take 32 (drop 8 h) = take 32 (drop 8 n)" "take 16 (drop 40 h) = take 16 (drop 40 n)"
    "take 48 (drop 8 h) = take 48 (drop 8 n)" by (simp_all add: early)
  have t: "take 4 (drop 56 (xor_stream ?ks 0 h)) = tag" unfolding plain using assms by simp
  have d: "take 2 (drop 60 (xor_stream ?ks 0 h)) = ?d"
  proof -
    have "drop 60 (xor_stream ?ks 0 h) = drop 4 (drop 56 (xor_stream ?ks 0 h))" by simp
    then show ?thesis unfolding plain using assms by simp
  qed
  have "read_header (\<lambda>k. sha256 (k @ secret)) ctr h = ((tag, dc_id), ?e\<lparr>c_pos := 64\<rparr>,
      \<lparr>c_key = sha256 (take 32 (reversed_tail n) @ secret), c_iv = take 16 (drop 32 (reversed_tail n)), c_pos = 0\<rparr>)"
    unfolding read_header_def k reversed_tail_def Let_def
    using t d lh le_int_le_of_int [OF assms(3)] by (simp add: ctr256_decrypt_def)
  with b lh ok show ?thesis by auto
qed

lemma obfuscated2_header_read_witness:
  "\<exists>h rest. build_obfuscated2_header (\<lambda>k. k) (\<lambda>k iv i. of_nat i) (replicate 16 7) (- 10002) PADDED_INTERMEDIATE_OBFUSCATE_TAG
       [replicate 64 0, replicate 64 1] = Inr (h, rest) \<and>
     length (header h) = 64 \<and>
     read_header (\<lambda>k. k @ replicate 16 7) (\<lambda>k iv i. of_nat i) (header h)
       = ((PADDED_INTERMEDIATE_OBFUSCATE_TAG, - 10002), h_encrypt h, h_decrypt h)"
proof -
  have "nonce_ok OBFUSCATED2_RESERVED_PREFIXES (replicate 64 1)"
    by code_simp
  moreover have "fits True 2 (- 10002)" by (simp add: fits_def)
  moreover have "length PADDED_INTERMEDIATE_OBFUSCATE_TAG = 4" by (simp add: PADDED_INTERMEDIATE_OBFUSCATE_TAG_def)
  ultimately show ?thesis
    using obfuscated2_header_read [of "replicate 16 7" PADDED_INTERMEDIATE_OBFUSCATE_TAG "- 10002"
        "[replicate 64 0, replicate 64 1]" "\<lambda>k. k" "\<lambda>k iv i. of_nat i"] by auto
qed

end
