(* ===== verification/Fake_TLS.thy ===== *)
theory Fake_TLS
  imports Transport "HOL-Library.Multiset"
begin

text \<open>
  The fake-TLS greeting and record layer (\<open>pyrogram/crypto/faketls.py\<close>,
  \<open>pyrogram/connection/transport/tcp/faketls_records.py\<close>). Random draws come from a tape, so that
  every outcome is a tape: \<open>token_bytes\<close> takes one entry per byte, \<open>randbits\<close> and
  \<open>randbelow\<close> take one. The keyed hash is a parameter.
\<close>

section \<open>Drawing\<close>

type_synonym tape = "nat \<Rightarrow> nat"

definition token_bytes :: "tape \<Rightarrow> nat \<Rightarrow> nat \<Rightarrow> bytes \<times> nat" where
  "token_bytes t n pos = (map (\<lambda>i. byte_of (t (pos + i) mod 256)) [0..<n], pos + n)"

definition randbits32 :: "tape \<Rightarrow> nat \<Rightarrow> nat \<times> nat" where
  "randbits32 t pos = (t pos mod 2 ^ 32, pos + 1)"

definition randbelow :: "tape \<Rightarrow> nat \<Rightarrow> nat \<Rightarrow> nat \<times> nat" where
  "randbelow t n pos = (t pos mod n, pos + 1)"

section \<open>The list of operations\<close>

datatype hello_op =
    STRING bytes
  | RANDOM nat
  | ZERO nat
  | DOMAIN
  | GREASE nat
  | BEGIN_SCOPE
  | END_SCOPE
  | KEY
  | ML_KEM_768_KEY
  | PERMUTATION "hello_op list list"
  | PADDING

definition GREASE_SIZE :: nat where "GREASE_SIZE = 7"
definition RANDOM_OFFSET :: nat where "RANDOM_OFFSET = 11"
definition RANDOM_SIZE :: nat where "RANDOM_SIZE = 32"
definition TIMESTAMP_SIZE :: nat where "TIMESTAMP_SIZE = 4"
definition SCOPE_LENGTH_SIZE :: nat where "SCOPE_LENGTH_SIZE = 2"
definition PADDING_TARGET_OFFSET :: nat where "PADDING_TARGET_OFFSET = 513"
definition ECH_PAYLOAD_SIZES :: "nat list" where "ECH_PAYLOAD_SIZES = [144, 176, 208, 240]"

text \<open>The size of the encrypted hello is drawn once per process, hence an argument.\<close>

definition hello_extensions :: "nat \<Rightarrow> hello_op list list" where
  "hello_extensions ech =
    [[STRING [0x00, 0x00], BEGIN_SCOPE, BEGIN_SCOPE, STRING [0x00], BEGIN_SCOPE, DOMAIN, END_SCOPE, END_SCOPE, END_SCOPE],
     [STRING [0x00, 0x05, 0x00, 0x05, 0x01, 0x00, 0x00, 0x00, 0x00]],
     [STRING [0x00, 0x0a, 0x00, 0x0c, 0x00, 0x0a], GREASE 4, STRING [0x11, 0xec, 0x00, 0x1d, 0x00, 0x17, 0x00, 0x18]],
     [STRING [0x00, 0x0b, 0x00, 0x02, 0x01, 0x00]],
     [STRING [0x00, 0x0d, 0x00, 0x18, 0x00, 0x16, 0x09, 0x04, 0x09, 0x05, 0x09, 0x06, 0x04, 0x03, 0x08, 0x04,
              0x04, 0x01, 0x05, 0x03, 0x08, 0x05, 0x05, 0x01, 0x08, 0x06, 0x06, 0x01]],
     [STRING [0x00, 0x10, 0x00, 0x0e, 0x00, 0x0c, 0x02, 0x68, 0x32, 0x08, 0x68, 0x74, 0x74, 0x70, 0x2f, 0x31, 0x2e, 0x31]],
     [STRING [0x00, 0x12, 0x00, 0x00]],
     [STRING [0x00, 0x17, 0x00, 0x00]],
     [STRING [0x00, 0x1b, 0x00, 0x03, 0x02, 0x00, 0x02]],
     [STRING [0x00, 0x23, 0x00, 0x00]],
     [STRING [0x00, 0x2b, 0x00, 0x07, 0x06], GREASE 6, STRING [0x03, 0x04, 0x03, 0x03]],
     [STRING [0x00, 0x2d, 0x00, 0x02, 0x01, 0x01]],
     [STRING [0x00, 0x33, 0x04, 0xef, 0x04, 0xed], GREASE 4, STRING [0x00, 0x01, 0x00, 0x11, 0xec, 0x04, 0xc0],
      ML_KEM_768_KEY, KEY, STRING [0x00, 0x1d, 0x00, 0x20], KEY],
     [STRING [0x44, 0xcd, 0x00, 0x05, 0x00, 0x03, 0x02, 0x68, 0x32]],
     [STRING [0xfe, 0x0d], BEGIN_SCOPE, STRING [0x00, 0x00, 0x01, 0x00, 0x01], RANDOM 1, STRING [0x00, 0x20], KEY,
      BEGIN_SCOPE, RANDOM ech, END_SCOPE, END_SCOPE],
     [STRING [0xff, 0x01, 0x00, 0x01, 0x00]]]"

definition client_hello_ops :: "nat \<Rightarrow> hello_op list" where
  "client_hello_ops ech =
    [STRING [0x16, 0x03, 0x01], BEGIN_SCOPE, STRING [0x01, 0x00], BEGIN_SCOPE, STRING [0x03, 0x03], ZERO RANDOM_SIZE,
     STRING [0x20], RANDOM 32, STRING [0x00, 0x20], GREASE 0,
     STRING [0x13, 0x01, 0x13, 0x02, 0x13, 0x03, 0xc0, 0x2b, 0xc0, 0x2f, 0xc0, 0x2c, 0xc0, 0x30, 0xcc, 0xa9, 0xcc, 0xa8,
             0xc0, 0x13, 0xc0, 0x14, 0x00, 0x9c, 0x00, 0x9d, 0x00, 0x2f, 0x00, 0x35, 0x01, 0x00],
     BEGIN_SCOPE, GREASE 2, STRING [0x00, 0x00], PERMUTATION (hello_extensions ech), GREASE 3, STRING [0x00, 0x01, 0x00],
     PADDING, END_SCOPE, END_SCOPE, END_SCOPE]"

section \<open>What the operations draw\<close>

text \<open>Low nibbles forced to \<open>a\<close>, and each odd place made to differ from the one before.\<close>

definition generate_grease :: "tape \<Rightarrow> nat \<Rightarrow> bytes \<times> nat" where
  "generate_grease t pos =
     (case token_bytes t GREASE_SIZE pos of
        (g, pos) \<Rightarrow>
          (let g = map (\<lambda>b. (b AND 0xF0) + 0x0A) g;
               g = fold (\<lambda>i g. if g ! i = g ! (i - 1) then g[i := g ! i XOR 0x10] else g) [1, 3, 5] g
           in (g, pos)))"

definition CURVE25519_PRIME :: int where "CURVE25519_PRIME = 2 ^ 255 - 19"
definition CURVE25519_A :: int where "CURVE25519_A = 486662"
definition CURVE25519_KEY_SIZE :: nat where "CURVE25519_KEY_SIZE = 32"

definition curve25519_y_squared :: "int \<Rightarrow> int" where
  "curve25519_y_squared x = ((x + CURVE25519_A) * x + 1) * x mod CURVE25519_PRIME"

definition curve25519_double_x :: "int \<Rightarrow> int" where
  "curve25519_double_x x =
     (let denominator = curve25519_y_squared x * 4 mod CURVE25519_PRIME;
          numerator = pow_mod (x * x - 1) 2 CURVE25519_PRIME
      in numerator * pow_mod denominator (nat (CURVE25519_PRIME - 2)) CURVE25519_PRIME mod CURVE25519_PRIME)"

text \<open>Candidates are drawn until one lies on the curve, which no tape is bound to bring.\<close>

partial_function (option) curve_candidate :: "tape \<Rightarrow> nat \<Rightarrow> (int \<times> nat) option" where
  "curve_candidate t pos =
     (let candidate = fst (token_bytes t CURVE25519_KEY_SIZE pos);
          pos = pos + CURVE25519_KEY_SIZE;
          candidate = candidate[31 := candidate ! 31 AND 0x7F];
          x = int (be_nat candidate)
      in if pow_mod (curve25519_y_squared x) (nat ((CURVE25519_PRIME - 1) div 2)) CURVE25519_PRIME = 1
         then Some (x, pos) else curve_candidate t pos)"

definition generate_curve25519_key :: "tape \<Rightarrow> nat \<Rightarrow> (bytes \<times> nat) option" where
  "generate_curve25519_key t pos =
     map_option (\<lambda>(x, pos). (le_of_int CURVE25519_KEY_SIZE ((curve25519_double_x ^^ 3) x), pos)) (curve_candidate t pos)"

definition ML_KEM_768_MODULUS :: nat where "ML_KEM_768_MODULUS = 3329"
definition ML_KEM_768_COEFFICIENT_PAIRS :: nat where "ML_KEM_768_COEFFICIENT_PAIRS = 384"
definition ML_KEM_768_SEED_SIZE :: nat where "ML_KEM_768_SEED_SIZE = 32"

fun ml_kem_pairs :: "tape \<Rightarrow> nat \<Rightarrow> nat \<Rightarrow> bytes \<times> nat" where
  "ml_kem_pairs t 0 pos = ([], pos)"
| "ml_kem_pairs t (Suc n) pos =
     (case randbits32 t pos of
        (a, pos) \<Rightarrow>
          (case randbits32 t pos of
             (b, pos) \<Rightarrow>
               (let first = a mod ML_KEM_768_MODULUS; second = b mod ML_KEM_768_MODULUS in
                (case ml_kem_pairs t n pos of
                   (r, pos) \<Rightarrow>
                     (byte_of (first AND 0xFF) # byte_of (drop_bit 8 first OR push_bit 4 (second AND 0x0F)) # byte_of (drop_bit 4 second) # r,
                      pos)))))"

definition generate_ml_kem_768_key :: "tape \<Rightarrow> nat \<Rightarrow> bytes \<times> nat" where
  "generate_ml_kem_768_key t pos =
     (case ml_kem_pairs t ML_KEM_768_COEFFICIENT_PAIRS pos of
        (key, pos) \<Rightarrow> (case token_bytes t ML_KEM_768_SEED_SIZE pos of (seed, pos) \<Rightarrow> (key @ seed, pos)))"

definition swap_at :: "'a list \<Rightarrow> nat \<Rightarrow> nat \<Rightarrow> 'a list" where
  "swap_at xs i j = xs[i := xs ! j, j := xs ! i]"

fun shuffle_from :: "tape \<Rightarrow> nat \<Rightarrow> nat \<Rightarrow> 'a list \<Rightarrow> nat \<Rightarrow> 'a list \<times> nat" where
  "shuffle_from t 0 index parts pos = (parts, pos)"
| "shuffle_from t (Suc n) index parts pos =
     (case randbelow t (length parts - index) pos of
        (r, pos) \<Rightarrow> shuffle_from t n (index + 1) (swap_at parts index (index + r)) pos)"

definition shuffled :: "tape \<Rightarrow> 'a list \<Rightarrow> nat \<Rightarrow> 'a list \<times> nat" where
  "shuffled t parts pos = shuffle_from t (length parts - 1) 0 parts pos"

section \<open>Writing\<close>

record writer =
  w_out :: bytes
  w_scopes :: "nat list"

definition close_scope :: "writer \<Rightarrow> writer result" where
  "close_scope w =
     (case w_scopes w of
        [] \<Rightarrow> Inl IndexError
      | begin # scopes \<Rightarrow>
          (let size = length (w_out w) - begin - SCOPE_LENGTH_SIZE in
           if 256 ^ SCOPE_LENGTH_SIZE \<le> size then Inl OverflowError
           else Inr \<lparr>w_out = take begin (w_out w) @ be_bytes SCOPE_LENGTH_SIZE size @ drop (begin + SCOPE_LENGTH_SIZE) (w_out w),
                     w_scopes = scopes\<rparr>))"

definition open_scope :: "writer \<Rightarrow> writer" where
  "open_scope w = \<lparr>w_out = w_out w @ replicate SCOPE_LENGTH_SIZE 0, w_scopes = length (w_out w) # w_scopes w\<rparr>"

definition emit :: "bytes \<Rightarrow> writer \<Rightarrow> writer" where
  "emit bs w = w\<lparr>w_out := w_out w @ bs\<rparr>"

definition write_padding :: "writer \<Rightarrow> writer result" where
  "write_padding w =
     (if PADDING_TARGET_OFFSET \<le> length (w_out w) then Inr w
      else (let size = PADDING_TARGET_OFFSET - length (w_out w)
            in close_scope (emit (replicate size 0) (open_scope (emit [0x00, 0x15] w)))))"

text \<open>
  A step of the writer draws from the tape and may fail; \<open>None\<close> is a key search that never ends.
\<close>

type_synonym 'a gen = "nat \<Rightarrow> ('a result \<times> nat) option"

definition bindG :: "'a gen \<Rightarrow> ('a \<Rightarrow> 'b gen) \<Rightarrow> 'b gen" where
  "bindG m f pos = (case m pos of None \<Rightarrow> None | Some (Inl e, pos) \<Rightarrow> Some (Inl e, pos) | Some (Inr x, pos) \<Rightarrow> f x pos)"

definition retG :: "'a result \<Rightarrow> 'a gen" where
  "retG r pos = Some (r, pos)"

function write_op :: "tape \<Rightarrow> bytes \<Rightarrow> bytes \<Rightarrow> hello_op \<Rightarrow> writer \<Rightarrow> writer gen"
  and render :: "tape \<Rightarrow> bytes \<Rightarrow> bytes \<Rightarrow> hello_op list \<Rightarrow> writer \<Rightarrow> writer gen"
  and render_parts :: "tape \<Rightarrow> bytes \<Rightarrow> bytes \<Rightarrow> hello_op list list \<Rightarrow> bytes list gen" where
  "write_op t grease domain (STRING d) w = retG (Inr (emit d w))"
| "write_op t grease domain (RANDOM n) w = (\<lambda>pos. case token_bytes t n pos of (d, pos) \<Rightarrow> Some (Inr (emit d w), pos))"
| "write_op t grease domain (ZERO n) w = retG (Inr (emit (replicate n 0) w))"
| "write_op t grease domain DOMAIN w = retG (Inr (emit domain w))"
| "write_op t grease domain (GREASE seed) w =
     retG (if length grease \<le> seed then Inl IndexError else Inr (emit [grease ! seed, grease ! seed] w))"
| "write_op t grease domain BEGIN_SCOPE w = retG (Inr (open_scope w))"
| "write_op t grease domain END_SCOPE w = retG (close_scope w)"
| "write_op t grease domain KEY w = (\<lambda>pos. map_option (\<lambda>(d, pos). (Inr (emit d w), pos)) (generate_curve25519_key t pos))"
| "write_op t grease domain ML_KEM_768_KEY w =
     (\<lambda>pos. case generate_ml_kem_768_key t pos of (d, pos) \<Rightarrow> Some (Inr (emit d w), pos))"
| "write_op t grease domain (PERMUTATION parts) w =
     bindG (render_parts t grease domain parts) (\<lambda>rendered pos.
       case shuffled t rendered pos of (ps, pos) \<Rightarrow> Some (Inr (emit (concat ps) w), pos))"
| "write_op t grease domain PADDING w = retG (write_padding w)"
| "render t grease domain [] w = retG (Inr w)"
| "render t grease domain (op # ops) w = bindG (write_op t grease domain op w) (render t grease domain ops)"
| "render_parts t grease domain [] = retG (Inr [])"
| "render_parts t grease domain (part # parts) =
     bindG (render t grease domain part \<lparr>w_out = [], w_scopes = []\<rparr>) (\<lambda>w.
     bindG (render_parts t grease domain parts) (\<lambda>ds. retG (Inr (w_out w # ds))))"
  by pat_completeness auto
termination
  by (relation "measure (\<lambda>x. case x of Inl (_, _, _, op, _) \<Rightarrow> size op
        | Inr (Inl (_, _, _, ops, _)) \<Rightarrow> size_list size ops
        | Inr (Inr (_, _, _, parts)) \<Rightarrow> size_list (size_list size) parts)") auto

section \<open>The greeting\<close>

definition xor_at :: "bytes \<Rightarrow> nat \<Rightarrow> bytes \<Rightarrow> bytes" where
  "xor_at d off x = take off d @ map2 (XOR) (take (length x) (drop off d)) x @ drop (off + length x) d"

definition hello_random :: "(bytes \<Rightarrow> bytes \<Rightarrow> bytes) \<Rightarrow> bytes \<Rightarrow> bytes \<Rightarrow> int \<Rightarrow> bytes" where
  "hello_random hmac secret hello unix_time =
     xor_at (hmac secret hello) (RANDOM_SIZE - TIMESTAMP_SIZE) (le_of_int TIMESTAMP_SIZE (unix_time mod 2 ^ 32))"

text \<open>The record and its random field.\<close>

definition build_client_hello ::
  "(bytes \<Rightarrow> bytes \<Rightarrow> bytes) \<Rightarrow> tape \<Rightarrow> nat \<Rightarrow> ustr \<Rightarrow> bytes \<Rightarrow> int \<Rightarrow> (bytes \<times> bytes) gen" where
  "build_client_hello hmac t ech domain secret unix_time =
     (\<lambda>pos. case generate_grease t pos of
        (grease, pos) \<Rightarrow>
          bindG (retG (ascii_encode domain)) (\<lambda>domain.
          bindG (render t grease domain (client_hello_ops ech) \<lparr>w_out = [], w_scopes = []\<rparr>) (\<lambda>w.
            let hello = w_out w; digest = hello_random hmac secret hello unix_time;
                hello = take RANDOM_OFFSET hello @ digest @ drop (RANDOM_OFFSET + RANDOM_SIZE) hello
            in retG (Inr (hello, digest)))) pos)"

definition server_hello_is_authentic :: "(bytes \<Rightarrow> bytes \<Rightarrow> bytes) \<Rightarrow> bytes \<Rightarrow> bytes \<Rightarrow> bytes \<Rightarrow> bool" where
  "server_hello_is_authentic hmac response secret client_random =
     (let end' = RANDOM_OFFSET + RANDOM_SIZE in
      if length response < end' then False
      else (let server_random = take RANDOM_SIZE (drop RANDOM_OFFSET response);
                zeroed = take RANDOM_OFFSET response @ replicate RANDOM_SIZE 0 @ drop end' response
            in hmac secret (client_random @ zeroed) = server_random))"

section \<open>What the writer writes\<close>

lemma length_token_bytes [simp]: "length (fst (token_bytes t n pos)) = n"
  by (simp add: token_bytes_def)

lemma length_generate_grease: "length (fst (generate_grease t pos)) = GREASE_SIZE"
proof -
  have "length (fold (\<lambda>i g. if g ! i = g ! (i - 1) then g[i := g ! i XOR 0x10] else g) is g) = length g"
    for "is" and g :: bytes by (induction "is" arbitrary: g) simp_all
  then show ?thesis by (simp add: generate_grease_def token_bytes_def Let_def)
qed

lemma generate_grease_Pair: "generate_grease t pos = (g, pos') \<Longrightarrow> length g = GREASE_SIZE"
  using length_generate_grease [of t pos] by simp

lemma length_curve25519_key: "generate_curve25519_key t pos = Some (d, pos') \<Longrightarrow> length d = CURVE25519_KEY_SIZE"
  by (auto simp: generate_curve25519_key_def)

lemma length_ml_kem_pairs: "length (fst (ml_kem_pairs t n pos)) = 3 * n"
  by (induction t n pos rule: ml_kem_pairs.induct) (auto simp: Let_def split: prod.splits)

lemma length_ml_kem_key: "generate_ml_kem_768_key t pos = (d, pos') \<Longrightarrow> length d = 1184"
  using length_ml_kem_pairs [of t ML_KEM_768_COEFFICIENT_PAIRS pos]
  by (auto simp: generate_ml_kem_768_key_def ML_KEM_768_COEFFICIENT_PAIRS_def ML_KEM_768_SEED_SIZE_def token_bytes_def
      split: prod.splits)

text \<open>Shuffling only permutes.\<close>

lemma mset_shuffle_from: "n + index < length parts \<or> n = 0 \<Longrightarrow> mset (fst (shuffle_from t n index parts pos)) = mset parts"
proof (induction t n index parts pos rule: shuffle_from.induct)
  case (2 t n index parts pos)
  define r where "r = t pos mod (length parts - index)"
  have b: "n + index + 1 < length parts" using "2.prems" by simp
  then have r: "index + r < length parts" unfolding r_def
    by (metis add.commute add_lessD1 less_diff_conv mod_less_divisor zero_less_diff)
  have "mset (fst (shuffle_from t n (index + 1) (swap_at parts index (index + r)) (pos + 1))) = mset (swap_at parts index (index + r))"
    using b by (intro "2.IH" [of r "pos + 1"]) (simp_all add: randbelow_def r_def swap_at_def)
  also have "\<dots> = mset parts" using r b unfolding swap_at_def by (intro mset_swap) simp_all
  finally show ?case by (simp add: randbelow_def r_def)
qed simp

lemma mset_shuffled: "mset (fst (shuffled t parts pos)) = mset parts"
  unfolding shuffled_def by (cases parts) (simp_all add: mset_shuffle_from)

lemma length_concat_mset: "mset xs = mset ys \<Longrightarrow> length (concat xs) = length (concat ys)"
  by (metis length_concat mset_map sum_mset_sum_list)

text \<open>The length an operation adds, and the depth of scopes it leaves (padding apart).\<close>

fun op_len :: "nat \<Rightarrow> hello_op \<Rightarrow> nat" where
  "op_len dl (STRING d) = length d"
| "op_len dl (RANDOM n) = n"
| "op_len dl (ZERO n) = n"
| "op_len dl DOMAIN = dl"
| "op_len dl (GREASE _) = 2"
| "op_len dl BEGIN_SCOPE = SCOPE_LENGTH_SIZE"
| "op_len dl END_SCOPE = 0"
| "op_len dl KEY = CURVE25519_KEY_SIZE"
| "op_len dl ML_KEM_768_KEY = 1184"
| "op_len dl (PERMUTATION parts) = (\<Sum>part \<leftarrow> parts. \<Sum>op \<leftarrow> part. op_len dl op)"
| "op_len dl PADDING = 0"

abbreviation ops_len :: "nat \<Rightarrow> hello_op list \<Rightarrow> nat" where
  "ops_len dl ops \<equiv> (\<Sum>op \<leftarrow> ops. op_len dl op)"

function depth_after :: "nat \<Rightarrow> hello_op \<Rightarrow> nat option"
  and depths_after :: "nat \<Rightarrow> hello_op list \<Rightarrow> nat option"
  and parts_closed :: "hello_op list list \<Rightarrow> bool" where
  "depth_after d op =
     (case op of
        BEGIN_SCOPE \<Rightarrow> Some (d + 1)
      | END_SCOPE \<Rightarrow> (if d = 0 then None else Some (d - 1))
      | GREASE s \<Rightarrow> (if s < GREASE_SIZE then Some d else None)
      | PERMUTATION parts \<Rightarrow> (if parts_closed parts then Some d else None)
      | PADDING \<Rightarrow> None
      | _ \<Rightarrow> Some d)"
| "depths_after d [] = Some d"
| "depths_after d (op # ops) = (case depth_after d op of None \<Rightarrow> None | Some d \<Rightarrow> depths_after d ops)"
| "parts_closed [] = True"
| "parts_closed (part # parts) = (depths_after 0 part = Some 0 \<and> parts_closed parts)"
  by pat_completeness auto
termination
  by (relation "measure (\<lambda>x. case x of Inl (_, op) \<Rightarrow> 2 * size op
        | Inr (Inl (_, ops)) \<Rightarrow> 2 * size_list size ops + 1
        | Inr (Inr parts) \<Rightarrow> 2 * size_list (size_list size) parts + 1)") auto

text \<open>What has been written since \<open>w0\<close>, with \<open>d\<close> scopes of its own still open.\<close>

definition grown :: "writer \<Rightarrow> nat \<Rightarrow> writer \<Rightarrow> bool" where
  "grown w0 d w =
     (\<exists>body ns. w_out w = w_out w0 @ body \<and> w_scopes w = ns @ w_scopes w0 \<and> length ns = d \<and>
        (\<forall>n \<in> set ns. length (w_out w0) \<le> n \<and> n + SCOPE_LENGTH_SIZE \<le> length (w_out w)))"

lemma grown_refl: "grown w 0 w"
  by (simp add: grown_def)

lemma grown_emit: "grown w0 d w \<Longrightarrow> grown w0 d (emit bs w)"
  by (fastforce simp: grown_def emit_def)

lemma grown_open: "grown w0 d w \<Longrightarrow> grown w0 (Suc d) (open_scope w)"
proof -
  assume "grown w0 d w"
  then obtain body ns where "w_out w = w_out w0 @ body" "w_scopes w = ns @ w_scopes w0" "length ns = d"
    "\<forall>n \<in> set ns. length (w_out w0) \<le> n \<and> n + SCOPE_LENGTH_SIZE \<le> length (w_out w)"
    unfolding grown_def by blast
  then show ?thesis unfolding grown_def open_scope_def
    by (intro exI [of _ "body @ replicate SCOPE_LENGTH_SIZE 0"] exI [of _ "length (w_out w) # ns"]) auto
qed

lemma grown_close:
  assumes "grown w0 (Suc d) w" "length (w_out w) \<le> 65535"
  shows "\<exists>w'. close_scope w = Inr w' \<and> grown w0 d w' \<and> length (w_out w') = length (w_out w)"
proof -
  from assms(1) obtain body n ns where w: "w_out w = w_out w0 @ body" "w_scopes w = n # ns @ w_scopes w0" "length ns = d"
    and n: "\<forall>m \<in> set (n # ns). length (w_out w0) \<le> m \<and> m + SCOPE_LENGTH_SIZE \<le> length (w_out w)"
    unfolding grown_def by (auto simp: length_Suc_conv)
  let ?size = "length (w_out w) - n - SCOPE_LENGTH_SIZE"
  let ?out = "take n (w_out w) @ be_bytes SCOPE_LENGTH_SIZE ?size @ drop (n + SCOPE_LENGTH_SIZE) (w_out w)"
  have c: "close_scope w = Inr \<lparr>w_out = ?out, w_scopes = ns @ w_scopes w0\<rparr>"
    using assms(2) by (simp add: close_scope_def w(2) Let_def SCOPE_LENGTH_SIZE_def)
  have l: "length ?out = length (w_out w)" using n by (auto simp: min_def)
  have "take n (w_out w) = w_out w0 @ take (n - length (w_out w0)) body" using n by (simp add: w(1))
  then obtain b where "?out = w_out w0 @ b" by auto
  then have "grown w0 d \<lparr>w_out = ?out, w_scopes = ns @ w_scopes w0\<rparr>"
    unfolding grown_def using n w(3) l by auto
  with c l show ?thesis by auto
qed

lemma bindG_Some:
  "bindG m f pos = Some (r, p') \<longleftrightarrow>
     (\<exists>e. m pos = Some (Inl e, p') \<and> r = Inl e) \<or> (\<exists>x p. m pos = Some (Inr x, p) \<and> f x p = Some (r, p'))"
  by (auto simp: bindG_def split: option.splits sum.splits prod.splits)

lemma retG_Some [simp]: "retG x pos = Some (r, p') \<longleftrightarrow> r = x \<and> p' = pos"
  by (auto simp: retG_def)

declare depth_after.simps [simp del]

lemma write_grows:
  shows "length grease = GREASE_SIZE \<Longrightarrow> depth_after d op = Some d' \<Longrightarrow> grown w0 d w \<Longrightarrow>
      length (w_out w) + op_len (length domain) op \<le> 65535 \<Longrightarrow> write_op t grease domain op w pos = Some (r, p') \<Longrightarrow>
      \<exists>w'. r = Inr w' \<and> grown w0 d' w' \<and> length (w_out w') = length (w_out w) + op_len (length domain) op"
    and "length grease = GREASE_SIZE \<Longrightarrow> depths_after d ops = Some d' \<Longrightarrow> grown w0 d w \<Longrightarrow>
      length (w_out w) + ops_len (length domain) ops \<le> 65535 \<Longrightarrow> render t grease domain ops w pos = Some (r, p') \<Longrightarrow>
      \<exists>w'. r = Inr w' \<and> grown w0 d' w' \<and> length (w_out w') = length (w_out w) + ops_len (length domain) ops"
    and "length grease = GREASE_SIZE \<Longrightarrow> parts_closed parts \<Longrightarrow>
      (\<Sum>part \<leftarrow> parts. ops_len (length domain) part) \<le> 65535 \<Longrightarrow> render_parts t grease domain parts pos = Some (q, p') \<Longrightarrow>
      \<exists>ds. q = Inr ds \<and> length (concat ds) = (\<Sum>part \<leftarrow> parts. ops_len (length domain) part)"
proof (induction t grease domain op w and t grease domain ops w and t grease domain parts
    arbitrary: d d' w0 pos r p' and d d' w0 pos r p' and pos q p' rule: write_op_render_render_parts.induct)
  case (1 t grease domain dd w)
  then show ?case by (auto simp: depth_after.simps grown_emit) (simp add: emit_def)
next
  case (2 t grease domain n w)
  then show ?case by (auto simp: depth_after.simps grown_emit token_bytes_def) (simp add: emit_def)
next
  case (3 t grease domain n w)
  then show ?case by (auto simp: depth_after.simps grown_emit) (simp add: emit_def)
next
  case (4 t grease domain w)
  then show ?case by (auto simp: depth_after.simps grown_emit) (simp add: emit_def)
next
  case (5 t grease domain seed w)
  then show ?case by (auto simp: depth_after.simps grown_emit split: if_splits) (simp add: emit_def)
next
  case (6 t grease domain w)
  then show ?case by (auto simp: depth_after.simps grown_open) (simp add: open_scope_def)
next
  case (7 t grease domain w)
  then obtain k where d: "d = Suc k" "d' = k" by (cases d) (auto simp: depth_after.simps)
  with 7 grown_close [of w0 k w] show ?case by auto
next
  case (8 t grease domain w)
  then show ?case
    by (auto simp: depth_after.simps grown_emit dest: length_curve25519_key) (simp add: emit_def length_curve25519_key)
next
  case (9 t grease domain w)
  obtain k p where k: "generate_ml_kem_768_key t pos = (k, p)" by (cases "generate_ml_kem_768_key t pos")
  with 9 length_ml_kem_key [OF k] show ?case by (auto simp: depth_after.simps grown_emit) (simp add: emit_def)
next
  case (10 t grease domain parts w)
  from 10(3) have d: "parts_closed parts" "d' = d" by (auto simp: depth_after.simps split: if_splits)
  have le: "(\<Sum>part \<leftarrow> parts. ops_len (length domain) part) \<le> 65535" using "10.prems"(4) by simp
  from "10.prems"(5) obtain x p where x: "render_parts t grease domain parts pos = Some (x, p)"
    by (auto simp: bindG_Some)
  from "10.IH" [OF "10.prems"(1) d(1) le x] obtain ds where ds: "x = Inr ds"
    "length (concat ds) = (\<Sum>part \<leftarrow> parts. ops_len (length domain) part)" by blast
  obtain ps p2 where ps: "shuffled t ds p = (ps, p2)" by (cases "shuffled t ds p")
  then have "mset ps = mset ds" using mset_shuffled [of t ds p] by simp
  then have "length (concat ps) = length (concat ds)" by (rule length_concat_mset)
  moreover have "r = Inr (emit (concat ps) w)" using "10.prems"(5) x ds ps by (simp add: bindG_def)
  ultimately show ?case using "10.prems"(3) ds d by (auto simp: grown_emit) (simp add: emit_def)
next
  case (11 t grease domain w)
  then show ?case by (simp add: depth_after.simps)
next
  case (12 t grease domain w)
  then show ?case by auto
next
  case (13 t grease domain op ops w)
  from "13.prems"(2) obtain d1 where d1: "depth_after d op = Some d1" "depths_after d1 ops = Some d'"
    by (auto split: option.splits)
  from "13.prems"(5) obtain x p where x: "write_op t grease domain op w pos = Some (x, p)"
    by (auto simp: bindG_Some)
  have le: "length (w_out w) + op_len (length domain) op \<le> 65535" using "13.prems"(4) by simp
  from "13.IH"(1) [OF "13.prems"(1) d1(1) "13.prems"(3) le x] obtain w1 where w1: "x = Inr w1" "grown w0 d1 w1"
    "length (w_out w1) = length (w_out w) + op_len (length domain) op" by blast
  have "render t grease domain ops w1 p = Some (r, p')" using "13.prems"(5) x w1(1) by (simp add: bindG_def)
  from "13.IH"(2) [OF "13.prems"(1) d1(2) w1(2) _ this] w1(3) "13.prems"(4) show ?case by (simp add: add.assoc)
next
  case (14 t grease domain)
  then show ?case by auto
next
  case (15 t grease domain part parts)
  let ?w = "\<lparr>w_out = [], w_scopes = []\<rparr>"
  from "15.prems"(4) obtain x p where x: "render t grease domain part ?w pos = Some (x, p)"
    by (auto simp: bindG_Some)
  have c: "depths_after 0 part = Some 0" "parts_closed parts" using "15.prems"(2) by simp_all
  have le: "length (w_out ?w) + ops_len (length domain) part \<le> 65535"
    "(\<Sum>part \<leftarrow> parts. ops_len (length domain) part) \<le> 65535" using "15.prems"(3) by simp_all
  from "15.IH"(1) [OF "15.prems"(1) c(1) grown_refl le(1) x] obtain w1 where w1: "x = Inr w1"
    "length (w_out w1) = ops_len (length domain) part" by auto
  from "15.prems"(4) x w1(1) obtain y p2 where y: "render_parts t grease domain parts p = Some (y, p2)"
    by (auto simp: bindG_Some)
  from "15.IH"(2) [OF "15.prems"(1) c(2) le(2) y] obtain ds where "y = Inr ds"
    "length (concat ds) = (\<Sum>part \<leftarrow> parts. ops_len (length domain) part)" by blast
  with "15.prems"(4) x w1 y show ?case by (auto simp: bindG_Some)
qed

text \<open>The list around the padding: what comes before the random field has closed, and what is open there.\<close>

definition hello_body :: "nat \<Rightarrow> hello_op list" where
  "hello_body ech = drop 6 (takeWhile (\<lambda>op. op \<noteq> PADDING) (client_hello_ops ech))"

lemma client_hello_split:
  "client_hello_ops ech = [STRING [0x16, 0x03, 0x01], BEGIN_SCOPE, STRING [0x01, 0x00], BEGIN_SCOPE, STRING [0x03, 0x03], ZERO RANDOM_SIZE]
     @ hello_body ech @ [PADDING, END_SCOPE, END_SCOPE, END_SCOPE]"
  by (simp add: client_hello_ops_def hello_body_def)

lemma hello_body_len: "ops_len dl (hello_body ech) = 1529 + dl + ech"
  by (simp add: hello_body_def client_hello_ops_def hello_extensions_def SCOPE_LENGTH_SIZE_def CURVE25519_KEY_SIZE_def)

lemma hello_body_depth: "depths_after 0 (hello_body ech) = Some 1"
  by (simp add: hello_body_def client_hello_ops_def hello_extensions_def depth_after.simps GREASE_SIZE_def)

lemma render_append: "render t grease domain (a @ b) w = bindG (render t grease domain a w) (render t grease domain b)"
proof (induction a arbitrary: w)
  case Nil
  show ?case by (rule ext) (simp add: bindG_def retG_def)
next
  case (Cons op a)
  show ?case by (rule ext) (simp add: Cons.IH bindG_def split: option.splits sum.splits prod.splits)
qed

lemma close_scope_at:
  assumes "w_out w = a @ [x, y] @ b" "w_scopes w = length a # s" "length b \<le> 65535"
  shows "close_scope w = Inr \<lparr>w_out = a @ be_bytes 2 (length b) @ b, w_scopes = s\<rparr>"
  using assms by (simp add: close_scope_def SCOPE_LENGTH_SIZE_def Let_def)

lemma hello_rendered:
  assumes g: "length grease = GREASE_SIZE" and l: "1572 + length domain + ech \<le> 65535"
    and r: "render t grease domain (client_hello_ops ech) \<lparr>w_out = [], w_scopes = []\<rparr> pos = Some (r, p')"
  shows "\<exists>body. length body = 1529 + length domain + ech \<and>
    r = Inr \<lparr>w_out = [0x16, 0x03, 0x01] @ be_bytes 2 (length body + 38) @ [0x01, 0x00] @ be_bytes 2 (length body + 34)
               @ [0x03, 0x03] @ replicate 32 0 @ body, w_scopes = []\<rparr>"
proof -
  let ?z = "replicate 32 (0 :: byte)"
  let ?w = "\<lparr>w_out = [0x16, 0x03, 0x01, 0, 0, 0x01, 0x00, 0, 0, 0x03, 0x03] @ ?z, w_scopes = [7, 3]\<rparr>"
  have pre: "render t grease domain [STRING [0x16, 0x03, 0x01], BEGIN_SCOPE, STRING [0x01, 0x00], BEGIN_SCOPE,
      STRING [0x03, 0x03], ZERO RANDOM_SIZE] \<lparr>w_out = [], w_scopes = []\<rparr> pos = Some (Inr ?w, pos)"
    by (simp add: bindG_def retG_def emit_def open_scope_def SCOPE_LENGTH_SIZE_def RANDOM_SIZE_def numeral_2_eq_2)
  have r1: "bindG (render t grease domain (hello_body ech) ?w) (render t grease domain [PADDING, END_SCOPE, END_SCOPE, END_SCOPE]) pos = Some (r, p')"
    using r unfolding client_hello_split render_append bindG_def [of "render t grease domain [STRING _, _, _, _, _, _] _"] pre by simp
  then obtain x p where x: "render t grease domain (hello_body ech) ?w pos = Some (x, p)" by (auto simp: bindG_Some)
  have "length (w_out ?w) + ops_len (length domain) (hello_body ech) \<le> 65535" using l by (simp add: hello_body_len)
  from write_grows(2) [OF g hello_body_depth grown_refl this x] obtain w1 where w1: "x = Inr w1" "grown ?w 1 w1"
    "length (w_out w1) = 1572 + length domain + ech" by (auto simp: hello_body_len)
  have pad: "write_padding w1 = Inr w1" using w1(3) by (simp add: write_padding_def PADDING_TARGET_OFFSET_def)
  have "length (w_out w1) \<le> 65535" using w1(3) l by simp
  with grown_close [of ?w 0 w1] w1(2) obtain w2 where w2: "close_scope w1 = Inr w2" "grown ?w 0 w2"
    "length (w_out w2) = length (w_out w1)" by auto
  from w2(2) obtain body where b: "w_out w2 = w_out ?w @ body" "w_scopes w2 = [7, 3]" by (auto simp: grown_def)
  have lb: "length body = 1529 + length domain + ech" using w2(3) w1(3) b(1) by simp
  have c1: "close_scope w2 = Inr \<lparr>w_out = [0x16, 0x03, 0x01, 0, 0, 0x01, 0x00] @ be_bytes 2 (length body + 34) @ [0x03, 0x03] @ ?z @ body, w_scopes = [3]\<rparr>"
    using close_scope_at [of w2 "[0x16, 0x03, 0x01, 0, 0, 0x01, 0x00]" 0 0 "[0x03, 0x03] @ ?z @ body" "[3]"] b lb l
    by (simp add: add.commute)
  have c2: "close_scope \<lparr>w_out = [0x16, 0x03, 0x01, 0, 0, 0x01, 0x00] @ be_bytes 2 (length body + 34) @ [0x03, 0x03] @ ?z @ body, w_scopes = [3]\<rparr>
      = Inr \<lparr>w_out = [0x16, 0x03, 0x01] @ be_bytes 2 (length body + 38) @ [0x01, 0x00] @ be_bytes 2 (length body + 34)
               @ [0x03, 0x03] @ ?z @ body, w_scopes = []\<rparr>"
    by (subst close_scope_at [where a = "[0x16, 0x03, 0x01]" and x = 0 and y = 0
          and b = "[0x01, 0x00] @ be_bytes 2 (length body + 34) @ [0x03, 0x03] @ ?z @ body" and s = "[]"])
      (use lb l in \<open>simp_all add: add.commute\<close>)
  from r1 x w1(1) pad w2(1) c1 c2 lb show ?thesis by (auto simp: bindG_def retG_def)
qed

lemma length_xor_at: "off + length x \<le> length d \<Longrightarrow> length (xor_at d off x) = length d"
  by (simp add: xor_at_def)

lemma nth_xor_at:
  "off + length x \<le> length d \<Longrightarrow> i < length x \<Longrightarrow> xor_at d off x ! (off + i) = d ! (off + i) XOR x ! i"
  by (auto simp: xor_at_def nth_append min_def)

lemma take_xor_at: "off \<le> length d \<Longrightarrow> take off (xor_at d off x) = take off d"
  by (simp add: xor_at_def min_def)

lemma generated_hello:
  assumes h: "\<And>k d. length (hmac k d) = 32" and l: "1572 + length domain + ech \<le> 65535"
    and asc: "list_all (\<lambda>c. c < 128) domain"
    and b: "build_client_hello hmac t ech domain secret unix_time pos = Some (r, pos')"
  shows "\<exists>body random. length body = 1529 + length domain + ech \<and> length random = 32 \<and>
     (let shape = (\<lambda>f. [0x16, 0x03, 0x01] @ be_bytes 2 (length body + 38) @ [0x01, 0x00] @ be_bytes 2 (length body + 34)
               @ [0x03, 0x03] @ f @ body)
      in r = Inr (shape random, random) \<and> random = hello_random hmac secret (shape (replicate 32 0)) unix_time)"
proof -
  obtain g p where g: "generate_grease t pos = (g, p)" by (cases "generate_grease t pos")
  define d where "d = map byte_of domain"
  have d: "ascii_encode domain = Inr d" "length d = length domain" using asc by (simp_all add: ascii_encode_def d_def)
  from b g d(1) obtain x p2 where x: "render t g d (client_hello_ops ech) \<lparr>w_out = [], w_scopes = []\<rparr> p = Some (x, p2)"
    by (auto simp: build_client_hello_def bindG_Some)
  from hello_rendered [OF generate_grease_Pair [OF g], of d ech t p x p2] x l d(2) obtain body
    where body: "length body = 1529 + length domain + ech"
      "x = Inr \<lparr>w_out = [0x16, 0x03, 0x01] @ be_bytes 2 (length body + 38) @ [0x01, 0x00] @ be_bytes 2 (length body + 34)
         @ [0x03, 0x03] @ replicate 32 0 @ body, w_scopes = []\<rparr>" by auto
  let ?r = "hello_random hmac secret ([0x16, 0x03, 0x01] @ be_bytes 2 (length body + 38) @ [0x01, 0x00]
     @ be_bytes 2 (length body + 34) @ [0x03, 0x03] @ replicate 32 0 @ body) unix_time"
  have lr: "length ?r = 32"
    unfolding hello_random_def RANDOM_SIZE_def TIMESTAMP_SIZE_def by (subst length_xor_at) (simp_all add: h)
  have "r = Inr ([0x16, 0x03, 0x01] @ be_bytes 2 (length body + 38) @ [0x01, 0x00] @ be_bytes 2 (length body + 34)
               @ [0x03, 0x03] @ ?r @ body, ?r)"
    using b unfolding build_client_hello_def g d(1) prod.case bindG_def retG_def option.case sum.case x body(2)
    by (simp add: Let_def RANDOM_OFFSET_def RANDOM_SIZE_def)
  with body(1) lr show ?thesis unfolding Let_def by blast
qed

text \<open>What a proxy checks: the hash of the greeting with its random field zeroed, and the clock in its last four bytes.\<close>

definition greeting_clock :: "(bytes \<Rightarrow> bytes \<Rightarrow> bytes) \<Rightarrow> bytes \<Rightarrow> bytes \<Rightarrow> int option" where
  "greeting_clock hmac secret hello =
     (let random = take 32 (drop 11 hello); digest = hmac secret (take 11 hello @ replicate 32 0 @ drop 43 hello)
      in if take 28 random = take 28 digest then Some (le_int False (map2 (XOR) (drop 28 random) (drop 28 digest))) else None)"

text \<open>
  A greeting to an ASCII domain that is drawn at all is one TLS record holding one handshake
  message, both with their true lengths; its length is that of the domain plus a constant of the
  process, the padding never being needed; and the holder of the secret verifies it and reads the
  clock it was made with, modulo 2^32.
\<close>

theorem client_hello_shape:
  assumes "\<And>k d. length (hmac k d) = 32" "length domain \<le> 182" "list_all (\<lambda>c. c < 128) domain"
    and "ech \<in> set ECH_PAYLOAD_SIZES"
    and "build_client_hello hmac t ech domain secret unix_time pos = Some (r, pos')"
  shows "\<exists>hello random. r = Inr (hello, random) \<and>
    length hello = 1572 + length domain + ech \<and>
    take 5 hello = [0x16, 0x03, 0x01] @ be_bytes 2 (length hello - 5) \<and>
    take 4 (drop 5 hello) = [0x01, 0x00] @ be_bytes 2 (length hello - 9) \<and>
    take 32 (drop 11 hello) = random \<and>
    greeting_clock hmac secret hello = Some (unix_time mod 2 ^ 32)"
proof -
  have e: "ech \<le> 240" using assms(4) by (auto simp: ECH_PAYLOAD_SIZES_def)
  have l: "1572 + length domain + ech \<le> 65535" using assms(2) e by simp
  define shape :: "bytes \<Rightarrow> bytes \<Rightarrow> bytes" where "shape body f =
     [0x16, 0x03, 0x01] @ be_bytes 2 (length body + 38) @ [0x01, 0x00] @ be_bytes 2 (length body + 34) @ [0x03, 0x03] @ f @ body"
    for body f
  from generated_hello [where hmac = hmac, OF assms(1) l assms(3,5)] obtain body random where
    body: "length body = 1529 + length domain + ech" "length random = 32" and r: "r = Inr (shape body random, random)"
    and rn: "random = hello_random hmac secret (shape body (replicate 32 0)) unix_time"
    unfolding shape_def Let_def by blast
  define hello where hello: "hello = shape body random"
  have lr: "length hello = length body + 43" by (simp add: hello shape_def body(2))
  have z: "take 11 hello @ replicate 32 0 @ drop 43 hello = shape body (replicate 32 0)"
    "take 32 (drop 11 hello) = random"
    unfolding hello by (simp_all add: shape_def body(2))
  let ?d = "hmac secret (shape body (replicate 32 0))" and ?x = "le_of_int 4 (unix_time mod 2 ^ 32)"
  have rnd: "random = xor_at ?d 28 ?x" unfolding rn hello_random_def RANDOM_SIZE_def TIMESTAMP_SIZE_def by simp
  have t28: "take 28 random = take 28 ?d" unfolding rnd by (rule take_xor_at) (simp add: assms(1))
  have "map2 (XOR) (drop 28 random) (drop 28 ?d) = ?x"
  proof (rule nth_equalityI)
    fix i assume "i < length (map2 (XOR) (drop 28 random) (drop 28 ?d))"
    then have i: "i < 4" by (simp add: assms(1) body(2))
    then have "random ! (28 + i) = ?d ! (28 + i) XOR ?x ! i" unfolding rnd by (intro nth_xor_at) (simp_all add: assms(1))
    with i show "map2 (XOR) (drop 28 random) (drop 28 ?d) ! i = ?x ! i"
      by (simp add: assms(1) body(2) xor.assoc xor.commute xor.left_commute)
  qed (simp add: assms(1) body(2))
  moreover have "le_int False ?x = unix_time mod 2 ^ 32"
    by (intro le_int_le_of_int) (simp add: fits_def)
  ultimately have "greeting_clock hmac secret hello = Some (unix_time mod 2 ^ 32)"
    unfolding greeting_clock_def Let_def z using t28 by simp
  moreover have ls: "length hello - 5 = length body + 38" "length hello - 9 = length body + 34" using lr by simp_all
  moreover have "take 5 hello = [0x16, 0x03, 0x01] @ be_bytes 2 (length hello - 5)"
    unfolding ls unfolding hello by (simp add: shape_def)
  moreover have "take 4 (drop 5 hello) = [0x01, 0x00] @ be_bytes 2 (length hello - 9)"
    unfolding ls unfolding hello by (simp add: shape_def)
  moreover have "length hello = 1572 + length domain + ech" using lr body(1) by simp
  moreover have "r = Inr (hello, random)" using r hello by simp
  ultimately show ?thesis using z(2) by (intro exI [of _ hello] exI [of _ random] conjI)
qed

text \<open>A greeting that is drawn: on this tape a point of the curve follows every position.\<close>

lemma curve_candidate_found:
  assumes "pow_mod (curve25519_y_squared (int (be_nat (let c = fst (token_bytes t 32 (pos + 32 * j)) in c[31 := c ! 31 AND 0x7F]))))
      (nat ((CURVE25519_PRIME - 1) div 2)) CURVE25519_PRIME = 1"
  shows "curve_candidate t pos \<noteq> None"
  using assms
proof (induction j arbitrary: pos)
  case 0
  then show ?case by (subst curve_candidate.simps) (simp add: Let_def CURVE25519_KEY_SIZE_def)
next
  case (Suc j)
  have "pos + 32 * Suc j = (pos + 32) + 32 * j" by simp
  with Suc have "curve_candidate t (pos + 32) \<noteq> None" by metis
  then show ?case by (subst curve_candidate.simps) (simp add: Let_def CURVE25519_KEY_SIZE_def)
qed

definition point :: "nat list" where
  "point = [82, 97, 106, 204, 6, 44, 199, 182, 96, 18, 244, 99, 244, 119, 137, 134, 229, 188, 187, 121, 172, 90, 15, 248,
            191, 62, 203, 138, 183, 142, 132, 53]"

definition point_tape :: tape where
  "point_tape i =
     (let r = i div 64 mod 32; k = i mod 64 in if r \<le> k \<and> k < r + 32 then point ! (k - r) else 0)"

lemma point_on_curve:
  "pow_mod (curve25519_y_squared (int (be_nat ((map byte_of point)[31 := map byte_of point ! 31 AND 0x7F]))))
      (nat ((CURVE25519_PRIME - 1) div 2)) CURVE25519_PRIME = 1"
proof -
  have l: "(map byte_of point) ! 31 AND 0x7F = (map byte_of point) ! 31" by (simp add: point_def byte_of_def)
  have h: "le_nat (map byte_of ns) = foldr (\<lambda>n acc. n + 256 * acc) ns 0" if "list_all (\<lambda>n. n < 256) ns" for ns
    using that by (induction ns) simp_all
  have "list_all (\<lambda>n. n < 256) (rev point)" by (simp add: point_def)
  then have "be_nat (map byte_of point) = foldr (\<lambda>n acc. n + 256 * acc) (rev point) 0"
    unfolding be_nat_def rev_map by (rule h)
  also have "\<dots> = 37261774834703522250675075601027907654398000228523387693950595818816438961205"
    by (simp add: point_def)
  finally have x: "int (be_nat ((map byte_of point)[31 := map byte_of point ! 31 AND 0x7F])) =
    37261774834703522250675075601027907654398000228523387693950595818816438961205"
    unfolding l list_update_id by simp
  have y: "curve25519_y_squared (int (be_nat ((map byte_of point)[31 := map byte_of point ! 31 AND 0x7F]))) = CURVE25519_PRIME - 1"
  proof -
    have "((37261774834703522250675075601027907654398000228523387693950595818816438961205 + CURVE25519_A) *
        37261774834703522250675075601027907654398000228523387693950595818816438961205 + 1) *
        37261774834703522250675075601027907654398000228523387693950595818816438961205
      = (CURVE25519_PRIME - 1) + 893597030995913214962049986767049804804066201749772745302574905102156283460491091935184840720349028489532541617671515072391303570555615362742264260104668 * CURVE25519_PRIME"
      by (simp add: CURVE25519_PRIME_def CURVE25519_A_def)
    moreover have "(CURVE25519_PRIME - 1) mod CURVE25519_PRIME = CURVE25519_PRIME - 1"
      by (intro mod_pos_pos_trivial) (simp_all add: CURVE25519_PRIME_def)
    ultimately show ?thesis unfolding x curve25519_y_squared_def by (simp only: mod_mult_self1)
  qed
  have e: "nat ((CURVE25519_PRIME - 1) div 2) = 2 * nat ((CURVE25519_PRIME - 1) div 4)"
    by (simp add: CURVE25519_PRIME_def)
  have "(CURVE25519_PRIME - 1)\<^sup>2 = 1 + (CURVE25519_PRIME - 2) * CURVE25519_PRIME"
    by (simp add: power2_eq_square algebra_simps)
  moreover have one: "(1 :: int) mod CURVE25519_PRIME = 1" by (simp add: CURVE25519_PRIME_def)
  ultimately have "(CURVE25519_PRIME - 1)\<^sup>2 mod CURVE25519_PRIME = 1" by (simp only: mod_mult_self1)
  then have "((CURVE25519_PRIME - 1)\<^sup>2) ^ n mod CURVE25519_PRIME = 1" for n
    using power_mod [of "(CURVE25519_PRIME - 1)\<^sup>2" CURVE25519_PRIME n] one by simp
  then show ?thesis unfolding y pow_mod_eq e power_mult .
qed

lemma point_tape_keys: "generate_curve25519_key point_tape pos \<noteq> None"
proof -
  define b where "b = 32 * (pos div 64 + 1) + pos mod 32"
  define j where "j = 2 * b - pos div 32"
  have pb: "pos div 32 \<le> 2 * b" 
  proof -
    have q: "pos div 64 = pos div 32 div 2" by (simp add: div_mult2_eq [symmetric])
    have "m \<le> 2 * d + 1 \<Longrightarrow> m \<le> 2 * (32 * (d + 1) + r)" for m d r :: nat by simp
    moreover have "pos div 32 \<le> 2 * (pos div 32 div 2) + 1" by simp
    ultimately show ?thesis unfolding b_def q by blast
  qed
  have at: "pos + 32 * j = 64 * b + pos mod 32" 
  proof -
    have "32 * j = 64 * b - 32 * (pos div 32)" unfolding j_def by (simp add: diff_mult_distrib2)
    moreover have "32 * (pos div 32) \<le> 64 * b" using pb by linarith
    moreover have "pos = 32 * (pos div 32) + pos mod 32" by simp
    ultimately show ?thesis by linarith
  qed
  have br: "b mod 32 = pos mod 32" unfolding b_def by (simp only: mod_mult_self4 mod_mod_trivial)
  have "point_tape (pos + 32 * j + i) = point ! i" if i: "i < 32" for i
  proof -
    have k: "pos mod 32 + i < 64" using i by (metis add_less_mono mod_less_divisor zero_less_numeral numeral_Bit0 numeral_plus_numeral)
    have "(64 * b + (pos mod 32 + i)) div 64 = b" "(64 * b + (pos mod 32 + i)) mod 64 = pos mod 32 + i" using k by simp_all
    then show ?thesis unfolding at point_tape_def Let_def add.assoc using br i by simp
  qed
  moreover have "point ! i mod 256 = point ! i" if "i < 32" for i
  proof -
    have "list_all (\<lambda>v. v < 256) point" "length point = 32" by (simp_all add: point_def)
    with that show ?thesis by (simp add: list_all_length)
  qed
  moreover have "length point = 32" by (simp add: point_def)
  ultimately have "fst (token_bytes point_tape 32 (pos + 32 * j)) = map byte_of point"
    unfolding token_bytes_def by (intro nth_equalityI) simp_all
  with point_on_curve have "curve_candidate point_tape pos \<noteq> None"
    by (intro curve_candidate_found [of point_tape pos j]) (simp add: Let_def)
  then show ?thesis by (simp add: generate_curve25519_key_def)
qed

lemma bindG_halts: "m pos \<noteq> None \<Longrightarrow> (\<And>x p. f x p \<noteq> None) \<Longrightarrow> bindG m f pos \<noteq> None"
  by (auto simp: bindG_def split: option.splits sum.splits prod.splits)

lemma render_halts:
  assumes keys: "\<And>pos. generate_curve25519_key t pos \<noteq> None"
  shows "write_op t grease domain op w pos \<noteq> None" "render t grease domain ops w pos \<noteq> None"
    "render_parts t grease domain parts pos \<noteq> None"
  using assms
proof (induction t grease domain op w and t grease domain ops w and t grease domain parts
    arbitrary: pos and pos and pos rule: write_op_render_render_parts.induct)
  case (10 t grease domain parts w)
  show ?case unfolding write_op.simps
    by (rule bindG_halts [OF "10.IH" [OF "10.prems"]]) (simp split: prod.splits)
next
  case (13 t grease domain op ops w)
  show ?case unfolding render.simps
    by (rule bindG_halts [OF "13.IH"(1) [OF "13.prems"] "13.IH"(2) [OF "13.prems"]])
next
  case (15 t grease domain part parts)
  show ?case unfolding render_parts.simps
    by (intro bindG_halts "15.IH"(1) [OF "15.prems"] "15.IH"(2) [OF "15.prems"]) (simp add: retG_def)
qed (auto simp: retG_def split: prod.splits)

lemma client_hello_shape_witness:
  "\<exists>hello random pos'. build_client_hello (\<lambda>k d. replicate 32 0) point_tape 144 (ustr ''a.org'') (replicate 16 7) 1700000000 0
       = Some (Inr (hello, random), pos') \<and>
     length hello = 1721 \<and> greeting_clock (\<lambda>k d. replicate 32 0) (replicate 16 7) hello = Some 1700000000"
proof -
  have a: "list_all (\<lambda>c. c < 128) (ustr ''a.org'')" "length (ustr ''a.org'') = 5" by (simp_all add: ustr_def)
  have "build_client_hello (\<lambda>k d. replicate 32 0) point_tape 144 (ustr ''a.org'') (replicate 16 7) 1700000000 0 \<noteq> None"
    unfolding build_client_hello_def case_prod_beta'
    by (intro bindG_halts render_halts(2) point_tape_keys) (simp_all add: retG_def ascii_encode_def a Let_def)
  then obtain r pos' where b: "build_client_hello (\<lambda>k d. replicate 32 0) point_tape 144 (ustr ''a.org'') (replicate 16 7) 1700000000 0 = Some (r, pos')"
    by auto
  from client_hello_shape [OF _ _ a(1) _ b] a(2) b show ?thesis by (auto simp: ECH_PAYLOAD_SIZES_def)
qed

end
