(* ===== verification/Fake_TLS_Records.thy ===== *)
theory Fake_TLS_Records
  imports Transport
begin

text \<open>
  The record layer behind a fake-TLS greeting
  (\<open>pyrogram/connection/transport/tcp/faketls_records.py\<close>): what is sent is cut into application
  data records, the first send carrying the prologue and one change-cipher-spec, and what is received
  is served out of a buffer that is filled record by record.
\<close>

section \<open>Sending\<close>

definition APPLICATION_DATA_PREFIX :: bytes where "APPLICATION_DATA_PREFIX = [0x17, 0x03, 0x03]"
definition RECORD_LENGTH_SIZE :: nat where "RECORD_LENGTH_SIZE = 2"
definition RECORD_HEADER_SIZE :: nat where "RECORD_HEADER_SIZE = length APPLICATION_DATA_PREFIX + RECORD_LENGTH_SIZE"
definition CHANGE_CIPHER_SPEC :: bytes where "CHANGE_CIPHER_SPEC = [0x14, 0x03, 0x03, 0x00, 0x01, 0x01]"
definition MAX_RECORD_PAYLOAD :: nat where "MAX_RECORD_PAYLOAD = 2878"

definition GREETING_RESPONSE_PREFIXES :: "bytes list" where
  "GREETING_RESPONSE_PREFIXES = [[0x16, 0x03, 0x03], CHANGE_CIPHER_SPEC @ APPLICATION_DATA_PREFIX]"

record tls_records =
  prologue :: bytes
  buffer :: bytes
  sent_change_cipher_spec :: bool

definition FakeTlsRecords :: "bytes \<Rightarrow> tls_records" where
  "FakeTlsRecords p = \<lparr>prologue = p, buffer = [], sent_change_cipher_spec = False\<rparr>"

text \<open>The chunks of \<open>range(0, len(payload), _MAX_RECORD_PAYLOAD)\<close>.\<close>

function payload_chunks :: "bytes \<Rightarrow> bytes list" where
  "payload_chunks payload =
     (if payload = [] then [] else take MAX_RECORD_PAYLOAD payload # payload_chunks (drop MAX_RECORD_PAYLOAD payload))"
  by pat_completeness auto
termination by (relation "measure length") (auto simp: MAX_RECORD_PAYLOAD_def)

declare payload_chunks.simps [simp del]

definition data_record :: "bytes \<Rightarrow> bytes" where
  "data_record chunk = APPLICATION_DATA_PREFIX @ be_bytes RECORD_LENGTH_SIZE (length chunk) @ chunk"

definition wrap :: "bytes \<Rightarrow> tls_records \<Rightarrow> bytes \<times> tls_records" where
  "wrap data r =
     (let payload = prologue r @ data;
          wire = (if sent_change_cipher_spec r then [] else CHANGE_CIPHER_SPEC)
      in (wire @ concat (map data_record (payload_chunks payload)),
          r\<lparr>prologue := [], sent_change_cipher_spec := True\<rparr>))"

section \<open>Receiving\<close>

definition read_record :: "'s pipe \<Rightarrow> 's \<Rightarrow> bytes option result \<times> 's" where
  "read_record read_exactly s =
     bindP (read_exactly (int RECORD_HEADER_SIZE) s) (\<lambda>header s.
       if take (length APPLICATION_DATA_PREFIX) header \<noteq> APPLICATION_DATA_PREFIX then (Inl OSError, s)
       else read_exactly (int (be_nat (drop (length header - RECORD_LENGTH_SIZE) header))) s)"

text \<open>The fuel bounds the number of records taken in, which a peer sending empty ones decides.\<close>

fun recv_buffered :: "nat \<Rightarrow> 's pipe \<Rightarrow> int \<Rightarrow> bytes \<Rightarrow> 's \<Rightarrow> bytes option result \<times> bytes \<times> 's" where
  "recv_buffered fuel read_exactly n buf s =
     (if n \<le> int (length buf) then (Inr (Some (take (nat n) buf)), drop (nat n) buf, s)
      else (case fuel of
              0 \<Rightarrow> (Inl OutOfFuel, buf, s)
            | Suc fuel \<Rightarrow>
                (case read_record read_exactly s of
                   (Inl e, s) \<Rightarrow> (Inl e, buf, s)
                 | (Inr None, s) \<Rightarrow> (Inr None, buf, s)
                 | (Inr (Some r), s) \<Rightarrow> recv_buffered fuel read_exactly n (buf @ r) s)))"

declare recv_buffered.simps [simp del]

definition records_recv :: "nat \<Rightarrow> 's pipe \<Rightarrow> int \<Rightarrow> tls_records \<times> 's \<Rightarrow> bytes option result \<times> (tls_records \<times> 's)" where
  "records_recv fuel read_exactly n st =
     (case recv_buffered fuel read_exactly n (buffer (fst st)) (snd st) of
        (x, buf, s) \<Rightarrow> (x, ((fst st)\<lparr>buffer := buf\<rparr>, s)))"

section \<open>Records carry a stream\<close>

lemma concat_payload_chunks: "concat (payload_chunks p) = p"
  by (induction p rule: payload_chunks.induct) (subst payload_chunks.simps, simp)

lemma payload_chunks_short: "c \<in> set (payload_chunks p) \<Longrightarrow> length c \<le> MAX_RECORD_PAYLOAD \<and> c \<noteq> []"
proof (induction p rule: payload_chunks.induct)
  case (1 p)
  show ?case
  proof (cases "p = []")
    case True
    then show ?thesis using "1.prems" by (simp add: payload_chunks.simps)
  next
    case False
    then consider "c = take MAX_RECORD_PAYLOAD p" | "c \<in> set (payload_chunks (drop MAX_RECORD_PAYLOAD p))"
      using "1.prems" by (subst (asm) payload_chunks.simps) auto
    then show ?thesis
      by cases (use False "1.IH" in \<open>auto simp: MAX_RECORD_PAYLOAD_def\<close>)
  qed
qed

text \<open>A buffer and the bytes behind it hold a stream, in records of any sizes.\<close>

definition holds :: "bytes \<Rightarrow> bytes \<Rightarrow> bytes \<Rightarrow> bool" where
  "holds buf s x = (\<exists>cs. s = concat (map data_record cs) \<and> x = buf @ concat cs \<and> (\<forall>c \<in> set cs. length c < 65536))"

lemma read_record_data:
  assumes "length c < 65536"
  shows "read_record byte_pipe (data_record c @ rest) = (Inr (Some c), rest)"
proof -
  let ?h = "APPLICATION_DATA_PREFIX @ be_bytes RECORD_LENGTH_SIZE (length c)"
  have "byte_pipe (int RECORD_HEADER_SIZE) (?h @ c @ rest) = (Inr (Some ?h), c @ rest)"
    by (rule byte_pipe_exact) (simp_all add: RECORD_HEADER_SIZE_def RECORD_LENGTH_SIZE_def APPLICATION_DATA_PREFIX_def MAX_FRAME_SIZE_def)
  moreover have "byte_pipe (int (length c)) (c @ rest) = (Inr (Some c), rest)"
    using assms by (intro byte_pipe_exact) (simp_all add: MAX_FRAME_SIZE_def)
  moreover have "be_nat (be_bytes RECORD_LENGTH_SIZE (length c)) = length c"
    using assms by (simp add: be_nat_be_bytes RECORD_LENGTH_SIZE_def)
  ultimately show ?thesis
    by (simp add: read_record_def data_record_def)
qed

lemma recv_buffered_holds:
  assumes "holds buf s x" "0 \<le> n" "n \<le> int (length x)" "length s < fuel"
  shows "\<exists>buf' s'. recv_buffered fuel byte_pipe n buf s = (Inr (Some (take (nat n) x)), buf', s') \<and>
    holds buf' s' (drop (nat n) x) \<and> length s' \<le> length s"
  using assms
proof (induction fuel arbitrary: buf s)
  case (Suc fuel)
  then obtain cs where cs: "s = concat (map data_record cs)" "x = buf @ concat cs" "\<forall>c \<in> set cs. length c < 65536"
    unfolding holds_def by blast
  show ?case
  proof (cases "n \<le> int (length buf)")
    case True
    have "recv_buffered (Suc fuel) byte_pipe n buf s = (Inr (Some (take (nat n) x)), drop (nat n) buf, s)"
      using True cs(2) by (simp add: recv_buffered.simps nat_le_iff)
    moreover have "holds (drop (nat n) buf) s (drop (nat n) x)"
      unfolding holds_def using True cs by (intro exI [of _ cs]) (simp add: nat_le_iff)
    ultimately show ?thesis by blast
  next
    case False
    with Suc.prems cs obtain c ds where d: "cs = c # ds" by (cases cs) auto
    let ?s = "concat (map data_record ds)"
    have r: "read_record byte_pipe s = (Inr (Some c), ?s)"
      using cs(1,3) d by (simp add: read_record_data)
    have h: "holds (buf @ c) ?s x" unfolding holds_def using cs d by (intro exI [of _ ds]) simp
    have l: "length ?s < length s" using cs(1) d by (simp add: data_record_def APPLICATION_DATA_PREFIX_def)
    have e: "recv_buffered (Suc fuel) byte_pipe n buf s = recv_buffered fuel byte_pipe n (buf @ c) ?s"
      using False r by (subst recv_buffered.simps) simp
    from Suc.IH [OF h Suc.prems(2,3)] l Suc.prems(4) show ?thesis unfolding e by (auto intro: order_trans)
  qed
qed simp

text \<open>Reads of the given sizes, one after the other.\<close>

fun reads :: "nat \<Rightarrow> nat list \<Rightarrow> tls_records \<times> bytes \<Rightarrow> bytes option result list" where
  "reads fuel [] st = []"
| "reads fuel (n # ns) st =
     (case records_recv fuel byte_pipe (int n) st of (x, st) \<Rightarrow> x # reads fuel ns st)"

fun slices :: "nat list \<Rightarrow> bytes \<Rightarrow> bytes list" where
  "slices [] x = []"
| "slices (n # ns) x = take n x # slices ns (drop n x)"

lemma reads_holds:
  assumes "holds (buffer (fst st)) (snd st) x" "sum_list ns \<le> length x" "length (snd st) < fuel"
  shows "reads fuel ns st = map (\<lambda>d. Inr (Some d)) (slices ns x)"
  using assms
proof (induction ns arbitrary: st x)
  case (Cons n ns)
  have n: "0 \<le> int n" "int n \<le> int (length x)" using Cons.prems(2) by simp_all
  from recv_buffered_holds [OF Cons.prems(1) n Cons.prems(3)] obtain buf' s' where
    r: "recv_buffered fuel byte_pipe (int n) (buffer (fst st)) (snd st) = (Inr (Some (take n x)), buf', s')"
    and h: "holds buf' s' (drop n x)" and l: "length s' \<le> length (snd st)" by auto
  have rr: "records_recv fuel byte_pipe (int n) st = (Inr (Some (take n x)), ((fst st)\<lparr>buffer := buf'\<rparr>, s'))"
    by (simp add: records_recv_def r)
  have "reads fuel ns ((fst st)\<lparr>buffer := buf'\<rparr>, s') = map (\<lambda>d. Inr (Some d)) (slices ns (drop n x))"
    using h l Cons.prems by (intro Cons.IH) simp_all
  then show ?case by (simp add: rr)
qed simp

text \<open>All sends of a connection, one after the other.\<close>

fun wraps :: "bytes list \<Rightarrow> tls_records \<Rightarrow> bytes" where
  "wraps [] r = []"
| "wraps (d # ds) r = (case wrap d r of (w, r) \<Rightarrow> w @ wraps ds r)"

lemma wraps_sent:
  "sent_change_cipher_spec r \<Longrightarrow> prologue r = [] \<Longrightarrow>
   wraps ds r = concat (map data_record (concat (map payload_chunks ds)))"
  by (induction ds arbitrary: r) (simp_all add: wrap_def)

text \<open>
  C38. What is sent through the records of a connection is one change-cipher-spec and then records of
  at most 2,878 bytes; and reading pieces of any sizes through such records, past their boundaries,
  gives the obfuscation header and the data of all sends, in order and unchanged.
\<close>

theorem records_roundtrip:
  assumes "ds \<noteq> []" "sum_list ns \<le> length p + length (concat ds)" "length (wraps ds (FakeTlsRecords p)) < fuel"
  shows "\<exists>cs. wraps ds (FakeTlsRecords p) = CHANGE_CIPHER_SPEC @ concat (map data_record cs) \<and>
    (\<forall>c \<in> set cs. length c \<le> MAX_RECORD_PAYLOAD) \<and>
    reads fuel ns (FakeTlsRecords q, concat (map data_record cs)) = map (\<lambda>d. Inr (Some d)) (slices ns (p @ concat ds))"
proof -
  obtain d es where d: "ds = d # es" using assms(1) by (cases ds) auto
  let ?cs = "payload_chunks (p @ d) @ concat (map payload_chunks es)"
  have w: "wraps ds (FakeTlsRecords p) = CHANGE_CIPHER_SPEC @ concat (map data_record ?cs)"
    by (simp add: d wrap_def FakeTlsRecords_def wraps_sent)
  have short: "\<forall>c \<in> set ?cs. length c \<le> MAX_RECORD_PAYLOAD" using payload_chunks_short by auto
  have "concat (concat (map payload_chunks es)) = concat es"
    by (induction es) (simp_all add: concat_payload_chunks)
  then have c: "concat ?cs = p @ concat ds" by (simp add: d concat_payload_chunks)
  have "length c < 65536" if "c \<in> set ?cs" for c
    using bspec [OF short that] by (simp add: MAX_RECORD_PAYLOAD_def)
  then have "holds [] (concat (map data_record ?cs)) (p @ concat ds)"
    unfolding holds_def using c by (intro exI [of _ ?cs]) simp
  then have "reads fuel ns (FakeTlsRecords q, concat (map data_record ?cs)) = map (\<lambda>d. Inr (Some d)) (slices ns (p @ concat ds))"
    using assms(2,3) w by (intro reads_holds) (simp_all add: FakeTlsRecords_def)
  with w short show ?thesis by blast
qed

lemma records_roundtrip_witness:
  "\<exists>cs. wraps [[1, 2], [3]] (FakeTlsRecords [9]) = CHANGE_CIPHER_SPEC @ concat (map data_record cs) \<and>
    list_all (\<lambda>c. length c \<le> MAX_RECORD_PAYLOAD) cs \<and>
    reads 100 [2, 2] (FakeTlsRecords [], concat (map data_record cs)) = [Inr (Some [9, 1]), Inr (Some [2, 3])]"
proof -
  have "length (wraps [[1, 2], [3]] (FakeTlsRecords [9])) < 100"
    by (simp add: FakeTlsRecords_def wrap_def payload_chunks.simps MAX_RECORD_PAYLOAD_def data_record_def
        APPLICATION_DATA_PREFIX_def CHANGE_CIPHER_SPEC_def RECORD_LENGTH_SIZE_def)
  from records_roundtrip [OF _ _ this, of "[2, 2]" "[]"] show ?thesis by (simp add: list_all_iff)
qed

end
