(* ===== verification/Tcp.thy ===== *)
theory Tcp
  imports Obfuscation Fake_TLS Fake_TLS_Records Session_Ids
begin

text \<open>
  The TCP transport (\<open>pyrogram/connection/transport/tcp/tcp.py\<close>) and the connection over it
  (\<open>pyrogram/connection/connection.py\<close>): reading an exact number of bytes from a socket, sending and
  receiving under the connection's ciphers, the three ways a stream is opened, and the retries.
\<close>

section \<open>Reading from a socket\<close>

text \<open>
  What the socket does next: bytes arrive (none of them: the peer has closed), a read times out, or it
  fails. When nothing is listed any more, nothing arrives and a read times out.
\<close>

datatype read_event = Chunk bytes | ReadTimeout | ReadFails

text \<open>The flag is \<open>mid_message\<close>: bytes of the current message have been taken.\<close>

definition read_timed_out :: "bytes \<Rightarrow> bool \<Rightarrow> bytes option result" where
  "read_timed_out acc mid = Inl (if acc \<noteq> [] \<or> mid then OSError else TimeoutError)"

fun recv_loop :: "nat \<Rightarrow> bytes \<Rightarrow> bool \<Rightarrow> read_event list \<Rightarrow> bytes option result \<times> bool \<times> read_event list" where
  "recv_loop need acc mid [] = (if need = 0 then (Inr (Some acc), mid, []) else (read_timed_out acc mid, mid, []))"
| "recv_loop need acc mid (e # es) =
     (if need = 0 then (Inr (Some acc), mid, e # es)
      else (case e of
              ReadTimeout \<Rightarrow> (read_timed_out acc mid, mid, es)
            | ReadFails \<Rightarrow> (Inr None, mid, es)
            | Chunk c \<Rightarrow>
                if c = [] then (Inr None, mid, e # es)
                else if length c \<le> need then recv_loop (need - length c) (acc @ c) True es
                else (Inr (Some (acc @ take need c)), True, Chunk (drop need c) # es)))"

definition recv_from_socket :: "int \<Rightarrow> bool \<Rightarrow> read_event list option \<Rightarrow> bytes option result \<times> bool \<times> read_event list option" where
  "recv_from_socket n mid reader =
     (if n \<le> 0 then (Inr (Some []), mid, reader)
      else (case reader of
              None \<Rightarrow> (Inr None, mid, None)
            | Some es \<Rightarrow> (case recv_loop (nat n) [] mid es of (r, mid, es) \<Rightarrow> (r, mid, Some es))))"

text \<open>The bytes still to come.\<close>

fun pending :: "read_event list \<Rightarrow> bytes" where
  "pending [] = []"
| "pending (Chunk c # es) = c @ pending es"
| "pending (_ # es) = pending es"

lemma recv_loop_got:
  "recv_loop need acc mid es = (Inr (Some d), mid', es') \<Longrightarrow>
     \<exists>x. d = acc @ x \<and> length x = need \<and> pending es = x @ pending es' \<and> mid' = (mid \<or> need \<noteq> 0)"
proof (induction need acc mid es rule: recv_loop.induct)
  case (1 need acc mid)
  then show ?case by (auto simp: read_timed_out_def split: if_splits)
next
  case (2 need acc mid e es)
  then show ?case
  proof (cases "need = 0")
    case False
    from 2 False obtain c where e: "e = Chunk c" "c \<noteq> []" by (cases e) (auto simp: read_timed_out_def split: if_splits)
    show ?thesis
    proof (cases "length c \<le> need")
      case True
      with "2.prems" e False have "recv_loop (need - length c) (acc @ c) True es = (Inr (Some d), mid', es')" by simp
      from "2.IH" [OF False e(1) e(2) True this] obtain x where x: "d = (acc @ c) @ x" "length x = need - length c"
        "pending es = x @ pending es'" "mid'" by auto
      then show ?thesis using e False True by (intro exI [of _ "c @ x"]) auto
    next
      case lt: False
      with "2.prems" e False show ?thesis by (intro exI [of _ "take need c"]) auto
    qed
  qed auto
qed

lemma recv_loop_timeout:
  "recv_loop need acc mid es = (Inl TimeoutError, mid', es') \<Longrightarrow> acc = [] \<and> \<not> mid \<and> \<not> mid' \<and> pending es' = pending es"
proof (induction need acc mid es rule: recv_loop.induct)
  case (2 need acc mid e es)
  then show ?case
    by (cases e) (auto simp: read_timed_out_def split: if_splits)
qed (auto simp: read_timed_out_def split: if_splits)

lemma recv_loop_data:
  assumes "list_all (\<lambda>e. \<exists>c. e = Chunk c \<and> c \<noteq> []) es" "need \<le> length (pending es)"
  shows "\<exists>mid' es'. recv_loop need acc mid es = (Inr (Some (acc @ take need (pending es))), mid', es')"
  using assms
proof (induction need acc mid es rule: recv_loop.induct)
  case (2 need acc mid e es)
  then obtain c where c: "e = Chunk c" "c \<noteq> []" by auto
  show ?case
  proof (cases "need = 0")
    case False
    show ?thesis
    proof (cases "length c \<le> need")
      case True
      from "2.IH" [OF False c True] "2.prems" c True False show ?thesis by (auto simp: list_all_iff)
    qed (use c False in auto)
  qed simp
qed simp

text \<open>
  Bytes are taken off the socket exactly: what is returned has the length asked for and is the next
  part of what arrives, however it is cut into chunks; a timeout is reported as such only when nothing
  of the message has been taken, so that nothing is lost and the read may be repeated; and when enough
  bytes arrive they are returned.
\<close>

theorem recv_exact:
  assumes "0 < n" "recv_from_socket n mid (Some es) = (r, mid', Some es')"
  shows "(\<forall>d. r = Inr (Some d) \<longrightarrow> int (length d) = n \<and> d @ pending es' = pending es \<and> mid') \<and>
    (r = Inl TimeoutError \<longrightarrow> \<not> mid \<and> \<not> mid' \<and> pending es' = pending es) \<and>
    (list_all (\<lambda>e. \<exists>c. e = Chunk c \<and> c \<noteq> []) es \<longrightarrow> n \<le> int (length (pending es)) \<longrightarrow>
       r = Inr (Some (take (nat n) (pending es))))"
proof -
  from assms have l: "recv_loop (nat n) [] mid es = (r, mid', es')"
    by (auto simp: recv_from_socket_def split: prod.splits)
  show ?thesis
  proof (intro conjI allI impI)
    fix d assume "r = Inr (Some d)"
    with recv_loop_got [of "nat n" "[]" mid es d mid' es'] l assms(1)
    show "int (length d) = n" "d @ pending es' = pending es" "mid'" by auto
  next
    assume "r = Inl TimeoutError"
    with recv_loop_timeout [of "nat n" "[]" mid es mid' es'] l
    show "\<not> mid" "\<not> mid'" "pending es' = pending es" by auto
  next
    assume "list_all (\<lambda>e. \<exists>c. e = Chunk c \<and> c \<noteq> []) es" "n \<le> int (length (pending es))"
    with recv_loop_data [of es "nat n" "[]" mid] l show "r = Inr (Some (take (nat n) (pending es)))" by auto
  qed
qed

lemma recv_exact_witness:
  "recv_from_socket 3 False (Some [Chunk [1, 2], Chunk [3, 4]]) = (Inr (Some [1, 2, 3]), True, Some [Chunk [4]])
   \<and> [1, 2, 3] @ pending [Chunk [4]] = pending [Chunk [1, 2], Chunk [3, 4]]"
proof -
  have r: "recv_from_socket 3 False (Some [Chunk [1, 2], Chunk [3, 4]]) = (Inr (Some [1, 2, 3]), True, Some [Chunk [4]])"
    by (simp add: recv_from_socket_def)
  from recv_exact [OF _ r] r show ?thesis by simp
qed

section \<open>Sending and receiving\<close>

text \<open>Whatever carries a WEB proxy is a state with a send and a receive of its own.\<close>

record 'w carrier_ops =
  o_send :: "bytes \<Rightarrow> 'w \<Rightarrow> unit result \<times> 'w"
  o_recv :: "int \<Rightarrow> 'w \<Rightarrow> bytes option result \<times> 'w"

record socket_writer =
  out :: "bytes list"
  broken :: bool

record 'w tcp =
  t_dc_id :: "int option"
  t_proxy :: "proxy option"
  is_connected :: bool
  mid_message :: bool
  reader :: "read_event list option"
  sock_writer :: "socket_writer option"
  web_carrier :: "'w option"
  records :: "tls_records option"
  t_encrypt :: "cipher option"
  t_decrypt :: "cipher option"

definition tcp_new :: "proxy option \<Rightarrow> int option \<Rightarrow> 'w tcp" where
  "tcp_new proxy dc_id =
     \<lparr>t_dc_id = dc_id, t_proxy = proxy, is_connected = False, mid_message = False, reader = None, sock_writer = None,
      web_carrier = None, records = None, t_encrypt = None, t_decrypt = None\<rparr>"

text \<open>\<open>writer.write(data)\<close> and \<open>drain()\<close>, which raises on a broken connection.\<close>

definition write_drain :: "bytes \<Rightarrow> socket_writer \<Rightarrow> unit result \<times> socket_writer" where
  "write_drain data w = (if broken w then (Inl ConnectionResetError, w) else (Inr (), w\<lparr>out := out w @ [data]\<rparr>))"

definition encrypt_with :: "ctr \<Rightarrow> bytes \<Rightarrow> 'w tcp \<Rightarrow> bytes \<times> 'w tcp" where
  "encrypt_with ctr data t =
     (case t_encrypt t of
        None \<Rightarrow> (data, t)
      | Some c \<Rightarrow> (case ctr256_encrypt ctr data c of (e, c) \<Rightarrow> (e, t\<lparr>t_encrypt := Some c\<rparr>)))"

definition tcp_send :: "ctr \<Rightarrow> 'w carrier_ops \<Rightarrow> bytes \<Rightarrow> 'w tcp \<Rightarrow> unit result \<times> 'w tcp" where
  "tcp_send ctr ops data t =
     (if \<not> is_connected t then (Inl OSError, t)
      else if web_carrier t = None \<and> sock_writer t = None then (Inl OSError, t)
      else (case encrypt_with ctr data t of
              (data, t) \<Rightarrow>
                (case web_carrier t of
                   Some w \<Rightarrow>
                     (case o_send ops data w of
                        (Inl e, w) \<Rightarrow> (Inl OSError, t\<lparr>web_carrier := Some w\<rparr>)
                      | (Inr u, w) \<Rightarrow> (Inr u, t\<lparr>web_carrier := Some w\<rparr>))
                 | None \<Rightarrow>
                     (case (case records t of
                              None \<Rightarrow> (data, t)
                            | Some r \<Rightarrow> (case wrap data r of (d, r) \<Rightarrow> (d, t\<lparr>records := Some r\<rparr>))) of
                        (data, t) \<Rightarrow>
                          (case write_drain data (the (sock_writer t)) of
                             (Inl e, w) \<Rightarrow> (Inl OSError, t\<lparr>sock_writer := Some w\<rparr>)
                           | (Inr u, w) \<Rightarrow> (Inr u, t\<lparr>sock_writer := Some w\<rparr>))))))"

text \<open>The socket of a connection as a pipe over \<open>mid_message\<close> and the reader.\<close>

definition socket_pipe :: "(bool \<times> read_event list option) pipe" where
  "socket_pipe n s = (case recv_from_socket n (fst s) (snd s) of (r, mid, rd) \<Rightarrow> (r, (mid, rd)))"

definition tcp_recv :: "ctr \<Rightarrow> 'w carrier_ops \<Rightarrow> nat \<Rightarrow> int \<Rightarrow> 'w tcp \<Rightarrow> bytes option result \<times> 'w tcp" where
  "tcp_recv ctr ops fuel n t =
     (if n \<le> 0 then (Inr (Some []), t)
      else if MAX_FRAME_SIZE < n then (Inl OSError, t)
      else (case (case web_carrier t of
                    Some w \<Rightarrow> (case o_recv ops n w of (r, w) \<Rightarrow> (r, t\<lparr>web_carrier := Some w\<rparr>))
                  | None \<Rightarrow>
                      (case records t of
                         Some rs \<Rightarrow>
                           (case records_recv fuel socket_pipe n (rs, (mid_message t, reader t)) of
                              (r, rs, mid, rd) \<Rightarrow> (r, t\<lparr>records := Some rs, mid_message := mid, reader := rd\<rparr>))
                       | None \<Rightarrow>
                           (case socket_pipe n (mid_message t, reader t) of
                              (r, mid, rd) \<Rightarrow> (r, t\<lparr>mid_message := mid, reader := rd\<rparr>)))) of
              (Inr (Some data), t) \<Rightarrow>
                (case t_decrypt t of
                   None \<Rightarrow> (Inr (Some data), t)
                 | Some c \<Rightarrow> (case ctr256_decrypt ctr data c of (p, c) \<Rightarrow> (Inr (Some p), t\<lparr>t_decrypt := Some c\<rparr>)))
            | (r, t) \<Rightarrow> (r, t)))"

definition tcp_close :: "'w tcp \<Rightarrow> 'w tcp" where
  "tcp_close t =
     (let t = t\<lparr>is_connected := False\<rparr> in
      case web_carrier t of Some w \<Rightarrow> t\<lparr>web_carrier := None\<rparr> | None \<Rightarrow> t)"

end
