(* ===== verification/Connection.thy ===== *)
theory Connection
  imports Tcp
begin

text \<open>
  Opening a connection: the stream through no proxy, a dialed proxy, an MTProxy in its three forms or a
  WEB proxy (\<open>tcp.py\<close>), the framing on top of it (the \<open>tcp_*.py\<close> transports), and the connection
  that picks, opens, retries and uses them (\<open>connection.py\<close>).
\<close>

section \<open>Transports\<close>

datatype transport =
  TCPFull | TCPAbridged | TCPAbridgedO | TCPIntermediate | TCPIntermediateO | TCPPaddedIntermediate | TCPPaddedIntermediateO

fun OBFUSCATE_TAG :: "transport \<Rightarrow> bytes option" where
  "OBFUSCATE_TAG TCPAbridged = Some ABRIDGED_OBFUSCATE_TAG"
| "OBFUSCATE_TAG TCPPaddedIntermediate = Some PADDED_INTERMEDIATE_OBFUSCATE_TAG"
| "OBFUSCATE_TAG _ = None"

definition transport_class_for :: "proxy option \<Rightarrow> transport \<Rightarrow> transport" where
  "transport_class_for proxy dflt = (if uses_random_padding proxy then TCPPaddedIntermediate else dflt)"

text \<open>The checks of an obfuscated handshake, and the bare key.\<close>

definition obfuscated2_secret :: "transport \<Rightarrow> 'w tcp \<Rightarrow> bytes \<Rightarrow> bytes result" where
  "obfuscated2_secret k t secret =
     (if t_dc_id t = None then Inl ValueError
      else if OBFUSCATE_TAG k = None \<or> OBFUSCATE_TAG k = Some [] then Inl ValueError
      else if uses_random_padding (t_proxy t) \<and> OBFUSCATE_TAG k \<noteq> Some PADDED_INTERMEDIATE_OBFUSCATE_TAG then Inl ValueError
      else if length secret = MARKED_SECRET_SIZE then Inr (drop 1 secret)
      else Inr secret)"

fun is_web_proxy :: "proxy option \<Rightarrow> bool" where
  "is_web_proxy (Some (WebProxy _ _)) = True"
| "is_web_proxy _ = False"

fun opens_with_obfuscated2_header :: "proxy option \<Rightarrow> bool" where
  "opens_with_obfuscated2_header (Some (WebProxy _ _)) = True"
| "opens_with_obfuscated2_header (Some (MTProxy _ _ _ _)) = True"
| "opens_with_obfuscated2_header _ = False"

section \<open>Opening a stream\<close>

text \<open>
  What is not this code: dialing (the reads the new socket will give), the carrier of a WEB proxy, the
  primitives, the random draws and the clock.
\<close>

record 'w net =
  n_dial :: "ustr \<times> int \<Rightarrow> read_event list result"
  n_socks :: "proxy \<Rightarrow> ustr \<times> int \<Rightarrow> read_event list result"
  n_carrier :: "ustr \<Rightarrow> bytes \<Rightarrow> unit result \<times> 'w"
  n_ops :: "'w carrier_ops"
  n_sha256 :: "bytes \<Rightarrow> bytes"
  n_hmac :: "bytes \<Rightarrow> bytes \<Rightarrow> bytes"
  n_ctr :: ctr
  n_draws :: "bytes list"
  n_tape :: tape
  n_ech :: nat
  n_time :: int

definition attach :: "read_event list \<Rightarrow> 'w tcp \<Rightarrow> 'w tcp" where
  "attach es t = t\<lparr>reader := Some es, sock_writer := Some \<lparr>out = [], broken = False\<rparr>\<rparr>"

definition connect_via_direct :: "'w net \<Rightarrow> ustr \<times> int \<Rightarrow> 'w tcp \<Rightarrow> unit result \<times> 'w tcp" where
  "connect_via_direct net destination t =
     (case n_dial net destination of Inl e \<Rightarrow> (Inl e, t) | Inr es \<Rightarrow> (Inr (), attach es t))"

fun is_dialed :: "proxy option \<Rightarrow> bool" where
  "is_dialed (Some (SOCKS4Proxy _ _ _ _)) = True"
| "is_dialed (Some (SOCKS5Proxy _ _ _ _)) = True"
| "is_dialed (Some (HTTPProxy _ _ _ _)) = True"
| "is_dialed _ = False"

definition connect_via_socks_proxy :: "'w net \<Rightarrow> ustr \<times> int \<Rightarrow> 'w tcp \<Rightarrow> unit result \<times> 'w tcp" where
  "connect_via_socks_proxy net destination t =
     (if \<not> is_dialed (t_proxy t) then (Inl ValueError, t)
      else (case n_socks net (the (t_proxy t)) destination of Inl e \<Rightarrow> (Inl e, t) | Inr es \<Rightarrow> (Inr (), attach es t)))"

text \<open>A result and the state after it, and what goes on when it is one.\<close>

definition bindT :: "'a result \<times> 's \<Rightarrow> ('a \<Rightarrow> 's \<Rightarrow> 'b result \<times> 's) \<Rightarrow> 'b result \<times> 's" where
  "bindT m f = (case m of (Inl e, t) \<Rightarrow> (Inl e, t) | (Inr x, t) \<Rightarrow> f x t)"

lemma bindT_simps [simp]: "bindT (Inl e, t) f = (Inl e, t)" "bindT (Inr x, t) f = f x t"
  by (simp_all add: bindT_def)

lemma bindT_Inr: "bindT m f = (Inr y, t') \<longleftrightarrow> (\<exists>x t. m = (Inr x, t) \<and> f x t = (Inr y, t'))"
  by (auto simp: bindT_def split: prod.splits sum.splits)

text \<open>Written straight to the socket, past framing and encryption.\<close>

definition write_raw :: "bytes \<Rightarrow> 'w tcp \<Rightarrow> unit result \<times> 'w tcp" where
  "write_raw data t =
     (case sock_writer t of
        None \<Rightarrow> (Inl AttributeError, t)
      | Some w \<Rightarrow> (case write_drain data w of (r, w) \<Rightarrow> (r, t\<lparr>sock_writer := Some w\<rparr>)))"

definition recv_raw :: "int \<Rightarrow> 'w tcp \<Rightarrow> bytes option result \<times> 'w tcp" where
  "recv_raw n t =
     (case recv_from_socket n (mid_message t) (reader t) of (r, mid, rd) \<Rightarrow> (r, t\<lparr>mid_message := mid, reader := rd\<rparr>))"

definition some_or_oserror :: "bytes option result \<times> 's \<Rightarrow> bytes result \<times> 's" where
  "some_or_oserror m = (case m of (Inl e, t) \<Rightarrow> (Inl e, t) | (Inr None, t) \<Rightarrow> (Inl OSError, t) | (Inr (Some d), t) \<Rightarrow> (Inr d, t))"

fun read_greeting_parts :: "bytes list \<Rightarrow> bytes \<Rightarrow> 'w tcp \<Rightarrow> bytes result \<times> 'w tcp" where
  "read_greeting_parts [] response t = (Inr response, t)"
| "read_greeting_parts (prefix # prefixes) response t =
     bindT (some_or_oserror (recv_raw (int (length prefix + RECORD_LENGTH_SIZE)) t)) (\<lambda>head t.
       if take (length prefix) head \<noteq> prefix then (Inl OSError, t)
       else bindT (some_or_oserror (recv_raw (int (be_nat (drop (length head - RECORD_LENGTH_SIZE) head))) t)) (\<lambda>body t.
         read_greeting_parts prefixes (response @ head @ body) t))"

definition read_greeting_response :: "'w tcp \<Rightarrow> bytes result \<times> 'w tcp" where
  "read_greeting_response t = read_greeting_parts GREETING_RESPONSE_PREFIXES [] t"

definition greet_fake_tls_proxy :: "'w net \<Rightarrow> ustr \<Rightarrow> bytes \<Rightarrow> 'w tcp \<Rightarrow> unit result \<times> 'w tcp" where
  "greet_fake_tls_proxy net domain secret t =
     (case build_client_hello (n_hmac net) (n_tape net) (n_ech net) domain secret (n_time net) 0 of
        None \<Rightarrow> (Inl OutOfFuel, t)
      | Some (Inl e, _) \<Rightarrow> (Inl e, t)
      | Some (Inr (hello, random), _) \<Rightarrow>
          bindT (write_raw hello t) (\<lambda>_ t.
          bindT (read_greeting_response t) (\<lambda>response t.
            if server_hello_is_authentic (n_hmac net) response secret random then (Inr (), t) else (Inl OSError, t))))"

definition header_for :: "'w net \<Rightarrow> transport \<Rightarrow> bytes \<Rightarrow> 'w tcp \<Rightarrow> obfuscated2_header result" where
  "header_for net k secret t =
     bindR (build_obfuscated2_header (n_sha256 net) (n_ctr net) secret (the (t_dc_id t)) (the (OBFUSCATE_TAG k)) (n_draws net))
       (\<lambda>(h, _). Inr h)"

definition keyed :: "obfuscated2_header \<Rightarrow> 'w tcp \<Rightarrow> 'w tcp" where
  "keyed h t = t\<lparr>t_encrypt := Some (h_encrypt h), t_decrypt := Some (h_decrypt h)\<rparr>"

definition connect_via_mtproxy :: "'w net \<Rightarrow> transport \<Rightarrow> 'w tcp \<Rightarrow> unit result \<times> 'w tcp" where
  "connect_via_mtproxy net k t =
     (case t_proxy t of
        Some (MTProxy hostname port secret sni_hostname) \<Rightarrow>
          bindT (obfuscated2_secret k t secret, t) (\<lambda>bare t.
          bindT (connect_via_direct net (hostname, port) t) (\<lambda>_ t.
          bindT (header_for net k bare t, t) (\<lambda>built t.
          bindT (case sni_hostname of
                   None \<Rightarrow> write_raw (header built) t
                 | Some domain \<Rightarrow>
                     bindT (greet_fake_tls_proxy net domain bare t) (\<lambda>_ t.
                       (Inr (), t\<lparr>records := Some (FakeTlsRecords (header built))\<rparr>))) (\<lambda>_ t.
          (Inr (), keyed built t)))))
      | _ \<Rightarrow> (Inl AttributeError, t))"

text \<open>A carrier error becomes an \<open>OSError\<close> and forgets the carrier.\<close>

definition carrier_failure :: "py_exn \<Rightarrow> 'w tcp \<Rightarrow> unit result \<times> 'w tcp" where
  "carrier_failure e t = (if e = WebCarrierError then (Inl OSError, t\<lparr>web_carrier := None\<rparr>) else (Inl e, t))"

definition connect_via_web_proxy :: "'w net \<Rightarrow> transport \<Rightarrow> 'w tcp \<Rightarrow> unit result \<times> 'w tcp" where
  "connect_via_web_proxy net k t =
     (case t_proxy t of
        Some (WebProxy hostname secret) \<Rightarrow>
          bindT (obfuscated2_secret k t secret, t) (\<lambda>bare t.
            case n_carrier net hostname secret of
              (Inl e, w) \<Rightarrow> carrier_failure e (t\<lparr>web_carrier := Some w\<rparr>)
            | (Inr _, w) \<Rightarrow>
                bindT (header_for net k bare (t\<lparr>web_carrier := Some w\<rparr>), t\<lparr>web_carrier := Some w\<rparr>) (\<lambda>built t.
                  let t = keyed built t in
                  case o_send (n_ops net) (header built) w of
                    (Inl e, w) \<Rightarrow> carrier_failure e (t\<lparr>web_carrier := Some w\<rparr>)
                  | (Inr _, w) \<Rightarrow> (Inr (), t\<lparr>web_carrier := Some w\<rparr>)))
      | _ \<Rightarrow> (Inl AttributeError, t))"

text \<open>\<open>_connect\<close> picks the way, and \<open>connect\<close> marks the connection open.\<close>

definition connect_stream :: "'w net \<Rightarrow> transport \<Rightarrow> ustr \<times> int \<Rightarrow> 'w tcp \<Rightarrow> unit result \<times> 'w tcp" where
  "connect_stream net k destination t =
     (if is_web_proxy (t_proxy t) then connect_via_web_proxy net k t
      else (case t_proxy t of
              Some (MTProxy _ _ _ _) \<Rightarrow> connect_via_mtproxy net k t
            | Some _ \<Rightarrow> connect_via_socks_proxy net destination t
            | None \<Rightarrow> connect_via_direct net destination t))"

definition tcp_connect :: "'w net \<Rightarrow> transport \<Rightarrow> ustr \<times> int \<Rightarrow> 'w tcp \<Rightarrow> unit result \<times> 'w tcp" where
  "tcp_connect net k destination t =
     bindT (connect_stream net k destination t) (\<lambda>_ t. (Inr (), t\<lparr>is_connected := True\<rparr>))"

section \<open>The framing on top\<close>

record 'w framed =
  f_tcp :: "'w tcp"
  f_seq_no :: "int option"
  f_encrypt :: "cipher option"
  f_decrypt :: "cipher option"

definition framed_new :: "proxy option \<Rightarrow> int option \<Rightarrow> 'w framed" where
  "framed_new proxy dc_id = \<lparr>f_tcp = tcp_new proxy dc_id, f_seq_no = None, f_encrypt = None, f_decrypt = None\<rparr>"

definition lift_tcp :: "('w tcp \<Rightarrow> unit result \<times> 'w tcp) \<Rightarrow> 'w framed \<Rightarrow> unit result \<times> 'w framed" where
  "lift_tcp g f = (case g (f_tcp f) of (r, t) \<Rightarrow> (r, f\<lparr>f_tcp := t\<rparr>))"

definition o_connect :: "'w net \<Rightarrow> bytes list \<Rightarrow> byte \<Rightarrow> 'w framed \<Rightarrow> unit result \<times> 'w framed" where
  "o_connect net reserved tag f =
     (case o_header (n_ctr net) reserved tag (n_draws net) of
        None \<Rightarrow> (Inl OutOfFuel, f)
      | Some (h, _) \<Rightarrow>
          lift_tcp (tcp_send (n_ctr net) (n_ops net) (header h))
            (f\<lparr>f_encrypt := Some (h_encrypt h), f_decrypt := Some (h_decrypt h)\<rparr>))"

definition framed_connect :: "'w net \<Rightarrow> transport \<Rightarrow> ustr \<times> int \<Rightarrow> 'w framed \<Rightarrow> unit result \<times> 'w framed" where
  "framed_connect net k address f =
     bindT (lift_tcp (tcp_connect net k address) f) (\<lambda>_ f.
       let send = (\<lambda>d. lift_tcp (tcp_send (n_ctr net) (n_ops net) d) f) in
       case k of
         TCPFull \<Rightarrow> (Inr (), f\<lparr>f_seq_no := Some 0\<rparr>)
       | TCPAbridged \<Rightarrow> if opens_with_obfuscated2_header (t_proxy (f_tcp f)) then (Inr (), f) else send [0xEF]
       | TCPIntermediate \<Rightarrow> send [0xEE, 0xEE, 0xEE, 0xEE]
       | TCPPaddedIntermediate \<Rightarrow>
           if opens_with_obfuscated2_header (t_proxy (f_tcp f)) then (Inr (), f) else send PADDED_INTERMEDIATE_OBFUSCATE_TAG
       | TCPAbridgedO \<Rightarrow> o_connect net O_RESERVED 0xEF f
       | TCPIntermediateO \<Rightarrow> o_connect net O_RESERVED 0xEE f
       | TCPPaddedIntermediateO \<Rightarrow> o_connect net PADDED_O_RESERVED 0xDD f)"

text \<open>The frame of a message, from a random padding where the framing has one.\<close>

definition frame_of :: "transport \<Rightarrow> bytes \<Rightarrow> bytes \<Rightarrow> 'w framed \<Rightarrow> bytes result \<times> 'w framed" where
  "frame_of k padding data f =
     (case k of
        TCPFull \<Rightarrow>
          (case f_seq_no f of
             None \<Rightarrow> (Inl StructError, f)
           | Some q \<Rightarrow> (case full_send q data of (r, q) \<Rightarrow> (r, f\<lparr>f_seq_no := Some q\<rparr>)))
      | TCPAbridged \<Rightarrow> (abridged_send data, f)
      | TCPAbridgedO \<Rightarrow> (abridged_send data, f)
      | TCPIntermediate \<Rightarrow> (intermediate_send data, f)
      | TCPIntermediateO \<Rightarrow> (intermediate_send data, f)
      | TCPPaddedIntermediate \<Rightarrow> (padded_send padding data, f)
      | TCPPaddedIntermediateO \<Rightarrow> (padded_send padding data, f))"

definition o_encrypt :: "ctr \<Rightarrow> bytes \<Rightarrow> 'w framed \<Rightarrow> bytes \<times> 'w framed" where
  "o_encrypt ctr data f =
     (case f_encrypt f of
        None \<Rightarrow> (data, f)
      | Some c \<Rightarrow> (case ctr256_encrypt ctr data c of (e, c) \<Rightarrow> (e, f\<lparr>f_encrypt := Some c\<rparr>)))"

definition framed_send :: "'w net \<Rightarrow> transport \<Rightarrow> bytes \<Rightarrow> bytes \<Rightarrow> 'w framed \<Rightarrow> unit result \<times> 'w framed" where
  "framed_send net k padding data f =
     bindT (frame_of k padding data f) (\<lambda>w f.
       case o_encrypt (n_ctr net) w f of
         (w, f) \<Rightarrow> lift_tcp (tcp_send (n_ctr net) (n_ops net) w) f)"

text \<open>The receivers run over \<open>TCP.recv\<close>; the obfuscated ones keep their own position.\<close>

definition lift_recv :: "('w tcp \<Rightarrow> bytes option result \<times> 'w tcp) \<Rightarrow> 'w framed \<Rightarrow> bytes option result \<times> 'w framed" where
  "lift_recv g f = (case g (f_tcp f) of (r, t) \<Rightarrow> (r, f\<lparr>f_tcp := t\<rparr>))"

definition lift_o_recv ::
  "ctr \<Rightarrow> ((nat \<Rightarrow> byte) \<Rightarrow> nat \<times> 'w tcp \<Rightarrow> bytes option result \<times> (nat \<times> 'w tcp)) \<Rightarrow> 'w framed \<Rightarrow> bytes option result \<times> 'w framed" where
  "lift_o_recv ctr g f =
     (case f_decrypt f of
        None \<Rightarrow> (Inl AttributeError, f)
      | Some c \<Rightarrow>
          (case g (ctr (c_key c) (c_iv c)) (c_pos c, f_tcp f) of
             (r, pos, t) \<Rightarrow> (r, f\<lparr>f_tcp := t, f_decrypt := Some (c\<lparr>c_pos := pos\<rparr>)\<rparr>)))"

definition framed_recv :: "'w net \<Rightarrow> transport \<Rightarrow> nat \<Rightarrow> 'w framed \<Rightarrow> bytes option result \<times> 'w framed" where
  "framed_recv net k fuel f =
     (let p = tcp_recv (n_ctr net) (n_ops net) fuel in
      case k of
        TCPFull \<Rightarrow> lift_recv (full_recv p) f
      | TCPAbridged \<Rightarrow> lift_recv (abridged_recv p) f
      | TCPIntermediate \<Rightarrow> lift_recv (intermediate_recv p) f
      | TCPPaddedIntermediate \<Rightarrow> lift_recv (padded_recv p) f
      | TCPAbridgedO \<Rightarrow> lift_o_recv (n_ctr net) (\<lambda>ks. abridged_o_recv ks p) f
      | TCPIntermediateO \<Rightarrow> lift_o_recv (n_ctr net) (\<lambda>ks. intermediate_o_recv ks p) f
      | TCPPaddedIntermediateO \<Rightarrow> lift_o_recv (n_ctr net) (\<lambda>ks. padded_o_recv ks p) f)"

section \<open>The connection\<close>

definition TEST_MODE_DC_ID_SHIFT :: int where "TEST_MODE_DC_ID_SHIFT = 10000"

definition protocol_dc_id :: "int \<Rightarrow> bool \<Rightarrow> bool \<Rightarrow> int" where
  "protocol_dc_id dc_id test_mode media =
     (let shifted = dc_id + (if test_mode then TEST_MODE_DC_ID_SHIFT else 0) in if media then - shifted else shifted)"

definition TRANSPORT_ERRORS :: "int \<Rightarrow> string option" where
  "TRANSPORT_ERRORS = (\<lambda>_. None)(404 := Some ''auth key not found'', 429 := Some ''transport flood'', 444 := Some ''invalid DC'')"

definition transport_error :: "bytes option \<Rightarrow> ustr option" where
  "transport_error packet =
     (if packet \<noteq> None \<and> 4 < length (the packet) then None
      else if packet = None \<or> length (the packet) < 4 then Some (ustr ''Connection closed by the server'')
      else (let error_code = - le_int True (the packet) in
            Some (ustr ''Server sent transport error: '' @ py_str_int error_code @ ustr '' (''
                  @ ustr (case TRANSPORT_ERRORS error_code of Some s \<Rightarrow> s | None \<Rightarrow> ''unknown error'') @ ustr '')'')))"

record connection =
  k_factory :: transport
  k_proxy :: "proxy option"
  k_address :: "ustr \<times> int"
  k_dc_id :: int

definition connection_init ::
  "int \<Rightarrow> bool \<Rightarrow> bool \<Rightarrow> proxy option \<Rightarrow> bool \<Rightarrow> transport \<Rightarrow> ustr option \<Rightarrow> int option \<Rightarrow> connection result" where
  "connection_init dc_id test_mode ipv6 proxy media protocol_factory server_address port =
     bindR (if text_truthy server_address \<and> port \<noteq> None \<and> port \<noteq> Some 0 then Inr (the server_address, the port)
            else bindR (get_dc_address dc_id test_mode ipv6 media) (\<lambda>(ip, p). Inr (ustr ip, p)))
       (\<lambda>address. Inr \<lparr>k_factory = transport_class_for proxy protocol_factory, k_proxy = proxy, k_address = address,
                       k_dc_id = protocol_dc_id dc_id test_mode media\<rparr>)"

definition MAX_CONNECTION_ATTEMPTS :: nat where "MAX_CONNECTION_ATTEMPTS = 3"

text \<open>
  Every attempt makes a new transport, in the surroundings it meets; an \<open>OSError\<close> (a timeout among
  them) closes it and waits a second, any other exception goes through.
\<close>

datatype step_taken = Attempted | ClosedTransport | SleptSecond

fun connect_attempts ::
  "nat \<Rightarrow> (nat \<Rightarrow> 'w net) \<Rightarrow> connection \<Rightarrow> nat \<Rightarrow> 'w framed \<Rightarrow> (unit result \<times> 'w framed) \<times> step_taken list" where
  "connect_attempts 0 nets k i f = ((Inl ConnectionError, f), [])"
| "connect_attempts (Suc n) nets k i f =
     (case framed_connect (nets i) (k_factory k) (k_address k) (framed_new (k_proxy k) (Some (k_dc_id k))) of
        (Inr u, f) \<Rightarrow> ((Inr u, f), [Attempted])
      | (Inl e, f) \<Rightarrow>
          if is_OSError e then
            (case connect_attempts n nets k (i + 1) (f\<lparr>f_tcp := tcp_close (f_tcp f)\<rparr>) of
               (r, steps) \<Rightarrow> (r, Attempted # ClosedTransport # SleptSecond # steps))
          else ((Inl e, f), [Attempted]))"

definition connection_connect :: "(nat \<Rightarrow> 'w net) \<Rightarrow> connection \<Rightarrow> (unit result \<times> 'w framed) \<times> step_taken list" where
  "connection_connect nets k =
     connect_attempts MAX_CONNECTION_ATTEMPTS nets k 0 (framed_new (k_proxy k) (Some (k_dc_id k)))"

definition connection_send :: "'w net \<Rightarrow> connection \<Rightarrow> bytes \<Rightarrow> bytes \<Rightarrow> 'w framed \<Rightarrow> unit result \<times> 'w framed" where
  "connection_send net k padding data f = framed_send net (k_factory k) padding data f"

definition connection_recv :: "'w net \<Rightarrow> connection \<Rightarrow> nat \<Rightarrow> 'w framed \<Rightarrow> bytes option result \<times> 'w framed" where
  "connection_recv net k fuel f = framed_recv net (k_factory k) fuel (f\<lparr>f_tcp := (f_tcp f)\<lparr>mid_message := False\<rparr>\<rparr>)"

section \<open>Configured proxies open streams\<close>

fun proxy_secret :: "proxy \<Rightarrow> bytes" where
  "proxy_secret (MTProxy _ _ s _) = s"
| "proxy_secret (WebProxy _ s) = s"
| "proxy_secret _ = []"

text \<open>What every proxy with a secret has been through.\<close>

definition secret_checked :: "proxy \<Rightarrow> bool" where
  "secret_checked p =
     (case p of
        MTProxy _ _ s sni \<Rightarrow> (length s = 16 \<or> length s = 17 \<and> sni = None)
      | WebProxy _ s \<Rightarrow> (length s = 16 \<or> length s = 17)
      | _ \<Rightarrow> True)"

lemma built_checked:
  "build_web_proxy lib h e = Inr p \<Longrightarrow> secret_checked p"
  "build_mtproxy h port e = Inr p \<Longrightarrow> secret_checked p"
  "build_dialed_proxy sc h port u pw = Inr p \<Longrightarrow> secret_checked p"
  by (auto simp: build_web_proxy_def build_mtproxy_def build_dialed_proxy_def bindR_Inr_iff secret_checked_def
      OBFUSCATED2_SECRET_SIZE_def MARKED_SECRET_SIZE_def dest!: decoded_secret_shape
      split: option.splits elim!: dialed_proxy_type.elims)

lemma parsed_checked:
  "parse_proxy_link lib s = Inr p \<Longrightarrow> secret_checked p"
  "parse_proxy_dict lib d = Inr p \<Longrightarrow> secret_checked p"
  by (auto simp: parse_proxy_link_def parse_proxy_dict_def Let_def bindR_Inr_iff
      split: option.splits if_splits dest: built_checked)

lemma normalized_checked:
  assumes "normalize_proxy lib arg = Inr (Some p)" "\<And>q. arg \<noteq> ArgProxy q"
  shows "secret_checked p"
  using assms by (cases arg) (auto simp: bindR_Inr_iff split: if_splits dest: parsed_checked)

lemma bare_secret:
  assumes "secret_checked p" "opens_with_obfuscated2_header (Some p)" "OBFUSCATE_TAG k \<noteq> None"
  defines "k' \<equiv> transport_class_for (Some p) k"
  shows "\<exists>bare. obfuscated2_secret k' (tcp_new (Some p) (Some dc)) (proxy_secret p) = Inr bare \<and> length bare = 16 \<and>
     length (the (OBFUSCATE_TAG k')) = 4"
proof -
  have k': "k' = TCPPaddedIntermediate \<or> k' = TCPAbridged" "uses_random_padding (Some p) \<Longrightarrow> k' = TCPPaddedIntermediate"
    using assms(3) unfolding k'_def transport_class_for_def by (cases k; simp)+
  have l: "length (proxy_secret p) = 16 \<or> length (proxy_secret p) = 17"
    using assms(1,2) by (cases p) (auto simp: secret_checked_def)
  have t: "OBFUSCATE_TAG k' \<noteq> None" "OBFUSCATE_TAG k' \<noteq> Some []" "length (the (OBFUSCATE_TAG k')) = 4"
    using k'(1) by (auto simp: ABRIDGED_OBFUSCATE_TAG_def PADDED_INTERMEDIATE_OBFUSCATE_TAG_def)
  show ?thesis
    using k'(2) l t by (auto simp: obfuscated2_secret_def tcp_new_def MARKED_SECRET_SIZE_def OBFUSCATED2_SECRET_SIZE_def)
qed

lemma protocol_dc_id_fits: "0 < dc_id \<Longrightarrow> dc_id < 22768 \<Longrightarrow> fits True 2 (protocol_dc_id dc_id test_mode media)"
  by (auto simp: protocol_dc_id_def fits_def TEST_MODE_DC_ID_SHIFT_def Let_def)

text \<open>
  A proxy with a secret that was accepted from a link or a dictionary never fails later: the
  transport the connection picks for it passes the checks, the bare key has sixteen bytes, and the
  header built for any data center, test or media, is read back by the holder of that key.
\<close>

theorem accepted_proxy_connects:
  fixes net :: "'w net"
  assumes "normalize_proxy lib arg = Inr (Some p)" "\<And>q. arg \<noteq> ArgProxy q" "opens_with_obfuscated2_header (Some p)"
    and "OBFUSCATE_TAG k \<noteq> None" "0 < dc_id" "dc_id < 22768"
    and "\<forall>d \<in> set (n_draws net). length d = 64" "\<exists>d \<in> set (n_draws net). nonce_ok OBFUSCATED2_RESERVED_PREFIXES d"
  shows "\<exists>bare h. let k' = transport_class_for (Some p) k; dc = protocol_dc_id dc_id test_mode media;
        t = tcp_new (Some p) (Some dc) in
      obfuscated2_secret k' t (proxy_secret p) = Inr bare \<and> length bare = 16 \<and> header_for net k' bare t = Inr h \<and>
      read_header (\<lambda>x. n_sha256 net (x @ bare)) (n_ctr net) (header h) = ((the (OBFUSCATE_TAG k'), dc), h_encrypt h, h_decrypt h)"
proof -
  let ?k = "transport_class_for (Some p) k" and ?dc = "protocol_dc_id dc_id test_mode media"
  from bare_secret [OF normalized_checked [OF assms(1,2)] assms(3,4)] obtain bare where
    b: "obfuscated2_secret ?k (tcp_new (Some p) (Some ?dc) :: 'w tcp) (proxy_secret p) = Inr bare" "length bare = 16"
    "length (the (OBFUSCATE_TAG ?k)) = 4" by blast
  obtain h rest where h: "build_obfuscated2_header (n_sha256 net) (n_ctr net) bare ?dc (the (OBFUSCATE_TAG ?k)) (n_draws net) = Inr (h, rest)"
    "read_header (\<lambda>x. n_sha256 net (x @ bare)) (n_ctr net) (header h) = ((the (OBFUSCATE_TAG ?k), ?dc), h_encrypt h, h_decrypt h)"
    using obfuscated2_header_read [OF b(2,3) protocol_dc_id_fits [OF assms(5,6)] assms(7,8)] by blast
  then have hf: "header_for net ?k bare (tcp_new (Some p) (Some ?dc)) = Inr h" by (simp add: header_for_def tcp_new_def)
  show ?thesis unfolding Let_def by (intro exI conjI) (rule b(1), rule b(2), rule hf, rule h(2))
qed

definition demo_net :: "unit net" where
  "demo_net = \<lparr>n_dial = (\<lambda>_. Inr []), n_socks = (\<lambda>_ _. Inr []), n_carrier = (\<lambda>_ _. (Inr (), ())),
     n_ops = \<lparr>o_send = (\<lambda>_ w. (Inr (), w)), o_recv = (\<lambda>_ w. (Inr None, w))\<rparr>, n_sha256 = (\<lambda>x. x),
     n_hmac = (\<lambda>_ _. replicate 32 0), n_ctr = (\<lambda>_ _ i. of_nat i), n_draws = [replicate 64 1],
     n_tape = point_tape, n_ech = 144, n_time = 0\<rparr>"

definition demo_dict :: proxy_dict where
  "demo_dict = \<lparr>d_scheme = Some (ustr ''mtproxy''), d_hostname = Some (ustr ''h''), d_port = Some (PortInt 443),
     d_secret = Some (hex_of (0xDD # replicate 16 7)), d_username = None, d_password = None, d_other = False\<rparr>"

lemma demo_normalized: "normalize_proxy demo_lib (ArgDict demo_dict) = Inr (Some (MTProxy (ustr ''h'') 443 (0xDD # replicate 16 7) None))"
proof -
  have "decode_mtproxy_secret (hex_of (0xDD # replicate 16 7)) MTPROXY = Inr (0xDD # replicate 16 7, None)"
    by (simp add: decode_mtproxy_secret_def decode_proxy_secret_def fromhex_hex_of OBFUSCATED2_SECRET_SIZE_def MARKED_SECRET_SIZE_def)
  moreover have "hex_of (0xDD # replicate 16 7) \<noteq> []" "ustr ''h'' \<noteq> []" by (simp_all add: hex_of_def ustr_def)
  ultimately show ?thesis
    by (simp add: demo_dict_def empty_dict_def parse_proxy_dict_def scheme_names text_truthy_def build_mtproxy_def)
qed

lemma demo_nonce: "nonce_ok OBFUSCATED2_RESERVED_PREFIXES (replicate 64 1)"
  by code_simp

lemma accepted_proxy_connects_witness:
  "\<exists>bare h. let p = MTProxy (ustr ''h'') 443 (0xDD # replicate 16 7) None; k' = transport_class_for (Some p) TCPAbridged;
        dc = protocol_dc_id 2 True True; t = tcp_new (Some p) (Some dc) in
      obfuscated2_secret k' t (proxy_secret p) = Inr bare \<and> length bare = 16 \<and> header_for demo_net k' bare t = Inr h \<and>
      read_header (\<lambda>x. n_sha256 demo_net (x @ bare)) (n_ctr demo_net) (header h) = ((the (OBFUSCATE_TAG k'), dc), h_encrypt h, h_decrypt h)"
  using accepted_proxy_connects [OF demo_normalized, of TCPAbridged 2 demo_net True True] demo_nonce
  by (simp add: demo_net_def Let_def)

section \<open>What an MTProxy reads\<close>

fun framed_sends :: "'w net \<Rightarrow> transport \<Rightarrow> (bytes \<times> bytes) list \<Rightarrow> 'w framed \<Rightarrow> unit result \<times> 'w framed" where
  "framed_sends net k [] f = (Inr (), f)"
| "framed_sends net k ((padding, d) # ms) f = bindT (framed_send net k padding d f) (\<lambda>_. framed_sends net k ms)"

definition wire :: "'w framed \<Rightarrow> bytes" where
  "wire f = concat (out (the (sock_writer (f_tcp f))))"

text \<open>The proxy takes the header, then decrypts all that follows with the cipher it found in it.\<close>

definition far_reads :: "(bytes \<Rightarrow> bytes) \<Rightarrow> ctr \<Rightarrow> bytes \<Rightarrow> (bytes \<times> int) \<times> bytes" where
  "far_reads key ctr stream =
     (case read_header key ctr (take 64 stream) of (tag_dc, up, down) \<Rightarrow> (tag_dc, fst (ctr256_decrypt ctr (drop 64 stream) up)))"

definition plain_frame :: "transport \<Rightarrow> bytes \<Rightarrow> bytes \<Rightarrow> bytes result" where
  "plain_frame k padding d = (if k = TCPAbridged then abridged_send d else padded_send padding d)"

text \<open>A stream opened with this header that has carried \<open>sent\<close>.\<close>

definition carried :: "'w net \<Rightarrow> obfuscated2_header \<Rightarrow> bytes \<Rightarrow> 'w framed \<Rightarrow> bool" where
  "carried net h sent f =
     (is_connected (f_tcp f) \<and> web_carrier (f_tcp f) = None \<and> records (f_tcp f) = None \<and> f_encrypt f = None \<and>
      t_encrypt (f_tcp f) = Some ((h_encrypt h)\<lparr>c_pos := 64 + length sent\<rparr>) \<and>
      (\<exists>w. sock_writer (f_tcp f) = Some w \<and> \<not> broken w \<and>
        concat (out w) = header h @ xor_stream (n_ctr net (c_key (h_encrypt h)) (c_iv (h_encrypt h))) 64 sent))"

lemma framed_send_carried:
  assumes c: "carried net h sent f" and k: "k = TCPAbridged \<or> k = TCPPaddedIntermediate"
    and s: "framed_send net k padding d f = (Inr u, f')"
  shows "\<exists>w. plain_frame k padding d = Inr w \<and> carried net h (sent @ w) f'"
proof -
  from k have fr: "frame_of k padding d f = (plain_frame k padding d, f)" by (auto simp: frame_of_def plain_frame_def)
  with s obtain w where w: "plain_frame k padding d = Inr w" by (cases "plain_frame k padding d") (simp_all add: framed_send_def)
  from c have "carried net h (sent @ w) f'"
    using s fr w
    by (auto simp: framed_send_def o_encrypt_def carried_def lift_tcp_def tcp_send_def encrypt_with_def ctr256_encrypt_def
        write_drain_def xor_stream_append add.assoc)
  with w show ?thesis by blast
qed

lemma framed_sends_carried:
  assumes "carried net h sent f" "k = TCPAbridged \<or> k = TCPPaddedIntermediate" "framed_sends net k ms f = (Inr u, f')"
  shows "\<exists>ps. mapR (\<lambda>(padding, d). plain_frame k padding d) ms = Inr ps \<and> carried net h (sent @ concat ps) f'"
  using assms
proof (induction ms arbitrary: sent f)
  case (Cons m ms)
  obtain padding d where m: "m = (padding, d)" by (cases m)
  with Cons.prems(3) obtain v f1 where f1: "framed_send net k padding d f = (Inr v, f1)" "framed_sends net k ms f1 = (Inr u, f')"
    by (auto simp: bindT_Inr)
  from framed_send_carried [OF Cons.prems(1,2) f1(1)] obtain w where w: "plain_frame k padding d = Inr w"
    "carried net h (sent @ w) f1" by blast
  from Cons.IH [OF w(2) Cons.prems(2) f1(2)] w(1) m show ?case by auto
qed simp

lemma built_header_read:
  assumes b: "build_obfuscated2_header sha256 ctr secret dc tag draws = Inr (h, rest)" and l: "\<forall>d \<in> set draws. length d = 64"
  shows "length (header h) = 64 \<and> c_pos (h_encrypt h) = 64 \<and>
    read_header (\<lambda>x. sha256 (x @ secret)) ctr (header h) = ((tag, dc), h_encrypt h, h_decrypt h)"
proof -
  from b obtain n r where g: "generate_obfuscated2_nonce OBFUSCATED2_RESERVED_PREFIXES draws = Some (n, r)"
    by (auto simp: build_obfuscated2_header_def split: if_splits option.splits)
  from b have s: "length secret = 16" "length tag = 4"
    by (auto simp: build_obfuscated2_header_def OBFUSCATED2_SECRET_SIZE_def OBFUSCATE_TAG_SIZE_def split: if_splits)
  from b s g have f: "fits True 2 dc"
    by (auto simp: build_obfuscated2_header_def Let_def bindR_Inr_iff to_bytes_le_Inr OBFUSCATED2_SECRET_SIZE_def OBFUSCATE_TAG_SIZE_def)
  have "\<exists>d \<in> set draws. nonce_ok OBFUSCATED2_RESERVED_PREFIXES d" using generate_nonce [OF g] by blast
  from obfuscated2_header_read [OF s f l this, of sha256 ctr] b
  have r: "length (header h) = 64" "read_header (\<lambda>x. sha256 (x @ secret)) ctr (header h) = ((tag, dc), h_encrypt h, h_decrypt h)"
    by auto
  have "c_pos (fst (snd (read_header key ctr x))) = length x" for key x
    by (simp add: read_header_def ctr256_decrypt_def Let_def)
  from this [of "\<lambda>x. sha256 (x @ secret)" "header h"] r have "c_pos (h_encrypt h) = 64" by simp
  with r show ?thesis by blast
qed

lemma mtproxy_connected:
  fixes net :: "'w net" and host secret port dc
  defines "T \<equiv> tcp_new (Some (MTProxy host port secret None)) (Some dc) :: 'w tcp"
  assumes c: "tcp_connect net k address T = (Inr u, t)"
  shows "\<exists>es bare h. obfuscated2_secret k T secret = Inr bare \<and> header_for net k bare (attach es T) = Inr h \<and>
    t = (keyed h ((attach es T)\<lparr>sock_writer := Some \<lparr>out = [header h], broken = False\<rparr>\<rparr>))\<lparr>is_connected := True\<rparr>"
proof -
  have p: "t_proxy T = Some (MTProxy host port secret None)" by (simp add: T_def tcp_new_def)
  from c obtain t1 where t1: "connect_via_mtproxy net k T = (Inr (), t1)" "t = t1\<lparr>is_connected := True\<rparr>"
    by (auto simp: tcp_connect_def connect_stream_def bindT_Inr p)
  then obtain bare where bare: "obfuscated2_secret k T secret = Inr bare"
    by (cases "obfuscated2_secret k T secret") (simp_all add: connect_via_mtproxy_def p)
  with t1 obtain es where es: "n_dial net (host, port) = Inr es"
    by (cases "n_dial net (host, port)") (simp_all add: connect_via_mtproxy_def p connect_via_direct_def)
  with t1 bare obtain h where h: "header_for net k bare (attach es T) = Inr h"
    by (cases "header_for net k bare (attach es T)") (simp_all add: connect_via_mtproxy_def p connect_via_direct_def)
  have "t1 = keyed h ((attach es T)\<lparr>sock_writer := Some \<lparr>out = [header h], broken = False\<rparr>\<rparr>)"
    using t1(1) bare es h by (simp add: connect_via_mtproxy_def p connect_via_direct_def write_raw_def write_drain_def attach_def)
  with bare h t1(2) show ?thesis by blast
qed

lemma connected_carried:
  fixes net :: "'w net"
  assumes c: "framed_connect net k address (framed_new (Some (MTProxy host port secret None)) (Some dc)) = (Inr u, f)"
    and k: "k = TCPAbridged \<or> k = TCPPaddedIntermediate" and l: "\<forall>d \<in> set (n_draws net). length d = 64"
  shows "\<exists>h. carried net h [] f \<and> length (header h) = 64 \<and>
    read_header (\<lambda>x. n_sha256 net (x @ (if length secret = 17 then drop 1 secret else secret))) (n_ctr net) (header h)
      = ((the (OBFUSCATE_TAG k), dc), h_encrypt h, h_decrypt h)"
proof -
  let ?T = "tcp_new (Some (MTProxy host port secret None)) (Some dc) :: 'w tcp"
  let ?F = "framed_new (Some (MTProxy host port secret None)) (Some dc) :: 'w framed"
  obtain r t where t: "tcp_connect net k address ?T = (r, t)" by (cases "tcp_connect net k address ?T")
  with c have r: "r = Inr ()" by (cases r) (auto simp: framed_connect_def lift_tcp_def framed_new_def)
  from mtproxy_connected [OF t [unfolded r]] obtain es bare h where
    b: "obfuscated2_secret k ?T secret = Inr bare" and h: "header_for net k bare (attach es ?T) = Inr h"
    and t': "t = (keyed h ((attach es ?T)\<lparr>sock_writer := Some \<lparr>out = [header h], broken = False\<rparr>\<rparr>))\<lparr>is_connected := True\<rparr>"
    by blast
  have pt: "t_proxy t = Some (MTProxy host port secret None)" by (simp add: t' keyed_def attach_def tcp_new_def)
  have f: "f = ?F\<lparr>f_tcp := t\<rparr>"
    using c k t r pt by (auto simp: framed_connect_def lift_tcp_def framed_new_def)
  have b': "bare = (if length secret = 17 then drop 1 secret else secret)"
    using b by (auto simp: obfuscated2_secret_def MARKED_SECRET_SIZE_def OBFUSCATED2_SECRET_SIZE_def split: if_splits)
  from h obtain rest where "build_obfuscated2_header (n_sha256 net) (n_ctr net) bare dc (the (OBFUSCATE_TAG k)) (n_draws net) = Inr (h, rest)"
    by (auto simp: header_for_def bindR_Inr_iff attach_def tcp_new_def)
  from built_header_read [OF this l] have hr: "length (header h) = 64" "c_pos (h_encrypt h) = 64"
    "read_header (\<lambda>x. n_sha256 net (x @ bare)) (n_ctr net) (header h) = ((the (OBFUSCATE_TAG k), dc), h_encrypt h, h_decrypt h)"
    by blast+
  have "carried net h [] f"
    using hr(2) by (simp add: carried_def f t' keyed_def attach_def tcp_new_def framed_new_def)
  with hr show ?thesis unfolding b' by blast
qed

text \<open>
  C4. After a connection through an MTProxy with a plain or a padded secret, the proxy, which knows the
  secret, reads off the wire the framing's tag, the data center, and exactly the frames of the messages
  sent, in order, under one keystream; taken apart by the framing they are the messages.
\<close>

theorem mtproxy_stream:
  assumes "framed_connect net k address (framed_new (Some (MTProxy host port secret None)) (Some dc)) = (Inr u, f0)"
    and "k = TCPAbridged \<or> k = TCPPaddedIntermediate" "\<forall>d \<in> set (n_draws net). length d = 64"
    and "framed_sends net k ms f0 = (Inr v, f)"
  defines "key \<equiv> \<lambda>x. n_sha256 net (x @ (if length secret = 17 then drop 1 secret else secret))"
  shows "fst (far_reads key (n_ctr net) (wire f)) = (the (OBFUSCATE_TAG k), dc) \<and>
    (\<exists>ps. mapR (\<lambda>(padding, d). plain_frame k padding d) ms = Inr ps \<and>
      snd (far_reads key (n_ctr net) (wire f)) = concat ps) \<and>
    (k = TCPAbridged \<longrightarrow> (\<forall>(padding, d) \<in> set ms. abridged_good () d) \<longrightarrow>
      receive (abridged_recv byte_pipe) (length ms) (snd (far_reads key (n_ctr net) (wire f))) = (map (Some \<circ> snd) ms, [])) \<and>
    (k = TCPPaddedIntermediate \<longrightarrow> (\<forall>(padding, d) \<in> set ms. padded_good padding d) \<longrightarrow>
      receive (padded_recv byte_pipe) (length ms) (snd (far_reads key (n_ctr net) (wire f))) = (map (Some \<circ> snd) ms, []))"
proof -
  from connected_carried [OF assms(1-3)] obtain h where c: "carried net h [] f0" and l: "length (header h) = 64"
    and r: "read_header key (n_ctr net) (header h) = ((the (OBFUSCATE_TAG k), dc), h_encrypt h, h_decrypt h)"
    unfolding key_def by blast
  from framed_sends_carried [OF c assms(2,4)] obtain ps where ps: "mapR (\<lambda>(padding, d). plain_frame k padding d) ms = Inr ps"
    "carried net h (concat ps) f" by auto
  let ?ks = "n_ctr net (c_key (h_encrypt h)) (c_iv (h_encrypt h))"
  have w: "wire f = header h @ xor_stream ?ks 64 (concat ps)" using ps(2) by (auto simp: carried_def wire_def)
  have "c_pos (fst (snd (read_header key (n_ctr net) (header h)))) = length (header h)"
    by (simp add: read_header_def ctr256_decrypt_def Let_def)
  then have p: "c_pos (h_encrypt h) = 64" using r l by simp
  have fr: "far_reads key (n_ctr net) (wire f) = ((the (OBFUSCATE_TAG k), dc), concat ps)"
    by (simp add: far_reads_def w l r ctr256_decrypt_def p)
  have a: "receive (abridged_recv byte_pipe) (length ms) (concat ps) = (map (Some \<circ> snd) ms, [])"
    if "k = TCPAbridged" "\<forall>(padding, d) \<in> set ms. abridged_good () d"
  proof -
    have "mapR (\<lambda>(u, d). abridged_send d) (map (\<lambda>(padding, d). ((), d)) ms) = Inr ps"
      using ps(1) that(1) by (induction ms arbitrary: ps) (auto simp: plain_frame_def bindR_Inr_iff)
    from abridged.all_received [OF this, of "[]"] that(2) show ?thesis by (simp add: case_prod_beta' comp_def)
  qed
  have b: "receive (padded_recv byte_pipe) (length ms) (concat ps) = (map (Some \<circ> snd) ms, [])"
    if "k = TCPPaddedIntermediate" "\<forall>(padding, d) \<in> set ms. padded_good padding d"
    using padded.all_received [of ms ps "[]"] ps(1) that by (simp add: plain_frame_def)
  show ?thesis unfolding fr using ps(1) a b by simp
qed

lemma mtproxy_stream_witness:
  "\<exists>f0 f. framed_connect demo_net TCPPaddedIntermediate (ustr ''h'', 443)
      (framed_new (Some (MTProxy (ustr ''h'') 443 (0xDD # replicate 16 7) None)) (Some 2)) = (Inr (), f0) \<and>
    framed_sends demo_net TCPPaddedIntermediate [([], [1, 2, 3, 4])] f0 = (Inr (), f) \<and>
    receive (padded_recv byte_pipe) 1 (snd (far_reads (\<lambda>x. x @ replicate 16 7) (n_ctr demo_net) (wire f))) = ([Some [1, 2, 3, 4]], [])"
proof -
  let ?p = "Some (MTProxy (ustr ''h'') 443 (0xDD # replicate 16 7) None)"
  let ?T = "tcp_new ?p (Some 2) :: unit tcp"
  have b: "obfuscated2_secret TCPPaddedIntermediate ?T (0xDD # replicate 16 7) = Inr (replicate 16 7)"
    by (simp add: obfuscated2_secret_def tcp_new_def PADDED_INTERMEDIATE_OBFUSCATE_TAG_def MARKED_SECRET_SIZE_def OBFUSCATED2_SECRET_SIZE_def)
  have "fits True 2 2" "length PADDED_INTERMEDIATE_OBFUSCATE_TAG = 4" "\<forall>d \<in> set (n_draws demo_net). length d = 64"
    by (simp_all add: fits_def PADDED_INTERMEDIATE_OBFUSCATE_TAG_def demo_net_def)
  with obfuscated2_header_read [of "replicate 16 7" PADDED_INTERMEDIATE_OBFUSCATE_TAG 2 "n_draws demo_net" "n_sha256 demo_net" "n_ctr demo_net"]
  obtain h rest where h: "build_obfuscated2_header (n_sha256 demo_net) (n_ctr demo_net) (replicate 16 7) 2 PADDED_INTERMEDIATE_OBFUSCATE_TAG (n_draws demo_net) = Inr (h, rest)"
    using demo_nonce by (auto simp: demo_net_def)
  define f0 where "f0 = snd (framed_connect demo_net TCPPaddedIntermediate (ustr ''h'', 443) (framed_new ?p (Some 2)))"
  have d: "n_dial demo_net a = Inr []" for a by (simp add: demo_net_def)
  have c: "framed_connect demo_net TCPPaddedIntermediate (ustr ''h'', 443) (framed_new ?p (Some 2)) = (Inr (), f0)"
    unfolding f0_def using h b
    by (simp add: framed_connect_def lift_tcp_def tcp_connect_def connect_stream_def connect_via_mtproxy_def framed_new_def
        connect_via_direct_def d header_for_def attach_def write_raw_def write_drain_def keyed_def tcp_new_def)
  obtain g where g: "carried demo_net g [] f0" using connected_carried [OF c] by (auto simp: demo_net_def)
  define f where "f = snd (framed_sends demo_net TCPPaddedIntermediate [([], [1, 2, 3, 4])] f0)"
  have p: "padded_send [] [1, 2, 3, 4] = Inr [4, 0, 0, 0, 1, 2, 3, 4]" by code_simp
  have s: "framed_sends demo_net TCPPaddedIntermediate [([], [1, 2, 3, 4])] f0 = (Inr (), f)"
    unfolding f_def using g
    by (auto simp: framed_send_def frame_of_def p o_encrypt_def carried_def lift_tcp_def tcp_send_def encrypt_with_def
        ctr256_encrypt_def write_drain_def)
  from mtproxy_stream [OF c _ _ s] have "receive (padded_recv byte_pipe) 1
      (snd (far_reads (\<lambda>x. x @ replicate 16 7) (n_ctr demo_net) (wire f))) = ([Some [1, 2, 3, 4]], [])"
    by (simp add: demo_net_def padded_good_def fits_frame_def MAX_FRAME_SIZE_def)
  with c s show ?thesis by blast
qed

section \<open>The fake-TLS greeting\<close>

lemma recv_raw_got:
  assumes "recv_raw n t = (Inr (Some d), t')" "reader t = Some es"
  shows "\<exists>mid es'. t' = t\<lparr>mid_message := mid, reader := Some es'\<rparr> \<and> pending es = d @ pending es'"
proof (cases "n \<le> 0")
  case True
  with assms have "t' = t\<lparr>mid_message := mid_message t, reader := Some es\<rparr>" "d = []"
    by (auto simp: recv_raw_def recv_from_socket_def)
  then show ?thesis by (metis append_Nil)
next
  case False
  with assms obtain mid es' where l: "recv_loop (nat n) [] (mid_message t) es = (Inr (Some d), mid, es')"
    and t': "t' = t\<lparr>mid_message := mid, reader := Some es'\<rparr>"
    by (auto simp: recv_raw_def recv_from_socket_def split: prod.splits)
  from recv_loop_got [OF l] t' show ?thesis by auto
qed

lemma some_or_oserror_Inr: "some_or_oserror m = (Inr d, t) \<longleftrightarrow> m = (Inr (Some d), t)"
  by (auto simp: some_or_oserror_def split: prod.splits sum.splits option.splits)

lemma greeting_parts_got:
  assumes "read_greeting_parts prefixes response t = (Inr r, t')" "reader t = Some es"
  shows "\<exists>mid es' x. t' = t\<lparr>mid_message := mid, reader := Some es'\<rparr> \<and> r = response @ x \<and> pending es = x @ pending es'"
  using assms
proof (induction prefixes arbitrary: response t es)
  case Nil
  then have "t' = t\<lparr>mid_message := mid_message t, reader := Some es\<rparr>" "r = response @ []" by simp_all
  then show ?case by (metis append_Nil)
next
  case (Cons p ps)
  from Cons.prems(1) obtain h t1 b t2 where h: "recv_raw (int (length p + RECORD_LENGTH_SIZE)) t = (Inr (Some h), t1)"
    and b: "recv_raw (int (be_nat (drop (length h - RECORD_LENGTH_SIZE) h))) t1 = (Inr (Some b), t2)"
    and g: "read_greeting_parts ps (response @ h @ b) t2 = (Inr r, t')"
    by (auto simp: bindT_Inr some_or_oserror_Inr split: if_splits)
  from recv_raw_got [OF h Cons.prems(2)] obtain m1 e1 where 1: "t1 = t\<lparr>mid_message := m1, reader := Some e1\<rparr>" "pending es = h @ pending e1" by blast
  then have "reader t1 = Some e1" by simp
  from recv_raw_got [OF b this] obtain m2 e2 where 2: "t2 = t1\<lparr>mid_message := m2, reader := Some e2\<rparr>" "pending e1 = b @ pending e2" by blast
  then have "reader t2 = Some e2" by simp
  from Cons.IH [OF g this] obtain m3 e3 x where 3: "t' = t2\<lparr>mid_message := m3, reader := Some e3\<rparr>" "r = (response @ h @ b) @ x"
    "pending e2 = x @ pending e3" by blast
  show ?case by (intro exI [of _ m3] exI [of _ e3] exI [of _ "h @ b @ x"]) (simp add: 1 2 3)
qed

text \<open>
  C15. A stream behind a fake-TLS secret is open only after a server has proved that it knows the secret:
  by then the greeting is all that was written, the response is what came first and is authentic for
  that greeting's random field, and the obfuscation header still waits for the first record.
\<close>

theorem fake_tls_authenticated:
  fixes net :: "'w net" and host secret port dc domain
  defines "T \<equiv> tcp_new (Some (MTProxy host port secret (Some domain))) (Some dc) :: 'w tcp"
  assumes c: "tcp_connect net k address T = (Inr u, t)"
  shows "\<exists>bare hello random pos response es es' (h :: obfuscated2_header) w.
    obfuscated2_secret k T secret = Inr bare \<and>
    build_client_hello (n_hmac net) (n_tape net) (n_ech net) domain bare (n_time net) 0 = Some (Inr (hello, random), pos) \<and>
    n_dial net (host, port) = Inr es \<and> reader t = Some es' \<and> pending es = response @ pending es' \<and>
    server_hello_is_authentic (n_hmac net) response bare random \<and>
    sock_writer t = Some w \<and> out w = [hello] \<and> records t = Some (FakeTlsRecords (header h)) \<and>
    t_encrypt t = Some (h_encrypt h) \<and> t_decrypt t = Some (h_decrypt h)"
proof -
  have p: "t_proxy T = Some (MTProxy host port secret (Some domain))" by (simp add: T_def tcp_new_def)
  from c obtain t1 where t1: "connect_via_mtproxy net k T = (Inr (), t1)" "t = t1\<lparr>is_connected := True\<rparr>"
    by (auto simp: tcp_connect_def connect_stream_def bindT_Inr p)
  then obtain bare where bare: "obfuscated2_secret k T secret = Inr bare"
    by (cases "obfuscated2_secret k T secret") (simp_all add: connect_via_mtproxy_def p)
  with t1 obtain es where es: "n_dial net (host, port) = Inr es"
    by (cases "n_dial net (host, port)") (simp_all add: connect_via_mtproxy_def p connect_via_direct_def)
  with t1 bare obtain h where h: "header_for net k bare (attach es T) = Inr h"
    by (cases "header_for net k bare (attach es T)") (simp_all add: connect_via_mtproxy_def p connect_via_direct_def)
  from t1(1) bare es h obtain t2 where g: "greet_fake_tls_proxy net domain bare (attach es T) = (Inr (), t2)"
    and t12: "t1 = keyed h (t2\<lparr>records := Some (FakeTlsRecords (header h))\<rparr>)"
    by (auto simp: connect_via_mtproxy_def p connect_via_direct_def bindT_Inr)
  from g obtain hello random pos where b: "build_client_hello (n_hmac net) (n_tape net) (n_ech net) domain bare (n_time net) 0 = Some (Inr (hello, random), pos)"
    by (auto simp: greet_fake_tls_proxy_def split: option.splits sum.splits)
  let ?A = "(attach es T)\<lparr>sock_writer := Some \<lparr>out = [hello], broken = False\<rparr>\<rparr>"
  have w: "write_raw hello (attach es T) = (Inr (), ?A)" by (simp add: write_raw_def attach_def write_drain_def)
  from g b w obtain response where r: "read_greeting_response ?A = (Inr response, t2)"
    and a: "server_hello_is_authentic (n_hmac net) response bare random"
    by (auto simp: greet_fake_tls_proxy_def bindT_Inr split: if_splits)
  have "reader ?A = Some es" by (simp add: attach_def)
  from greeting_parts_got [OF r [unfolded read_greeting_response_def] this] obtain mid es' where
    t2: "t2 = ?A\<lparr>mid_message := mid, reader := Some es'\<rparr>" and pe: "pending es = response @ pending es'" by auto
  have f: "reader t = Some es'" "sock_writer t = Some \<lparr>out = [hello], broken = False\<rparr>" "records t = Some (FakeTlsRecords (header h))"
    "t_encrypt t = Some (h_encrypt h)" "t_decrypt t = Some (h_decrypt h)"
    by (simp_all add: t1(2) t12 t2 keyed_def)
  have o: "out \<lparr>out = [hello], broken = False\<rparr> = [hello]" by simp
  show ?thesis
    by (intro exI conjI) (rule bare, rule b, rule es, rule f(1), rule pe, rule a, rule f(2), rule o, rule f(3), rule f(4), rule f(5))
qed

text \<open>A server whose keyed hash is all zeros, as the demonstration's is, answers with zeros.\<close>

definition demo_response :: bytes where
  "demo_response = [0x16, 0x03, 0x03, 0, 40] @ replicate 40 0 @ CHANGE_CIPHER_SPEC @ [0x17, 0x03, 0x03, 0, 1, 9]"

lemma fake_tls_authenticated_witness:
  "\<exists>t hello. tcp_connect (demo_net\<lparr>n_dial := (\<lambda>_. Inr [Chunk demo_response])\<rparr>) TCPPaddedIntermediate (ustr ''x'', 443)
      (tcp_new (Some (MTProxy (ustr ''h'') 443 (replicate 16 7) (Some (ustr ''a.org'')))) (Some 2)) = (Inr (), t) \<and>
    (\<exists>w. sock_writer t = Some w \<and> out w = [hello]) \<and>
    (\<exists>response es'. reader t = Some es' \<and> demo_response = response @ pending es')"
proof -
  let ?net = "demo_net\<lparr>n_dial := (\<lambda>_. Inr [Chunk demo_response])\<rparr>"
  let ?p = "Some (MTProxy (ustr ''h'') 443 (replicate 16 7) (Some (ustr ''a.org'')))"
  let ?T = "tcp_new ?p (Some 2) :: unit tcp"
  have b: "obfuscated2_secret TCPPaddedIntermediate ?T (replicate 16 7) = Inr (replicate 16 7)"
    by (simp add: obfuscated2_secret_def tcp_new_def PADDED_INTERMEDIATE_OBFUSCATE_TAG_def MARKED_SECRET_SIZE_def OBFUSCATED2_SECRET_SIZE_def)
  have "fits True 2 2" "length PADDED_INTERMEDIATE_OBFUSCATE_TAG = 4" "\<forall>d \<in> set (n_draws demo_net). length d = 64"
    by (simp_all add: fits_def PADDED_INTERMEDIATE_OBFUSCATE_TAG_def demo_net_def)
  with obfuscated2_header_read [of "replicate 16 7" PADDED_INTERMEDIATE_OBFUSCATE_TAG 2 "n_draws demo_net" "n_sha256 demo_net" "n_ctr demo_net"]
  obtain h rest where h: "build_obfuscated2_header (n_sha256 demo_net) (n_ctr demo_net) (replicate 16 7) 2 PADDED_INTERMEDIATE_OBFUSCATE_TAG (n_draws demo_net) = Inr (h, rest)"
    using demo_nonce by (auto simp: demo_net_def)
  have a: "list_all (\<lambda>c. c < 128) (ustr ''a.org'')" by (simp add: ustr_def)
  have k: "build_client_hello (n_hmac demo_net) (n_tape demo_net) (n_ech demo_net) (ustr ''a.org'') (replicate 16 7) (n_time demo_net) 0 \<noteq> None"
    unfolding build_client_hello_def case_prod_beta'
    by (intro bindG_halts) (simp_all add: retG_def ascii_encode_def a Let_def demo_net_def bindG_halts render_halts(2) point_tape_keys)
  obtain hello random pos where g: "build_client_hello (n_hmac demo_net) (n_tape demo_net) (n_ech demo_net) (ustr ''a.org'') (replicate 16 7) (n_time demo_net) 0 = Some (Inr (hello, random), pos)"
  proof -
    from k obtain r pos where r: "build_client_hello (n_hmac demo_net) (n_tape demo_net) (n_ech demo_net) (ustr ''a.org'') (replicate 16 7) (n_time demo_net) 0 = Some (r, pos)"
      by auto
    have "length (ustr ''a.org'') = 5" by (simp add: ustr_def)
    with generated_hello [OF _ _ a r] that r show ?thesis by (auto simp: demo_net_def)
  qed
  let ?A = "(attach [Chunk demo_response] ?T)\<lparr>sock_writer := Some \<lparr>out = [hello], broken = False\<rparr>\<rparr>"
  have r: "read_greeting_response ?A = (Inr demo_response, ?A\<lparr>mid_message := True, reader := Some []\<rparr>)"
    by (simp add: read_greeting_response_def GREETING_RESPONSE_PREFIXES_def CHANGE_CIPHER_SPEC_def APPLICATION_DATA_PREFIX_def
        RECORD_LENGTH_SIZE_def recv_raw_def recv_from_socket_def attach_def tcp_new_def some_or_oserror_def demo_response_def be_nat_def)
  have s: "server_hello_is_authentic (n_hmac demo_net) demo_response (replicate 16 7) random"
    by (simp add: server_hello_is_authentic_def demo_net_def demo_response_def RANDOM_OFFSET_def RANDOM_SIZE_def)
  have "\<exists>t. tcp_connect ?net TCPPaddedIntermediate (ustr ''x'', 443) ?T = (Inr (), t)"
    using h b g r s
    by (simp add: tcp_connect_def connect_stream_def connect_via_mtproxy_def connect_via_direct_def header_for_def
        greet_fake_tls_proxy_def write_raw_def write_drain_def tcp_new_def attach_def)
  then obtain t where t: "tcp_connect ?net TCPPaddedIntermediate (ustr ''x'', 443) ?T = (Inr (), t)" by blast
  have d: "n_dial ?net a = Inr es \<Longrightarrow> pending es = demo_response" for a es by auto
  from fake_tls_authenticated [OF t] t d show ?thesis by metis
qed

section \<open>Attempts\<close>

definition outcome :: "(nat \<Rightarrow> 'w net) \<Rightarrow> connection \<Rightarrow> nat \<Rightarrow> unit result" where
  "outcome nets k i = fst (framed_connect (nets i) (k_factory k) (k_address k) (framed_new (k_proxy k) (Some (k_dc_id k))))"

definition refused :: "unit result \<Rightarrow> bool" where
  "refused r = (case r of Inl e \<Rightarrow> is_OSError e | Inr _ \<Rightarrow> False)"

lemma connect_attempts_outcome:
  "fst (fst (connect_attempts n nets k i f)) =
     (case find (\<lambda>j. \<not> refused (outcome nets k j)) [i..<i + n] of None \<Rightarrow> Inl ConnectionError | Some j \<Rightarrow> outcome nets k j) \<and>
   snd (connect_attempts n nets k i f) =
     (case find (\<lambda>j. \<not> refused (outcome nets k j)) [i..<i + n] of
        None \<Rightarrow> concat (replicate n [Attempted, ClosedTransport, SleptSecond])
      | Some j \<Rightarrow> concat (replicate (j - i) [Attempted, ClosedTransport, SleptSecond]) @ [Attempted])"
proof (induction n arbitrary: i f)
  case (Suc n)
  obtain r g where r: "framed_connect (nets i) (k_factory k) (k_address k) (framed_new (k_proxy k) (Some (k_dc_id k))) = (r, g)"
    by (cases "framed_connect (nets i) (k_factory k) (k_address k) (framed_new (k_proxy k) (Some (k_dc_id k)))")
  have o: "outcome nets k i = r" by (simp add: outcome_def r)
  have u: "[i..<i + Suc n] = i # [Suc i..<Suc i + n]" by (simp add: upt_conv_Cons)
  show ?case
  proof (cases "refused r")
    case True
    then obtain e where e: "r = Inl e" "is_OSError e" by (cases r) (auto simp: refused_def)
    let ?F = "find (\<lambda>j. \<not> refused (outcome nets k j)) [Suc i..<Suc i + n]"
    let ?g = "g\<lparr>f_tcp := tcp_close (f_tcp g)\<rparr>"
    have later: "Suc i \<le> j" if "?F = Some j" for j
    proof -
      from that obtain m where "m < length [Suc i..<Suc i + n]" "j = [Suc i..<Suc i + n] ! m" by (auto simp: find_Some_iff)
      then have "j \<in> set [Suc i..<Suc i + n]" using nth_mem by blast
      then show ?thesis by auto
    qed
    obtain res steps where c: "connect_attempts n nets k (Suc i) ?g = (res, steps)"
      by (cases "connect_attempts n nets k (Suc i) ?g")
    have now: "connect_attempts (Suc n) nets k i f = (res, Attempted # ClosedTransport # SleptSecond # steps)"
      using r e c by simp
    have fnd: "find (\<lambda>j. \<not> refused (outcome nets k j)) [i..<i + Suc n] = ?F"
      unfolding u using True o by simp
    have s: "j - i = Suc (j - Suc i)" if "?F = Some j" for j using later [OF that] by simp
    show ?thesis
      unfolding now fnd using Suc.IH [of "Suc i" ?g] s
      unfolding c by (cases ?F) simp_all
  next
    case False
    then show ?thesis unfolding u using r o by (cases r) (auto simp: refused_def)
  qed
qed simp

text \<open>
  A connection is tried three times at most: the first attempt that is not refused by an \<open>OSError\<close>
  decides, each refused one is closed and followed by a second's sleep, and three refusals are a
  \<open>ConnectionError\<close>.
\<close>

theorem connect_three_attempts:
  "(\<forall>i < 3. (\<forall>j < i. refused (outcome nets k j)) \<longrightarrow> \<not> refused (outcome nets k i) \<longrightarrow>
      fst (fst (connection_connect nets k)) = outcome nets k i \<and>
      snd (connection_connect nets k) = concat (replicate i [Attempted, ClosedTransport, SleptSecond]) @ [Attempted]) \<and>
   ((\<forall>j < 3. refused (outcome nets k j)) \<longrightarrow>
      fst (fst (connection_connect nets k)) = Inl ConnectionError \<and>
      snd (connection_connect nets k) = concat (replicate 3 [Attempted, ClosedTransport, SleptSecond]))"
proof (intro conjI allI impI)
  fix i :: nat assume i: "i < 3" "\<forall>j < i. refused (outcome nets k j)" "\<not> refused (outcome nets k i)"
  then have "find (\<lambda>j. \<not> refused (outcome nets k j)) [0..<0 + MAX_CONNECTION_ATTEMPTS] = Some i"
    by (auto simp: find_Some_iff MAX_CONNECTION_ATTEMPTS_def intro!: exI [of _ i])
  then show "fst (fst (connection_connect nets k)) = outcome nets k i"
    "snd (connection_connect nets k) = concat (replicate i [Attempted, ClosedTransport, SleptSecond]) @ [Attempted]"
    by (simp_all add: connection_connect_def connect_attempts_outcome)
next
  assume a: "\<forall>j < 3. refused (outcome nets k j)"
  then have "find (\<lambda>j. \<not> refused (outcome nets k j)) [0..<0 + MAX_CONNECTION_ATTEMPTS] = None"
    by (auto simp: find_None_iff MAX_CONNECTION_ATTEMPTS_def)
  then show "fst (fst (connection_connect nets k)) = Inl ConnectionError"
    "snd (connection_connect nets k) = concat (replicate 3 [Attempted, ClosedTransport, SleptSecond])"
    by (simp_all add: connection_connect_def connect_attempts_outcome MAX_CONNECTION_ATTEMPTS_def)
qed

lemma connect_three_attempts_witness:
  "fst (fst (connection_connect (\<lambda>i. demo_net\<lparr>n_dial := (\<lambda>_. Inl OSError)\<rparr>)
      \<lparr>k_factory = TCPFull, k_proxy = None, k_address = ([], 0), k_dc_id = 1\<rparr>)) = Inl ConnectionError"
proof -
  let ?k = "\<lparr>k_factory = TCPFull, k_proxy = None, k_address = ([], 0), k_dc_id = 1\<rparr>"
  have "refused (outcome (\<lambda>i. demo_net\<lparr>n_dial := (\<lambda>_. Inl OSError)\<rparr>) ?k j)" for j
    by (simp add: refused_def outcome_def framed_connect_def lift_tcp_def tcp_connect_def connect_stream_def
        connect_via_direct_def framed_new_def tcp_new_def)
  with connect_three_attempts show ?thesis by blast
qed

end
