(* ===== verification/Listeners.thy ===== *)
theory Listeners
  imports Prelude Complex_Main
begin

text \<open>
  Conversations (\<open>pyrogram/types/listeners\<close>): the criteria a listener waits for, the registry a
  client keeps its listeners in, and the bound methods that wait for an update. A listener is an
  object that is shared and changed in place, so it lives in a store under its \<open>id(listener)\<close>; so do the
  futures, which the waiting task can cancel. A dict from \<open>id(listener)\<close> to the listener is the list of its
  keys in insertion order. The clock is an argument, its readings are exact rationals. The heap is seen through the contract
  of \<open>heapq\<close>: its head is the least entry.
\<close>

section \<open>Criteria\<close>

datatype scalar = SInt int | SStr ustr

text \<open>A field of an identifier: \<open>None\<close>, a value or a list of values.\<close>

datatype field = FNone | FOne scalar | FMany "scalar list"

record Identifier =
  chat_id :: field
  user_id :: field
  message_id :: field
  inline_message_id :: field

definition FIELDS :: "(Identifier \<Rightarrow> field) list" where
  "FIELDS = [chat_id, user_id, message_id, inline_message_id]"

text \<open>The body of the loop of \<open>Identifier.matches\<close>: false where the code returns.\<close>

fun field_matches :: "field \<Rightarrow> field \<Rightarrow> bool" where
  "field_matches FNone value = True"
| "field_matches (FMany ps) (FMany vs) = (set vs \<inter> set ps \<noteq> {})"
| "field_matches (FOne p) (FMany vs) = (p \<in> set vs)"
| "field_matches (FMany ps) (FOne v) = (v \<in> set ps)"
| "field_matches (FMany ps) FNone = False"
| "field_matches (FOne p) value = (value = FOne p)"

definition matches :: "Identifier \<Rightarrow> Identifier \<Rightarrow> bool" where
  "matches p d = list_all (\<lambda>field. field_matches (field p) (field d)) FIELDS"

definition count_populated :: "Identifier \<Rightarrow> nat" where
  "count_populated p = length (filter (\<lambda>field. field p \<noteq> FNone) FIELDS)"

definition identifier_eq :: "Identifier \<Rightarrow> Identifier \<Rightarrow> bool" where
  "identifier_eq p q = list_all (\<lambda>field. field p = field q) FIELDS"

section \<open>Listeners, futures and the registry\<close>

datatype ListenerTypes = MESSAGE | CALLBACK_QUERY

text \<open>\<open>unallowed_click_alert\<close> is a flag or a text; an empty text is false.\<close>

datatype click_alert = ABool bool | AText ustr

fun alert_truthy :: "click_alert \<Rightarrow> bool" where
  "alert_truthy (ABool b) = b"
| "alert_truthy (AText t) = (t \<noteq> [])"

datatype listener_error = ListenerTimeout rat | ListenerStopped | ListenerLimitReached nat | NotExactlyOne

datatype 'u future_state = Pending | Done 'u | Failed listener_error | Cancelled

datatype key_kind = CHAT | USER | GLOBAL

type_synonym bucket_key = "ListenerTypes \<times> key_kind \<times> scalar option"

text \<open>References: \<open>id(listener)\<close>, and the identity of a future.\<close>

type_synonym lref = nat
type_synonym fref = nat

record ('c, 'f) Listener =
  listener_type :: ListenerTypes
  l_identifier :: Identifier
  filters :: "'f option"
  future :: "fref option"
  callback :: "'c option"
  unallowed_click_alert :: click_alert
  bucket_keys :: "bucket_key list"

text \<open>\<open>Listener.__init__\<close> refuses both or neither (a \<open>ValueError\<close>); the keys are set by \<open>add\<close>.\<close>

definition new_Listener ::
    "ListenerTypes \<Rightarrow> Identifier \<Rightarrow> 'f option \<Rightarrow> fref option \<Rightarrow> 'c option \<Rightarrow> click_alert \<Rightarrow>
     listener_error + ('c, 'f) Listener" where
  "new_Listener t i fl fut cb al =
     (if (fut = None) = (cb = None) then Inl NotExactlyOne
      else Inr \<lparr>listener_type = t, l_identifier = i, filters = fl, future = fut, callback = cb,
                unallowed_click_alert = al, bucket_keys = []\<rparr>)"

text \<open>
  The registry with the store of listeners and futures, the budget it draws from (shared with the other clients of
  the event loop), the calls of callbacks and the alerts shown. An entry of the heap is a deadline, a sequence number,
  a listener and its timeout.
\<close>

type_synonym heap_entry = "rat \<times> nat \<times> lref \<times> rat"

record ('c, 'f, 'u) registry =
  objs :: "lref \<Rightarrow> ('c, 'f) Listener"
  futures :: "fref \<Rightarrow> 'u future_state"
  next_listener :: lref
  next_future :: fref
  live :: "lref list"
  buckets :: "bucket_key \<rightharpoonup> lref list"
  heap :: "heap_entry list"
  stale :: nat
  seq :: nat
  wake :: bool
  reaper :: bool
  limit :: nat
  used :: nat
  closed :: bool
  invoked :: "(lref \<times> 'c \<times> 'u) list"
  alerts :: "('u \<times> ustr) list"

text \<open>A registry with nothing in it; \<open>cap\<close> and \<open>held\<close> are the limit and the use of the pool it finds.\<close>

definition new_registry :: "nat \<Rightarrow> nat \<Rightarrow> ('c, 'f, 'u) registry" where
  "new_registry cap held =
     \<lparr>objs = (\<lambda>_. \<lparr>listener_type = MESSAGE,
        l_identifier = \<lparr>chat_id = FNone, user_id = FNone, message_id = FNone, inline_message_id = FNone\<rparr>,
        filters = None, future = None, callback = None, unallowed_click_alert = ABool True, bucket_keys = []\<rparr>),
      futures = (\<lambda>_. Pending), next_listener = 0, next_future = 0, live = [], buckets = Map.empty, heap = [], stale = 0,
      seq = 0, wake = False, reaper = False, limit = cap, used = held, closed = False, invoked = [], alerts = []\<rparr>"

definition is_pending :: "('c, 'f, 'u) registry \<Rightarrow> lref \<Rightarrow> bool" where
  "is_pending r l =
     (if callback (objs r l) \<noteq> None then True
      else (case future (objs r l) of None \<Rightarrow> False | Some f \<Rightarrow> futures r f = Pending))"

definition detach :: "lref \<Rightarrow> ('c, 'f, 'u) registry \<Rightarrow> ('c, 'f, 'u) registry" where
  "detach l r = r\<lparr>objs := (objs r)(l := (objs r l)\<lparr>future := None, filters := None, callback := None\<rparr>)\<rparr>"

subsection \<open>The budget\<close>

definition acquire :: "('c, 'f, 'u) registry \<Rightarrow> bool \<times> ('c, 'f, 'u) registry" where
  "acquire r = (if limit r \<le> used r then (False, r) else (True, r\<lparr>used := used r + 1\<rparr>))"

definition release :: "('c, 'f, 'u) registry \<Rightarrow> ('c, 'f, 'u) registry" where
  "release r = (if used r \<noteq> 0 then r\<lparr>used := used r - 1\<rparr> else r)"

text \<open>\<open>listener_budget\<close>: the pool of an event loop has the limit of the first client that asks for it.\<close>

type_synonym budget = "nat \<times> nat"

definition listener_budget :: "nat \<Rightarrow> 'l \<Rightarrow> ('l \<rightharpoonup> budget) \<Rightarrow> budget \<times> ('l \<rightharpoonup> budget)" where
  "listener_budget cap loop budgets =
     (case budgets loop of
        Some b \<Rightarrow> (b, budgets)
      | None \<Rightarrow> ((cap, 0), budgets(loop \<mapsto> (cap, 0))))"

section \<open>Filing and removing\<close>

fun as_keys :: "field \<Rightarrow> scalar list" where
  "as_keys FNone = []"
| "as_keys (FOne v) = [v]"
| "as_keys (FMany vs) = vs"

definition keys_for :: "('c, 'f) Listener \<Rightarrow> bucket_key list" where
  "keys_for l =
     (let t = listener_type l; i = l_identifier l; chats = as_keys (chat_id i) in
      if chats \<noteq> [] then map (\<lambda>chat. (t, CHAT, Some chat)) chats
      else (let users = as_keys (user_id i);
                pinned = (message_id i \<noteq> FNone \<or> inline_message_id i \<noteq> FNone) in
            if users \<noteq> [] \<and> \<not> (t = CALLBACK_QUERY \<and> alert_truthy (unallowed_click_alert l) \<and> pinned)
            then map (\<lambda>user. (t, USER, Some user)) users
            else [(t, GLOBAL, None)]))"

text \<open>\<open>d[id(listener)] = listener\<close>: an existing key keeps its place. \<open>d.pop\<close> is \<open>removeAll\<close>.\<close>

definition dict_put :: "'a \<Rightarrow> 'a list \<Rightarrow> 'a list" where
  "dict_put x d = (if x \<in> set d then d else d @ [x])"

definition file_under :: "lref \<Rightarrow> bucket_key \<Rightarrow> (bucket_key \<rightharpoonup> lref list) \<Rightarrow> (bucket_key \<rightharpoonup> lref list)" where
  "file_under l k b = b(k \<mapsto> dict_put l (case b k of None \<Rightarrow> [] | Some d \<Rightarrow> d))"

definition unfile_from :: "lref \<Rightarrow> bucket_key \<Rightarrow> (bucket_key \<rightharpoonup> lref list) \<Rightarrow> (bucket_key \<rightharpoonup> lref list)" where
  "unfile_from l k b =
     (case b k of
        None \<Rightarrow> b
      | Some d \<Rightarrow> (let d = removeAll l d in if d = [] then b(k := None) else b(k \<mapsto> d)))"

text \<open>\<open>heapq.heappush\<close>: sequence numbers differ, so entries are ordered by deadline and number.\<close>

definition entry_less :: "heap_entry \<Rightarrow> heap_entry \<Rightarrow> bool" where
  "entry_less a b = (fst a < fst b \<or> fst a = fst b \<and> fst (snd a) < fst (snd b))"

fun heappush :: "heap_entry \<Rightarrow> heap_entry list \<Rightarrow> heap_entry list" where
  "heappush x [] = [x]"
| "heappush x (y # ys) = (if entry_less x y then x # y # ys else y # heappush x ys)"

definition schedule_deadline :: "rat \<Rightarrow> lref \<Rightarrow> rat \<Rightarrow> ('c, 'f, 'u) registry \<Rightarrow> ('c, 'f, 'u) registry" where
  "schedule_deadline now l timeout r =
     r\<lparr>heap := heappush (now + timeout, seq r, l, timeout) (heap r), seq := seq r + 1, reaper := True, wake := True\<rparr>"

definition add :: "rat \<Rightarrow> lref \<Rightarrow> rat option \<Rightarrow> ('c, 'f, 'u) registry \<Rightarrow> (listener_error + unit) \<times> ('c, 'f, 'u) registry" where
  "add now l timeout r =
     (if closed r then (Inl ListenerStopped, r)
      else (case acquire r of
              (False, r) \<Rightarrow> (Inl (ListenerLimitReached (limit r)), r)
            | (True, r) \<Rightarrow>
                (let ks = keys_for (objs r l);
                     r = r\<lparr>objs := (objs r)(l := (objs r l)\<lparr>bucket_keys := ks\<rparr>),
                           live := dict_put l (live r), buckets := fold (file_under l) ks (buckets r)\<rparr>
                 in (Inr (), case timeout of None \<Rightarrow> r | Some t \<Rightarrow> schedule_deadline now l t r))))"

definition remove :: "lref \<Rightarrow> ('c, 'f, 'u) registry \<Rightarrow> bool \<times> ('c, 'f, 'u) registry" where
  "remove l r =
     (if l \<notin> set (live r) then (False, r)
      else (let r = r\<lparr>live := removeAll l (live r), buckets := fold (unfile_from l) (bucket_keys (objs r l)) (buckets r)\<rparr>;
                r = release (r\<lparr>objs := (objs r)(l := (objs r l)\<lparr>bucket_keys := []\<rparr>)\<rparr>)
            in (True, r\<lparr>stale := stale r + 1\<rparr>)))"

section \<open>Expiry, stopping and closing\<close>

definition compact :: "('c, 'f, 'u) registry \<Rightarrow> ('c, 'f, 'u) registry" where
  "compact r =
     (if stale r < 32 \<or> stale r * 2 < length (heap r) then r
      else r\<lparr>heap := filter (\<lambda>(_, _, l, _). l \<in> set (live r)) (heap r), stale := 0\<rparr>)"

text \<open>\<open>_fail\<close>\<close>

definition fail :: "lref \<Rightarrow> listener_error \<Rightarrow> ('c, 'f, 'u) registry \<Rightarrow> ('c, 'f, 'u) registry" where
  "fail l e r =
     detach l (case future (objs r l) of
                 Some f \<Rightarrow> if futures r f = Pending then r\<lparr>futures := (futures r)(f := Failed e)\<rparr> else r
               | None \<Rightarrow> r)"

text \<open>One turn of the loop of \<open>_reap\<close>, until it waits or goes round.\<close>

datatype reap_next = WaitWake | WaitFor rat | GoRound

definition reap_turn :: "rat \<Rightarrow> ('c, 'f, 'u) registry \<Rightarrow> reap_next \<times> ('c, 'f, 'u) registry" where
  "reap_turn now r =
     (let r = compact (r\<lparr>wake := False\<rparr>) in
      case heap r of
        [] \<Rightarrow> (WaitWake, r)
      | (deadline, _, l, timeout) # rest \<Rightarrow>
          (if 0 < deadline - now then (WaitFor (deadline - now), r)
           else (case remove l (r\<lparr>heap := rest\<rparr>) of
                   (False, r) \<Rightarrow> (GoRound, r)
                 | (True, r) \<Rightarrow> (GoRound, fail l (ListenerTimeout timeout) r))))"

text \<open>The loop, until it waits; \<open>clock\<close> has the readings of \<open>loop.time()\<close>.\<close>

lemma heap_remove: "heap (snd (remove l r)) = heap r"
  by (simp add: remove_def release_def Let_def)

lemma heap_fail: "heap (fail l e r) = heap r"
  by (simp add: fail_def detach_def split: option.split)

lemma heap_compact: "length (heap (compact r)) \<le> length (heap r)"
  by (simp add: compact_def)

lemma reap_turn_shrinks:
  assumes "reap_turn now r = (GoRound, q)"
  shows "length (heap q) < length (heap r)"
proof -
  let ?c = "compact (r\<lparr>wake := False\<rparr>)"
  from assms obtain x rest where h: "heap ?c = x # rest"
    by (cases "heap ?c") (simp_all add: reap_turn_def Let_def)
  obtain d s l t where x: "x = (d, s, l, t)" by (cases x)
  obtain b p where p: "remove l (?c\<lparr>heap := rest\<rparr>) = (b, p)" by (cases "remove l (?c\<lparr>heap := rest\<rparr>)")
  have "heap p = rest" using heap_remove [of l "?c\<lparr>heap := rest\<rparr>"] p by simp
  with assms h x p have "heap q = rest"
    by (cases b) (auto simp: reap_turn_def Let_def heap_fail split: if_splits)
  with h heap_compact [of "r\<lparr>wake := False\<rparr>"] show ?thesis by simp
qed

function reap_run :: "(nat \<Rightarrow> rat) \<Rightarrow> ('c, 'f, 'u) registry \<Rightarrow> reap_next \<times> ('c, 'f, 'u) registry" where
  "reap_run clock r =
     (case reap_turn (clock 0) r of
        (GoRound, q) \<Rightarrow> reap_run (\<lambda>k. clock (Suc k)) q
      | (WaitWake, q) \<Rightarrow> (WaitWake, q)
      | (WaitFor d, q) \<Rightarrow> (WaitFor d, q))"
  by pat_completeness auto
termination by (relation "measure (\<lambda>(_, r). length (heap r))") (auto simp: reap_turn_shrinks)

declare reap_run.simps [simp del]

definition stop_listener :: "lref \<Rightarrow> ('c, 'f, 'u) registry \<Rightarrow> bool \<times> ('c, 'f, 'u) registry" where
  "stop_listener l r =
     (case remove l r of
        (False, r) \<Rightarrow> (False, r)
      | (True, r) \<Rightarrow> (True, fail l ListenerStopped r))"

definition find_listeners :: "ListenerTypes \<Rightarrow> Identifier \<Rightarrow> ('c, 'f, 'u) registry \<Rightarrow> lref list" where
  "find_listeners t pattern r =
     filter (\<lambda>l. listener_type (objs r l) = t \<and> matches pattern (l_identifier (objs r l))) (live r)"

definition close :: "('c, 'f, 'u) registry \<Rightarrow> ('c, 'f, 'u) registry" where
  "close r =
     (let r = r\<lparr>closed := True\<rparr>;
          r = fold (\<lambda>l r. fail l ListenerStopped (snd (remove l r))) (live r) r
      in r\<lparr>buckets := Map.empty, heap := [], stale := 0, reaper := False\<rparr>)"

definition reopen :: "('c, 'f, 'u) registry \<Rightarrow> ('c, 'f, 'u) registry" where
  "reopen r = r\<lparr>closed := False\<rparr>"

text \<open>\<open>stop_listening\<close>: the criteria are found first, then each listener is stopped.\<close>

definition stop_listening :: "ListenerTypes \<Rightarrow> Identifier \<Rightarrow> ('c, 'f, 'u) registry \<Rightarrow> nat \<times> ('c, 'f, 'u) registry" where
  "stop_listening t pattern r =
     fold (\<lambda>l (n, r). case stop_listener l r of (b, r) \<Rightarrow> (n + (if b then 1 else 0), r)) (find_listeners t pattern r) (0, r)"

section \<open>Feeding an update\<close>

text \<open>
  What \<open>getattr\<close> finds on an update: the ids of its chat, sender and sender chat, its own id, the message of a
  callback query with the chat and id of that message.
\<close>

record update_view =
  u_id :: "int option"
  u_chat :: "int option"
  u_from_user :: "int option"
  u_sender_chat :: "int option"
  u_scheduled :: bool
  u_outgoing :: bool
  u_message :: "(int option \<times> int option) option"
  u_inline_message_id :: "ustr option"

definition as_field :: "('a \<Rightarrow> scalar) \<Rightarrow> 'a option \<Rightarrow> field" where
  "as_field c v = (case v of None \<Rightarrow> FNone | Some x \<Rightarrow> FOne (c x))"

text \<open>\<open>_identify\<close>\<close>

definition identify :: "ListenerTypes \<Rightarrow> update_view \<Rightarrow> (Identifier \<times> int option \<times> int option) option" where
  "identify t u =
     (case t of
        CALLBACK_QUERY \<Rightarrow>
          (let chat = Option.bind (u_message u) fst; user = u_from_user u in
           Some (\<lparr>chat_id = as_field SInt chat, user_id = as_field SInt user,
                  message_id = as_field SInt (Option.bind (u_message u) snd),
                  inline_message_id = as_field SStr (u_inline_message_id u)\<rparr>, chat, user))
      | MESSAGE \<Rightarrow>
          if u_scheduled u then None
          else (let chat = u_chat u; user = u_from_user u in
                if u_outgoing u \<and> (chat = None \<or> chat \<noteq> user) then None
                else (let user = (if user = None then u_sender_chat u else user) in
                      Some (\<lparr>chat_id = as_field SInt chat, user_id = as_field SInt user,
                             message_id = as_field SInt (u_id u), inline_message_id = FNone\<rparr>, chat, user))))"

definition bucket :: "bucket_key \<Rightarrow> ('c, 'f, 'u) registry \<Rightarrow> lref list" where
  "bucket k r = (case buckets r k of None \<Rightarrow> [] | Some d \<Rightarrow> d)"

definition candidates :: "ListenerTypes \<Rightarrow> int option \<Rightarrow> int option \<Rightarrow> ('c, 'f, 'u) registry \<Rightarrow> lref list" where
  "candidates t chat user r =
     (case chat of None \<Rightarrow> [] | Some c \<Rightarrow> bucket (t, CHAT, Some (SInt c)) r) @
     (case user of None \<Rightarrow> [] | Some i \<Rightarrow> bucket (t, USER, Some (SInt i)) r) @
     bucket (t, GLOBAL, None) r"

text \<open>\<open>_is_stranger\<close>\<close>

definition is_stranger :: "('c, 'f) Listener \<Rightarrow> Identifier \<Rightarrow> bool" where
  "is_stranger l d =
     (listener_type l = CALLBACK_QUERY \<and> alert_truthy (unallowed_click_alert l) \<and>
      matches ((l_identifier l)\<lparr>user_id := FNone\<rparr>) d)"

text \<open>
  The settings of the client. \<open>chk\<close> is \<open>check_filter\<close>: it awaits, so it also says what the
  registry is afterwards, and \<open>None\<close> is a filter that raises. A missing filter passes at once.
\<close>

type_synonym ('c, 'f, 'u) checker =
  "'f \<Rightarrow> 'u \<Rightarrow> ('c, 'f, 'u) registry \<Rightarrow> bool option \<times> ('c, 'f, 'u) registry"

definition check_filter :: "('c, 'f, 'u) checker \<Rightarrow> 'f option \<Rightarrow> 'u \<Rightarrow> ('c, 'f, 'u) registry \<Rightarrow> bool option \<times> ('c, 'f, 'u) registry" where
  "check_filter chk fl u r = (case fl of None \<Rightarrow> (Some True, r) | Some f \<Rightarrow> chk f u r)"

text \<open>From \<open>self.remove(listener)\<close> to the end of the turn: whether the update was handed over.\<close>

definition hand_over :: "lref \<Rightarrow> 'u \<Rightarrow> ('c, 'f, 'u) registry \<Rightarrow> bool \<times> ('c, 'f, 'u) registry" where
  "hand_over l u r =
     (case remove l r of
        (False, r) \<Rightarrow> (False, r)
      | (True, r) \<Rightarrow>
          (case callback (objs r l) of
             Some c \<Rightarrow> (True, detach l (r\<lparr>invoked := invoked r @ [(l, c, u)]\<rparr>))
           | None \<Rightarrow>
               (case future (objs r l) of
                  None \<Rightarrow> (False, r)
                | Some f \<Rightarrow>
                    if futures r f \<noteq> Pending then (False, r)
                    else (True, detach l (r\<lparr>futures := (futures r)(f := Done u)\<rparr>)))))"

text \<open>The loop of \<open>feed\<close>: a listener that took the update, or the first stranger.\<close>

datatype feed_end = Taken lref | Nobody "lref option"

fun feed_loop ::
    "('c, 'f, 'u) checker \<Rightarrow> Identifier \<Rightarrow> 'u \<Rightarrow> lref list \<Rightarrow> lref option \<Rightarrow> ('c, 'f, 'u) registry \<Rightarrow>
     feed_end \<times> ('c, 'f, 'u) registry" where
  "feed_loop chk d u [] stranger r = (Nobody stranger, r)"
| "feed_loop chk d u (l # ls) stranger r =
     (if \<not> is_pending r l then feed_loop chk d u ls stranger r
      else if \<not> matches (l_identifier (objs r l)) d then
        feed_loop chk d u ls (if stranger = None \<and> is_stranger (objs r l) d then Some l else stranger) r
      else (case check_filter chk (filters (objs r l)) u r of
              (Some True, r) \<Rightarrow>
                (case hand_over l u r of
                   (True, r) \<Rightarrow> (Taken l, r)
                 | (False, r) \<Rightarrow> feed_loop chk d u ls stranger r)
            | (_, r) \<Rightarrow> feed_loop chk d u ls stranger r))"

record alert_settings =
  click_alerts :: bool
  click_alert_text :: ustr

text \<open>\<open>_reject\<close>; an answer that fails is logged and counts as given.\<close>

definition reject :: "alert_settings \<Rightarrow> lref \<Rightarrow> 'u \<Rightarrow> ('c, 'f, 'u) registry \<Rightarrow> bool \<times> ('c, 'f, 'u) registry" where
  "reject st l u r =
     (if \<not> click_alerts st then (False, r)
      else (let text = (case unallowed_click_alert (objs r l) of AText t \<Rightarrow> t | ABool _ \<Rightarrow> click_alert_text st)
            in (True, r\<lparr>alerts := alerts r @ [(u, text)]\<rparr>)))"

definition feed ::
    "('c, 'f, 'u) checker \<Rightarrow> alert_settings \<Rightarrow> ('u \<Rightarrow> update_view) \<Rightarrow> ListenerTypes \<Rightarrow> 'u \<Rightarrow> ('c, 'f, 'u) registry \<Rightarrow>
     bool \<times> ('c, 'f, 'u) registry" where
  "feed chk st view t u r =
     (case identify t (view u) of
        None \<Rightarrow> (False, r)
      | Some (d, chat, user) \<Rightarrow>
          (let ls = candidates t chat user r in
           if ls = [] then (False, r)
           else (case feed_loop chk d u ls None r of
                   (Taken l, r) \<Rightarrow> (True, r)
                 | (Nobody (Some l), r) \<Rightarrow> reject st l u r
                 | (Nobody None, r) \<Rightarrow> (False, r))))"

section \<open>Waiting\<close>

text \<open>
  The methods create the listener and its future and add it. \<open>listen\<close> then awaits the future and always removes
  the listener in the end; what it returns or raises is read off the future.
\<close>

definition listen ::
    "rat \<Rightarrow> ListenerTypes \<Rightarrow> Identifier \<Rightarrow> 'f option \<Rightarrow> click_alert \<Rightarrow> rat option \<Rightarrow> ('c, 'f, 'u) registry \<Rightarrow>
     (listener_error + lref) \<times> ('c, 'f, 'u) registry" where
  "listen now t i fl al timeout r =
     (let l = next_listener r; f = next_future r;
          r = r\<lparr>next_listener := l + 1, next_future := f + 1, futures := (futures r)(f := Pending)\<rparr> in
      case new_Listener t i fl (Some f) None al of
        Inl e \<Rightarrow> (Inl e, r)
      | Inr ob \<Rightarrow>
          (case add now l timeout (r\<lparr>objs := (objs r)(l := ob)\<rparr>) of
             (Inl e, r) \<Rightarrow> (Inl e, r)
           | (Inr (), r) \<Rightarrow> (Inr l, r)))"

definition register_next_step_handler ::
    "rat \<Rightarrow> 'c \<Rightarrow> ListenerTypes \<Rightarrow> Identifier \<Rightarrow> 'f option \<Rightarrow> click_alert \<Rightarrow> rat option \<Rightarrow> ('c, 'f, 'u) registry \<Rightarrow>
     (listener_error + lref) \<times> ('c, 'f, 'u) registry" where
  "register_next_step_handler now cb t i fl al timeout r =
     (let l = next_listener r; r = r\<lparr>next_listener := l + 1\<rparr> in
      case new_Listener t i fl None (Some cb) al of
        Inl e \<Rightarrow> (Inl e, r)
      | Inr ob \<Rightarrow>
          (case add now l timeout (r\<lparr>objs := (objs r)(l := ob)\<rparr>) of
             (Inl e, r) \<Rightarrow> (Inl e, r)
           | (Inr (), r) \<Rightarrow> (Inr l, r)))"

text \<open>Cancelling the task that awaits a future cancels the future.\<close>

definition cancel_wait :: "fref \<Rightarrow> ('c, 'f, 'u) registry \<Rightarrow> ('c, 'f, 'u) registry" where
  "cancel_wait f r = (if futures r f = Pending then r\<lparr>futures := (futures r)(f := Cancelled)\<rparr> else r)"

end
