(* ===== verification/Listener_Registry.thy ===== *)
theory Listener_Registry
  imports Listeners
begin

text \<open>
  What the listener registry promises. The operations of the registry, and what other tasks and other clients
  can do between them, are the steps of a relation; the invariant of its reachable states says that the buckets
  index exactly the live listeners, that the budget counts them, and that deadlines are in order. On it rest the
  lookup, the delivery of an update, expiry and closing.
\<close>

section \<open>The heap of deadlines\<close>

text \<open>What the reaper relies on in a heap: pushing adds an entry, and no entry is less than the head.\<close>

locale deadline_heap =
  fixes push :: "'e \<Rightarrow> 'h \<Rightarrow> 'h"
    and entries :: "'h \<Rightarrow> 'e list"
    and ok :: "'h \<Rightarrow> bool"
    and less :: "'e \<Rightarrow> 'e \<Rightarrow> bool"
    and fresh :: "'e \<Rightarrow> 'h \<Rightarrow> bool"
  assumes push_set: "set (entries (push x h)) = insert x (set (entries h))"
    and push_length: "length (entries (push x h)) = Suc (length (entries h))"
    and push_ok: "ok h \<Longrightarrow> fresh x h \<Longrightarrow> ok (push x h)"
    and head_least: "ok h \<Longrightarrow> entries h = y # ys \<Longrightarrow> x \<in> set ys \<Longrightarrow> less y x"
begin

lemma head_bounds:
  assumes "ok h" "entries h = y # ys" "x \<in> set (entries h)" "\<And>x. less y x \<Longrightarrow> P x" "P y"
  shows "P x"
  using assms head_least [OF assms(1,2)] by auto

lemma push_nonempty: "entries (push x h) \<noteq> []"
  using push_length [of x h] by auto

end

definition heap_ok :: "heap_entry list \<Rightarrow> bool" where
  "heap_ok h = (sorted_wrt entry_less h \<and> distinct (map (\<lambda>e. fst (snd e)) h))"

lemma heappush_set [simp]: "set (heappush x h) = insert x (set h)"
  by (induction h) auto

lemma heappush_length [simp]: "length (heappush x h) = Suc (length h)"
  by (induction h) auto

lemma entry_less_trans: "entry_less a b \<Longrightarrow> entry_less b c \<Longrightarrow> entry_less a c"
  by (auto simp: entry_less_def)

lemma entry_less_linear: "fst (snd a) \<noteq> fst (snd b) \<Longrightarrow> \<not> entry_less a b \<Longrightarrow> entry_less b a"
  by (auto simp: entry_less_def)

lemma heappush_sorted:
  "sorted_wrt entry_less h \<Longrightarrow> fst (snd x) \<notin> (\<lambda>e. fst (snd e)) ` set h \<Longrightarrow> sorted_wrt entry_less (heappush x h)"
  by (induction h) (auto intro: entry_less_trans entry_less_linear)

lemma heappush_distinct: "distinct (map g (heappush x h)) \<longleftrightarrow> g x \<notin> g ` set h \<and> distinct (map g h)"
  by (induction h) auto

interpretation deadlines: deadline_heap heappush "\<lambda>h. h" heap_ok entry_less "\<lambda>x h. fst (snd x) \<notin> (\<lambda>e. fst (snd e)) ` set h"
  by unfold_locales (auto simp: heap_ok_def heappush_sorted heappush_distinct)

section \<open>Buckets\<close>

lemma dict_put_in [simp]: "x \<in> set d \<Longrightarrow> dict_put x d = d"
  by (simp add: dict_put_def)

lemma dict_put_new: "x \<notin> set d \<Longrightarrow> dict_put x d = d @ [x]"
  by (simp add: dict_put_def)

lemma dict_put_put [simp]: "dict_put x (dict_put x d) = dict_put x d"
  by (simp add: dict_put_def)

definition dict_at :: "(bucket_key \<rightharpoonup> lref list) \<Rightarrow> bucket_key \<Rightarrow> lref list" where
  "dict_at b k = (case b k of None \<Rightarrow> [] | Some d \<Rightarrow> d)"

lemma fold_file_under:
  "fold (file_under l) ks b k = (if k \<in> set ks then Some (dict_put l (dict_at b k)) else b k)"
  by (induction ks arbitrary: b) (auto simp: file_under_def dict_at_def)

definition dict_of :: "lref list \<Rightarrow> lref list option" where
  "dict_of d = (if d = [] then None else Some d)"

lemma unfile_at: "unfile_from l a b k = (if a = k then dict_of (removeAll l (dict_at b k)) else b k)"
  by (auto simp: unfile_from_def dict_of_def dict_at_def Let_def split: option.splits)

lemma dict_at_dict_of [simp]: "b k = dict_of d \<Longrightarrow> dict_at b k = d"
  by (simp add: dict_at_def dict_of_def split: if_splits)

lemma fold_unfile_from:
  "fold (unfile_from l) ks b k = (if k \<in> set ks then dict_of (removeAll l (dict_at b k)) else b k)"
proof (induction ks arbitrary: b)
  case (Cons a ks)
  have d: "dict_at (unfile_from l a b) k = (if a = k then removeAll l (dict_at b k) else dict_at b k)"
    by (auto simp: dict_at_def unfile_at dict_of_def)
  have "fold (unfile_from l) (a # ks) b k =
      (if k \<in> set ks then dict_of (removeAll l (dict_at (unfile_from l a b) k)) else unfile_from l a b k)"
    by (simp only: fold_Cons o_apply Cons.IH)
  then show ?case unfolding d unfile_at by simp
qed simp

text \<open>The dict of a key: the live listeners filed under it, in the order they were added.\<close>

definition filed_under :: "('c, 'f, 'u) registry \<Rightarrow> bucket_key \<Rightarrow> lref list" where
  "filed_under r k = filter (\<lambda>l. k \<in> set (bucket_keys (objs r l))) (live r)"

definition indexed :: "('c, 'f, 'u) registry \<Rightarrow> bool" where
  "indexed r = (\<forall>k. buckets r k = dict_of (filed_under r k))"

lemma indexed_at: "indexed r \<Longrightarrow> buckets r k = dict_of (filed_under r k)"
  unfolding indexed_def by blast

lemma indexed_dict [simp]: "indexed r \<Longrightarrow> dict_at (buckets r) k = filed_under r k"
  by (simp add: indexed_at)

lemma indexed_bucket: "indexed r \<Longrightarrow> bucket k r = filed_under r k"
  using indexed_dict [of r k] by (simp add: bucket_def dict_at_def)

section \<open>The invariant\<close>

text \<open>Live listeners are allocated, filed under their own keys, and wait for exactly one of a future and a callback.\<close>

definition one_way :: "('c, 'f) Listener \<Rightarrow> bool" where
  "one_way l = ((future l = None) \<noteq> (callback l = None))"

lemma keys_for_update [simp]: "keys_for (x\<lparr>bucket_keys := ks\<rparr>) = keys_for x"
  by (simp add: keys_for_def Let_def)

lemma one_way_update [simp]: "one_way (x\<lparr>bucket_keys := ks\<rparr>) = one_way x"
  by (simp add: one_way_def)

definition live_ok :: "('c, 'f, 'u) registry \<Rightarrow> bool" where
  "live_ok r =
     (distinct (live r) \<and>
      (\<forall>l \<in> set (live r). l < next_listener r \<and> bucket_keys (objs r l) = keys_for (objs r l) \<and> one_way (objs r l) \<and>
         (\<forall>f. future (objs r l) = Some f \<longrightarrow> f < next_future r)) \<and>
      (\<forall>l \<in> set (live r). \<forall>l' \<in> set (live r). \<forall>f. future (objs r l) = Some f \<longrightarrow> future (objs r l') = Some f \<longrightarrow> l = l'))"

text \<open>\<open>elsewhere\<close> is what the other clients of the event loop hold of the budget.\<close>

definition counted :: "('c, 'f, 'u) registry \<Rightarrow> nat \<Rightarrow> bool" where
  "counted r elsewhere = (used r = length (live r) + elsewhere \<and> used r \<le> limit r)"

definition dead_entries :: "('c, 'f, 'u) registry \<Rightarrow> heap_entry list" where
  "dead_entries r = filter (\<lambda>e. fst (snd (snd e)) \<notin> set (live r)) (heap r)"

definition deadlines_ok :: "('c, 'f, 'u) registry \<Rightarrow> bool" where
  "deadlines_ok r =
     (heap_ok (heap r) \<and>
      (\<forall>e \<in> set (heap r). fst (snd e) < seq r \<and> fst (snd (snd e)) < next_listener r) \<and>
      distinct (map (\<lambda>e. fst (snd (snd e))) (heap r)) \<and>
      length (dead_entries r) \<le> stale r \<and>
      (heap r \<noteq> [] \<longrightarrow> reaper r))"

text \<open>A callback that was invoked belongs to a listener that is gone, and no listener is there twice.\<close>

definition invoked_once :: "('c, 'f, 'u) registry \<Rightarrow> bool" where
  "invoked_once r =
     (distinct (map fst (invoked r)) \<and> (\<forall>x \<in> set (invoked r). fst x < next_listener r \<and> fst x \<notin> set (live r)))"

definition registry_ok :: "('c, 'f, 'u) registry \<Rightarrow> nat \<Rightarrow> bool" where
  "registry_ok r elsewhere =
     (live_ok r \<and> indexed r \<and> counted r elsewhere \<and> deadlines_ok r \<and> invoked_once r \<and> (closed r \<longrightarrow> live r = []))"

lemmas registry_parts = live_ok_def counted_def deadlines_ok_def invoked_once_def registry_ok_def

subsection \<open>Preservation\<close>

text \<open>The listener \<open>l\<close> taken out of the registry.\<close>

definition taken_out :: "lref \<Rightarrow> ('c, 'f, 'u) registry \<Rightarrow> ('c, 'f, 'u) registry" where
  "taken_out l r =
     r\<lparr>live := removeAll l (live r), buckets := fold (unfile_from l) (bucket_keys (objs r l)) (buckets r),
       objs := (objs r)(l := (objs r l)\<lparr>bucket_keys := []\<rparr>), used := used r - 1, stale := stale r + 1\<rparr>"

lemma remove_live: "l \<in> set (live r) \<Longrightarrow> remove l r = (True, taken_out l r)"
  by (cases "used r") (simp_all add: remove_def taken_out_def release_def Let_def)

lemma remove_gone: "l \<notin> set (live r) \<Longrightarrow> remove l r = (False, r)"
  by (simp add: remove_def)

lemma remove_cases:
  obtains "l \<in> set (live r)" "remove l r = (True, taken_out l r)" | "l \<notin> set (live r)" "remove l r = (False, r)"
  using remove_live remove_gone by blast

lemma taken_out_simps [simp]:
  "live (taken_out l r) = removeAll l (live r)" "heap (taken_out l r) = heap r" "closed (taken_out l r) = closed r"
  "next_listener (taken_out l r) = next_listener r" "next_future (taken_out l r) = next_future r"
  "futures (taken_out l r) = futures r" "invoked (taken_out l r) = invoked r" "limit (taken_out l r) = limit r"
  "future (objs (taken_out l r) x) = future (objs r x)" "callback (objs (taken_out l r) x) = callback (objs r x)"
  "reaper (taken_out l r) = reaper r" "seq (taken_out l r) = seq r" "alerts (taken_out l r) = alerts r"
  by (auto simp: taken_out_def)

lemma filed_under_taken_out: "filed_under (taken_out l r) k = removeAll l (filed_under r k)"
  by (auto simp: filed_under_def taken_out_def removeAll_filter_not_eq intro: filter_cong)

lemma indexed_taken_out:
  assumes "indexed r"
  shows "indexed (taken_out l r)"
proof -
  have "buckets (taken_out l r) k = dict_of (removeAll l (filed_under r k))" for k
  proof (cases "k \<in> set (bucket_keys (objs r l))")
    case True
    then show ?thesis by (simp add: taken_out_def fold_unfile_from indexed_dict [OF assms])
  next
    case False
    then have "l \<notin> set (filed_under r k)" by (auto simp: filed_under_def)
    with False show ?thesis by (simp add: taken_out_def fold_unfile_from indexed_at [OF assms] removeAll_id)
  qed
  then show ?thesis by (simp add: indexed_def filed_under_taken_out)
qed

lemma filter_less_by_one:
  "distinct (map g h) \<Longrightarrow> length (filter (\<lambda>e. g e \<notin> S - {l}) h) \<le> Suc (length (filter (\<lambda>e. g e \<notin> S) h))"
proof (induction h)
  case (Cons e h)
  show ?case
  proof (cases "g e = l \<and> l \<in> S")
    case True
    with Cons.prems have "filter (\<lambda>e. g e \<notin> S - {l}) h = filter (\<lambda>e. g e \<notin> S) h"
      by (intro filter_cong) (auto simp: image_iff)
    with True show ?thesis by simp
  next
    case False
    with Cons show ?thesis by auto
  qed
qed simp

lemma taken_out_ok:
  assumes ok: "registry_ok r e" and l: "l \<in> set (live r)"
  shows "registry_ok (taken_out l r) e"
proof -
  have live: "live_ok (taken_out l r)"
    using ok unfolding registry_ok_def live_ok_def by (auto simp: taken_out_def distinct_removeAll)
  have "length (removeAll l (live r)) = length (live r) - 1" "0 < length (live r)"
    using ok l by (auto simp: registry_parts distinct_remove1_removeAll [symmetric] length_remove1 length_pos_if_in_set)
  moreover have "used r = length (live r) + e" "used r \<le> limit r"
    using ok by (simp_all add: registry_parts)
  ultimately have counted: "counted (taken_out l r) e"
    unfolding counted_def by (simp add: taken_out_def del: length_greater_0_conv)
  have "length (dead_entries (taken_out l r)) \<le> Suc (length (dead_entries r))"
    using ok filter_less_by_one [of "\<lambda>e. fst (snd (snd e))" "heap r" "set (live r)" l]
    by (simp add: registry_parts dead_entries_def)
  then have "deadlines_ok (taken_out l r)"
    using ok by (auto simp: registry_parts taken_out_def dead_entries_def)
  with live counted indexed_taken_out [of r l] ok show ?thesis
    by (auto simp: registry_ok_def invoked_once_def)
qed

lemma remove_ok: "registry_ok r e \<Longrightarrow> registry_ok (snd (remove l r)) e"
  using taken_out_ok by (cases rule: remove_cases [of l r]) auto

text \<open>What happens to futures, and to listeners that are not live, is of no concern to the registry.\<close>

definition filing :: "('c, 'f, 'u) registry \<Rightarrow> _" where
  "filing r = (live r, buckets r, heap r, stale r, seq r, reaper r, limit r, used r, closed r, invoked r)"

lemma registry_ok_cong:
  assumes "registry_ok r e" and f: "filing r' = filing r"
    and n: "next_listener r \<le> next_listener r'" "next_future r \<le> next_future r'"
    and o: "\<And>l. l \<in> set (live r) \<Longrightarrow> objs r' l = objs r l"
  shows "registry_ok r' e"
proof -
  have fu: "filed_under r' k = filed_under r k" for k
    using f o by (auto simp: filed_under_def filing_def intro: filter_cong)
  have l: "live_ok r \<Longrightarrow> live_ok r'" using f n o unfolding live_ok_def filing_def by (auto intro: less_le_trans)
  have i: "indexed r' = indexed r" using f by (simp add: indexed_def fu filing_def)
  show ?thesis
    using assms(1) f n l
    by (auto simp: registry_ok_def i counted_def deadlines_ok_def dead_entries_def invoked_once_def filing_def
        intro: less_le_trans)
qed

lemma detach_simps [simp]:
  "filing (detach l r) = filing r" "live (detach l r) = live r" "futures (detach l r) = futures r"
  "next_listener (detach l r) = next_listener r" "next_future (detach l r) = next_future r" "heap (detach l r) = heap r"
  "x \<noteq> l \<Longrightarrow> objs (detach l r) x = objs r x" "alerts (detach l r) = alerts r" "invoked (detach l r) = invoked r"
  by (auto simp: detach_def filing_def)

lemma fail_simps [simp]:
  "filing (fail l x r) = filing r" "live (fail l x r) = live r" "heap (fail l x r) = heap r" "closed (fail l x r) = closed r"
  "next_listener (fail l x r) = next_listener r" "next_future (fail l x r) = next_future r" "seq (fail l x r) = seq r"
  "y \<noteq> l \<Longrightarrow> objs (fail l x r) y = objs r y" "alerts (fail l x r) = alerts r" "invoked (fail l x r) = invoked r"
  by (auto simp: fail_def filing_def detach_def split: option.splits)

lemma fail_ok: "registry_ok r e \<Longrightarrow> l \<notin> set (live r) \<Longrightarrow> registry_ok (fail l x r) e"
  by (erule registry_ok_cong) (simp_all, metis fail_simps(8))

lemma removeAll_fail_ok: "registry_ok r e \<Longrightarrow> l \<in> set (live r) \<Longrightarrow> registry_ok (fail l x (taken_out l r)) e"
  by (rule fail_ok) (auto simp: taken_out_ok)

lemma stop_listener_ok: "registry_ok r e \<Longrightarrow> registry_ok (snd (stop_listener l r)) e"
  using removeAll_fail_ok by (cases rule: remove_cases [of l r]) (auto simp: stop_listener_def)

lemma cancel_wait_ok: "registry_ok r e \<Longrightarrow> registry_ok (cancel_wait f r) e"
  by (erule registry_ok_cong) (auto simp: cancel_wait_def filing_def)

lemma hand_over_cases:
  assumes "registry_ok r e"
  obtains (gone) "l \<notin> set (live r)" "hand_over l u r = (False, r)"
    | (call) c where "l \<in> set (live r)" "callback (objs r l) = Some c"
        "hand_over l u r = (True, detach l ((taken_out l r)\<lparr>invoked := invoked r @ [(l, c, u)]\<rparr>))"
    | (wake) f where "l \<in> set (live r)" "callback (objs r l) = None" "future (objs r l) = Some f" "futures r f = Pending"
        "hand_over l u r = (True, detach l ((taken_out l r)\<lparr>futures := (futures r)(f := Done u)\<rparr>))"
    | (done_already) f where "l \<in> set (live r)" "callback (objs r l) = None" "future (objs r l) = Some f" "futures r f \<noteq> Pending"
        "hand_over l u r = (False, taken_out l r)"
proof (cases rule: remove_cases [of l r])
  case 1
  with assms have "(future (objs r l) = None) \<noteq> (callback (objs r l) = None)"
    by (auto simp: registry_parts one_way_def)
  with 1 that(2-4) show ?thesis
    by (cases "callback (objs r l)"; cases "future (objs r l)") (auto simp: hand_over_def)
next
  case 2
  with that(1) show ?thesis by (simp add: hand_over_def)
qed

lemma invoke_ok:
  assumes "registry_ok r e" "l \<notin> set (live r)" "l < next_listener r" "l \<notin> fst ` set (invoked r)"
  shows "registry_ok (r\<lparr>invoked := invoked r @ [(l, c, u)]\<rparr>) e"
  using assms
  by (auto simp: registry_ok_def live_ok_def indexed_def filed_under_def counted_def deadlines_ok_def dead_entries_def invoked_once_def)

lemma hand_over_ok:
  assumes ok: "registry_ok r e"
  shows "registry_ok (snd (hand_over l u r)) e"
  using ok
proof (cases rule: hand_over_cases [of r e l u])
  case (call c)
  have "registry_ok ((taken_out l r)\<lparr>invoked := invoked (taken_out l r) @ [(l, c, u)]\<rparr>) e"
    using ok call(1) by (intro invoke_ok taken_out_ok) (auto simp: registry_parts)
  with call show ?thesis by (auto elim!: registry_ok_cong)
next
  case (wake f)
  have "registry_ok (taken_out l r) e" by (rule taken_out_ok [OF ok wake(1)])
  then show ?thesis unfolding wake(5)
    by (rule registry_ok_cong) (auto simp: filing_def detach_def)
qed (use ok in \<open>auto simp: taken_out_ok\<close>)

text \<open>Compaction drops only entries of listeners that are gone.\<close>

lemma compact_simps [simp]:
  "live (compact r) = live r" "objs (compact r) = objs r" "futures (compact r) = futures r" "buckets (compact r) = buckets r"
  "next_listener (compact r) = next_listener r" "next_future (compact r) = next_future r" "used (compact r) = used r"
  "limit (compact r) = limit r" "closed (compact r) = closed r" "invoked (compact r) = invoked r" "seq (compact r) = seq r"
  "reaper (compact r) = reaper r" "alerts (compact r) = alerts r"
  by (simp_all add: compact_def)

lemma compact_alt:
  "compact r = (if stale r < 32 \<or> stale r * 2 < length (heap r) then r
     else r\<lparr>heap := filter (\<lambda>x. fst (snd (snd x)) \<in> set (live r)) (heap r), stale := 0\<rparr>)"
  by (simp add: compact_def case_prod_unfold)

lemma compact_set: "set (heap (compact r)) \<subseteq> set (heap r)"
  by (auto simp: compact_alt)

lemma compact_keeps: "x \<in> set (heap r) \<Longrightarrow> fst (snd (snd x)) \<in> set (live r) \<Longrightarrow> x \<in> set (heap (compact r))"
  by (auto simp: compact_alt)

lemma filter_sorted: "sorted_wrt P xs \<Longrightarrow> sorted_wrt P (filter Q xs)"
  by (induction xs) auto

lemma deadlines_filter:
  assumes "deadlines_ok r" and "length (filter (\<lambda>x. fst (snd (snd x)) \<notin> set (live r)) (filter Q (heap r))) \<le> n"
  shows "deadlines_ok (r\<lparr>heap := filter Q (heap r), stale := n\<rparr>)"
  using assms by (auto simp: deadlines_ok_def heap_ok_def filter_sorted distinct_map_filter dead_entries_def)

lemma compact_ok: "registry_ok r e \<Longrightarrow> registry_ok (compact r) e"
proof -
  assume ok: "registry_ok r e"
  have "deadlines_ok (compact r)"
  proof (cases "stale r < 32 \<or> stale r * 2 < length (heap r)")
    case False
    have "deadlines_ok (r\<lparr>heap := filter (\<lambda>x. fst (snd (snd x)) \<in> set (live r)) (heap r), stale := 0\<rparr>)"
      using ok by (intro deadlines_filter) (auto simp: registry_ok_def filter_filter)
    with False show ?thesis by (simp add: compact_alt)
  qed (use ok in \<open>simp add: compact_alt registry_ok_def\<close>)
  with ok show ?thesis
    by (auto simp: registry_ok_def live_ok_def indexed_def filed_under_def counted_def invoked_once_def)
qed

lemma compact_bound:
  "registry_ok r e \<Longrightarrow> length (dead_entries (compact r)) < 32 \<or> length (dead_entries (compact r)) * 2 < length (heap (compact r))"
  by (auto simp: compact_alt registry_parts dead_entries_def filter_filter)

lemma pop_ok:
  assumes ok: "registry_ok r e" and h: "heap r = x # rest" and x: "fst (snd (snd x)) \<notin> set (live r)"
  shows "registry_ok (r\<lparr>heap := rest\<rparr>) e"
  using assms
  by (auto simp: registry_ok_def live_ok_def indexed_def filed_under_def counted_def deadlines_ok_def dead_entries_def
      invoked_once_def heap_ok_def)

lemma pop_live:
  assumes ok: "registry_ok r e" and h: "heap r = x # rest" and x: "fst (snd (snd x)) \<in> set (live r)"
  shows "registry_ok (taken_out (fst (snd (snd x))) (r\<lparr>heap := rest\<rparr>)) e"
  by (rule taken_out_ok)
    (use assms in \<open>auto simp: registry_ok_def live_ok_def indexed_def filed_under_def counted_def deadlines_ok_def
      dead_entries_def invoked_once_def heap_ok_def\<close>)

lemma wake_ok: "registry_ok r e \<Longrightarrow> registry_ok (r\<lparr>wake := b\<rparr>) e"
  by (erule registry_ok_cong) (auto simp: filing_def)

text \<open>A turn of the reaper, by what is at the head of the compacted heap.\<close>

lemma reap_turn_cases:
  fixes r :: "('c, 'f, 'u) registry"
  defines "q \<equiv> compact (r\<lparr>wake := False\<rparr>)"
  obtains (empty) "heap q = []" "reap_turn now r = (WaitWake, q)"
    | (later) d s l t rest where "heap q = (d, s, l, t) # rest" "now < d" "reap_turn now r = (WaitFor (d - now), q)"
    | (dropped) d s l t rest where "heap q = (d, s, l, t) # rest" "d \<le> now" "l \<notin> set (live q)"
        "reap_turn now r = (GoRound, q\<lparr>heap := rest\<rparr>)"
    | (expired) d s l t rest where "heap q = (d, s, l, t) # rest" "d \<le> now" "l \<in> set (live q)"
        "reap_turn now r = (GoRound, fail l (ListenerTimeout t) (taken_out l (q\<lparr>heap := rest\<rparr>)))"
proof (cases "heap q")
  case Nil
  then show ?thesis using empty by (simp add: reap_turn_def q_def Let_def)
next
  case (Cons x rest)
  obtain d s l t where x: "x = (d, s, l, t)" by (cases x)
  show ?thesis
  proof (cases "now < d")
    case True
    with Cons x show ?thesis using later by (simp add: reap_turn_def q_def Let_def)
  next
    case False
    with Cons x show ?thesis
      using dropped [of d s l t rest] expired [of d s l t rest]
      by (cases rule: remove_cases [of l "q\<lparr>heap := rest\<rparr>"]) (auto simp: reap_turn_def q_def Let_def)
  qed
qed

lemma reap_turn_ok:
  assumes "registry_ok r e"
  shows "registry_ok (snd (reap_turn now r)) e"
proof -
  have q: "registry_ok (compact (r\<lparr>wake := False\<rparr>)) e" by (intro compact_ok wake_ok assms)
  show ?thesis
  proof (cases rule: reap_turn_cases [of r now])
    case (dropped d s l t rest)
    with pop_ok [OF q dropped(1)] show ?thesis by simp
  next
    case (expired d s l t rest)
    with pop_live [OF q expired(1)] show ?thesis by (simp add: fail_ok)
  qed (use q in simp_all)
qed

subsection \<open>New listeners\<close>

definition unused :: "lref \<Rightarrow> ('c, 'f, 'u) registry \<Rightarrow> bool" where
  "unused l r =
     (l \<notin> set (live r) \<and> l \<notin> fst ` set (invoked r) \<and> l \<notin> (\<lambda>x. fst (snd (snd x))) ` set (heap r))"

definition addable :: "lref \<Rightarrow> ('c, 'f, 'u) registry \<Rightarrow> bool" where
  "addable l r =
     (unused l r \<and> l < next_listener r \<and> one_way (objs r l) \<and>
      (\<forall>f. future (objs r l) = Some f \<longrightarrow> f < next_future r \<and> (\<forall>l' \<in> set (live r). future (objs r l') \<noteq> Some f)))"

definition filed :: "lref \<Rightarrow> ('c, 'f, 'u) registry \<Rightarrow> ('c, 'f, 'u) registry" where
  "filed l r =
     r\<lparr>used := used r + 1, objs := (objs r)(l := (objs r l)\<lparr>bucket_keys := keys_for (objs r l)\<rparr>), live := live r @ [l],
       buckets := fold (file_under l) (keys_for (objs r l)) (buckets r)\<rparr>"

lemma add_cases:
  assumes "l \<notin> set (live r)"
  obtains (closed) "closed r" "add now l timeout r = (Inl ListenerStopped, r)"
    | (full) "\<not> closed r" "limit r \<le> used r" "add now l timeout r = (Inl (ListenerLimitReached (limit r)), r)"
    | (forever) "\<not> closed r" "used r < limit r" "timeout = None" "add now l timeout r = (Inr (), filed l r)"
    | (until) t where "\<not> closed r" "used r < limit r" "timeout = Some t" "add now l timeout r = (Inr (), schedule_deadline now l t (filed l r))"
  using assms
  by (cases "closed r"; cases "limit r \<le> used r"; cases timeout)
    (auto simp: add_def acquire_def filed_def dict_put_new Let_def)

lemma filed_under_filed:
  assumes "l \<notin> set (live r)"
  shows "filed_under (filed l r) k = filed_under r k @ (if k \<in> set (keys_for (objs r l)) then [l] else [])"
  using assms by (auto simp: filed_under_def filed_def intro: filter_cong)

lemma indexed_filed:
  assumes "indexed r" and l: "l \<notin> set (live r)"
  shows "indexed (filed l r)"
proof -
  have "l \<notin> set (filed_under r k)" for k using l by (auto simp: filed_under_def)
  then have "buckets (filed l r) k = dict_of (filed_under (filed l r) k)" for k
    unfolding filed_under_filed [OF l]
    by (simp add: filed_def fold_file_under indexed_dict [OF assms(1)] dict_put_new dict_of_def indexed_at [OF assms(1)])
  then show ?thesis by (simp add: indexed_def)
qed

lemma filed_ok:
  assumes ok: "registry_ok r e" and a: "addable l r" and s: "used r < limit r" "\<not> closed r"
  shows "registry_ok (filed l r) e"
proof -
  have l: "l \<notin> set (live r)" using a by (simp add: addable_def unused_def)
  have "live_ok (filed l r)"
    using ok a l unfolding registry_ok_def live_ok_def addable_def
    by (auto simp: filed_def)
  moreover have "dead_entries (filed l r) = dead_entries r"
    using a by (auto simp: dead_entries_def filed_def addable_def unused_def image_iff intro: filter_cong)
  then have "deadlines_ok (filed l r)" using ok by (auto simp: registry_ok_def deadlines_ok_def filed_def)
  ultimately show ?thesis
    using indexed_filed [of r l] l ok a s
    by (auto simp: registry_ok_def filed_def counted_def invoked_once_def addable_def unused_def)
qed

lemma schedule_deadline_ok:
  assumes ok: "registry_ok r e" and l: "l \<in> set (live r)" "l < next_listener r" "l \<notin> (\<lambda>x. fst (snd (snd x))) ` set (heap r)"
  shows "registry_ok (schedule_deadline now l t r) e"
proof -
  have "seq r \<notin> (\<lambda>x. fst (snd x)) ` set (heap r)"
    using ok by (auto simp: registry_ok_def deadlines_ok_def)
  then have "heap_ok (heap (schedule_deadline now l t r))"
    using ok by (simp add: schedule_deadline_def registry_ok_def deadlines_ok_def deadlines.push_ok)
  moreover have "filter (\<lambda>x. fst (snd (snd x)) \<notin> set (live r)) (heappush (now + t, seq r, l, t) h) =
      filter (\<lambda>x. fst (snd (snd x)) \<notin> set (live r)) h" for h
    using l(1) by (induction h) auto
  ultimately have "deadlines_ok (schedule_deadline now l t r)"
    using ok l by (auto simp: registry_ok_def deadlines_ok_def schedule_deadline_def heappush_distinct dead_entries_def)
  with ok show ?thesis
    by (auto simp: registry_ok_def live_ok_def indexed_def filed_under_def counted_def invoked_once_def schedule_deadline_def)
qed

lemma add_ok:
  assumes ok: "registry_ok r e" and a: "addable l r"
  shows "registry_ok (snd (add now l timeout r)) e"
proof -
  have l: "l \<notin> set (live r)" using a by (simp add: addable_def unused_def)
  then show ?thesis
  proof (cases rule: add_cases [of l r now timeout])
    case (until t)
    have "registry_ok (schedule_deadline now l t (filed l r)) e"
      by (rule schedule_deadline_ok [OF filed_ok [OF ok a]]) (use until a in \<open>auto simp: filed_def addable_def unused_def image_iff\<close>)
    with until show ?thesis by simp
  qed (use ok in \<open>auto intro: filed_ok [OF ok a]\<close>)
qed

lemma new_registry_ok: "held \<le> cap \<Longrightarrow> registry_ok (new_registry cap held) held"
  by (auto simp: registry_ok_def live_ok_def indexed_def filed_under_def counted_def deadlines_ok_def dead_entries_def
      invoked_once_def new_registry_def heap_ok_def dict_of_def)

text \<open>A listener that is allocated and added.\<close>

definition allocated :: "('c, 'f) Listener \<Rightarrow> ('c, 'f, 'u) registry \<Rightarrow> ('c, 'f, 'u) registry" where
  "allocated x r =
     r\<lparr>objs := (objs r)(next_listener r := x), next_listener := next_listener r + 1,
       futures := (case future x of None \<Rightarrow> futures r | Some f \<Rightarrow> (futures r)(f := Pending)),
       next_future := (case future x of None \<Rightarrow> next_future r | Some f \<Rightarrow> f + 1)\<rparr>"

lemma unused_next: "registry_ok r e \<Longrightarrow> unused (next_listener r) r"
  by (auto simp: registry_parts unused_def)

lemma allocated_ok:
  assumes ok: "registry_ok r e" and x: "one_way x" "future x = None \<or> future x = Some (next_future r)"
  shows "registry_ok (allocated x r) e" "addable (next_listener r) (allocated x r)"
proof -
  have n: "next_listener r \<notin> set (live r)" using unused_next [OF ok] by (simp add: unused_def)
  show "registry_ok (allocated x r) e"
    using ok by (rule registry_ok_cong) (use x n in \<open>auto simp: allocated_def filing_def\<close>)
  have "future (objs r l') \<noteq> Some (next_future r)" if "l' \<in> set (live r)" for l'
    using that ok by (auto simp: registry_parts)
  with unused_next [OF ok] x n show "addable (next_listener r) (allocated x r)"
    by (auto simp: addable_def unused_def allocated_def)
qed

abbreviation waiting_listener :: "ListenerTypes \<Rightarrow> Identifier \<Rightarrow> 'f option \<Rightarrow> click_alert \<Rightarrow> fref \<Rightarrow> ('c, 'f) Listener" where
  "waiting_listener t i fl al f \<equiv>
     \<lparr>listener_type = t, l_identifier = i, filters = fl, future = Some f, callback = None, unallowed_click_alert = al, bucket_keys = []\<rparr>"

abbreviation calling_listener :: "ListenerTypes \<Rightarrow> Identifier \<Rightarrow> 'f option \<Rightarrow> click_alert \<Rightarrow> 'c \<Rightarrow> ('c, 'f) Listener" where
  "calling_listener t i fl al c \<equiv>
     \<lparr>listener_type = t, l_identifier = i, filters = fl, future = None, callback = Some c, unallowed_click_alert = al, bucket_keys = []\<rparr>"

lemma listen_add:
  "listen now t i fl al timeout r =
     (case add now (next_listener r) timeout (allocated (waiting_listener t i fl al (next_future r)) r) of
        (Inl e, r) \<Rightarrow> (Inl e, r) | (Inr (), q) \<Rightarrow> (Inr (next_listener r), q))"
proof -
  have "allocated (waiting_listener t i fl al (next_future r)) r =
      r\<lparr>next_listener := Suc (next_listener r), next_future := Suc (next_future r), futures := (futures r)(next_future r := Pending),
        objs := (objs r)(next_listener r := waiting_listener t i fl al (next_future r))\<rparr>"
    by (cases r) (simp add: allocated_def)
  then show ?thesis by (simp add: listen_def new_Listener_def Let_def)
qed

lemma register_add:
  "register_next_step_handler now c t i fl al timeout r =
     (case add now (next_listener r) timeout (allocated (calling_listener t i fl al c) r) of
        (Inl e, r) \<Rightarrow> (Inl e, r) | (Inr (), q) \<Rightarrow> (Inr (next_listener r), q))"
proof -
  have "allocated (calling_listener t i fl al c) r =
      r\<lparr>next_listener := Suc (next_listener r), objs := (objs r)(next_listener r := calling_listener t i fl al c)\<rparr>"
    by (cases r) (simp add: allocated_def)
  then show ?thesis by (simp add: register_next_step_handler_def new_Listener_def Let_def)
qed

lemma snd_case_unit: "snd (case x of (Inl e, r) \<Rightarrow> (Inl e, r) | (Inr (), q) \<Rightarrow> (Inr l, q)) = snd x"
  by (auto split: prod.split sum.split unit.split)

lemma listen_ok: "registry_ok r e \<Longrightarrow> registry_ok (snd (listen now t i fl al timeout r)) e"
  unfolding listen_add snd_case_unit by (rule add_ok) (simp_all add: allocated_ok one_way_def)

lemma register_ok: "registry_ok r e \<Longrightarrow> registry_ok (snd (register_next_step_handler now c t i fl al timeout r)) e"
  unfolding register_add snd_case_unit by (rule add_ok) (simp_all add: allocated_ok one_way_def)

subsection \<open>Closing\<close>

definition close_one :: "lref \<Rightarrow> ('c, 'f, 'u) registry \<Rightarrow> ('c, 'f, 'u) registry" where
  "close_one l r = fail l ListenerStopped (snd (remove l r))"

lemma close_fold: "close r = (fold close_one (live r) (r\<lparr>closed := True\<rparr>))\<lparr>buckets := Map.empty, heap := [], stale := 0, reaper := False\<rparr>"
  by (simp add: close_def close_one_def [abs_def] Let_def)

text \<open>What closing listeners one by one does, without the flag.\<close>

definition open_ok :: "('c, 'f, 'u) registry \<Rightarrow> nat \<Rightarrow> bool" where
  "open_ok r e = registry_ok (r\<lparr>closed := False\<rparr>) e"

lemma close_one_ok: "registry_ok r e \<Longrightarrow> registry_ok (close_one l r) e"
  by (cases rule: remove_cases [of l r]) (auto simp: close_one_def removeAll_fail_ok fail_ok)

lemma close_one_open: "(close_one l r)\<lparr>closed := b\<rparr> = close_one l (r\<lparr>closed := b\<rparr>)"
  by (cases r) (auto simp: close_one_def remove_def release_def fail_def detach_def Let_def split: option.split)

lemma close_one_open_ok: "open_ok r e \<Longrightarrow> open_ok (close_one l r) e"
  unfolding open_ok_def close_one_open by (rule close_one_ok)

lemma close_one_eq: "close_one l r = fail l ListenerStopped (if l \<in> set (live r) then taken_out l r else r)"
  by (simp add: close_one_def remove_live remove_gone)

lemma close_one_simps [simp]:
  "live (close_one l r) = removeAll l (live r)" "closed (close_one l r) = closed r"
  "invoked (close_one l r) = invoked r" "alerts (close_one l r) = alerts r"
  by (simp_all add: close_one_eq removeAll_id)

lemma close_one_future: "y \<noteq> l \<Longrightarrow> future (objs (close_one l r) y) = future (objs r y)"
  by (cases rule: remove_cases [of l r]) (simp_all add: close_one_def)

lemma close_one_futures:
  "futures (close_one l r) f =
     (if future (objs r l) = Some f \<and> futures r f = Pending then Failed ListenerStopped else futures r f)"
  by (cases rule: remove_cases [of l r]) (auto simp: close_one_def fail_def split: option.splits)

lemma close_fold_simps [simp]:
  "live (fold close_one ls r) = filter (\<lambda>l. l \<notin> set ls) (live r)" "closed (fold close_one ls r) = closed r"
  "invoked (fold close_one ls r) = invoked r" "alerts (fold close_one ls r) = alerts r"
  by (induction ls arbitrary: r) (auto simp: removeAll_filter_not_eq intro: filter_cong)

lemma close_fold_open_ok: "open_ok r e \<Longrightarrow> open_ok (fold close_one ls r) e"
  by (induction ls arbitrary: r) (auto simp: close_one_open_ok)

lemma close_fold_futures:
  "distinct ls \<Longrightarrow> futures (fold close_one ls r) f =
     (if futures r f = Pending \<and> Some f \<in> (\<lambda>l. future (objs r l)) ` set ls then Failed ListenerStopped else futures r f)"
proof (induction ls arbitrary: r)
  case (Cons l ls)
  have "(\<lambda>x. future (objs (close_one l r) x)) ` set ls = (\<lambda>x. future (objs r x)) ` set ls"
    using Cons.prems by (intro image_cong) (auto intro!: close_one_future)
  with Cons.IH [of "close_one l r"] Cons.prems show ?case
    by (simp add: close_one_futures)
qed simp

lemma close_ok:
  assumes ok: "registry_ok r e"
  shows "registry_ok (close r) e" "live (close r) = []" "used (close r) = e"
proof -
  let ?q = "fold close_one (live r) (r\<lparr>closed := True\<rparr>)"
  have "open_ok (r\<lparr>closed := True\<rparr>) e"
    using ok by (auto simp: open_ok_def registry_ok_def live_ok_def indexed_def filed_under_def counted_def deadlines_ok_def
        dead_entries_def invoked_once_def)
  then have q: "open_ok ?q e" by (rule close_fold_open_ok)
  have l: "live ?q = []" by (simp add: filter_empty_conv)
  show "live (close r) = []" using l by (simp add: close_fold)
  show "used (close r) = e" using q l by (simp add: close_fold open_ok_def registry_ok_def counted_def)
  show "registry_ok (close r) e"
    using q l by (auto simp: close_fold open_ok_def registry_ok_def live_ok_def indexed_def filed_under_def counted_def
        deadlines_ok_def dead_entries_def invoked_once_def heap_ok_def dict_of_def)
qed

lemma reopen_ok: "registry_ok r e \<Longrightarrow> registry_ok (reopen r) e"
  by (auto simp: reopen_def registry_ok_def live_ok_def indexed_def filed_under_def counted_def deadlines_ok_def
      dead_entries_def invoked_once_def)

end
