(* ===== verification/Listener_Feed.thy ===== *)
theory Listener_Feed
  imports Listener_Registry "HOL-Library.Multiset"
begin

text \<open>
  The listeners of a client in the presence of everything else that runs: the step relation of the registry,
  the lookup of an update against a scan of the live listeners, the delivery of an update, expiry and closing.
\<close>

section \<open>Steps\<close>

text \<open>
  What can happen to a registry between two suspension points: a task waits or registers a callback, its wait is
  cancelled or over, a listener is stopped, a worker hands an update over or answers a click, the reaper
  takes a turn, the client closes or opens; and another client of the loop takes or returns a
  slot of the budget.
\<close>

inductive step :: "('c, 'f, 'u) registry \<times> nat \<Rightarrow> ('c, 'f, 'u) registry \<times> nat \<Rightarrow> bool" where
  listening: "step (r, e) (snd (listen now t i fl al timeout r), e)"
| registering: "step (r, e) (snd (register_next_step_handler now c t i fl al timeout r), e)"
| cancelling: "step (r, e) (cancel_wait f r, e)"
| wait_over: "step (r, e) (snd (remove l r), e)"
| stopping: "step (r, e) (snd (stop_listener l r), e)"
| handing: "step (r, e) (snd (hand_over l u r), e)"
| alerting: "step (r, e) (snd (reject st l u r), e)"
| reaping: "step (r, e) (snd (reap_turn now r), e)"
| closing: "step (r, e) (close r, e)"
| reopening: "step (r, e) (reopen r, e)"
| taking: "used r < limit r \<Longrightarrow> step (r, e) (snd (acquire r), Suc e)"
| returning: "step (r, Suc e) (release r, e)"

lemma reject_ok: "registry_ok r e \<Longrightarrow> registry_ok (snd (reject st l u r)) e"
  by (erule registry_ok_cong) (auto simp: reject_def filing_def Let_def)

lemma taking_ok: "registry_ok r e \<Longrightarrow> used r < limit r \<Longrightarrow> registry_ok (snd (acquire r)) (Suc e)"
  by (auto simp: acquire_def registry_ok_def live_ok_def indexed_def filed_under_def counted_def deadlines_ok_def
      dead_entries_def invoked_once_def)

lemma returning_ok: "registry_ok r (Suc e) \<Longrightarrow> registry_ok (release r) e"
  by (auto simp: release_def registry_ok_def live_ok_def indexed_def filed_under_def counted_def deadlines_ok_def
      dead_entries_def invoked_once_def)

lemmas operations_ok =
  listen_ok register_ok cancel_wait_ok remove_ok stop_listener_ok hand_over_ok reject_ok reap_turn_ok close_ok(1) reopen_ok
  taking_ok returning_ok

lemma step_ok: "step x y \<Longrightarrow> registry_ok (fst x) (snd x) \<Longrightarrow> registry_ok (fst y) (snd y)"
  by (induction rule: step.induct) (simp_all add: operations_ok)

lemma steps_ok: "step\<^sup>*\<^sup>* x y \<Longrightarrow> registry_ok (fst x) (snd x) \<Longrightarrow> registry_ok (fst y) (snd y)"
  by (induction rule: rtranclp_induct) (auto intro: step_ok)

text \<open>A future that is settled stays as it is.\<close>

definition settled :: "('c, 'f, 'u) registry \<Rightarrow> ('c, 'f, 'u) registry \<Rightarrow> bool" where
  "settled r q =
     (next_future r \<le> next_future q \<and> (\<forall>f. f < next_future r \<longrightarrow> futures r f \<noteq> Pending \<longrightarrow> futures q f = futures r f))"

lemma settled_refl [simp]: "settled r r"
  by (simp add: settled_def)

lemma settled_trans: "settled r q \<Longrightarrow> settled q p \<Longrightarrow> settled r p"
  unfolding settled_def by (metis order_trans less_le_trans)

lemma settled_same: "futures q = futures r \<Longrightarrow> next_future q = next_future r \<Longrightarrow> settled r q"
  by (simp add: settled_def)

lemma add_futures: "futures (snd (add now l timeout r)) = futures r" "next_future (snd (add now l timeout r)) = next_future r"
  by (auto simp: add_def acquire_def schedule_deadline_def Let_def split: option.split)

lemma allocated_settled: "future x = None \<or> future x = Some (next_future r) \<Longrightarrow> settled r (allocated x r)"
  by (auto simp: settled_def allocated_def)

lemma allocate_settled:
  "future x = None \<or> future x = Some (next_future r) \<Longrightarrow> settled r (snd (add now l timeout (allocated x r)))"
  using allocated_settled [of x r] by (rule settled_trans) (auto intro: settled_same simp: add_futures)

lemma remove_settled: "settled r (snd (remove l r))"
  by (cases rule: remove_cases [of l r]) (auto intro: settled_same)

lemma fail_settled: "settled r (fail l x r)"
  by (auto simp: settled_def fail_def split: option.split)

lemma removed_fail_settled: "settled r (fail l x (taken_out l q))" if "futures q = futures r" "next_future q = next_future r"
  using fail_settled [of "taken_out l q" l x] that by (simp add: settled_def)

lemma hand_over_settled: "settled r (snd (hand_over l u r))"
  by (cases rule: remove_cases [of l r]) (auto simp: hand_over_def settled_def split: option.split)

lemma reap_turn_settled: "settled r (snd (reap_turn now r))"
  by (cases rule: reap_turn_cases [of r now]) (auto intro: settled_same removed_fail_settled)

lemma close_fold_settled: "settled r (fold close_one ls r)"
proof (induction ls arbitrary: r)
  case (Cons l ls)
  have "settled r (close_one l r)"
    using settled_trans [OF remove_settled fail_settled] by (simp add: close_one_def)
  with Cons.IH [of "close_one l r"] show ?case by (auto intro: settled_trans)
qed simp

lemma close_settled: "settled r (close r)"
  using close_fold_settled [of "r\<lparr>closed := True\<rparr>" "live r"] by (simp add: close_fold settled_def)

lemma cancel_wait_settled: "settled r (cancel_wait f r)"
  by (simp add: settled_def cancel_wait_def)

lemma step_settled: "step x y \<Longrightarrow> settled (fst x) (fst y)"
proof (induction rule: step.induct)
  case (stopping r e l)
  show ?case
    by (cases rule: remove_cases [of l r]) (auto simp: stop_listener_def intro: removed_fail_settled)
qed (auto simp: listen_add register_add snd_case_unit remove_settled hand_over_settled reap_turn_settled close_settled
    cancel_wait_settled reject_def reopen_def acquire_def release_def Let_def intro: allocate_settled settled_same
    split: if_splits)

lemma steps_settled: "step\<^sup>*\<^sup>* x y \<Longrightarrow> settled (fst x) (fst y)"
  by (induction rule: rtranclp_induct) (auto intro: settled_trans step_settled)

section \<open>Finding the listeners of an update\<close>

text \<open>The ids of an update, as \<open>_identify\<close> returns them: those of its identifier.\<close>

lemma identify_ids:
  "identify t v = Some (d, chat, user) \<Longrightarrow> chat_id d = as_field SInt chat \<and> user_id d = as_field SInt user"
  by (auto simp: identify_def Let_def split: ListenerTypes.splits if_splits)

lemma field_matches_as_keys:
  "field_matches p (as_field c v) \<longleftrightarrow> p = FNone \<or> (\<exists>x. v = Some x \<and> c x \<in> set (as_keys p))"
  by (cases p; cases v) (auto simp: as_field_def)

lemma matches_fields:
  "matches p d \<longleftrightarrow> field_matches (chat_id p) (chat_id d) \<and> field_matches (user_id p) (user_id d) \<and>
     field_matches (message_id p) (message_id d) \<and> field_matches (inline_message_id p) (inline_message_id d)"
  by (simp add: matches_def FIELDS_def)

definition probes :: "ListenerTypes \<Rightarrow> int option \<Rightarrow> int option \<Rightarrow> bucket_key list" where
  "probes t chat user =
     (case chat of None \<Rightarrow> [] | Some c \<Rightarrow> [(t, CHAT, Some (SInt c))]) @
     (case user of None \<Rightarrow> [] | Some i \<Rightarrow> [(t, USER, Some (SInt i))]) @ [(t, GLOBAL, None)]"

lemma candidates_probes: "candidates t chat user r = concat (map (\<lambda>k. bucket k r) (probes t chat user))"
  by (auto simp: candidates_def probes_def split: option.split)

lemma probes_kinds: "distinct (map (\<lambda>k. fst (snd k)) (probes t chat user))"
  by (auto simp: probes_def split: option.split)

text \<open>The keys of a listener are all of one kind, and the probes have one key of each kind.\<close>

lemma keys_one_kind: "k \<in> set (keys_for l) \<Longrightarrow> k' \<in> set (keys_for l) \<Longrightarrow> fst (snd k) = fst (snd k')"
  by (auto simp: keys_for_def Let_def split: if_splits)

lemma keys_type: "k \<in> set (keys_for l) \<Longrightarrow> fst k = listener_type l"
  by (auto simp: keys_for_def Let_def split: if_splits)

lemma probes_type: "k \<in> set (probes t chat user) \<Longrightarrow> fst k = t"
  by (auto simp: probes_def split: option.splits)

lemma keys_probed:
  assumes "identify t v = Some (d, chat, user)" "listener_type l = t" "matches (l_identifier l) d"
  obtains k where "k \<in> set (keys_for l)" "k \<in> set (probes t chat user)"
proof -
  have c: "field_matches (chat_id (l_identifier l)) (as_field SInt chat)"
    and u: "field_matches (user_id (l_identifier l)) (as_field SInt user)"
    using assms(3) identify_ids [OF assms(1)] by (simp_all add: matches_fields)
  from c u assms(2) have "\<exists>k. k \<in> set (keys_for l) \<and> k \<in> set (probes t chat user)"
    unfolding field_matches_as_keys
    by (cases chat; cases user) (auto simp: keys_for_def probes_def Let_def split: if_splits)
  with that show ?thesis by blast
qed

lemma candidates_live:
  assumes "registry_ok r e"
  shows "l \<in> set (candidates t chat user r) \<longleftrightarrow>
    l \<in> set (live r) \<and> (\<exists>k \<in> set (probes t chat user). k \<in> set (keys_for (objs r l)))"
  using assms
  by (auto simp: candidates_probes registry_ok_def indexed_bucket filed_under_def live_ok_def)

lemma candidates_type: "registry_ok r e \<Longrightarrow> l \<in> set (candidates t chat user r) \<Longrightarrow> listener_type (objs r l) = t"
  using keys_type probes_type by (fastforce simp: candidates_live)

lemma candidates_distinct:
  assumes ok: "registry_ok r e"
  shows "distinct (candidates t chat user r)"
proof -
  have b: "bucket k r = filed_under r k" for k using ok by (simp add: registry_ok_def indexed_bucket)
  have d: "distinct (filed_under r k)" for k using ok by (simp add: filed_under_def registry_ok_def live_ok_def)
  have n: "set (filed_under r k) \<inter> set (filed_under r k') = {}" if "fst (snd k) \<noteq> fst (snd k')" for k k'
    using that ok keys_one_kind [of k _ k'] by (auto simp: filed_under_def registry_ok_def live_ok_def)
  have "distinct (concat (map (filed_under r) ks))" if "distinct (map (\<lambda>k. fst (snd k)) ks)" for ks
    using that by (induction ks) (use d n in \<open>fastforce simp: image_iff\<close>)+
  from this [OF probes_kinds] show ?thesis by (simp add: candidates_probes b)
qed

section \<open>Handing an update over\<close>

text \<open>The listener is out of the registry, and its callback or its future, and nobody else's, has the update.\<close>

definition handed_to :: "lref \<Rightarrow> 'u \<Rightarrow> ('c, 'f, 'u) registry \<Rightarrow> ('c, 'f, 'u) registry \<Rightarrow> bool" where
  "handed_to l u r q =
     (l \<in> set (live r) \<and> live q = removeAll l (live r) \<and> heap q = heap r \<and>
      (case callback (objs r l) of
         Some c \<Rightarrow> invoked q = invoked r @ [(l, c, u)] \<and> futures q = futures r
       | None \<Rightarrow> invoked q = invoked r \<and>
           (case future (objs r l) of
              Some f \<Rightarrow> futures r f = Pending \<and> futures q = (futures r)(f := Done u)
            | None \<Rightarrow> False)))"

lemma hand_over_handed:
  assumes "registry_ok r e" "hand_over l u r = (True, q)"
  shows "handed_to l u r q"
  using assms(1)
proof (cases rule: hand_over_cases [of r e l u])
  case (call c)
  with assms(2) show ?thesis by (auto simp: handed_to_def)
next
  case (wake f)
  with assms(2) show ?thesis by (auto simp: handed_to_def)
qed (use assms(2) in simp_all)

lemma hand_over_pending:
  assumes "registry_ok r e" "l \<in> set (live r)" "is_pending r l"
  shows "fst (hand_over l u r)"
  using assms(1)
  by (cases rule: hand_over_cases [of r e l u]) (use assms(2,3) in \<open>auto simp: is_pending_def\<close>)

text \<open>Filters that leave the registry alone; a filter that raises does not pass.\<close>

definition quiet :: "('f \<Rightarrow> 'u \<Rightarrow> bool option) \<Rightarrow> ('c, 'f, 'u) checker" where
  "quiet pass f u r = (pass f u, r)"

definition passes :: "('f \<Rightarrow> 'u \<Rightarrow> bool option) \<Rightarrow> 'f option \<Rightarrow> 'u \<Rightarrow> bool" where
  "passes pass fl u = (case fl of None \<Rightarrow> True | Some f \<Rightarrow> pass f u = Some True)"

definition wants :: "('f \<Rightarrow> 'u \<Rightarrow> bool option) \<Rightarrow> Identifier \<Rightarrow> 'u \<Rightarrow> ('c, 'f, 'u) registry \<Rightarrow> lref \<Rightarrow> bool" where
  "wants pass d u r l = (is_pending r l \<and> matches (l_identifier (objs r l)) d \<and> passes pass (filters (objs r l)) u)"

definition bothered :: "Identifier \<Rightarrow> ('c, 'f, 'u) registry \<Rightarrow> lref \<Rightarrow> bool" where
  "bothered d r l = (is_pending r l \<and> \<not> matches (l_identifier (objs r l)) d \<and> is_stranger (objs r l) d)"

lemma check_quiet: "check_filter (quiet pass) fl u r = (if fl = None then Some True else pass (the fl) u, r)"
  by (auto simp: check_filter_def quiet_def split: option.split)

lemma feed_loop_quiet:
  assumes ok: "registry_ok r e" and ls: "set ls \<subseteq> set (live r)"
  shows "feed_loop (quiet pass) d u ls s r =
    (case find (wants pass d u r) ls of
       Some l \<Rightarrow> (Taken l, snd (hand_over l u r))
     | None \<Rightarrow> (Nobody (if s = None then find (bothered d r) ls else s), r))"
  using ls
proof (induction ls arbitrary: s)
  case (Cons l ls)
  then have IH: "feed_loop (quiet pass) d u ls s' r =
      (case find (wants pass d u r) ls of
         Some l \<Rightarrow> (Taken l, snd (hand_over l u r))
       | None \<Rightarrow> (Nobody (if s' = None then find (bothered d r) ls else s'), r))" for s'
    by simp
  show ?case
  proof (cases "wants pass d u r l")
    case True
    then have "fst (hand_over l u r)"
      using Cons.prems by (intro hand_over_pending [OF ok]) (auto simp: wants_def)
    then obtain q where "hand_over l u r = (True, q)" by (cases "hand_over l u r") auto
    with True show ?thesis
      by (auto simp: wants_def passes_def check_quiet split: option.splits)
  next
    case False
    then have w: "find (wants pass d u r) (l # ls) = find (wants pass d u r) ls" by simp
    consider (idle) "\<not> is_pending r l" | (other) "is_pending r l" "\<not> matches (l_identifier (objs r l)) d"
      | (unfit) "is_pending r l" "matches (l_identifier (objs r l)) d" "\<not> passes pass (filters (objs r l)) u"
      using False by (auto simp: wants_def)
    then show ?thesis
    proof cases
      case idle
      then have b: "find (bothered d r) (l # ls) = find (bothered d r) ls" by (simp add: bothered_def)
      from idle IH [of s] show ?thesis unfolding w b by simp
    next
      case other
      then have b: "find (bothered d r) (l # ls) = (if is_stranger (objs r l) d then Some l else find (bothered d r) ls)"
        by (simp add: bothered_def)
      from other IH [of "if s = None \<and> is_stranger (objs r l) d then Some l else s"] show ?thesis unfolding w b
        by (auto split: option.split)
    next
      case unfit
      then have b: "find (bothered d r) (l # ls) = find (bothered d r) ls" by (simp add: bothered_def)
      have "feed_loop (quiet pass) d u (l # ls) s r = feed_loop (quiet pass) d u ls s r"
        using unfit by (auto simp: check_quiet passes_def split: option.splits bool.splits)
      then show ?thesis unfolding w b using IH [of s] by simp
    qed
  qed
qed simp

lemma feed_quiet:
  assumes ok: "registry_ok r e" and i: "identify t (view u) = Some (d, chat, user)"
  shows "feed (quiet pass) st view t u r =
    (case find (wants pass d u r) (candidates t chat user r) of
       Some l \<Rightarrow> (True, snd (hand_over l u r))
     | None \<Rightarrow> (case find (bothered d r) (candidates t chat user r) of
                 Some l \<Rightarrow> reject st l u r | None \<Rightarrow> (False, r)))"
proof -
  have "set (candidates t chat user r) \<subseteq> set (live r)" by (auto simp: candidates_live [OF ok])
  from feed_loop_quiet [OF ok this, of pass d u None] show ?thesis
    by (auto simp: feed_def i Let_def split: option.splits)
qed

text \<open>The candidates of an update hold every live listener that wants it.\<close>

lemma candidate_iff:
  assumes ok: "registry_ok r e" and i: "identify t v = Some (d, chat, user)" and m: "matches (l_identifier (objs r l)) d"
  shows "l \<in> set (candidates t chat user r) \<longleftrightarrow> l \<in> set (live r) \<and> listener_type (objs r l) = t"
  using keys_probed [OF i _ m] candidates_live [OF ok, of l t chat user] candidates_type [OF ok, of l t chat user]
  by metis

text \<open>Filters that take their time: what happens meanwhile are steps of the registry.\<close>

definition interleaves :: "('c, 'f, 'u) checker \<Rightarrow> bool" where
  "interleaves chk = (\<forall>f u r e. \<exists>e'. step\<^sup>*\<^sup>* (r, e) (snd (chk f u r), e'))"

text \<open>How a feed ends: the last thing it does is to hand over, to answer, or nothing.\<close>

definition fed :: "alert_settings \<Rightarrow> 'u \<Rightarrow> ('c, 'f, 'u) registry \<Rightarrow> nat \<Rightarrow> bool \<times> ('c, 'f, 'u) registry \<Rightarrow> bool" where
  "fed st u r e res =
     (\<exists>r' e'. step\<^sup>*\<^sup>* (r, e) (r', e') \<and>
        ((\<exists>l. fst res \<and> l \<in> set (live r') \<and> handed_to l u r' (snd res)) \<or>
         (\<exists>l. res = reject st l u r') \<or> res = (False, r')))"

lemma check_filter_steps:
  assumes "interleaves chk"
  shows "\<exists>e'. step\<^sup>*\<^sup>* (r, e) (snd (check_filter chk fl u r), e')"
  using assms by (cases fl) (auto simp: check_filter_def interleaves_def)

definition loop_fed :: "'u \<Rightarrow> ('c, 'f, 'u) registry \<Rightarrow> nat \<Rightarrow> feed_end \<times> ('c, 'f, 'u) registry \<Rightarrow> bool" where
  "loop_fed u r e res =
     (\<exists>r' e'. step\<^sup>*\<^sup>* (r, e) (r', e') \<and>
        (case fst res of Taken l \<Rightarrow> l \<in> set (live r') \<and> handed_to l u r' (snd res) | Nobody s \<Rightarrow> snd res = r'))"

lemma loop_fed_steps: "step\<^sup>*\<^sup>* (r, e) (q, e') \<Longrightarrow> loop_fed u q e' res \<Longrightarrow> loop_fed u r e res"
  unfolding loop_fed_def by (meson rtranclp_trans)

lemma feed_loop_fed:
  assumes i: "interleaves chk" and ok: "registry_ok r e"
  shows "loop_fed u r e (feed_loop chk d u ls s r)"
  using ok
proof (induction ls arbitrary: r e s)
  case Nil
  then show ?case by (auto simp: loop_fed_def)
next
  case (Cons l ls)
  let ?fl = "filters (objs r l)"
  obtain b q where q: "check_filter chk ?fl u r = (b, q)" by (cases "check_filter chk ?fl u r")
  obtain e1 where e1: "step\<^sup>*\<^sup>* (r, e) (q, e1)" using check_filter_steps [OF i, of r e ?fl u] q by auto
  have okq: "registry_ok q e1" using steps_ok [OF e1] Cons.prems by simp
  have on: "loop_fed u r e (feed_loop chk d u ls s q)"
    by (rule loop_fed_steps [OF e1 Cons.IH [OF okq]])
  have "loop_fed u r e (case hand_over l u q of (True, p) \<Rightarrow> (Taken l, p) | (False, p) \<Rightarrow> feed_loop chk d u ls s p)"
  proof (cases "hand_over l u q")
    case (Pair t p)
    show ?thesis
    proof (cases t)
      case True
      with Pair hand_over_handed [OF okq] e1 show ?thesis by (auto simp: loop_fed_def handed_to_def)
    next
      case False
      have "step (q, e1) (p, e1)" using step.handing [of q e1 l u] Pair by simp
      with e1 have p: "step\<^sup>*\<^sup>* (r, e) (p, e1)" by (rule rtranclp.rtrancl_into_rtrancl)
      have "registry_ok p e1" using hand_over_ok [OF okq, of l u] Pair by simp
      from loop_fed_steps [OF p Cons.IH [OF this]] Pair False show ?thesis by simp
    qed
  qed
  with on Cons.IH [OF Cons.prems] q show ?case by (simp split: option.split bool.split)
qed

section \<open>Expiry\<close>

lemma reap_turn_settled_live: "set (live (snd (reap_turn now r))) \<subseteq> set (live r)"
  by (cases rule: reap_turn_cases [of r now]) auto

lemma reap_run_cases:
  obtains (round) q where "reap_turn (clock 0) r = (GoRound, q)" "reap_run clock r = reap_run (\<lambda>k. clock (Suc k)) q"
    | (rest) "fst (reap_turn (clock 0) r) \<noteq> GoRound" "reap_run clock r = reap_turn (clock 0) r"
  by (cases "reap_turn (clock 0) r"; cases "fst (reap_turn (clock 0) r)") (auto simp: reap_run.simps [of clock r])

lemma reap_run_ok:
  "registry_ok r e \<Longrightarrow> registry_ok (snd (reap_run clock r)) e \<and> settled r (snd (reap_run clock r)) \<and>
     set (live (snd (reap_run clock r))) \<subseteq> set (live r) \<and> fst (reap_run clock r) \<noteq> GoRound"
proof (induction clock r rule: reap_run.induct)
  case (1 clock r)
  show ?case
  proof (cases rule: reap_run_cases [of clock r])
    case (round q)
    have "registry_ok q e" "settled r q" "set (live q) \<subseteq> set (live r)"
      using reap_turn_ok [OF 1(2), of "clock 0"] reap_turn_settled [of r "clock 0"] reap_turn_settled_live [of "clock 0" r] round(1)
      by simp_all
    with 1(1) [OF round(1) [symmetric] refl] round(2) show ?thesis by (auto intro: settled_trans)
  next
    case rest
    with 1(2) show ?thesis by (simp add: reap_turn_ok reap_turn_settled reap_turn_settled_live)
  qed
qed

text \<open>When the reaper waits, no deadline it could see is due.\<close>

lemma head_not_due:
  assumes ok: "registry_ok r e" and h: "heap r = y # ys" and y: "now < fst y" and x: "x \<in> set (heap r)"
  shows "now < fst x"
  by (rule deadlines.head_bounds [where h = "heap r" and y = y and ys = ys])
    (use assms in \<open>auto simp: registry_ok_def deadlines_ok_def entry_less_def\<close>)

lemma reap_turn_waits:
  assumes ok: "registry_ok r e" and w: "fst (reap_turn now r) \<noteq> GoRound"
    and x: "x \<in> set (heap r)" "fst (snd (snd x)) \<in> set (live r)"
  shows "now < fst x"
proof -
  let ?q = "compact (r\<lparr>wake := False\<rparr>)"
  have q: "registry_ok ?q e" by (intro compact_ok wake_ok ok)
  have xq: "x \<in> set (heap ?q)" using compact_keeps [of x "r\<lparr>wake := False\<rparr>"] x by simp
  show ?thesis
  proof (cases rule: reap_turn_cases [of r now])
    case (later d s l t rest)
    then show ?thesis using head_not_due [OF q later(1) _ xq] by simp
  qed (use w xq in auto)
qed

text \<open>A due listener is taken out, and its future says so.\<close>

definition timed_out :: "lref \<Rightarrow> rat \<Rightarrow> ('c, 'f, 'u) registry \<Rightarrow> ('c, 'f, 'u) registry \<Rightarrow> bool" where
  "timed_out l t r q =
     (l \<notin> set (live q) \<and>
      (case future (objs r l) of
         Some f \<Rightarrow> if futures r f = Pending then futures q f = Failed (ListenerTimeout t) else futures q f = futures r f
       | None \<Rightarrow> True))"

lemma reap_turn_round:
  assumes ok: "registry_ok r e" and q: "reap_turn now r = (GoRound, q)"
    and x: "x \<in> set (heap r)" "fst (snd (snd x)) \<in> set (live r)"
  obtains (now) "timed_out (fst (snd (snd x))) (snd (snd (snd x))) r q"
    | (not_yet) "x \<in> set (heap q)" "fst (snd (snd x)) \<in> set (live q)" "objs q (fst (snd (snd x))) = objs r (fst (snd (snd x)))"
        "\<And>f. future (objs r (fst (snd (snd x)))) = Some f \<Longrightarrow> futures q f = futures r f"
proof -
  let ?c = "compact (r\<lparr>wake := False\<rparr>)"
  obtain d s l t where X: "x = (d, s, l, t)" by (cases x)
  have c: "registry_ok ?c e" by (intro compact_ok wake_ok ok)
  have xc: "x \<in> set (heap ?c)" using compact_keeps [of x "r\<lparr>wake := False\<rparr>"] x by simp
  show ?thesis
  proof (cases rule: reap_turn_cases [of r now])
    case (dropped d' s' l' t' rest)
    with q xc x(2) X have "x \<in> set rest" by auto
    with dropped q x(2) X show ?thesis using not_yet by simp
  next
    case (expired d' s' l' t' rest)
    show ?thesis
    proof (cases "x = (d', s', l', t')")
      case True
      with expired q X show ?thesis
        using now by (auto simp: timed_out_def fail_def detach_def taken_out_def split: option.splits)
    next
      case False
      with xc expired(1) have r: "x \<in> set rest" by auto
      have "l \<noteq> l'" using c r X expired(1) by (auto simp: registry_ok_def deadlines_ok_def image_iff)
      moreover have "future (objs r l') \<noteq> Some f" if "future (objs r l) = Some f" for f
        using that ok expired(3) x(2) X \<open>l \<noteq> l'\<close> by (auto simp: registry_ok_def live_ok_def)
      ultimately show ?thesis
        using expired q x(2) X r not_yet
        by (auto simp: fail_def detach_def taken_out_def split: option.splits if_splits)
    qed
  qed (use q in simp_all)
qed

lemma timed_out_later:
  assumes "timed_out l t r q" "settled q p" "set (live p) \<subseteq> set (live q)" "registry_ok r e" "settled r q" "l \<in> set (live r)"
  shows "timed_out l t r p"
proof -
  have "f < next_future q" if "future (objs r l) = Some f" for f
  proof -
    have "f < next_future r" using that assms(4,6) by (auto simp: registry_ok_def live_ok_def)
    with assms(5) show ?thesis by (auto simp: settled_def)
  qed
  with assms(1-3) show ?thesis
    by (auto simp: timed_out_def settled_def split: option.splits if_splits)
qed

lemma reap_run_due:
  assumes "registry_ok r e" "x \<in> set (heap r)" "fst (snd (snd x)) \<in> set (live r)" "\<And>k. fst x \<le> clock k"
  shows "timed_out (fst (snd (snd x))) (snd (snd (snd x))) r (snd (reap_run clock r))"
  using assms
proof (induction clock r rule: reap_run.induct)
  case (1 clock r)
  note ok = 1(2)
  show ?case
  proof (cases rule: reap_run_cases [of clock r])
    case (round q)
    have okq: "registry_ok q e" and s: "settled r q"
      using reap_turn_ok [OF ok, of "clock 0"] reap_turn_settled [of r "clock 0"] round(1) by simp_all
    from ok round(1) 1(3,4) show ?thesis
    proof (cases rule: reap_turn_round)
      case now
      with reap_run_ok [OF okq, of "\<lambda>k. clock (Suc k)"] ok s 1(4) round(2) show ?thesis
        by (auto intro: timed_out_later)
    next
      case not_yet
      from 1(1) [OF round(1) [symmetric] refl okq not_yet(1,2)] 1(5) round(2) not_yet(3,4) show ?thesis
        by (auto simp: timed_out_def split: option.splits)
    qed
  next
    case rest
    with reap_turn_waits [OF ok _ 1(3,4), of "clock 0"] 1(5) [of 0] show ?thesis by auto
  qed
qed

text \<open>And nobody else is.\<close>

lemma reap_turn_early:
  assumes ok: "registry_ok r e" and l: "l \<in> set (live r)"
    and late: "\<And>x. x \<in> set (heap r) \<Longrightarrow> fst (snd (snd x)) = l \<Longrightarrow> now < fst x"
  shows "l \<in> set (live (snd (reap_turn now r))) \<and> set (heap (snd (reap_turn now r))) \<subseteq> set (heap r)"
proof -
  have c: "set (heap (compact (r\<lparr>wake := False\<rparr>))) \<subseteq> set (heap r)"
    using compact_set [of "r\<lparr>wake := False\<rparr>"] by simp
  show ?thesis
    by (cases rule: reap_turn_cases [of r now]) (use c l late in \<open>fastforce\<close>)+
qed

lemma reap_run_early:
  assumes "registry_ok r e" "l \<in> set (live r)"
    and "\<And>x k. x \<in> set (heap r) \<Longrightarrow> fst (snd (snd x)) = l \<Longrightarrow> clock k < fst x"
  shows "l \<in> set (live (snd (reap_run clock r)))"
  using assms
proof (induction clock r rule: reap_run.induct)
  case (1 clock r)
  note t = reap_turn_early [OF 1(2,3), of "clock 0"]
  show ?case
  proof (cases rule: reap_run_cases [of clock r])
    case (round q)
    have okq: "registry_ok q e" using reap_turn_ok [OF 1(2), of "clock 0"] round(1) by simp
    have lq: "l \<in> set (live q)" and hq: "set (heap q) \<subseteq> set (heap r)" using t 1(4) [of _ 0] round(1) by auto
    have "clock (Suc k) < fst x" if "x \<in> set (heap q)" "fst (snd (snd x)) = l" for x k
      using that hq 1(4) [of x "Suc k"] by auto
    from 1(1) [OF round(1) [symmetric] refl okq lq this] round(2) show ?thesis by simp
  next
    case rest
    with t 1(4) [of _ 0] show ?thesis by auto
  qed
qed

section \<open>Properties\<close>

text \<open>A registry for the witnesses: a filtered wait for chat 5 until 5, and a wait for chat 7 until 100.\<close>

definition in_chat :: "int \<Rightarrow> Identifier" where
  "in_chat c = \<lparr>chat_id = FOne (SInt c), user_id = FNone, message_id = FNone, inline_message_id = FNone\<rparr>"

definition sample :: "(nat, nat, nat) registry" where
  "sample = snd (listen 0 MESSAGE (in_chat 7) None (ABool True) (Some 100)
     (snd (listen 0 MESSAGE (in_chat 5) (Some 1) (ABool True) (Some 5) (new_registry 10 3))))"

definition message_in :: "int \<Rightarrow> nat \<Rightarrow> update_view" where
  "message_in c u = \<lparr>u_id = Some 9, u_chat = Some c, u_from_user = Some 3, u_sender_chat = None, u_scheduled = False,
     u_outgoing = False, u_message = None, u_inline_message_id = None\<rparr>"

lemma sample_ok: "registry_ok sample 3"
  unfolding sample_def by (intro listen_ok new_registry_ok) simp

lemma sample_parts:
  "live sample = [0, 1]" "heap sample = [(5, 0, 0, 5), (100, 1, 1, 100)]"
  "objs sample 0 = (waiting_listener MESSAGE (in_chat 5) (Some 1) (ABool True) 0)\<lparr>bucket_keys := [(MESSAGE, CHAT, Some (SInt 5))]\<rparr>"
  "objs sample 1 = (waiting_listener MESSAGE (in_chat 7) None (ABool True) 1)\<lparr>bucket_keys := [(MESSAGE, CHAT, Some (SInt 7))]\<rparr>"
  "futures sample 0 = Pending" "futures sample 1 = Pending" "next_future sample = 2"
  by code_simp+

lemma sample_identified:
  "identify MESSAGE (message_in 7 0) =
     Some (\<lparr>chat_id = FOne (SInt 7), user_id = FOne (SInt 3), message_id = FOne (SInt 9), inline_message_id = FNone\<rparr>, Some 7, Some 3)"
  by (simp add: identify_def message_in_def as_field_def)

text \<open>
  C10. Whatever the tasks of a client and the other clients of its loop do, in any order, the buckets of the registry index
  exactly the live listeners, the budget counts them, no listener is invoked twice and deadlines stay in order.
\<close>

theorem registry_reachable:
  assumes "held \<le> cap" and "step\<^sup>*\<^sup>* (new_registry cap held, held) (r, e)"
  shows "registry_ok r e"
  using steps_ok [OF assms(2)] new_registry_ok [OF assms(1)] by simp

lemma registry_reachable_witness: "registry_ok (sample) 3"
proof (rule registry_reachable [of 3 10])
  have "step\<^sup>*\<^sup>* (new_registry 10 3, 3)
      (snd (listen 0 MESSAGE (in_chat 5) (Some (1 :: nat)) (ABool True) (Some 5) (new_registry 10 3 :: (nat, nat, nat) registry)), 3)"
    by (rule r_into_rtranclp) (rule step.listening)
  then show "step\<^sup>*\<^sup>* (new_registry 10 3, 3) (sample, 3)"
    unfolding sample_def by (rule rtranclp.rtrancl_into_rtrancl) (rule step.listening)
qed simp

text \<open>
  C22. Looking an update up by its chat and its sender finds the listeners that a scan of all of them would find.
\<close>

theorem candidates_are_the_scan:
  assumes ok: "registry_ok r e" and i: "identify t v = Some (d, chat, user)"
  shows "mset (filter (\<lambda>l. matches (l_identifier (objs r l)) d) (candidates t chat user r)) =
    mset (filter (\<lambda>l. listener_type (objs r l) = t \<and> matches (l_identifier (objs r l)) d) (live r))"
proof -
  have "set (filter (\<lambda>l. matches (l_identifier (objs r l)) d) (candidates t chat user r)) =
      set (filter (\<lambda>l. listener_type (objs r l) = t \<and> matches (l_identifier (objs r l)) d) (live r))"
    using candidate_iff [OF ok i] by auto
  moreover have "distinct (live r)" using ok by (simp add: registry_ok_def live_ok_def)
  ultimately show ?thesis
    using candidates_distinct [OF ok] by (subst set_eq_iff_mset_eq_distinct [symmetric]) auto
qed

lemma candidates_are_the_scan_witness:
  "mset (filter (\<lambda>l. matches (l_identifier (objs sample l))
      \<lparr>chat_id = FOne (SInt 7), user_id = FOne (SInt 3), message_id = FOne (SInt 9), inline_message_id = FNone\<rparr>)
      (candidates MESSAGE (Some 7) (Some 3) sample)) = {# 1 #}"
  unfolding candidates_are_the_scan [OF sample_ok sample_identified]
  by (simp add: sample_parts sample_parts(4) [simplified] sample_parts(6) [simplified] matches_def FIELDS_def in_chat_def)



text \<open>
  While a filter runs, listeners may come, go, be cancelled or take other updates: the registry stays in
  order, and a feed ends by handing its update to one live listener, by answering a click, or with the update not consumed.
\<close>

theorem feed_interleaved:
  assumes i: "interleaves chk" and ok: "registry_ok r e"
  shows "fed st u r e (feed chk st view t u r)"
proof (cases "identify t (view u)")
  case None
  then show ?thesis by (auto simp: feed_def fed_def)
next
  case (Some x)
  obtain d chat user where x: "x = (d, chat, user)" by (cases x)
  let ?ls = "candidates t chat user r"
  obtain end' q where l: "feed_loop chk d u ?ls None r = (end', q)" by (cases "feed_loop chk d u ?ls None r")
  from feed_loop_fed [OF i ok, of u d ?ls None] l have "loop_fed u r e (end', q)" by simp
  then obtain r' e' where s: "step\<^sup>*\<^sup>* (r, e) (r', e')"
    and f: "case end' of Taken l \<Rightarrow> l \<in> set (live r') \<and> handed_to l u r' q | Nobody s \<Rightarrow> q = r'"
    unfolding loop_fed_def fst_conv snd_conv by blast
  have "fed st u r e (case end' of Taken l \<Rightarrow> (True, q) | Nobody (Some l) \<Rightarrow> reject st l u q | Nobody None \<Rightarrow> (False, q))"
    unfolding fed_def
    by (rule exI [of _ r'], rule exI [of _ e'], rule conjI, rule s)
      (use f in \<open>auto split: feed_end.split option.split\<close>)
  with Some x l show ?thesis
    by (auto simp: feed_def fed_def Let_def split: feed_end.splits option.splits)
qed

text \<open>A wait that is cancelled while its filter runs: the update is not consumed.\<close>

definition cancelling_filter :: "(nat, nat, nat) checker" where
  "cancelling_filter f u r = (Some True, cancel_wait 0 r)"

lemma feed_interleaved_witness:
  "fed \<lparr>click_alerts = True, click_alert_text = []\<rparr> 0 sample 3
     (feed cancelling_filter \<lparr>click_alerts = True, click_alert_text = []\<rparr> (message_in 5) MESSAGE 0 sample)"
proof (rule feed_interleaved [OF _ sample_ok])
  show "interleaves cancelling_filter"
    unfolding interleaves_def cancelling_filter_def
    by (intro allI exI) (auto intro: r_into_rtranclp step.cancelling)
qed

text \<open>
  The reaper returns to waiting; by then every live listener whose deadline had passed is gone and its wait has failed with
  its own timeout, and a listener whose deadline lies ahead, or that has none, is still there.
\<close>

theorem reap_expires:
  assumes ok: "registry_ok r e" and clock: "\<And>k. lo \<le> clock k \<and> clock k \<le> hi"
  shows "case reap_run clock r of (w, q) \<Rightarrow>
    w \<noteq> GoRound \<and> registry_ok q e \<and>
    list_all (\<lambda>(d, s, l, t). if l \<in> set (live r) \<and> d \<le> lo then timed_out l t r q else True) (heap r) \<and>
    list_all (\<lambda>l. if list_all (\<lambda>(d, s, l', t). if l' = l then hi < d else True) (heap r) then l \<in> set (live q) else True) (live r)"
proof -
  have due: "timed_out l t r (snd (reap_run clock r))" if "(d, s, l, t) \<in> set (heap r)" "l \<in> set (live r)" "d \<le> lo" for d s l t
    using reap_run_due [OF ok that(1), of clock] that(2,3) clock order_trans [OF that(3)] by simp
  have early: "l \<in> set (live (snd (reap_run clock r)))"
    if "l \<in> set (live r)" "\<forall>(d, s, l', t) \<in> set (heap r). l' = l \<longrightarrow> hi < d" for l
  proof (rule reap_run_early [OF ok that(1)])
    fix x k
    assume "x \<in> set (heap r)" "fst (snd (snd x)) = l"
    with that(2) have "hi < fst x" by (cases x) auto
    with clock [of k] show "clock k < fst x" by simp
  qed
  show ?thesis
    using reap_run_ok [OF ok, of clock] due early
    by (auto simp: list_all_iff case_prod_unfold)
qed

lemma reap_expires_witness:
  "timed_out 0 5 sample (snd (reap_run (\<lambda>_. 10) sample)) \<and> 1 \<in> set (live (snd (reap_run (\<lambda>_. 10) sample)))"
  using reap_expires [OF sample_ok, of 10 "\<lambda>_. 10" 10] by (simp add: sample_parts case_prod_unfold)

text \<open>
  C37. Closing fails every waiter that was pending with \<open>ListenerStopped\<close>, gives exactly its slots of the budget
  back, leaves no listener and no deadline, and refuses new listeners until the registry is opened again.
\<close>

theorem close_answers_all:
  assumes ok: "registry_ok r e"
  shows "live (close r) = [] \<and> used (close r) = e \<and> heap (close r) = [] \<and> registry_ok (close r) e \<and>
    list_all (\<lambda>l. case future (objs r l) of
        Some f \<Rightarrow> futures (close r) f = (if futures r f = Pending then Failed ListenerStopped else futures r f)
      | None \<Rightarrow> True) (live r) \<and>
    fst (listen now t i fl al timeout (close r)) = Inl ListenerStopped \<and>
    registry_ok (reopen (close r)) e \<and> \<not> closed (reopen (close r))"
proof -
  have "distinct (live r)" using ok by (simp add: registry_ok_def live_ok_def)
  then have f: "futures (close r) f =
      (if futures r f = Pending \<and> Some f \<in> (\<lambda>l. future (objs r l)) ` set (live r) then Failed ListenerStopped else futures r f)" for f
    using close_fold_futures [of "live r" "r\<lparr>closed := True\<rparr>" f] by (simp add: close_fold)
  have "fst (listen now t i fl al timeout q) = Inl ListenerStopped" if "closed q" for q :: "('a, 'b, 'c) registry"
    using that by (simp add: listen_add add_def allocated_def)
  moreover have "closed (close r)" "heap (close r) = []" by (simp_all add: close_fold)
  moreover have "list_all (\<lambda>l. case future (objs r l) of
      Some f \<Rightarrow> futures (close r) f = (if futures r f = Pending then Failed ListenerStopped else futures r f)
    | None \<Rightarrow> True) (live r)"
    by (auto simp: list_all_iff f split: option.splits intro: rev_image_eqI)
  moreover have "\<not> closed (reopen (close r))" by (simp add: reopen_def)
  ultimately show ?thesis
    using close_ok [OF ok] reopen_ok [OF close_ok(1) [OF ok]] by blast
qed

lemma close_answers_all_witness:
  "used (close sample) = 3 \<and> futures (close sample) 0 = Failed ListenerStopped \<and> futures (close sample) 1 = Failed ListenerStopped"
  using close_answers_all [OF sample_ok] by (simp add: sample_parts sample_parts(4) [simplified] sample_parts(6) [simplified])

end
