(* ===== verification/Dispatch_Table.thy ===== *)
theory Dispatch_Table
  imports Listeners
begin

text \<open>
  The tables of \<open>pyrogram/dispatcher.py\<close>: the parser of each class of update and the class of the handlers
  that take what the parser returns. Update classes outside the table are \<open>OtherUpdate\<close>.
\<close>

section \<open>Updates and handler classes\<close>

datatype update_type =
    UpdateNewMessage | UpdateNewChannelMessage | UpdateNewScheduledMessage | UpdateNewEphemeralMessage |
    UpdateEditMessage | UpdateEditChannelMessage | UpdateEditEphemeralMessage | UpdateDeleteMessages |
    UpdateDeleteChannelMessages | UpdateDeleteEphemeralMessages | UpdateBotCallbackQuery |
    UpdateInlineBotCallbackQuery | UpdateBusinessBotCallbackQuery | UpdateEphemeralBotCallbackQuery |
    UpdateChatParticipant | UpdateChannelParticipant | UpdateUserStatus | UpdateUserTyping |
    UpdateChatUserTyping | UpdateChannelUserTyping | UpdateBotInlineQuery | UpdateMessagePoll |
    UpdateMessagePollVote | UpdateBotInlineSend | UpdateBotChatInviteRequester | UpdateStory |
    UpdateBotPrecheckoutQuery | UpdateBotShippingQuery | UpdateBotMessageReaction | UpdateBotMessageReactions |
    UpdateBotChatBoost | UpdateBotPurchasedPaidMedia | UpdateBotBusinessConnect |
    UpdateBotNewBusinessMessage | UpdateBotEditBusinessMessage | UpdateBotDeleteBusinessMessage |
    UpdateManagedBot | UpdateBotGuestChatQuery | UpdateWalletState |
    OtherUpdate

datatype handler_class =
    BusinessConnectionHandler | BusinessMessageHandler | CallbackQueryHandler | ChatBoostHandler |
    ChatJoinRequestHandler | ChatMemberUpdatedHandler | ChosenInlineResultHandler |
    DeletedBusinessMessagesHandler | DeletedMessagesHandler | EditedBusinessMessageHandler |
    EditedMessageHandler | GuestMessageHandler | InlineQueryHandler | ManagedBotUpdatedHandler |
    MessageGenerationStoppedHandler | MessageHandler | MessageReactionCountHandler | MessageReactionHandler |
    PollHandler | PreCheckoutQueryHandler | PurchasedPaidMediaHandler | ShippingQueryHandler | StoryHandler |
    TonWalletStateHandler | UserStatusHandler | RawUpdateHandler | ErrorHandler

definition NEW_MESSAGE_UPDATES :: "update_type list" where
  "NEW_MESSAGE_UPDATES = [UpdateNewMessage, UpdateNewChannelMessage, UpdateNewScheduledMessage, UpdateNewEphemeralMessage]"

definition EDIT_MESSAGE_UPDATES :: "update_type list" where
  "EDIT_MESSAGE_UPDATES = [UpdateEditMessage, UpdateEditChannelMessage, UpdateEditEphemeralMessage]"

definition DELETE_MESSAGES_UPDATES :: "update_type list" where
  "DELETE_MESSAGES_UPDATES = [UpdateDeleteMessages, UpdateDeleteChannelMessages, UpdateDeleteEphemeralMessages]"

definition CALLBACK_QUERY_UPDATES :: "update_type list" where
  "CALLBACK_QUERY_UPDATES = [UpdateBotCallbackQuery, UpdateInlineBotCallbackQuery, UpdateBusinessBotCallbackQuery, UpdateEphemeralBotCallbackQuery]"

definition CHAT_MEMBER_UPDATES :: "update_type list" where
  "CHAT_MEMBER_UPDATES = [UpdateChatParticipant, UpdateChannelParticipant]"

definition USER_STATUS_UPDATES :: "update_type list" where
  "USER_STATUS_UPDATES = [UpdateUserStatus]"

definition TYPING_UPDATES :: "update_type list" where
  "TYPING_UPDATES = [UpdateUserTyping, UpdateChatUserTyping, UpdateChannelUserTyping]"

definition BOT_INLINE_QUERY_UPDATES :: "update_type list" where
  "BOT_INLINE_QUERY_UPDATES = [UpdateBotInlineQuery]"

definition POLL_UPDATES :: "update_type list" where
  "POLL_UPDATES = [UpdateMessagePoll, UpdateMessagePollVote]"

definition CHOSEN_INLINE_RESULT_UPDATES :: "update_type list" where
  "CHOSEN_INLINE_RESULT_UPDATES = [UpdateBotInlineSend]"

definition CHAT_JOIN_REQUEST_UPDATES :: "update_type list" where
  "CHAT_JOIN_REQUEST_UPDATES = [UpdateBotChatInviteRequester]"

definition NEW_STORY_UPDATES :: "update_type list" where
  "NEW_STORY_UPDATES = [UpdateStory]"

definition PRE_CHECKOUT_QUERY_UPDATES :: "update_type list" where
  "PRE_CHECKOUT_QUERY_UPDATES = [UpdateBotPrecheckoutQuery]"

definition SHIPPING_QUERY_UPDATES :: "update_type list" where
  "SHIPPING_QUERY_UPDATES = [UpdateBotShippingQuery]"

definition MESSAGE_REACTION_UPDATES :: "update_type list" where
  "MESSAGE_REACTION_UPDATES = [UpdateBotMessageReaction]"

definition MESSAGE_REACTION_COUNT_UPDATES :: "update_type list" where
  "MESSAGE_REACTION_COUNT_UPDATES = [UpdateBotMessageReactions]"

definition CHAT_BOOST_UPDATES :: "update_type list" where
  "CHAT_BOOST_UPDATES = [UpdateBotChatBoost]"

definition PURCHASED_PAID_MEDIA_UPDATES :: "update_type list" where
  "PURCHASED_PAID_MEDIA_UPDATES = [UpdateBotPurchasedPaidMedia]"

definition BUSINESS_CONNECTION_UPDATES :: "update_type list" where
  "BUSINESS_CONNECTION_UPDATES = [UpdateBotBusinessConnect]"

definition NEW_BUSINESS_MESSAGE_UPDATES :: "update_type list" where
  "NEW_BUSINESS_MESSAGE_UPDATES = [UpdateBotNewBusinessMessage]"

definition EDITED_BUSINESS_MESSAGE_UPDATES :: "update_type list" where
  "EDITED_BUSINESS_MESSAGE_UPDATES = [UpdateBotEditBusinessMessage]"

definition DELETED_BUSINESS_MESSAGES_UPDATES :: "update_type list" where
  "DELETED_BUSINESS_MESSAGES_UPDATES = [UpdateBotDeleteBusinessMessage]"

definition MANAGED_BOT_UPDATES :: "update_type list" where
  "MANAGED_BOT_UPDATES = [UpdateManagedBot]"

definition GUEST_MESSAGE_UPDATES :: "update_type list" where
  "GUEST_MESSAGE_UPDATES = [UpdateBotGuestChatQuery]"

definition TON_WALLET_STATE_UPDATES :: "update_type list" where
  "TON_WALLET_STATE_UPDATES = [UpdateWalletState]"

datatype parser =
    message_parser | edited_message_parser | deleted_messages_parser | callback_query_parser |
    user_status_parser | message_generation_stopped_parser | inline_query_parser | poll_parser |
    chosen_inline_result_parser | chat_member_updated_parser | chat_join_request_parser | story_parser |
    pre_checkout_query_parser | shipping_query_parser | message_reaction_parser |
    message_reaction_count_parser | chat_boost_parser | purchased_paid_media_parser |
    business_connection_parser | business_message_parser | edited_business_message_parser |
    deleted_business_messages_parser | managed_bot_parser | guest_message_parser | ton_wallet_state_parser

text \<open>The handler class a parser returns; \<open>None\<close> is \<open>type(None)\<close>, for an action with no handler.\<close>

fun handler_type :: "parser \<Rightarrow> handler_class" where
  "handler_type message_parser = MessageHandler"
| "handler_type edited_message_parser = EditedMessageHandler"
| "handler_type deleted_messages_parser = DeletedMessagesHandler"
| "handler_type callback_query_parser = CallbackQueryHandler"
| "handler_type user_status_parser = UserStatusHandler"
| "handler_type message_generation_stopped_parser = MessageGenerationStoppedHandler"
| "handler_type inline_query_parser = InlineQueryHandler"
| "handler_type poll_parser = PollHandler"
| "handler_type chosen_inline_result_parser = ChosenInlineResultHandler"
| "handler_type chat_member_updated_parser = ChatMemberUpdatedHandler"
| "handler_type chat_join_request_parser = ChatJoinRequestHandler"
| "handler_type story_parser = StoryHandler"
| "handler_type pre_checkout_query_parser = PreCheckoutQueryHandler"
| "handler_type shipping_query_parser = ShippingQueryHandler"
| "handler_type message_reaction_parser = MessageReactionHandler"
| "handler_type message_reaction_count_parser = MessageReactionCountHandler"
| "handler_type chat_boost_parser = ChatBoostHandler"
| "handler_type purchased_paid_media_parser = PurchasedPaidMediaHandler"
| "handler_type business_connection_parser = BusinessConnectionHandler"
| "handler_type business_message_parser = BusinessMessageHandler"
| "handler_type edited_business_message_parser = EditedBusinessMessageHandler"
| "handler_type deleted_business_messages_parser = DeletedBusinessMessagesHandler"
| "handler_type managed_bot_parser = ManagedBotUpdatedHandler"
| "handler_type guest_message_parser = GuestMessageHandler"
| "handler_type ton_wallet_state_parser = TonWalletStateHandler"

text \<open>\<open>update_parsers\<close>, with one entry per update class.\<close>

definition parser_table :: "(update_type list \<times> parser) list" where
  "parser_table =
    [(NEW_MESSAGE_UPDATES, message_parser),
     (EDIT_MESSAGE_UPDATES, edited_message_parser),
     (DELETE_MESSAGES_UPDATES, deleted_messages_parser),
     (CALLBACK_QUERY_UPDATES, callback_query_parser),
     (USER_STATUS_UPDATES, user_status_parser),
     (TYPING_UPDATES, message_generation_stopped_parser),
     (BOT_INLINE_QUERY_UPDATES, inline_query_parser),
     (POLL_UPDATES, poll_parser),
     (CHOSEN_INLINE_RESULT_UPDATES, chosen_inline_result_parser),
     (CHAT_MEMBER_UPDATES, chat_member_updated_parser),
     (CHAT_JOIN_REQUEST_UPDATES, chat_join_request_parser),
     (NEW_STORY_UPDATES, story_parser),
     (PRE_CHECKOUT_QUERY_UPDATES, pre_checkout_query_parser),
     (SHIPPING_QUERY_UPDATES, shipping_query_parser),
     (MESSAGE_REACTION_UPDATES, message_reaction_parser),
     (MESSAGE_REACTION_COUNT_UPDATES, message_reaction_count_parser),
     (CHAT_BOOST_UPDATES, chat_boost_parser),
     (PURCHASED_PAID_MEDIA_UPDATES, purchased_paid_media_parser),
     (BUSINESS_CONNECTION_UPDATES, business_connection_parser),
     (NEW_BUSINESS_MESSAGE_UPDATES, business_message_parser),
     (EDITED_BUSINESS_MESSAGE_UPDATES, edited_business_message_parser),
     (DELETED_BUSINESS_MESSAGES_UPDATES, deleted_business_messages_parser),
     (MANAGED_BOT_UPDATES, managed_bot_parser),
     (GUEST_MESSAGE_UPDATES, guest_message_parser),
     (TON_WALLET_STATE_UPDATES, ton_wallet_state_parser)]"

definition update_parsers :: "update_type \<rightharpoonup> parser" where
  "update_parsers = map_of (rev (concat (map (\<lambda>(ks, p). map (\<lambda>k. (k, p)) ks) parser_table)))"

fun listener_type_of :: "handler_class \<Rightarrow> ListenerTypes option" where
  "listener_type_of MessageHandler = Some MESSAGE"
| "listener_type_of CallbackQueryHandler = Some CALLBACK_QUERY"
| "listener_type_of _ = None"

lemma parser_table_distinct: "distinct (concat (map fst parser_table))"
  by code_simp

lemma update_parsers_total: "update_parsers u = None \<longleftrightarrow> u = OtherUpdate"
  by (cases u; hypsubst; code_simp)

text \<open>Only a handler class that some parser returns can take a parsed update; raw and error handlers never do.\<close>

lemma handler_type_parsed: "handler_type p \<noteq> RawUpdateHandler \<and> handler_type p \<noteq> ErrorHandler"
  by (cases p) simp_all

text \<open>
  The beginning of a worker's turn: \<open>parse\<close> is what a parser makes of the update, or its exception. Typing
  updates that are not the stop of a generation have no parsed form and no handler class.
\<close>

definition parse_update ::
    "('u \<Rightarrow> update_type) \<Rightarrow> (parser \<Rightarrow> 'u \<Rightarrow> 'e + 'p option) \<Rightarrow> 'u \<Rightarrow> 'e + ('p option \<times> handler_class option)" where
  "parse_update type_of parse u =
     (case update_parsers (type_of u) of
        None \<Rightarrow> Inr (None, None)
      | Some ps \<Rightarrow>
          (case parse ps u of
             Inl e \<Rightarrow> Inl e
           | Inr x \<Rightarrow>
               if ps = message_generation_stopped_parser \<and> x = None then Inr (None, None)
               else Inr (x, Some (handler_type ps))))"

end
