(* ===== verification/Dispatcher.thy ===== *)
theory Dispatcher
  imports Dispatch_Table
begin

text \<open>
  \<open>pyrogram/dispatcher.py\<close>: from a raw update to the handlers that run for it. The groups of
  handlers and their editing, the loop of a handler worker over one update, and error handlers.

  A group's list of handlers is an object: the worker goes over the lists themselves while
  handlers can be added and removed, so the groups hold references to lists in a store. What a check or a callback does is
  an argument, a function of everything that happened so far; it says the outcome and the edits made while it was
  awaited.
\<close>

section \<open>Groups of handlers\<close>

text \<open>A handler object and its class.\<close>

type_synonym handler = "nat \<times> handler_class"

text \<open>
  \<open>OrderedDict\<close> of groups, the store of lists, and the number of changes to the keys of the dict, by which an
  iterator over it notices that it was changed.
\<close>

record handler_groups =
  lists :: "nat \<Rightarrow> handler list"
  next_list :: nat
  groups :: "(int \<times> nat) list"
  od_state :: nat

definition no_groups :: handler_groups where
  "no_groups = \<lparr>lists = (\<lambda>_. []), next_list = 0, groups = [], od_state = 0\<rparr>"

definition handlers_in :: "int \<Rightarrow> handler_groups \<Rightarrow> handler list" where
  "handlers_in g s = (case map_of (groups s) g of None \<Rightarrow> [] | Some r \<Rightarrow> lists s r)"

text \<open>The body of \<open>fn\<close> in \<open>add_handler\<close>.\<close>

definition ensure_group :: "int \<Rightarrow> handler_groups \<Rightarrow> handler_groups" where
  "ensure_group g s =
     (if g \<in> fst ` set (groups s) then s
      else s\<lparr>lists := (lists s)(next_list s := []), next_list := next_list s + 1,
             groups := sort_key fst (groups s @ [(g, next_list s)]), od_state := od_state s + 1\<rparr>)"

definition add_handler :: "handler \<Rightarrow> int \<Rightarrow> handler_groups \<Rightarrow> handler_groups" where
  "add_handler h g s =
     (let s = ensure_group g s in
      case map_of (groups s) g of
        None \<Rightarrow> s
      | Some r \<Rightarrow> if h \<in> set (lists s r) then s else s\<lparr>lists := (lists s)(r := lists s r @ [h])\<rparr>)"

text \<open>The body of \<open>fn\<close> in \<open>remove_handler\<close>; \<open>list.remove\<close> of a handler that is not there is a \<open>ValueError\<close> too.\<close>

definition remove_handler :: "handler \<Rightarrow> int \<Rightarrow> handler_groups \<Rightarrow> unit result \<times> handler_groups" where
  "remove_handler h g s =
     (case map_of (groups s) g of
        None \<Rightarrow> (Inl ValueError, s)
      | Some r \<Rightarrow>
          if h \<notin> set (lists s r) then (Inl ValueError, s)
          else (let s = s\<lparr>lists := (lists s)(r := remove1 h (lists s r))\<rparr> in
                if lists s r = [] then (Inr (), s\<lparr>groups := filter (\<lambda>(k, _). k \<noteq> g) (groups s), od_state := od_state s + 1\<rparr>)
                else (Inr (), s)))"

text \<open>The branch without a running loop: a group that does not exist is passed over.\<close>

definition remove_handler_idle :: "handler \<Rightarrow> int \<Rightarrow> handler_groups \<Rightarrow> unit result \<times> handler_groups" where
  "remove_handler_idle h g s = (if g \<in> fst ` set (groups s) then remove_handler h g s else (Inr (), s))"

text \<open>Edits in the background run behind the barrier, which logs their exceptions.\<close>

datatype edit = AddHandler handler int | RemoveHandler handler int

fun apply_edit :: "edit \<Rightarrow> handler_groups \<Rightarrow> handler_groups" where
  "apply_edit (AddHandler h g) s = add_handler h g s"
| "apply_edit (RemoveHandler h g) s = snd (remove_handler h g s)"

section \<open>Running the handlers of an update\<close>

text \<open>What a callback is given: the parsed update, the raw one, or an exception and the handler it came from.\<close>

datatype ('u, 'p, 'e) args = Parsed 'p | RawUpdate 'u | ForError 'e handler

text \<open>How a callback ends: it returns, raises \<open>StopPropagation\<close>, \<open>ContinuePropagation\<close> or something else.\<close>

datatype 'e call_outcome = Returned | Stopped | Continued | Raised 'e

datatype ('u, 'p, 'e) event = Checked handler | Called handler "('u, 'p, 'e) args" | Logged 'e | LoggedMutation

text \<open>
  The program around the dispatcher: checks, callbacks, and which exceptions an error handler is for. A check is \<open>None\<close> when
  it raises. Both are told the events so far.
\<close>

record ('u, 'p, 'e) program =
  on_check :: "('u, 'p, 'e) event list \<Rightarrow> handler \<Rightarrow> ('u, 'p, 'e) args \<Rightarrow> bool option \<times> edit list"
  on_call :: "('u, 'p, 'e) event list \<Rightarrow> handler \<Rightarrow> ('u, 'p, 'e) args \<Rightarrow> 'e call_outcome \<times> edit list"
  is_for :: "handler \<Rightarrow> 'e \<Rightarrow> bool"

record ('u, 'p, 'e) dispatching =
  state :: handler_groups
  trace :: "('u, 'p, 'e) event list"

definition do_check ::
    "('u, 'p, 'e) program \<Rightarrow> handler \<Rightarrow> ('u, 'p, 'e) args \<Rightarrow> ('u, 'p, 'e) dispatching \<Rightarrow> bool option \<times> ('u, 'p, 'e) dispatching" where
  "do_check pg h a d =
     (case on_check pg (trace d) h a of
        (b, es) \<Rightarrow> (b, \<lparr>state = fold apply_edit es (state d), trace = trace d @ [Checked h]\<rparr>))"

definition do_call ::
    "('u, 'p, 'e) program \<Rightarrow> handler \<Rightarrow> ('u, 'p, 'e) args \<Rightarrow> ('u, 'p, 'e) dispatching \<Rightarrow> 'e call_outcome \<times> ('u, 'p, 'e) dispatching" where
  "do_call pg h a d =
     (case on_call pg (trace d) h a of
        (x, es) \<Rightarrow> (x, \<lparr>state = fold apply_edit es (state d), trace = trace d @ [Called h a]\<rparr>))"

definition log_event :: "('u, 'p, 'e) event \<Rightarrow> ('u, 'p, 'e) dispatching \<Rightarrow> ('u, 'p, 'e) dispatching" where
  "log_event e d = d\<lparr>trace := trace d @ [e]\<rparr>"

subsection \<open>Error handlers\<close>

text \<open>
  The inner loop of \<open>handle_update_handler_exception\<close>, at index \<open>i\<close> of the list \<open>r\<close>. It may go on as long as
  handlers are added behind it, so it has fuel; the flag of the result is \<open>handled\<close>.
\<close>

datatype loop_end = GoOn | Halt | OutOfTurns

fun error_group ::
    "('u, 'p, 'e) program \<Rightarrow> 'e \<Rightarrow> handler \<Rightarrow> ('u, 'p, 'e) args \<Rightarrow> nat \<Rightarrow> nat \<Rightarrow> nat \<Rightarrow> bool \<Rightarrow> ('u, 'p, 'e) dispatching \<Rightarrow>
     (loop_end \<times> bool) \<times> ('u, 'p, 'e) dispatching" where
  "error_group pg e uh parsed r 0 i handled d = ((OutOfTurns, handled), d)"
| "error_group pg e uh parsed r (Suc n) i handled d =
     (if length (lists (state d) r) \<le> i then ((GoOn, handled), d)
      else (let h = lists (state d) r ! i; next = error_group pg e uh parsed r n (i + 1) in
            if snd h \<noteq> ErrorHandler \<or> \<not> is_for pg h e then next handled d
            else (case do_check pg h parsed d of
                    (Some True, d) \<Rightarrow>
                      (case do_call pg h (ForError e uh) d of
                         (Stopped, d) \<Rightarrow> ((Halt, True), d)
                       | (Continued, d) \<Rightarrow> next True d
                       | (Raised _, d) \<Rightarrow> ((GoOn, handled), d)
                       | (Returned, d) \<Rightarrow> ((GoOn, True), d))
                  | (_, d) \<Rightarrow> next handled d)))"

text \<open>
  The loop over \<open>self.groups.values()\<close>, with the dict's state when the iterator was made. An iterator that finds the
  dict changed raises \<open>RuntimeError\<close>, here \<open>Inl\<close>.
\<close>

fun error_groups ::
    "('u, 'p, 'e) program \<Rightarrow> 'e \<Rightarrow> handler \<Rightarrow> ('u, 'p, 'e) args \<Rightarrow> nat \<Rightarrow> nat \<Rightarrow> (int \<times> nat) list \<Rightarrow> bool \<Rightarrow> ('u, 'p, 'e) dispatching \<Rightarrow>
     (py_exn + bool) \<times> bool \<times> ('u, 'p, 'e) dispatching" where
  "error_groups pg e uh parsed n od [] handled d = (Inr True, handled, d)"
| "error_groups pg e uh parsed n od ((g, r) # gs) handled d =
     (if od_state (state d) \<noteq> od then (Inl RuntimeError, handled, d)
      else (case error_group pg e uh parsed r n 0 handled d of
              ((GoOn, handled), d) \<Rightarrow> error_groups pg e uh parsed n od gs handled d
            | ((Halt, handled), d) \<Rightarrow> (Inr True, handled, d)
            | ((OutOfTurns, handled), d) \<Rightarrow> (Inl OutOfFuel, handled, d)))"

definition handle_update_handler_exception ::
    "('u, 'p, 'e) program \<Rightarrow> nat \<Rightarrow> 'e \<Rightarrow> handler \<Rightarrow> ('u, 'p, 'e) args \<Rightarrow> ('u, 'p, 'e) dispatching \<Rightarrow>
     unit result \<times> ('u, 'p, 'e) dispatching" where
  "handle_update_handler_exception pg n e uh parsed d =
     (case error_groups pg e uh parsed n (od_state (state d)) (groups (state d)) False d of
        (x, handled, d) \<Rightarrow>
          (let d = (if handled then d else log_event (Logged e) d) in
           case x of Inl y \<Rightarrow> (Inl y, d) | Inr _ \<Rightarrow> (Inr (), d)))"

subsection \<open>The worker\<close>

text \<open>
  What the worker has of one update: the raw and the parsed one, the class of its handlers
  (\<open>None\<close> is \<open>type(None)\<close>) and whether a listener took it.
\<close>

record ('u, 'p) update_packet =
  p_raw :: 'u
  p_parsed :: 'p
  p_type :: "handler_class option"
  p_consumed :: bool

text \<open>The branches that choose the arguments of a handler.\<close>

definition args_for :: "('u, 'p) update_packet \<Rightarrow> handler \<Rightarrow> ('u, 'p, 'e) args option" where
  "args_for k h =
     (if snd h = ErrorHandler then None
      else if \<not> p_consumed k \<and> p_type k = Some (snd h) then Some (Parsed (p_parsed k))
      else if snd h = RawUpdateHandler then Some (RawUpdate (p_raw k))
      else None)"

datatype worker_end = NextGroup | NoMore | Escaped py_exn

fun run_group ::
    "('u, 'p, 'e) program \<Rightarrow> ('u, 'p) update_packet \<Rightarrow> nat \<Rightarrow> nat \<Rightarrow> nat \<Rightarrow> ('u, 'p, 'e) dispatching \<Rightarrow> worker_end \<times> ('u, 'p, 'e) dispatching" where
  "run_group pg k r 0 i d = (Escaped OutOfFuel, d)"
| "run_group pg k r (Suc n) i d =
     (if length (lists (state d) r) \<le> i then (NextGroup, d)
      else (let h = lists (state d) r ! i; next = run_group pg k r n (i + 1) in
            case args_for k h of
              None \<Rightarrow> next d
            | Some a \<Rightarrow>
                (case do_check pg h a d of
                   (Some True, d) \<Rightarrow>
                     (case do_call pg h a d of
                        (Stopped, d) \<Rightarrow> (NoMore, d)
                      | (Continued, d) \<Rightarrow> next d
                      | (Returned, d) \<Rightarrow> (NextGroup, d)
                      | (Raised e, d) \<Rightarrow>
                          (case handle_update_handler_exception pg n e h (Parsed (p_parsed k)) d of
                             (Inl x, d) \<Rightarrow> (Escaped x, d)
                           | (Inr _, d) \<Rightarrow> (NextGroup, d)))
                 | (_, d) \<Rightarrow> next d)))"

text \<open>The loop over the snapshot of the groups.\<close>

fun run_groups ::
    "('u, 'p, 'e) program \<Rightarrow> ('u, 'p) update_packet \<Rightarrow> nat \<Rightarrow> (int \<times> nat) list \<Rightarrow> ('u, 'p, 'e) dispatching \<Rightarrow> worker_end \<times> ('u, 'p, 'e) dispatching" where
  "run_groups pg k n [] d = (NextGroup, d)"
| "run_groups pg k n ((g, r) # gs) d =
     (case run_group pg k r n 0 d of
        (NextGroup, d) \<Rightarrow> run_groups pg k n gs d
      | (x, d) \<Rightarrow> (x, d))"

text \<open>Offering a parsed update to the listeners of its class.\<close>

definition offer :: "(ListenerTypes \<Rightarrow> 'p \<Rightarrow> bool) \<Rightarrow> 'p option \<Rightarrow> handler_class option \<Rightarrow> bool" where
  "offer offered p t =
     (case p of
        None \<Rightarrow> False
      | Some x \<Rightarrow> (case Option.bind t listener_type_of of None \<Rightarrow> False | Some lt \<Rightarrow> offered lt x))"

text \<open>
  One turn of the worker's loop with an update in hand. An exception that escapes is logged, and the update is done with.
\<close>

definition handle_update ::
    "('u, 'p option, 'e) program \<Rightarrow> ('u \<Rightarrow> 'e + ('p option \<times> handler_class option)) \<Rightarrow> (ListenerTypes \<Rightarrow> 'p \<Rightarrow> bool) \<Rightarrow> nat \<Rightarrow> 'u \<Rightarrow>
     ('u, 'p option, 'e) dispatching \<Rightarrow> ('u, 'p option, 'e) dispatching" where
  "handle_update pg parse offered n u d =
     (case parse u of
        Inl e \<Rightarrow> log_event (Logged e) d
      | Inr (p, t) \<Rightarrow>
          (case run_groups pg \<lparr>p_raw = u, p_parsed = p, p_type = t, p_consumed = offer offered p t\<rparr> n (groups (state d)) d of
             (Escaped _, d) \<Rightarrow> log_event LoggedMutation d
           | (_, d) \<Rightarrow> d))"

end
