(* ===== verification/Dispatcher_Laws.thy ===== *)
theory Dispatcher_Laws
  imports Dispatcher
begin

text \<open>
  What the dispatcher promises: the groups stay in order whatever is added and removed, an update runs at most
  one handler per group unless that one asks to go on, and an exception of a handler reaches the error handlers and never
  the other groups. The last part shows what edits during a dispatch can do.
\<close>

section \<open>Editing groups\<close>

text \<open>Groups are in increasing order, each has a list of its own without duplicates, and none is empty.\<close>

definition groups_ok :: "handler_groups \<Rightarrow> bool" where
  "groups_ok s =
     (sorted (map fst (groups s)) \<and> distinct (map fst (groups s)) \<and> distinct (map snd (groups s)) \<and>
      (\<forall>(g, r) \<in> set (groups s). r < next_list s \<and> lists s r \<noteq> [] \<and> distinct (lists s r)))"

lemma groups_ok_map: "groups_ok s \<Longrightarrow> map_of (groups s) g = Some r \<longleftrightarrow> (g, r) \<in> set (groups s)"
  by (simp add: groups_ok_def)

lemma groups_ok_same_ref:
  assumes "groups_ok s" "(g, r) \<in> set (groups s)" "(g', r) \<in> set (groups s)"
  shows "g' = g"
proof -
  have "inj_on snd (set (groups s))" using assms(1) by (simp add: groups_ok_def distinct_map)
  from inj_onD [OF this _ assms(2,3)] show ?thesis by simp
qed

lemma distinct_map_sort: "distinct (map f (sort_key k xs)) = distinct (map f xs)"
  by (simp add: distinct_map)

lemma no_groups_ok: "groups_ok no_groups"
  by (simp add: groups_ok_def no_groups_def)

lemma set_lists: "groups_ok s \<Longrightarrow> (g, r) \<in> set (groups s) \<Longrightarrow> xs \<noteq> [] \<Longrightarrow> distinct xs \<Longrightarrow>
    groups_ok (s\<lparr>lists := (lists s)(r := xs)\<rparr>)"
  by (auto simp: groups_ok_def)

lemma add_handler_old:
  assumes ok: "groups_ok s" and r: "(g, r) \<in> set (groups s)"
  shows "add_handler h g s = (if h \<in> set (lists s r) then s else s\<lparr>lists := (lists s)(r := lists s r @ [h])\<rparr>)"
proof -
  have "ensure_group g s = s" using r by (force simp: ensure_group_def)
  then show ?thesis using groups_ok_map [OF ok, of g r] r by (simp add: add_handler_def)
qed

lemma add_handler_new:
  assumes ok: "groups_ok s" and g: "g \<notin> fst ` set (groups s)"
  shows "add_handler h g s = s\<lparr>lists := (lists s)(next_list s := [h]), next_list := next_list s + 1,
    groups := sort_key fst (groups s @ [(g, next_list s)]), od_state := od_state s + 1\<rparr>"
proof -
  let ?gs = "sort_key fst (groups s @ [(g, next_list s)])"
  have "distinct (map fst (groups s @ [(g, next_list s)]))" using ok g by (auto simp: groups_ok_def)
  then have "distinct (map fst ?gs)" by (simp only: distinct_map_sort)
  then have "map_of ?gs g = Some (next_list s)" by simp
  then show ?thesis using g by (simp add: add_handler_def ensure_group_def)
qed

lemma add_handler_ok: "groups_ok s \<Longrightarrow> groups_ok (add_handler h g s)"
proof (cases "g \<in> fst ` set (groups s)")
  case True
  assume ok: "groups_ok s"
  from True obtain r where r: "(g, r) \<in> set (groups s)" by auto
  then have "distinct (lists s r)" using ok by (auto simp: groups_ok_def)
  with ok r show ?thesis by (auto simp: add_handler_old [OF ok r] intro: set_lists)
next
  case False
  assume ok: "groups_ok s"
  let ?gs = "groups s @ [(g, next_list s)]"
  have d: "distinct (map fst ?gs)" "distinct (map snd ?gs)" using ok False by (auto simp: groups_ok_def)
  then have "distinct (map fst (sort_key fst ?gs))" "distinct (map snd (sort_key fst ?gs))"
    by (simp_all only: distinct_map_sort)
  with ok show ?thesis
    unfolding add_handler_new [OF ok False] by (auto simp: groups_ok_def)
qed

lemma remove_handler_cases:
  assumes ok: "groups_ok s"
  obtains (missing) "h \<notin> set (handlers_in g s)" "remove_handler h g s = (Inl ValueError, s)"
    | (emptied) r where "(g, r) \<in> set (groups s)" "lists s r = [h]"
        "remove_handler h g s = (Inr (), s\<lparr>lists := (lists s)(r := []), groups := filter (\<lambda>(k, _). k \<noteq> g) (groups s), od_state := od_state s + 1\<rparr>)"
    | (shorter) r where "(g, r) \<in> set (groups s)" "h \<in> set (lists s r)" "remove1 h (lists s r) \<noteq> []"
        "remove_handler h g s = (Inr (), s\<lparr>lists := (lists s)(r := remove1 h (lists s r))\<rparr>)"
proof (cases "map_of (groups s) g")
  case None
  then show ?thesis using missing by (simp add: remove_handler_def handlers_in_def)
next
  case (Some r)
  note r = Some groups_ok_map [OF ok, THEN iffD1, OF Some]
  show ?thesis
  proof (cases "h \<in> set (lists s r)")
    case False
    with r show ?thesis using missing by (simp add: remove_handler_def handlers_in_def)
  next
    case h: True
    show ?thesis
    proof (cases "remove1 h (lists s r) = []")
      case True
      with h have "lists s r = [h]" by (cases "lists s r") (auto split: if_splits)
      with r h show ?thesis using emptied by (simp add: remove_handler_def Let_def)
    next
      case False
      with r h show ?thesis using shorter by (simp add: remove_handler_def Let_def)
    qed
  qed
qed

lemma remove_handler_ok:
  assumes ok: "groups_ok s"
  shows "groups_ok (snd (remove_handler h g s))"
  using ok
proof (cases rule: remove_handler_cases [of s h g])
  case (emptied r)
  let ?gs = "filter (\<lambda>(k, _). k \<noteq> g) (groups s)"
  have d: "distinct (map fst (groups s))" "distinct (map snd (groups s))" "sorted (map fst (groups s))"
    using ok by (simp_all add: groups_ok_def)
  then have "distinct (map fst ?gs)" "distinct (map snd ?gs)"
    by (simp_all only: distinct_map_filter)
  moreover have "sorted (map fst ?gs)" using d(3) by (rule sorted_filter)
  moreover have "r' < next_list s \<and> r' \<noteq> r \<and> lists s r' \<noteq> [] \<and> distinct (lists s r')"
    if "(g', r') \<in> set ?gs" for g' r'
  proof -
    from that have "(g', r') \<in> set (groups s)" "g' \<noteq> g" by simp_all
    with groups_ok_same_ref [OF ok emptied(1), of g'] ok show ?thesis unfolding groups_ok_def by blast
  qed
  ultimately show ?thesis
    unfolding emptied(3) snd_conv groups_ok_def by (auto simp del: filter.simps)
next
  case (shorter r)
  have "distinct (lists s r)" using ok shorter(1) by (auto simp: groups_ok_def)
  with shorter ok show ?thesis by (auto intro: set_lists distinct_remove1)
qed (use ok in simp)

lemma apply_edit_ok: "groups_ok s \<Longrightarrow> groups_ok (apply_edit e s)"
  by (cases e) (simp_all add: add_handler_ok remove_handler_ok)

lemma edits_ok: "groups_ok s \<Longrightarrow> groups_ok (fold apply_edit es s)"
  by (induction es arbitrary: s) (simp_all add: apply_edit_ok)

lemma handlers_in_at:
  assumes "groups_ok s" "(g, r) \<in> set (groups s)"
  shows "handlers_in g s = lists s r"
proof -
  have "map_of (groups s) g = Some r" using groups_ok_map [OF assms(1)] assms(2) by blast
  then show ?thesis by (simp add: handlers_in_def)
qed

lemma handlers_in_set_list:
  assumes ok: "groups_ok s" and r: "(g, r) \<in> set (groups s)"
  shows "handlers_in g' (s\<lparr>lists := (lists s)(r := xs)\<rparr>) = (if g' = g then xs else handlers_in g' s)"
proof -
  have g: "map_of (groups s) g = Some r" using groups_ok_map [OF ok] r by blast
  have "r' \<noteq> r" if "map_of (groups s) g' = Some r'" "g' \<noteq> g" for r'
    using that(2) groups_ok_same_ref [OF ok r, of g'] map_of_SomeD [OF that(1)] by blast
  with g show ?thesis by (cases "map_of (groups s) g'") (auto simp: handlers_in_def)
qed

lemma handlers_in_add:
  assumes ok: "groups_ok s"
  shows "handlers_in g' (add_handler h g s) =
    (if g' = g \<and> h \<notin> set (handlers_in g s) then handlers_in g s @ [h] else handlers_in g' s)"
proof (cases "g \<in> fst ` set (groups s)")
  case True
  then obtain r where r: "(g, r) \<in> set (groups s)" by auto
  from handlers_in_at [OF ok r] show ?thesis unfolding add_handler_old [OF ok r] by (simp add: handlers_in_set_list [OF ok r])
next
  case False
  let ?gs = "groups s @ [(g, next_list s)]"
  have d: "distinct (map fst ?gs)" using ok False by (auto simp: groups_ok_def)
  then have m: "map_of (sort_key fst ?gs) = map_of ?gs"
    by (subst map_of_inject_set) (simp_all only: distinct_map_sort set_sort)
  have "map_of (groups s) g = None" using False by (simp add: map_of_eq_None_iff)
  moreover have "r < next_list s" if "map_of (groups s) g' = Some r" for r g'
    using ok map_of_SomeD [OF that] by (auto simp: groups_ok_def)
  ultimately show ?thesis
    unfolding add_handler_new [OF ok False] handlers_in_def by (fastforce simp: m map_add_def split: option.split)
qed

lemma handlers_in_remove:
  assumes ok: "groups_ok s"
  shows "handlers_in g' (snd (remove_handler h g s)) = (if g' = g then remove1 h (handlers_in g s) else handlers_in g' s)"
    and "fst (remove_handler h g s) = (if h \<in> set (handlers_in g s) then Inr () else Inl ValueError)"
proof -
  have at: "handlers_in g s = lists s r" if "(g, r) \<in> set (groups s)" for r
    using ok that by (rule handlers_in_at)
  have flt: "map_of (filter (\<lambda>(k, _). k \<noteq> g) xs) g' = (if g' = g then None else map_of xs g')" for g' and xs :: "(int \<times> nat) list"
    by (induction xs) auto
  show "fst (remove_handler h g s) = (if h \<in> set (handlers_in g s) then Inr () else Inl ValueError)"
    using ok by (cases rule: remove_handler_cases [of s h g]) (auto simp: at)
  show "handlers_in g' (snd (remove_handler h g s)) = (if g' = g then remove1 h (handlers_in g s) else handlers_in g' s)"
    using ok
  proof (cases rule: remove_handler_cases [of s h g])
    case (emptied r)
    have "r' \<noteq> r" if "map_of (groups s) g' = Some r'" "g' \<noteq> g" for r'
      using that groups_ok_same_ref [OF ok emptied(1), of g'] map_of_SomeD by metis
    with emptied at [OF emptied(1)] show ?thesis by (auto simp: handlers_in_def flt split: option.split)
  next
    case (shorter r)
    then show ?thesis by (simp add: handlers_in_set_list [OF ok shorter(1)] at)
  qed (simp add: remove1_idem)
qed

section \<open>An update in a program that leaves the handlers alone\<close>

text \<open>Checks and callbacks whose outcome is a function of the handler and its arguments, and that edit nothing.\<close>

definition steady ::
    "(handler \<Rightarrow> ('u, 'p, 'e) args \<Rightarrow> bool option) \<Rightarrow> (handler \<Rightarrow> ('u, 'p, 'e) args \<Rightarrow> 'e call_outcome) \<Rightarrow> (handler \<Rightarrow> 'e \<Rightarrow> bool) \<Rightarrow>
     ('u, 'p, 'e) program" where
  "steady ck cl isf = \<lparr>on_check = (\<lambda>_ h a. (ck h a, [])), on_call = (\<lambda>_ h a. (cl h a, [])), is_for = isf\<rparr>"

lemma steady_simps [simp]:
  "do_check (steady ck cl isf) h a d = (ck h a, d\<lparr>trace := trace d @ [Checked h]\<rparr>)"
  "do_call (steady ck cl isf) h a d = (cl h a, d\<lparr>trace := trace d @ [Called h a]\<rparr>)"
  "is_for (steady ck cl isf) = isf"
  by (simp_all add: do_check_def do_call_def steady_def)

text \<open>The handlers that run among those that could: through the first that does not ask to go on.\<close>

fun upto_first :: "('a \<Rightarrow> bool) \<Rightarrow> 'a list \<Rightarrow> 'a list" where
  "upto_first stop xs = takeWhile (\<lambda>x. \<not> stop x) xs @ take 1 (dropWhile (\<lambda>x. \<not> stop x) xs)"

lemma upto_first_simps [simp]:
  "upto_first P [] = []" "P x \<Longrightarrow> upto_first P (x # xs) = [x]" "\<not> P x \<Longrightarrow> upto_first P (x # xs) = x # upto_first P xs"
  by simp_all

declare upto_first.simps [simp del]

lemma upto_first_prefix: "\<exists>ys. xs = upto_first P xs @ ys"
  by (rule exI [of _ "drop 1 (dropWhile (\<lambda>x. \<not> P x) xs)"]) (simp add: upto_first.simps)

text \<open>The error handlers that run for an exception, by group, and whether one of them has dealt with it.\<close>

definition error_calls :: "(handler \<Rightarrow> bool option) \<Rightarrow> (handler \<Rightarrow> 'e call_outcome) \<Rightarrow> (handler \<Rightarrow> bool) \<Rightarrow> handler list \<Rightarrow> handler list" where
  "error_calls ck cl isf hs =
     upto_first (\<lambda>h. cl h \<noteq> Continued) (filter (\<lambda>h. snd h = ErrorHandler \<and> isf h \<and> ck h = Some True) hs)"

definition is_raised :: "'e call_outcome \<Rightarrow> bool" where
  "is_raised x = (case x of Raised _ \<Rightarrow> True | _ \<Rightarrow> False)"

text \<open>The calls in a trace.\<close>

fun calls :: "('u, 'p, 'e) event list \<Rightarrow> (handler \<times> ('u, 'p, 'e) args) list" where
  "calls [] = []"
| "calls (Called h a # es) = (h, a) # calls es"
| "calls (_ # es) = calls es"

lemma calls_append [simp]: "calls (xs @ ys) = calls xs @ calls ys"
  by (induction xs rule: calls.induct) auto

fun logs :: "('u, 'p, 'e) event list \<Rightarrow> ('u, 'p, 'e) event list" where
  "logs [] = []"
| "logs (Logged e # es) = Logged e # logs es"
| "logs (LoggedMutation # es) = LoggedMutation # logs es"
| "logs (_ # es) = logs es"

lemma logs_append [simp]: "logs (xs @ ys) = logs xs @ logs ys"
  by (induction xs rule: logs.induct) auto

text \<open>\<open>d'\<close> comes from \<open>d\<close> by these calls and these log entries, and nothing else.\<close>

definition ran :: "('u, 'p, 'e) dispatching \<Rightarrow> (handler \<times> ('u, 'p, 'e) args) list \<Rightarrow> ('u, 'p, 'e) event list \<Rightarrow> ('u, 'p, 'e) dispatching \<Rightarrow> bool" where
  "ran d cs ls d' = (state d' = state d \<and> calls (trace d') = calls (trace d) @ cs \<and> logs (trace d') = logs (trace d) @ ls)"

lemma ran_refl [simp]: "ran d [] [] d"
  by (simp add: ran_def)

lemma ran_trans: "ran d cs ls d' \<Longrightarrow> ran d' cs' ls' d'' \<Longrightarrow> ran d (cs @ cs') (ls @ ls') d''"
  by (simp add: ran_def)

lemma ran_state: "ran d cs ls d' \<Longrightarrow> state d' = state d"
  by (simp add: ran_def)

lemma ran_events [simp]:
  "ran (d\<lparr>trace := trace d @ [Checked h]\<rparr>) cs ls d' = ran d cs ls d'"
  "ran (d\<lparr>trace := trace d @ [Called h a]\<rparr>) cs ls d' = ran d ((h, a) # cs) ls d'"
  "ran (d\<lparr>trace := trace d @ [Checked h, Called h a]\<rparr>) cs ls d' = ran d ((h, a) # cs) ls d'"
  by (auto simp: ran_def)

lemma ran_checked_called [simp]:
  "ran d cs ls (d\<lparr>trace := trace d @ [Checked h]\<rparr>) = (cs = [] \<and> ls = [])"
  "ran d cs ls (d\<lparr>trace := trace d @ [Checked h, Called h a]\<rparr>) = (cs = [(h, a)] \<and> ls = [])"
  by (auto simp: ran_def)

definition error_ends :: "(handler \<Rightarrow> 'e call_outcome) \<Rightarrow> handler list \<Rightarrow> loop_end" where
  "error_ends cl hs = (if Stopped \<in> cl ` set hs then Halt else GoOn)"

lemma error_group_steady:
  fixes ck :: "handler \<Rightarrow> ('u, 'p, 'e) args \<Rightarrow> bool option" and cl isf e uh parsed
  assumes "length (lists (state d) r) - i < n"
  defines "es \<equiv> error_calls (\<lambda>h. ck h parsed) (\<lambda>h. cl h (ForError e uh)) (\<lambda>h. isf h e)"
  shows "case error_group (steady ck cl isf) e uh parsed r n i handled d of ((x, handled'), d') \<Rightarrow>
    (let hs = es (drop i (lists (state d) r)) in
     x = error_ends (\<lambda>h. cl h (ForError e uh)) hs \<and>
     handled' = (handled \<or> (\<exists>h \<in> set hs. \<not> is_raised (cl h (ForError e uh)))) \<and>
     ran d (map (\<lambda>h. (h, ForError e uh)) hs) [] d')"
  using assms(1)
proof (induction n arbitrary: i handled d)
  case (Suc n)
  let ?hs = "lists (state d) r"
  let ?pg = "steady ck cl isf"
  show ?case
  proof (cases "length ?hs \<le> i")
    case True
    then show ?thesis by (simp add: es_def error_calls_def error_ends_def)
  next
    case False
    define h where "h = ?hs ! i"
    have dr: "drop i ?hs = h # drop (Suc i) ?hs" using False by (simp add: h_def Cons_nth_drop_Suc)
    note IH = Suc.IH [where i = "Suc i"]
    have fuel: "length ?hs - Suc i < n" using Suc.prems False by simp
    consider (skip) "snd h \<noteq> ErrorHandler \<or> \<not> isf h e" | (unfit) "snd h = ErrorHandler" "isf h e" "ck h parsed \<noteq> Some True"
      | (call) "snd h = ErrorHandler" "isf h e" "ck h parsed = Some True" by blast
    then show ?thesis
    proof cases
      case skip
      then have "error_group ?pg e uh parsed r (Suc n) i handled d = error_group ?pg e uh parsed r n (Suc i) handled d"
        using False by (simp add: h_def Let_def)
      moreover have "es (drop i ?hs) = es (drop (Suc i) ?hs)" using skip by (auto simp: es_def error_calls_def dr)
      ultimately show ?thesis using IH [OF fuel] by simp
    next
      case unfit
      let ?d = "d\<lparr>trace := trace d @ [Checked h]\<rparr>"
      have "error_group ?pg e uh parsed r (Suc n) i handled d = error_group ?pg e uh parsed r n (Suc i) handled ?d"
        using False unfit by (auto simp: h_def Let_def split: option.split bool.split)
      moreover have "es (drop i ?hs) = es (drop (Suc i) ?hs)" using unfit by (auto simp: es_def error_calls_def dr)
      ultimately show ?thesis using IH [of ?d] fuel by simp
    next
      case call
      let ?d = "d\<lparr>trace := trace d @ [Checked h, Called h (ForError e uh)]\<rparr>"
      have es: "es (drop i ?hs) = (if cl h (ForError e uh) \<noteq> Continued then [h] else h # es (drop (Suc i) ?hs))"
        using call by (auto simp: es_def error_calls_def dr)
      show ?thesis
      proof (cases "cl h (ForError e uh)")
        case Continued
        then have "error_group ?pg e uh parsed r (Suc n) i handled d = error_group ?pg e uh parsed r n (Suc i) True ?d"
          using False call by (simp add: h_def Let_def)
        moreover have "es (drop i ?hs) = h # es (drop (Suc i) ?hs)" using es Continued by simp
        ultimately show ?thesis using IH [of ?d True] fuel Continued
          by (auto simp: Let_def error_ends_def is_raised_def)
      qed (use False call es in \<open>auto simp: h_def Let_def error_ends_def is_raised_def\<close>)
    qed
  qed
qed simp

text \<open>All groups: the error handlers that run, through the first group where one stops the propagation.\<close>

definition error_run :: "(handler \<Rightarrow> bool option) \<Rightarrow> (handler \<Rightarrow> 'e call_outcome) \<Rightarrow> (handler \<Rightarrow> bool) \<Rightarrow> handler list list \<Rightarrow> handler list" where
  "error_run ck cl isf hss =
     concat (upto_first (\<lambda>hs. Stopped \<in> cl ` set hs) (map (error_calls ck cl isf) hss))"

lemma error_groups_steady:
  fixes ck :: "handler \<Rightarrow> ('u, 'p, 'e) args \<Rightarrow> bool option" and cl isf e uh parsed
  assumes "\<forall>x \<in> set gs. length (lists (state d) (snd x)) < n" and "od_state (state d) = od"
  defines "run \<equiv> \<lambda>gs. error_run (\<lambda>h. ck h parsed) (\<lambda>h. cl h (ForError e uh)) (\<lambda>h. isf h e) (map (\<lambda>(g, r). lists (state d) r) gs)"
  shows "case error_groups (steady ck cl isf) e uh parsed n od gs handled d of (x, handled', d') \<Rightarrow>
    x = Inr True \<and> handled' = (handled \<or> (\<exists>h \<in> set (run gs). \<not> is_raised (cl h (ForError e uh)))) \<and>
    ran d (map (\<lambda>h. (h, ForError e uh)) (run gs)) [] d'"
  using assms(1,2) unfolding run_def
proof (induction gs arbitrary: handled d)
  case (Cons x gs)
  obtain g r where x: "x = (g, r)" by (cases x)
  let ?hs = "error_calls (\<lambda>h. ck h parsed) (\<lambda>h. cl h (ForError e uh)) (\<lambda>h. isf h e) (lists (state d) r)"
  obtain y handled' d' where e: "error_group (steady ck cl isf) e uh parsed r n 0 handled d = ((y, handled'), d')"
    by (metis prod_cases3 prod.exhaust_sel)
  have y: "y = error_ends (\<lambda>h. cl h (ForError e uh)) ?hs"
      "handled' = (handled \<or> (\<exists>h \<in> set ?hs. \<not> is_raised (cl h (ForError e uh))))"
      "ran d (map (\<lambda>h. (h, ForError e uh)) ?hs) [] d'"
    using error_group_steady [where d = d and r = r and i = 0 and n = n and ck = ck and cl = cl and isf = isf and e = e and uh = uh and
        parsed = parsed and handled = handled] Cons.prems(1) e x by (simp_all add: Let_def)
  have st: "state d' = state d" using y(3) by (rule ran_state)
  show ?case
  proof (cases "Stopped \<in> (\<lambda>h. cl h (ForError e uh)) ` set ?hs")
    case True
    with x e y Cons.prems show ?thesis by (simp add: error_ends_def error_run_def)
  next
    case False
    then have g: "y = GoOn" using y(1) by (simp add: error_ends_def)
    obtain z handled'' d'' where e2: "error_groups (steady ck cl isf) e uh parsed n od gs handled' d' = (z, handled'', d'')"
      by (metis prod_cases3)
    have len: "\<forall>x \<in> set gs. length (lists (state d') (snd x)) < n"
      using Cons.prems(1) st by simp
    have od: "od_state (state d') = od" using Cons.prems(2) st by simp
    let ?run = "error_run (\<lambda>h. ck h parsed) (\<lambda>h. cl h (ForError e uh)) (\<lambda>h. isf h e) (map (\<lambda>(g, r). lists (state d) r) gs)"
    have z: "z = Inr True" "handled'' = (handled' \<or> (\<exists>h \<in> set ?run. \<not> is_raised (cl h (ForError e uh))))"
        "ran d' (map (\<lambda>h. (h, ForError e uh)) ?run) [] d''"
      using Cons.IH [OF len od, of handled'] e2 st by simp_all
    have "error_run (\<lambda>h. ck h parsed) (\<lambda>h. cl h (ForError e uh)) (\<lambda>h. isf h e) (map (\<lambda>(g, r). lists (state d) r) (x # gs)) =
        ?hs @ ?run"
      using False by (simp add: x error_run_def)
    with x e y g z e2 Cons.prems ran_trans [OF y(3) z(3)] show ?thesis by auto
  qed
qed (simp add: error_run_def)

definition errors_of ::
    "(handler \<Rightarrow> ('u, 'p, 'e) args \<Rightarrow> bool option) \<Rightarrow> (handler \<Rightarrow> ('u, 'p, 'e) args \<Rightarrow> 'e call_outcome) \<Rightarrow> (handler \<Rightarrow> 'e \<Rightarrow> bool) \<Rightarrow>
     ('u, 'p, 'e) args \<Rightarrow> handler list list \<Rightarrow> 'e \<Rightarrow> handler \<Rightarrow> handler list" where
  "errors_of ck cl isf parsed hss e uh =
     error_run (\<lambda>h. ck h parsed) (\<lambda>h. cl h (ForError e uh)) (\<lambda>h. isf h e) hss"

definition groups_of :: "('u, 'p, 'e) dispatching \<Rightarrow> handler list list" where
  "groups_of d = map (\<lambda>(g, r). lists (state d) r) (groups (state d))"

definition roomy :: "nat \<Rightarrow> ('u, 'p, 'e) dispatching \<Rightarrow> bool" where
  "roomy n d = (\<forall>x \<in> set (groups (state d)). length (lists (state d) (snd x)) < n)"

text \<open>The exception is logged exactly when no error handler has dealt with it.\<close>

lemma exception_steady:
  fixes ck :: "handler \<Rightarrow> ('u, 'p, 'e) args \<Rightarrow> bool option" and cl isf e uh parsed
  assumes "roomy n d"
  shows "\<exists>d'. handle_update_handler_exception (steady ck cl isf) n e uh parsed d = (Inr (), d') \<and>
    (let es = errors_of ck cl isf parsed (groups_of d) e uh in
     ran d (map (\<lambda>h. (h, ForError e uh)) es) (if \<exists>h \<in> set es. \<not> is_raised (cl h (ForError e uh)) then [] else [Logged e]) d')"
proof -
  obtain x handled d' where e: "error_groups (steady ck cl isf) e uh parsed n (od_state (state d)) (groups (state d)) False d = (x, handled, d')"
    by (metis prod_cases3)
  with error_groups_steady [OF assms [unfolded roomy_def] refl, where ck = ck and cl = cl and isf = isf and e = e and uh = uh and parsed = parsed and handled = False]
  show ?thesis
    by (auto simp: handle_update_handler_exception_def errors_of_def groups_of_def log_event_def ran_def Let_def)
qed

text \<open>The handlers of a group that run for an update, with their arguments.\<close>

definition run_calls ::
    "(handler \<Rightarrow> ('u, 'p, 'e) args \<Rightarrow> bool option) \<Rightarrow> (handler \<Rightarrow> ('u, 'p, 'e) args \<Rightarrow> 'e call_outcome) \<Rightarrow> ('u, 'p) update_packet \<Rightarrow>
     handler list \<Rightarrow> (handler \<times> ('u, 'p, 'e) args) list" where
  "run_calls ck cl k hs =
     upto_first (\<lambda>(h, a). cl h a \<noteq> Continued)
       (List.map_filter (\<lambda>h. case args_for k h of None \<Rightarrow> None | Some a \<Rightarrow> if ck h a = Some True then Some (h, a) else None) hs)"

text \<open>After a handler that raised come the error handlers.\<close>

definition aftermath ::
    "(handler \<Rightarrow> ('u, 'p, 'e) args \<Rightarrow> bool option) \<Rightarrow> (handler \<Rightarrow> ('u, 'p, 'e) args \<Rightarrow> 'e call_outcome) \<Rightarrow> (handler \<Rightarrow> 'e \<Rightarrow> bool) \<Rightarrow>
     ('u, 'p) update_packet \<Rightarrow> handler list list \<Rightarrow> handler \<times> ('u, 'p, 'e) args \<Rightarrow> (handler \<times> ('u, 'p, 'e) args) list" where
  "aftermath ck cl isf k hss = (\<lambda>(h, a). (h, a) #
     (case cl h a of
        Raised e \<Rightarrow> map (\<lambda>eh. (eh, ForError e h)) (errors_of ck cl isf (Parsed (p_parsed k)) hss e h)
      | _ \<Rightarrow> []))"

definition worker_ends :: "(handler \<Rightarrow> ('u, 'p, 'e) args \<Rightarrow> 'e call_outcome) \<Rightarrow> (handler \<times> ('u, 'p, 'e) args) list \<Rightarrow> worker_end" where
  "worker_ends cl cs = (if Stopped \<in> (\<lambda>(h, a). cl h a) ` set cs then NoMore else NextGroup)"

lemma groups_of_state: "state d' = state d \<Longrightarrow> groups_of d' = groups_of d"
  by (simp add: groups_of_def)

lemma run_group_steady:
  fixes ck :: "handler \<Rightarrow> ('u, 'p, 'e) args \<Rightarrow> bool option" and cl isf k
  assumes "roomy m d" and "length (lists (state d) r) - i + m < n"
  shows "case run_group (steady ck cl isf) k r n i d of (x, d') \<Rightarrow>
    (let cs = run_calls ck cl k (drop i (lists (state d) r)) in
     x = worker_ends cl cs \<and> (\<exists>ls. ran d (concat (map (aftermath ck cl isf k (groups_of d)) cs)) ls d'))"
  using assms
proof (induction n arbitrary: i d)
  case (Suc n)
  let ?hs = "lists (state d) r"
  let ?pg = "steady ck cl isf"
  show ?case
  proof (cases "length ?hs \<le> i")
    case True
    then show ?thesis by (auto simp: run_calls_def List.map_filter_def worker_ends_def intro: exI [of _ "[]"])
  next
    case False
    define h where "h = ?hs ! i"
    have dr: "drop i ?hs = h # drop (Suc i) ?hs" using False by (simp add: h_def Cons_nth_drop_Suc)
    have fuel: "length ?hs - Suc i + m < n" using Suc.prems(2) False by simp
    consider (skip) "args_for k h = (None :: ('u, 'p, 'e) args option)"
      | (unfit) a where "args_for k h = Some a" "ck h a \<noteq> Some True"
      | (call) a where "args_for k h = Some a" "ck h a = Some True"
      by (cases "args_for k h :: ('u, 'p, 'e) args option") auto
    then show ?thesis
    proof cases
      case skip
      then have "run_group ?pg k r (Suc n) i d = run_group ?pg k r n (Suc i) d"
        using False by (simp add: h_def Let_def)
      moreover have "run_calls ck cl k (drop i ?hs) = run_calls ck cl k (drop (Suc i) ?hs)"
        using skip by (simp add: run_calls_def dr List.map_filter_simps)
      ultimately show ?thesis using Suc.IH [OF Suc.prems(1) fuel] by simp
    next
      case (unfit a)
      let ?d = "d\<lparr>trace := trace d @ [Checked h]\<rparr>"
      have "run_group ?pg k r (Suc n) i d = run_group ?pg k r n (Suc i) ?d"
        using False unfit by (auto simp: h_def Let_def split: option.split bool.split)
      moreover have "run_calls ck cl k (drop i ?hs) = run_calls ck cl k (drop (Suc i) ?hs)"
        using unfit by (simp add: run_calls_def dr List.map_filter_simps)
      moreover have "roomy m ?d" using Suc.prems(1) by (simp add: roomy_def)
      ultimately show ?thesis using Suc.IH [of ?d "Suc i"] fuel by (simp add: groups_of_state [of ?d d])
    next
      case (call a)
      let ?d = "d\<lparr>trace := trace d @ [Checked h, Called h a]\<rparr>"
      have cs: "run_calls ck cl k (drop i ?hs) = (if cl h a \<noteq> Continued then [(h, a)] else (h, a) # run_calls ck cl k (drop (Suc i) ?hs))"
        using call by (simp add: run_calls_def dr List.map_filter_simps)
      show ?thesis
      proof (cases "cl h a")
        case Continued
        then have "run_group ?pg k r (Suc n) i d = run_group ?pg k r n (Suc i) ?d"
          using False call by (simp add: h_def Let_def)
        moreover have "roomy m ?d" using Suc.prems(1) by (simp add: roomy_def)
        ultimately show ?thesis using Suc.IH [of ?d "Suc i"] fuel cs Continued
          by (auto simp: Let_def worker_ends_def aftermath_def groups_of_state [of ?d d])
      next
        case (Raised e)
        have "roomy n ?d" using Suc.prems fuel by (force simp: roomy_def)
        from exception_steady [OF this, of ck cl isf e h "Parsed (p_parsed k)"] obtain d' ls where
          d': "handle_update_handler_exception ?pg n e h (Parsed (p_parsed k)) ?d = (Inr (), d')"
          "ran ?d (map (\<lambda>eh. (eh, ForError e h)) (errors_of ck cl isf (Parsed (p_parsed k)) (groups_of d) e h)) ls d'"
          by (auto simp: Let_def groups_of_state [of ?d d])
        with False call cs Raised show ?thesis by (auto simp: h_def Let_def aftermath_def worker_ends_def)
      qed (use False call cs in \<open>auto simp: h_def Let_def worker_ends_def aftermath_def intro: exI [of _ "[]"]\<close>)
    qed
  qed
qed simp

lemma run_groups_steady:
  fixes ck :: "handler \<Rightarrow> ('u, 'p, 'e) args \<Rightarrow> bool option" and cl isf k
  assumes "roomy m d" and "\<forall>x \<in> set gs. length (lists (state d) (snd x)) + m < n"
  shows "case run_groups (steady ck cl isf) k n gs d of (x, d') \<Rightarrow>
    (let css = upto_first (\<lambda>cs. worker_ends cl cs = NoMore) (map (\<lambda>x. run_calls ck cl k (lists (state d) (snd x))) gs) in
     (x = NextGroup \<or> x = NoMore) \<and>
     (\<exists>ls. ran d (concat (map (aftermath ck cl isf k (groups_of d)) (concat css))) ls d'))"
  using assms
proof (induction gs arbitrary: d)
  case Nil
  then show ?case by (auto intro: exI [of _ "[]"])
next
  case (Cons x gs)
  obtain g r where x: "x = (g, r)" by (cases x)
  let ?cs = "run_calls ck cl k (lists (state d) r)"
  obtain y d' where e: "run_group (steady ck cl isf) k r n 0 d = (y, d')" by (cases "run_group (steady ck cl isf) k r n 0 d")
  obtain ls where y: "y = worker_ends cl ?cs" and ran: "ran d (concat (map (aftermath ck cl isf k (groups_of d)) ?cs)) ls d'"
    using run_group_steady [OF Cons.prems(1), where r = r and i = 0 and n = n and ck = ck and cl = cl and isf = isf and k = k] Cons.prems(2) e x by (auto simp: Let_def)
  note st = ran_state [OF ran]
  show ?case
  proof (cases "worker_ends cl ?cs = NoMore")
    case True
    with x e y ran show ?thesis by auto
  next
    case False
    then have yg: "y = NextGroup" using y by (simp add: worker_ends_def split: if_splits)
    obtain z d'' where e2: "run_groups (steady ck cl isf) k n gs d' = (z, d'')" by (cases "run_groups (steady ck cl isf) k n gs d'")
    have "roomy m d'" "\<forall>x \<in> set gs. length (lists (state d') (snd x)) + m < n" using Cons.prems st by (simp_all add: roomy_def)
    from Cons.IH [OF this] e2 st obtain ls' where z: "z = NextGroup \<or> z = NoMore"
      and ran2: "ran d' (concat (map (aftermath ck cl isf k (groups_of d)) (concat (upto_first (\<lambda>cs. worker_ends cl cs = NoMore)
          (map (\<lambda>x. run_calls ck cl k (lists (state d) (snd x))) gs))))) ls' d''"
      by (auto simp: Let_def groups_of_state [OF st])
    from ran_trans [OF ran ran2] x e yg e2 z False show ?thesis by auto
  qed
qed

section \<open>Properties\<close>

text \<open>
  The groups stay in increasing order, each with a list of its own without duplicates and none empty. A handler that is added
  comes last in its group and is there once; removing takes it out of that group alone, and fails exactly when it is not there.
\<close>

theorem groups_edits:
  assumes ok: "groups_ok s"
  shows "groups_ok (add_handler h g s) \<and> groups_ok (snd (remove_handler h g s)) \<and>
    handlers_in g' (add_handler h g s) =
      (if g' = g \<and> h \<notin> set (handlers_in g s) then handlers_in g s @ [h] else handlers_in g' s) \<and>
    handlers_in g' (snd (remove_handler h g s)) = (if g' = g then remove1 h (handlers_in g s) else handlers_in g' s) \<and>
    fst (remove_handler h g s) = (if h \<in> set (handlers_in g s) then Inr () else Inl ValueError)"
  using add_handler_ok [OF ok] remove_handler_ok [OF ok] handlers_in_add [OF ok] handlers_in_remove [OF ok] by auto

text \<open>Groups for the witnesses: a message handler and a raw one in group 0, an error handler in group 5, a message handler in group -1.\<close>

definition sample_groups :: handler_groups where
  "sample_groups = fold (\<lambda>(h, g). add_handler h g)
     [((1, MessageHandler), 0), ((2, RawUpdateHandler), 0), ((4, ErrorHandler), 5), ((3, MessageHandler), -1)] no_groups"

lemma sample_groups_ok: "groups_ok sample_groups"
  by (simp add: sample_groups_def add_handler_ok no_groups_ok)

lemma groups_edits_witness:
  "handlers_in 0 (snd (remove_handler (1, MessageHandler) 0 sample_groups)) = [(2, RawUpdateHandler)] \<and>
   fst (remove_handler (1, MessageHandler) 5 sample_groups) = Inl ValueError"
proof -
  have "handlers_in 0 sample_groups = [(1, MessageHandler), (2, RawUpdateHandler)]" "handlers_in 5 sample_groups = [(4, ErrorHandler)]"
    by code_simp+
  with groups_edits [OF sample_groups_ok, of "(1, MessageHandler)" 0 0] groups_edits [OF sample_groups_ok, of "(1, MessageHandler)" 5 0]
  show ?thesis by simp
qed


text \<open>A program for the witness: every check passes; handler 3 raises, handler 1 asks to go on, the rest return.\<close>

definition sample_calls :: "handler \<Rightarrow> (nat, nat option, nat) args \<Rightarrow> nat call_outcome" where
  "sample_calls h a = (if fst h = 3 then Raised 7 else if fst h = 1 then Continued else Returned)"

definition sample_dispatch :: "(nat, nat option, nat) dispatching" where
  "sample_dispatch = \<lparr>state = sample_groups, trace = []\<rparr>"

definition some_message :: "nat \<Rightarrow> nat + (nat option \<times> handler_class option)" where
  "some_message u = Inr (Some u, Some MessageHandler)"




section \<open>Edits during a dispatch\<close>

text \<open>Two message handlers in group 0 and one in group 1; the first removes itself and asks to go on.\<close>

definition one_shot :: "(nat, nat option, nat) program" where
  "one_shot = \<lparr>on_check = (\<lambda>_ h a. (Some True, [])),
     on_call = (\<lambda>_ h a. if fst h = 1 then (Continued, [RemoveHandler h 0]) else (Returned, [])), is_for = (\<lambda>h e. True)\<rparr>"

definition three_handlers :: handler_groups where
  "three_handlers = fold (\<lambda>(h, g). add_handler h g)
     [((1, MessageHandler), 0), ((2, MessageHandler), 0), ((3, MessageHandler), 1)] no_groups"

text \<open>
  The worker iterates over the very list that is edited: when a handler removes itself and lets the propagation go on, the next handler
  of its group is passed over, although it was registered all the time.
\<close>

theorem removal_skips_next:
  "let d = handle_update one_shot some_message (\<lambda>t p. False) 6 8 \<lparr>state = three_handlers, trace = []\<rparr> in
   map fst (calls (trace d)) = [(1, MessageHandler), (3, MessageHandler)] \<and>
   handlers_in 0 three_handlers = [(1, MessageHandler), (2, MessageHandler)] \<and> handlers_in 0 (state d) = [(2, MessageHandler)]"
  by code_simp

text \<open>A message handler that raises in group 0, an error handler that registers a handler in a new group, and a message handler in group 1.\<close>

definition registering_error_handler :: "(nat, nat option, nat) program" where
  "registering_error_handler = \<lparr>on_check = (\<lambda>_ h a. (Some True, [])),
     on_call = (\<lambda>_ h a. if fst h = 1 then (Raised 7, []) else if fst h = 2 then (Returned, [AddHandler (9, MessageHandler) 4]) else (Returned, [])),
     is_for = (\<lambda>h e. True)\<rparr>"

definition groups_with_error_handler :: handler_groups where
  "groups_with_error_handler = fold (\<lambda>(h, g). add_handler h g)
     [((1, MessageHandler), 0), ((2, ErrorHandler), 0), ((3, MessageHandler), 1)] no_groups"

text \<open>
  The error handlers are iterated over the live dict: one that has a handler added to a new group makes the iteration fail, and the
  update never reaches the remaining groups.
\<close>

theorem new_group_ends_update:
  "let d = handle_update registering_error_handler some_message (\<lambda>t p. False) 6 8 \<lparr>state = groups_with_error_handler, trace = []\<rparr> in
   map fst (calls (trace d)) = [(1, MessageHandler), (2, ErrorHandler)] \<and> LoggedMutation \<in> set (trace d) \<and>
   handlers_in 1 (state d) = [(3, MessageHandler)]"
  by code_simp

end
