(* ===== verification/Dispatcher_Workers.thy ===== *)
theory Dispatcher_Workers
  imports Prelude
begin

text \<open>
  The workers of \<open>pyrogram/dispatcher.py\<close>: the queue of updates, the relief workers that cover workers parked in a
  conversation, and the barrier that holds the workers' locks while handlers are edited. A task's code between two
  suspension points is a step.
\<close>

section \<open>The queue of updates\<close>

text \<open>An entry of the queue is an update, or \<open>None\<close>, which retires a worker.\<close>

definition QUEUE_SIZE :: nat where
  "QUEUE_SIZE = 256"

record 'u updates =
  updates_queue :: "'u option list"
  workers_running :: bool
  starting :: bool
  unread_warned :: bool

text \<open>
  \<open>enqueue_update\<close>: at once when there is room. Otherwise it waits for room, if a worker is there or coming; \<open>room\<close> says what the
  queue is when the wait ends, \<open>None\<close> when the time is over.
\<close>

definition enqueue_update :: "'u \<Rightarrow> 'u option list option \<Rightarrow> 'u updates \<Rightarrow> bool \<times> 'u updates" where
  "enqueue_update u room q =
     (if length (updates_queue q) < QUEUE_SIZE then (True, q\<lparr>updates_queue := updates_queue q @ [Some u]\<rparr>)
      else if \<not> workers_running q \<and> \<not> starting q then (False, q\<lparr>unread_warned := True\<rparr>)
      else (case room of
              None \<Rightarrow> (False, q)
            | Some rest \<Rightarrow> (True, q\<lparr>updates_queue := rest @ [Some u]\<rparr>)))"

text \<open>The drain at the end of \<open>stop\<close>: a loop of \<open>get_nowait\<close> until the queue is empty.\<close>

fun drain :: "'u option list \<Rightarrow> 'u option list" where
  "drain [] = []"
| "drain (x # xs) = drain xs"

text \<open>The sentinels of \<open>stop\<close>, one for each worker, until the queue stays full; \<open>rooms\<close> are the outcomes of the waits.\<close>

fun put_sentinels :: "nat \<Rightarrow> 'u option list option list \<Rightarrow> 'u option list \<Rightarrow> 'u option list" where
  "put_sentinels 0 rooms q = q"
| "put_sentinels (Suc n) rooms q =
     (if length q < QUEUE_SIZE then put_sentinels n rooms (q @ [None])
      else (case rooms of
              Some rest # rooms \<Rightarrow> put_sentinels n rooms (rest @ [None])
            | _ \<Rightarrow> q))"

section \<open>Relief workers\<close>

text \<open>
  \<open>parked\<close>, the set \<open>relief_workers\<close>, and which of its tasks have ended: a task that ends leaves the set by a callback that the event loop
  runs later.
\<close>

record pool =
  parked :: nat
  relief_workers :: "nat list"
  ended :: "nat list"
  next_task :: nat
  relief_capped :: bool

definition new_pool :: pool where
  "new_pool = \<lparr>parked = 0, relief_workers = [], ended = [], next_task = 0, relief_capped = False\<rparr>"

definition park :: "nat \<Rightarrow> pool \<Rightarrow> pool" where
  "park workers p =
     (let p = p\<lparr>parked := parked p + 1\<rparr>;
          p = (if \<not> relief_capped p \<and> workers * 4 \<le> length (relief_workers p) then p\<lparr>relief_capped := True\<rparr> else p)
      in p\<lparr>relief_workers := relief_workers p @ [next_task p], next_task := next_task p + 1\<rparr>)"

lemma park_simps [simp]:
  "parked (park workers p) = parked p + 1" "relief_workers (park workers p) = relief_workers p @ [next_task p]"
  "ended (park workers p) = ended p" "next_task (park workers p) = next_task p + 1"
  by (simp_all add: park_def Let_def)

definition unpark :: "pool \<Rightarrow> pool" where
  "unpark p = (if parked p \<noteq> 0 then p\<lparr>parked := parked p - 1\<rparr> else p)"

text \<open>The relief workers that can still take an update.\<close>

definition running :: "pool \<Rightarrow> nat list" where
  "running p = filter (\<lambda>w. w \<notin> set (ended p)) (relief_workers p)"

text \<open>The top of the loop of a relief worker.\<close>

definition relief_turn :: "nat \<Rightarrow> pool \<Rightarrow> pool" where
  "relief_turn w p = (if w \<in> set (running p) \<and> parked p < length (relief_workers p) then p\<lparr>ended := w # ended p\<rparr> else p)"

definition discard_relief :: "nat \<Rightarrow> pool \<Rightarrow> pool" where
  "discard_relief w p = (if w \<in> set (ended p) then p\<lparr>relief_workers := removeAll w (relief_workers p)\<rparr> else p)"

inductive pool_step :: "nat \<Rightarrow> pool \<Rightarrow> pool \<Rightarrow> bool" for workers where
  parks: "pool_step workers p (park workers p)"
| unparks: "pool_step workers p (unpark p)"
| turns: "pool_step workers p (relief_turn w p)"
| discards: "pool_step workers p (discard_relief w p)"

text \<open>The same when a task that ends leaves the set before any other relief worker looks.\<close>

inductive prompt_step :: "nat \<Rightarrow> pool \<Rightarrow> pool \<Rightarrow> bool" for workers where
  parks: "prompt_step workers p (park workers p)"
| unparks: "prompt_step workers p (unpark p)"
| turns: "prompt_step workers p (discard_relief w (relief_turn w p))"

definition covered :: "pool \<Rightarrow> bool" where
  "covered p = (parked p \<le> length (running p))"

definition pool_ok :: "pool \<Rightarrow> bool" where
  "pool_ok p =
     (distinct (relief_workers p) \<and> (\<forall>w \<in> set (relief_workers p) \<union> set (ended p). w < next_task p) \<and>
      set (ended p) \<inter> set (relief_workers p) = {} \<and> parked p \<le> length (relief_workers p))"

lemma pool_ok_covered: "pool_ok p \<Longrightarrow> covered p"
proof -
  assume ok: "pool_ok p"
  then have "running p = relief_workers p" by (auto simp: running_def pool_ok_def filter_id_conv)
  with ok show "covered p" by (simp add: covered_def pool_ok_def)
qed

lemma prompt_step_ok: "prompt_step workers p q \<Longrightarrow> pool_ok p \<Longrightarrow> pool_ok q"
proof (induction rule: prompt_step.induct)
  case (turns p w)
  have "length (removeAll w (relief_workers p)) = length (relief_workers p) - 1" if "w \<in> set (relief_workers p)"
    using that turns by (simp add: pool_ok_def distinct_remove1_removeAll [symmetric] length_remove1)
  moreover have "removeAll w (relief_workers p) = relief_workers p" if "w \<in> set (ended p)"
    using that turns by (intro removeAll_id) (auto simp: pool_ok_def)
  ultimately show ?case using turns
    by (auto simp: pool_ok_def relief_turn_def discard_relief_def running_def distinct_removeAll)
qed (auto simp: pool_ok_def unpark_def intro: less_SucI)

lemma new_pool_ok: "pool_ok new_pool"
  by (simp add: pool_ok_def new_pool_def)

section \<open>The barrier\<close>

text \<open>
  The locks of the workers, those that are taken, and the tasks that edit handlers: each has copied the list of
  locks, takes one after the other, edits when it has all of them, and gives them back. A task that is cancelled
  while it waits gives back what it has, too.
\<close>

record editor =
  acquired :: "nat list"
  to_acquire :: "nat list"
  edit_over :: bool

record barrier =
  locks_list :: "nat list"
  locked :: "nat set"
  editors :: "editor list"
  next_lock :: nat

definition new_barrier :: barrier where
  "new_barrier = \<lparr>locks_list = [], locked = {}, editors = [], next_lock = 0\<rparr>"

definition enter :: "barrier \<Rightarrow> barrier" where
  "enter b = b\<lparr>editors := editors b @ [\<lparr>acquired = [], to_acquire = locks_list b, edit_over = False\<rparr>]\<rparr>"

definition waits_for :: "barrier \<Rightarrow> nat \<Rightarrow> nat option" where
  "waits_for b i = (case to_acquire (editors b ! i) of [] \<Rightarrow> None | l # _ \<Rightarrow> Some l)"

definition acquire_next :: "nat \<Rightarrow> barrier \<Rightarrow> barrier" where
  "acquire_next i b =
     (case to_acquire (editors b ! i) of
        [] \<Rightarrow> b
      | l # ls \<Rightarrow>
          if l \<in> locked b then b
          else b\<lparr>locked := insert l (locked b),
                 editors := (editors b)[i := (editors b ! i)\<lparr>acquired := acquired (editors b ! i) @ [l], to_acquire := ls\<rparr>]\<rparr>)"

text \<open>The \<open>finally\<close> of \<open>_barrier\<close>.\<close>

definition release_all :: "nat \<Rightarrow> barrier \<Rightarrow> barrier" where
  "release_all i b =
     b\<lparr>locked := locked b - set (acquired (editors b ! i)),
       editors := (editors b)[i := \<lparr>acquired = [], to_acquire = [], edit_over = True\<rparr>]\<rparr>"

definition has_all :: "barrier \<Rightarrow> nat \<Rightarrow> bool" where
  "has_all b i = (\<not> edit_over (editors b ! i) \<and> to_acquire (editors b ! i) = [])"

text \<open>A start of the dispatcher makes a lock for each worker, a stop clears the list.\<close>

definition new_worker_lock :: "barrier \<Rightarrow> barrier" where
  "new_worker_lock b = b\<lparr>locks_list := locks_list b @ [next_lock b], next_lock := next_lock b + 1\<rparr>"

definition clear_locks :: "barrier \<Rightarrow> barrier" where
  "clear_locks b = b\<lparr>locks_list := []\<rparr>"

inductive barrier_step :: "barrier \<Rightarrow> barrier \<Rightarrow> bool" where
  entering: "barrier_step b (enter b)"
| acquiring: "i < length (editors b) \<Longrightarrow> waits_for b i = Some l \<Longrightarrow> l \<notin> locked b \<Longrightarrow> barrier_step b (acquire_next i b)"
| leaving: "i < length (editors b) \<Longrightarrow> has_all b i \<Longrightarrow> barrier_step b (release_all i b)"
| cancelled: "i < length (editors b) \<Longrightarrow> barrier_step b (release_all i b)"
| starting: "barrier_step b (new_worker_lock b)"
| stopping: "barrier_step b (clear_locks b)"

inductive_cases barrier_stepE: "barrier_step b b'"

text \<open>What an editor holds, in the order of the list, and what it still has to take, which comes after; nothing when it is over.\<close>

definition in_order :: "editor \<Rightarrow> bool" where
  "in_order e = (sorted_wrt (<) (acquired e @ to_acquire e) \<and> (edit_over e \<longrightarrow> acquired e = [] \<and> to_acquire e = []))"

definition barrier_ok :: "barrier \<Rightarrow> bool" where
  "barrier_ok b =
     (sorted_wrt (<) (locks_list b) \<and> (\<forall>l \<in> set (locks_list b). l < next_lock b) \<and>
      list_all in_order (editors b) \<and>
      locked b = (\<Union>e \<in> set (editors b). set (acquired e)) \<and>
      (\<forall>i < length (editors b). \<forall>j < length (editors b). i \<noteq> j \<longrightarrow>
         set (acquired (editors b ! i)) \<inter> set (acquired (editors b ! j)) = {}))"

lemma barrier_ok_new: "barrier_ok new_barrier"
  by (simp add: barrier_ok_def new_barrier_def)

text \<open>Replacing one editor.\<close>

lemma in_set_update: "i < length xs \<Longrightarrow> set (xs[i := x]) = insert x {xs ! j | j. j < length xs \<and> j \<noteq> i}"
  by (auto simp: set_conv_nth nth_list_update)

lemma held_split: "i < length xs \<Longrightarrow> (\<Union>e \<in> set xs. f e) = f (xs ! i) \<union> (\<Union>e \<in> {xs ! j | j. j < length xs \<and> j \<noteq> i}. f e)"
  using in_set_update [of i xs "xs ! i"] by simp

lemma replaced_ok:
  assumes ok: "barrier_ok b" and i: "i < length (editors b)" and e: "in_order e"
    and l: "L = set (acquired e) \<union> (locked b - set (acquired (editors b ! i)))"
    and new: "set (acquired e) \<inter> (locked b - set (acquired (editors b ! i))) = {}"
  shows "barrier_ok (b\<lparr>locked := L, editors := (editors b)[i := e]\<rparr>)"
proof -
  let ?others = "\<Union>x \<in> {editors b ! j | j. j < length (editors b) \<and> j \<noteq> i}. set (acquired x)"
  have lk: "locked b = set (acquired (editors b ! i)) \<union> ?others"
    using ok held_split [OF i, of "\<lambda>e. set (acquired e)"] by (simp add: barrier_ok_def)
  have dis: "set (acquired (editors b ! i)) \<inter> ?others = {}"
  proof -
    have "set (acquired (editors b ! i)) \<inter> set (acquired (editors b ! j)) = {}" if "j < length (editors b)" "j \<noteq> i" for j
      using ok i that unfolding barrier_ok_def by blast
    then show ?thesis by blast
  qed
  have rest: "locked b - set (acquired (editors b ! i)) = ?others" using lk dis by blast
  have "(\<Union>x \<in> set ((editors b)[i := e]). set (acquired x)) = set (acquired e) \<union> ?others"
    unfolding in_set_update [OF i] by blast
  moreover have "list_all in_order ((editors b)[i := e])"
    using ok e by (auto simp: barrier_ok_def list_all_iff dest: set_update_subset_insert [THEN subsetD])
  moreover have "set (acquired e) \<inter> set (acquired (editors b ! j)) = {}" if "j < length (editors b)" "j \<noteq> i" for j
    using new that unfolding rest by blast
  ultimately show ?thesis
    using ok l i unfolding rest by (auto simp: barrier_ok_def nth_list_update)
qed

lemma in_order_nth: "barrier_ok b \<Longrightarrow> i < length (editors b) \<Longrightarrow> in_order (editors b ! i)"
  by (simp add: barrier_ok_def list_all_length)

lemma acquire_ok:
  assumes ok: "barrier_ok b" and i: "i < length (editors b)" and w: "waits_for b i = Some l" and free: "l \<notin> locked b"
  shows "barrier_ok (acquire_next i b)"
proof -
  let ?e = "editors b ! i"
  obtain ls where t: "to_acquire ?e = l # ls" using w by (auto simp: waits_for_def split: list.splits)
  have sub: "set (acquired ?e) \<subseteq> locked b" using ok i by (auto simp: barrier_ok_def)
  have "in_order (?e\<lparr>acquired := acquired ?e @ [l], to_acquire := ls\<rparr>)"
    using in_order_nth [OF ok i] t by (simp add: in_order_def)
  from replaced_ok [OF ok i this refl] sub free show ?thesis
    by (simp add: acquire_next_def t Un_Diff_cancel2 insert_absorb Un_absorb1)
qed

lemma release_ok:
  assumes ok: "barrier_ok b" and i: "i < length (editors b)"
  shows "barrier_ok (release_all i b)"
  using replaced_ok [OF ok i, of "\<lparr>acquired = [], to_acquire = [], edit_over = True\<rparr>"]
  by (simp add: release_all_def in_order_def)

lemma enter_ok: "barrier_ok b \<Longrightarrow> barrier_ok (enter b)"
  by (auto simp: barrier_ok_def enter_def in_order_def nth_append)

lemma barrier_step_ok: "barrier_step b b' \<Longrightarrow> barrier_ok b \<Longrightarrow> barrier_ok b'"
proof (induction rule: barrier_step.induct)
  case (starting b)
  then show ?case by (auto simp: barrier_ok_def new_worker_lock_def sorted_wrt_append intro: less_SucI)
next
  case (stopping b)
  then show ?case by (simp add: barrier_ok_def clear_locks_def)
qed (auto intro: enter_ok acquire_ok release_ok)

lemma barrier_steps_ok: "barrier_step\<^sup>*\<^sup>* b b' \<Longrightarrow> barrier_ok b \<Longrightarrow> barrier_ok b'"
  by (induction rule: rtranclp_induct) (auto intro: barrier_step_ok)

text \<open>An editor that can move: it has all its locks, or the next one is free.\<close>

definition can_move :: "barrier \<Rightarrow> nat \<Rightarrow> bool" where
  "can_move b i = (has_all b i \<or> (\<exists>l. waits_for b i = Some l \<and> l \<notin> locked b))"

lemma blocked_by_later:
  assumes ok: "barrier_ok b" and i: "i < length (editors b)" and w: "waits_for b i = Some l" "l \<in> locked b"
  obtains j where "j < length (editors b)" "l \<in> set (acquired (editors b ! j))"
    "\<And>l'. waits_for b j = Some l' \<Longrightarrow> l < l'"
proof -
  from ok w(2) obtain e where "e \<in> set (editors b)" "l \<in> set (acquired e)" by (auto simp: barrier_ok_def)
  then obtain j where j: "j < length (editors b)" "l \<in> set (acquired (editors b ! j))" by (auto simp: in_set_conv_nth)
  have "l < l'" if "waits_for b j = Some l'" for l'
    using that in_order_nth [OF ok j(1)] j(2)
    by (auto simp: waits_for_def in_order_def sorted_wrt_append split: list.splits)
  with j that show ?thesis by blast
qed

lemma someone_moves:
  assumes ok: "barrier_ok b" and i: "i < length (editors b)" and w: "waits_for b i = Some l" "l \<in> locked b"
  shows "\<exists>j < length (editors b). can_move b j"
  using i w
proof (induction "card {x \<in> locked b. l \<le> x}" arbitrary: i l rule: less_induct)
  case less
  have fin: "finite (locked b)" using ok by (simp add: barrier_ok_def)
  obtain j where j: "j < length (editors b)" "l \<in> set (acquired (editors b ! j))"
    and later: "\<And>l'. waits_for b j = Some l' \<Longrightarrow> l < l'"
    using blocked_by_later [OF ok less.prems] by blast
  show ?case
  proof (cases "can_move b j")
    case False
    have "\<not> edit_over (editors b ! j)" using in_order_nth [OF ok j(1)] j(2) by (auto simp: in_order_def)
    with False obtain l' where l': "waits_for b j = Some l'" "l' \<in> locked b"
      by (auto simp: can_move_def has_all_def waits_for_def split: list.splits)
    have lt: "l < l'" using later [OF l'(1)] .
    have "{x \<in> locked b. l' \<le> x} \<subset> {x \<in> locked b. l \<le> x}"
    proof (rule psubsetI)
      show "{x \<in> locked b. l' \<le> x} \<subseteq> {x \<in> locked b. l \<le> x}" using lt by force
      have "l \<in> {x \<in> locked b. l \<le> x}" "l \<notin> {x \<in> locked b. l' \<le> x}" using less.prems(3) lt by simp_all
      then show "{x \<in> locked b. l' \<le> x} \<noteq> {x \<in> locked b. l \<le> x}" by blast
    qed
    then have "card {x \<in> locked b. l' \<le> x} < card {x \<in> locked b. l \<le> x}"
      by (rule psubset_card_mono [rotated]) (simp add: fin)
    from less.hyps [OF this j(1) l'] show ?thesis .
  qed (use j(1) in blast)
qed

section \<open>Properties\<close>

text \<open>
  While each relief worker that ends leaves the set before another one looks, there are as many of them as parked workers: every
  conversation that holds its worker is covered.
\<close>

theorem relief_covers:
  assumes "(prompt_step workers)\<^sup>*\<^sup>* new_pool p"
  shows "covered p"
proof -
  have "pool_ok p" using assms by (induction rule: rtranclp_induct) (auto simp: new_pool_ok intro: prompt_step_ok)
  then show ?thesis by (rule pool_ok_covered)
qed

lemma relief_covers_witness: "covered (discard_relief 0 (relief_turn 0 (unpark (park 4 (park 4 new_pool)))))"
proof (rule relief_covers)
  have "(prompt_step 4)\<^sup>*\<^sup>* new_pool (park 4 new_pool)" by (blast intro: prompt_step.intros)
  then have "(prompt_step 4)\<^sup>*\<^sup>* new_pool (park 4 (park 4 new_pool))" by (rule rtranclp.rtrancl_into_rtrancl) (rule prompt_step.parks)
  then have "(prompt_step 4)\<^sup>*\<^sup>* new_pool (unpark (park 4 (park 4 new_pool)))" by (rule rtranclp.rtrancl_into_rtrancl) (rule prompt_step.unparks)
  then show "(prompt_step 4)\<^sup>*\<^sup>* new_pool (discard_relief 0 (relief_turn 0 (unpark (park 4 (park 4 new_pool)))))"
    by (rule rtranclp.rtrancl_into_rtrancl) (rule prompt_step.turns)
qed

text \<open>
  The set is left only when the event loop runs the callback of the ended task: two relief workers that look before that both
  count each other and both end, and a parked worker is left with no relief.
\<close>

theorem relief_lost:
  "\<exists>p. (pool_step workers)\<^sup>*\<^sup>* new_pool p \<and> parked p = 1 \<and> running p = []"
proof (intro exI conjI)
  let ?p = "relief_turn 1 (relief_turn 0 (unpark (park workers (park workers new_pool))))"
  have "(pool_step workers)\<^sup>*\<^sup>* new_pool (park workers (park workers new_pool))"
    by (rule rtranclp.rtrancl_into_rtrancl [OF r_into_rtranclp]) (rule pool_step.parks)+
  then have "(pool_step workers)\<^sup>*\<^sup>* new_pool (unpark (park workers (park workers new_pool)))"
    by (rule rtranclp.rtrancl_into_rtrancl) (rule pool_step.unparks)
  then have "(pool_step workers)\<^sup>*\<^sup>* new_pool (relief_turn 0 (unpark (park workers (park workers new_pool))))"
    by (rule rtranclp.rtrancl_into_rtrancl) (rule pool_step.turns)
  then show "(pool_step workers)\<^sup>*\<^sup>* new_pool ?p"
    by (rule rtranclp.rtrancl_into_rtrancl) (rule pool_step.turns)
  let ?u = "unpark (park workers (park workers new_pool))"
  have u: "parked ?u = 1" "relief_workers ?u = [0, 1]" "ended ?u = []" by (simp_all add: unpark_def new_pool_def)
  have t: "relief_turn 0 ?u = ?u\<lparr>ended := [0]\<rparr>" by (simp add: relief_turn_def running_def u)
  have "?p = ?u\<lparr>ended := [1, 0]\<rparr>" unfolding t by (simp add: relief_turn_def running_def u)
  then show "parked ?p = 1" "running ?p = []" by (simp_all add: running_def u)
qed

text \<open>
  C40. Edits never wait for each other in a circle: whatever starts, stops and cancellations there were, an editor that is not done
  has a way forward itself, or another one has. And a lock is taken exactly when one editor holds it, so all are free when none edits.
\<close>

theorem barrier_progress:
  assumes "barrier_step\<^sup>*\<^sup>* new_barrier b" and "i < length (editors b)" and "\<not> edit_over (editors b ! i)"
  shows "(\<exists>j < length (editors b). can_move b j) \<and> locked b = (\<Union>e \<in> set (editors b). set (acquired e)) \<and>
    list_all (\<lambda>e. if edit_over e then acquired e = [] else True) (editors b)"
proof -
  have ok: "barrier_ok b" using barrier_steps_ok [OF assms(1) barrier_ok_new] .
  have "\<exists>j < length (editors b). can_move b j"
  proof (cases "can_move b i")
    case False
    with assms(3) obtain l where "waits_for b i = Some l" "l \<in> locked b"
      by (auto simp: can_move_def has_all_def waits_for_def split: list.splits)
    from someone_moves [OF ok assms(2) this] show ?thesis .
  qed (use assms(2) in blast)
  with ok show ?thesis by (auto simp: barrier_ok_def list_all_iff in_order_def)
qed

lemma barrier_progress_witness: "\<exists>j < length (editors (enter (new_worker_lock new_barrier))). can_move (enter (new_worker_lock new_barrier)) j"
proof -
  have "barrier_step\<^sup>*\<^sup>* new_barrier (new_worker_lock new_barrier)" by (blast intro: barrier_step.intros)
  then have "barrier_step\<^sup>*\<^sup>* new_barrier (enter (new_worker_lock new_barrier))"
    by (rule rtranclp.rtrancl_into_rtrancl) (rule barrier_step.entering)
  from barrier_progress [OF this, of 0] show ?thesis by (simp add: enter_def new_barrier_def new_worker_lock_def)
qed

end
