(* ===== verification/Session_String.thy ===== *)
theory Session_String
  imports Base64 Py_Text
begin

text \<open>
  The abstract storage of a session (\<open>pyrogram/storage/storage.py\<close>): session strings in every format, their
  repair, and loading one into or exporting one from any storage. \<open>zlib.crc32\<close> is an argument. A storage is what its
  accessors do, which the functions over it take as arguments.
\<close>

section \<open>The text codec\<close>

definition SESSION_STRING_ALPHABET :: ustr where
  "SESSION_STRING_ALPHABET = ustr ''ABCDEFGHIJKLMNOPQRSTUVWXYZabcdefghijklmnopqrstuvwxyz0123456789-_''"

definition SESSION_STRING_DECODE :: "nat \<Rightarrow> nat option" where
  "SESSION_STRING_DECODE c =
     (if c \<in> set SESSION_STRING_ALPHABET then Some (length (takeWhile (\<lambda>x. x \<noteq> c) SESSION_STRING_ALPHABET)) else None)"

definition WZ_PREFIX :: ustr where
  "WZ_PREFIX = ustr ''WZ_''"

definition sym :: "nat \<Rightarrow> nat" where
  "sym n = SESSION_STRING_ALPHABET ! n"

fun encode :: "bytes \<Rightarrow> ustr" where
  "encode (a # b # c # raw) =
     (let n = push_bit 16 (unat a) OR push_bit 8 (unat b) OR unat c in
      sym (drop_bit 18 n AND 63) # sym (drop_bit 12 n AND 63) # sym (drop_bit 6 n AND 63) # sym (n AND 63) # encode raw)"
| "encode [a, b] =
     (let n = push_bit 8 (unat a) OR unat b in
      [sym (drop_bit 10 n AND 63), sym (drop_bit 4 n AND 63), sym (push_bit 2 n AND 63)])"
| "encode [a] = (let n = unat a in [sym (drop_bit 2 n AND 63), sym (push_bit 4 n AND 63)])"
| "encode [] = []"

text \<open>The loops \<open>n = (n << 6) | SESSION_STRING_DECODE[c]\<close>; a character outside the alphabet is a \<open>KeyError\<close>.\<close>

fun gather :: "nat \<Rightarrow> ustr \<Rightarrow> nat result" where
  "gather n [] = Inr n"
| "gather n (c # cs) =
     (case SESSION_STRING_DECODE c of
        None \<Rightarrow> Inl (KeyError (int c))
      | Some v \<Rightarrow> gather (push_bit 6 n OR v) cs)"

fun decode :: "ustr \<Rightarrow> bytes result" where
  "decode (c1 # c2 # c3 # c4 # s) =
     bindR (gather 0 [c1, c2, c3, c4]) (\<lambda>n. bindR (decode s) (\<lambda>r.
       Inr (byte_of (drop_bit 16 n AND 255) # byte_of (drop_bit 8 n AND 255) # byte_of (n AND 255) # r)))"
| "decode [c1, c2, c3] =
     bindR (gather 0 [c1, c2, c3]) (\<lambda>n. let n = drop_bit 2 n in
       Inr [byte_of (drop_bit 8 n AND 255), byte_of (n AND 255)])"
| "decode [c1, c2] = bindR (gather 0 [c1, c2]) (\<lambda>n. let n = drop_bit 4 n in Inr [byte_of (n AND 255)])"
| "decode [c1] = Inl ValueError"
| "decode [] = Inr []"

section \<open>The packed formats\<close>

text \<open>The fields of a session; a format without a field leaves it \<open>None\<close>.\<close>

record session_data =
  s_dc_id :: int
  s_api_id :: "int option"
  s_test_mode :: bool
  s_auth_key :: bytes
  s_user_id :: int
  s_is_bot :: bool
  s_port :: "int option"
  s_server_address :: "ustr option"

definition SERVER_ADDRESS_SIZE :: nat where "SERVER_ADDRESS_SIZE = 48"
definition V2_PACKED_SIZE :: nat where "V2_PACKED_SIZE = 290"
definition V2_CRC_PACKED_SIZE :: nat where "V2_CRC_PACKED_SIZE = 294"
definition V3_PACKED_SIZE :: nat where "V3_PACKED_SIZE = 322"
definition V3_CRC_PACKED_SIZE :: nat where "V3_CRC_PACKED_SIZE = 326"

text \<open>\<open>">BBI?256sQ?H16s"\<close> and \<open>">BBI?256sQ?H48s"\<close>, and the formats before them.\<close>

definition session_format :: "nat \<Rightarrow> scode list" where
  "session_format n = [CInt 1 False, CInt 1 False, CInt 4 False, CBool, CStr 256, CInt 8 False, CBool, CInt 2 False, CStr n]"

definition SESSION_STRING_FORMAT_V2 :: "scode list" where "SESSION_STRING_FORMAT_V2 = session_format 16"
definition SESSION_STRING_FORMAT_V3 :: "scode list" where "SESSION_STRING_FORMAT_V3 = session_format 48"

text \<open>The unpacked values have the types of their codes.\<close>

fun as_int :: "sval \<Rightarrow> int" where
  "as_int (VInt i) = i" | "as_int _ = 0"

fun as_bool :: "sval \<Rightarrow> bool" where
  "as_bool (VBool b) = b" | "as_bool _ = False"

fun as_bytes :: "sval \<Rightarrow> bytes" where
  "as_bytes (VBytes b) = b" | "as_bytes _ = []"

text \<open>What \<open>_try_decode_v3\<close> and \<open>_try_decode_v2\<close> make of the unpacked fields.\<close>

definition session_of :: "sval list \<Rightarrow> session_data result" where
  "session_of vs =
     bindR (ascii_decode (rstrip_by (\<lambda>b. b = 0) (as_bytes (vs ! 8)))) (\<lambda>a.
       Inr \<lparr>s_dc_id = as_int (vs ! 1), s_api_id = Some (as_int (vs ! 2)), s_test_mode = as_bool (vs ! 3),
            s_auth_key = as_bytes (vs ! 4), s_user_id = as_int (vs ! 5), s_is_bot = as_bool (vs ! 6),
            s_port = Some (as_int (vs ! 7)), s_server_address = Some a\<rparr>)"

definition try_decode_v3 :: "bytes \<Rightarrow> session_data option result" where
  "try_decode_v3 raw =
     (if length raw \<noteq> V3_PACKED_SIZE then Inr None
      else bindR (struct_unpack True SESSION_STRING_FORMAT_V3 raw) (\<lambda>vs. bindR (session_of vs) (\<lambda>d. Inr (Some d))))"

definition try_decode_v2 :: "bytes \<Rightarrow> session_data option result" where
  "try_decode_v2 raw =
     (if length raw \<noteq> V2_PACKED_SIZE then Inr None
      else bindR (struct_unpack True SESSION_STRING_FORMAT_V2 raw) (\<lambda>vs. bindR (session_of vs) (\<lambda>d. Inr (Some d))))"

text \<open>The last four bytes are the checksum of the rest.\<close>

definition checksum_ok :: "(bytes \<Rightarrow> nat) \<Rightarrow> bytes \<Rightarrow> bool" where
  "checksum_ok crc raw = (crc (take (length raw - 4) raw) = le_nat (drop (length raw - 4) raw))"

definition try_decode_v3_with_crc :: "(bytes \<Rightarrow> nat) \<Rightarrow> bytes \<Rightarrow> session_data option result" where
  "try_decode_v3_with_crc crc raw =
     (if length raw \<noteq> V3_CRC_PACKED_SIZE then Inr None
      else if \<not> checksum_ok crc raw then Inr None
      else try_decode_v3 (take (length raw - 4) raw))"

definition try_decode_v2_with_crc :: "(bytes \<Rightarrow> nat) \<Rightarrow> bytes \<Rightarrow> session_data option result" where
  "try_decode_v2_with_crc crc raw =
     (if length raw \<noteq> V2_CRC_PACKED_SIZE then Inr None
      else if \<not> checksum_ok crc raw then Inr None
      else try_decode_v2 (take (length raw - 4) raw))"

definition legacy_of :: "int option \<Rightarrow> sval list \<Rightarrow> session_data result" where
  "legacy_of api vs =
     Inr \<lparr>s_dc_id = as_int (vs ! 0), s_api_id = api, s_test_mode = as_bool (vs ! 1), s_auth_key = as_bytes (vs ! 2),
          s_user_id = as_int (vs ! 3), s_is_bot = as_bool (vs ! 4), s_port = None, s_server_address = None\<rparr>"

definition try_decode_legacy :: "bytes \<Rightarrow> session_data option result" where
  "try_decode_legacy raw =
     (if length raw \<notin> {263, 267, 271} then Inr None
      else if length raw = 271 then
        bindR (struct_unpack True [CInt 1 False, CInt 4 False, CBool, CStr 256, CInt 8 False, CBool] raw) (\<lambda>vs.
          bindR (legacy_of (Some (as_int (vs ! 1))) (vs ! 0 # drop 2 vs)) (\<lambda>d. Inr (Some d)))
      else
        bindR (if length raw = 267 then struct_unpack True [CInt 1 False, CBool, CStr 256, CInt 8 False, CBool] raw
               else struct_unpack True [CInt 1 False, CBool, CStr 256, CInt 4 False, CBool] raw) (\<lambda>vs.
          bindR (legacy_of None vs) (\<lambda>d. Inr (Some d))))"

text \<open>Python's \<open>or\<close> of two attempts.\<close>

definition or_else :: "'a option result \<Rightarrow> 'a option result \<Rightarrow> 'a option result" where
  "or_else x y = bindR x (\<lambda>r. case r of None \<Rightarrow> y | Some d \<Rightarrow> Inr (Some d))"

definition try_every_format :: "(bytes \<Rightarrow> nat) \<Rightarrow> bytes \<Rightarrow> bool \<Rightarrow> session_data option result" where
  "try_every_format crc raw allow_unverified =
     or_else (or_else (try_decode_v3_with_crc crc raw) (try_decode_v2_with_crc crc raw))
       (if \<not> allow_unverified then Inr None
        else or_else (or_else (try_decode_v3 raw) (try_decode_v2 raw)) (try_decode_legacy raw))"

section \<open>Decoding and repairing a session string\<close>

definition validate_char_set :: "ustr \<Rightarrow> ustr" where
  "validate_char_set s = filter (\<lambda>c. SESSION_STRING_DECODE c \<noteq> None) s"

definition strip_prefix :: "ustr \<Rightarrow> ustr \<times> bool" where
  "strip_prefix s = (if starts_with WZ_PREFIX s then (drop (length WZ_PREFIX) s, True) else (s, False))"

definition repair_attempts :: "ustr \<Rightarrow> ustr list" where
  "repair_attempts s =
     s # concat (map (\<lambda>c. [c # s, s @ [c]]) SESSION_STRING_ALPHABET) @
     concat (map (\<lambda>c1. concat (map (\<lambda>c2. [c1 # c2 # s, s @ [c1, c2]]) SESSION_STRING_ALPHABET)) SESSION_STRING_ALPHABET)"

text \<open>The loop over the attempts. \<open>KeyError\<close> and \<open>ValueError\<close> of \<open>_decode\<close> are all it can raise.\<close>

fun try_repairs :: "(bytes \<Rightarrow> nat) \<Rightarrow> ustr \<Rightarrow> ustr list \<Rightarrow> session_data result" where
  "try_repairs crc clean [] = Inl ValueError"
| "try_repairs crc clean (a # as) =
     (if a = clean then try_repairs crc clean as
      else (case decode a of
              Inl _ \<Rightarrow> try_repairs crc clean as
            | Inr raw \<Rightarrow>
                bindR (try_every_format crc raw False) (\<lambda>r.
                  case r of Some d \<Rightarrow> Inr d | None \<Rightarrow> try_repairs crc clean as)))"

definition decode_session_string :: "(bytes \<Rightarrow> nat) \<Rightarrow> ustr \<Rightarrow> session_data result" where
  "decode_session_string crc session_string =
     (let s = strip_by py_space session_string in
      if s = [] then Inl ValueError
      else (let clean = validate_char_set (fst (strip_prefix s)) in
            bindR (case decode clean of Inl _ \<Rightarrow> Inr None | Inr raw \<Rightarrow> try_every_format crc raw True) (\<lambda>r.
              case r of Some d \<Rightarrow> Inr d | None \<Rightarrow> try_repairs crc clean (repair_attempts clean))))"

section \<open>Loading and exporting\<close>

text \<open>The session attributes of a storage and their values.\<close>

datatype attr = DcId | ApiId | ServerAddress | Port | TestMode | AuthKey | Date | UserId | IsBot

datatype val = NoVal | IntVal int | BoolVal bool | BytesVal bytes | TextVal ustr

definition TEST_ADDRESSES :: "int \<Rightarrow> ustr option" where
  "TEST_ADDRESSES = map_of [(1, ustr ''149.154.175.10''), (2, ustr ''149.154.167.40''), (3, ustr ''149.154.175.117'')]"

definition PROD_ADDRESSES :: "int \<Rightarrow> ustr option" where
  "PROD_ADDRESSES = map_of [(1, ustr ''149.154.175.53''), (2, ustr ''149.154.167.51''), (3, ustr ''149.154.175.100''),
     (4, ustr ''149.154.167.91''), (5, ustr ''91.108.56.130''), (203, ustr ''91.105.192.100'')]"

text \<open>The accessors of a storage: reading and writing an attribute.\<close>

type_synonym 's attr_reads = "attr \<Rightarrow> 's \<Rightarrow> val result \<times> 's"
type_synonym 's attr_writes = "attr \<Rightarrow> val \<Rightarrow> 's \<Rightarrow> unit result \<times> 's"

fun write_all :: "'s attr_writes \<Rightarrow> (attr \<times> val) list \<Rightarrow> 's \<Rightarrow> unit result \<times> 's" where
  "write_all wr [] s = (Inr (), s)"
| "write_all wr ((a, v) # avs) s =
     (case wr a v s of (Inl e, s) \<Rightarrow> (Inl e, s) | (Inr _, s) \<Rightarrow> write_all wr avs s)"

fun read_all :: "'s attr_reads \<Rightarrow> attr list \<Rightarrow> 's \<Rightarrow> val list result \<times> 's" where
  "read_all rd [] s = (Inr [], s)"
| "read_all rd (a # as) s =
     (case rd a s of
        (Inl e, s) \<Rightarrow> (Inl e, s)
      | (Inr v, s) \<Rightarrow> (case read_all rd as s of (Inl e, s) \<Rightarrow> (Inl e, s) | (Inr vs, s) \<Rightarrow> (Inr (v # vs), s)))"

text \<open>The writes of \<open>load_session_string\<close>. A port of 0 and an empty address count as missing.\<close>

definition default_port :: "bool \<Rightarrow> int" where
  "default_port test = (if test then 80 else 443)"

definition load_writes :: "session_data \<Rightarrow> (attr \<times> val) list" where
  "load_writes d =
     [(DcId, IntVal (s_dc_id d)), (TestMode, BoolVal (s_test_mode d)), (AuthKey, BytesVal (s_auth_key d)),
      (UserId, IntVal (s_user_id d)), (IsBot, BoolVal (s_is_bot d)), (Date, IntVal 0)] @
     (let default_address = (if s_test_mode d then TEST_ADDRESSES else PROD_ADDRESSES) (s_dc_id d) in
      case s_server_address d of
        Some (c # cs) \<Rightarrow>
          [(ServerAddress, TextVal (c # cs)),
           (Port, IntVal (case s_port d of Some p \<Rightarrow> if p \<noteq> 0 then p else default_port (s_test_mode d) | None \<Rightarrow> default_port (s_test_mode d)))]
      | _ \<Rightarrow>
          (case default_address of
             Some a \<Rightarrow> [(ServerAddress, TextVal a), (Port, IntVal (default_port (s_test_mode d)))]
           | None \<Rightarrow> [])) @
     (case s_api_id d of Some api \<Rightarrow> [(ApiId, IntVal api)] | None \<Rightarrow> [])"

definition load_session_string :: "(bytes \<Rightarrow> nat) \<Rightarrow> 's attr_writes \<Rightarrow> ustr \<Rightarrow> 's \<Rightarrow> unit result \<times> 's" where
  "load_session_string crc wr str s =
     (case decode_session_string crc str of
        Inl e \<Rightarrow> (Inl e, s)
      | Inr d \<Rightarrow> write_all wr (load_writes d) s)"

text \<open>\<open>x or 0\<close> and \<open>x or ""\<close>, as values to pack.\<close>

fun pack_val :: "val \<Rightarrow> sval" where
  "pack_val NoVal = VNone"
| "pack_val (IntVal i) = VInt i"
| "pack_val (BoolVal b) = VBool b"
| "pack_val (BytesVal b) = VBytes b"
| "pack_val (TextVal t) = VText t"

fun val_truthy :: "val \<Rightarrow> bool" where
  "val_truthy NoVal = False"
| "val_truthy (IntVal i) = (i \<noteq> 0)"
| "val_truthy (BoolVal b) = b"
| "val_truthy (BytesVal b) = (b \<noteq> [])"
| "val_truthy (TextVal t) = (t \<noteq> [])"

definition or_zero :: "val \<Rightarrow> val" where
  "or_zero v = (if val_truthy v then v else IntVal 0)"

fun address_text :: "val \<Rightarrow> ustr result" where
  "address_text (TextVal t) = Inr t"
| "address_text v = (if val_truthy v then Inl AttributeError else Inr [])"

definition EXPORTED :: "attr list" where
  "EXPORTED = [DcId, ApiId, TestMode, AuthKey, UserId, IsBot, Port, ServerAddress]"

definition export_values :: "(bytes \<Rightarrow> nat) \<Rightarrow> (attr \<Rightarrow> val) \<Rightarrow> ustr result" where
  "export_values crc v =
     (if NoVal \<in> v ` {DcId, TestMode, AuthKey, UserId, IsBot} then Inl ValueError
      else bindR (bindR (address_text (v ServerAddress)) ascii_encode) (\<lambda>addr.
        if SERVER_ADDRESS_SIZE < length addr then Inl ValueError
        else bindR (struct_pack True SESSION_STRING_FORMAT_V3
            [VInt 3, pack_val (v DcId), pack_val (or_zero (v ApiId)), pack_val (v TestMode), pack_val (v AuthKey), pack_val (v UserId),
             pack_val (v IsBot), pack_val (or_zero (v Port)), VBytes (addr @ replicate (SERVER_ADDRESS_SIZE - length addr) 0)])
          (\<lambda>packed. Inr (WZ_PREFIX @ encode (packed @ le_bytes 4 (crc packed))))))"

definition export_session_string :: "(bytes \<Rightarrow> nat) \<Rightarrow> 's attr_reads \<Rightarrow> 's \<Rightarrow> ustr result \<times> 's" where
  "export_session_string crc rd s =
     (case read_all rd EXPORTED s of
        (Inl e, s) \<Rightarrow> (Inl e, s)
      | (Inr vs, s) \<Rightarrow> (export_values crc (\<lambda>a. case map_of (zip EXPORTED vs) a of Some v \<Rightarrow> v | None \<Rightarrow> NoVal), s))"

end
