(* ===== verification/Session_String_Laws.thy ===== *)
theory Session_String_Laws
  imports Session_String
begin

text \<open>
  What session strings promise: the codec reads back what it wrote, an exported session is decoded to the same session,
  noise and the loss of one or two characters at an end are repaired, and loading into any storage that keeps what is
  written to it gives the session back.
\<close>

section \<open>The codec\<close>

lemma alphabet_sym: "\<forall>v < 64. sym v = b64_sym v"
proof -
  have "list_all (\<lambda>v. sym v = b64_sym v) [0..<64]" by code_simp
  then show ?thesis by (simp add: list_all_iff)
qed

lemma alphabet_distinct: "distinct SESSION_STRING_ALPHABET" "length SESSION_STRING_ALPHABET = 64"
  by code_simp+

lemma takeWhile_nth: "distinct xs \<Longrightarrow> i < length xs \<Longrightarrow> length (takeWhile (\<lambda>x. x \<noteq> xs ! i) xs) = i"
  by (induction xs arbitrary: i) (auto simp: nth_Cons split: nat.splits)

lemma decode_sym:
  assumes "v < 64"
  shows "SESSION_STRING_DECODE (sym v) = Some v"
  using assms takeWhile_nth [OF alphabet_distinct(1), of v] alphabet_distinct(2)
  by (simp add: SESSION_STRING_DECODE_def sym_def)

lemma and_mask: "x AND 63 = x mod 64" "x AND 255 = x mod 256" for x :: nat
proof -
  have "(63 :: nat) = mask 6" "(255 :: nat) = mask 8" by (simp_all add: mask_eq_exp_minus_1)
  then have "x AND 63 = take_bit 6 x" "x AND 255 = take_bit 8 x" by (simp_all only: take_bit_eq_mask)
  then show "x AND 63 = x mod 64" "x AND 255 = x mod 256" by (simp_all add: take_bit_eq_mod)
qed

lemma or_shifted:
  fixes x y :: nat
  assumes "y < 2 ^ k"
  shows "push_bit k x OR y = x * 2 ^ k + y"
proof -
  have "take_bit k y = y" using assms by (simp add: take_bit_nat_eq_self)
  moreover have "push_bit k x AND take_bit k y = 0"
    by (rule bit_eqI) (auto simp: bit_and_iff bit_push_bit_iff bit_take_bit_iff)
  ultimately have "push_bit k x AND y = 0" by argo
  from disjunctive_add_eq_or [OF this] show ?thesis by (metis push_bit_eq_mult)
qed

text \<open>The shifts of both directions, on the six-bit parts.\<close>

lemma gather_sym: "\<forall>v \<in> set vs. v < 64 \<Longrightarrow> gather n (map sym vs) = Inr (foldl (\<lambda>n v. n * 64 + v) n vs)"
proof (induction vs arbitrary: n)
  case (Cons v vs)
  then have "push_bit 6 n OR v = n * 64 + v" by (simp add: or_shifted)
  with Cons decode_sym [of v] show ?case by simp
qed simp

lemma three_bytes: "push_bit 16 (unat (a :: byte)) OR push_bit 8 (unat (b :: byte)) OR unat (c :: byte) =
    unat a * 65536 + unat b * 256 + unat c"
proof -
  have l: "push_bit 8 (unat b) OR unat c = unat b * 256 + unat c" by (simp add: or_shifted)
  have "unat b * 256 + unat c < 65536" using unat_byte_lt [of b] unat_byte_lt [of c] by linarith
  then have "unat b * 256 + unat c < 2 ^ 16" by simp
  then have "push_bit 16 (unat a) OR (unat b * 256 + unat c) = unat a * 65536 + (unat b * 256 + unat c)" by (simp add: or_shifted)
  with l show ?thesis by (simp add: or.assoc)
qed

lemma two_bytes: "push_bit 8 (unat (a :: byte)) OR unat (b :: byte) = unat a * 256 + unat b"
  by (simp add: or_shifted)

lemma drop_and:
  fixes n :: nat
  shows "drop_bit k n AND 63 = n div 2 ^ k mod 64" "drop_bit k n AND 255 = n div 2 ^ k mod 256"
  by (simp_all add: and_mask drop_bit_eq_div)

text \<open>Both directions regroup the bits of three bytes as four sextets.\<close>

lemma regroup:
  fixes a b c :: nat
  shows "((a div 4 * 64 + (a mod 4 * 16 + b div 16)) * 64 + (b mod 16 * 4 + c div 64)) * 64 + c mod 64 = a * 65536 + b * 256 + c"
    "(a div 4 * 64 + (a mod 4 * 16 + b div 16)) * 64 + b mod 16 * 4 = (a * 256 + b) * 4"
    "a div 4 * 64 + a mod 4 * 16 = a * 16"
proof -
  have e: "a div 4 * 4 + a mod 4 = a" "b div 16 * 16 + b mod 16 = b" "c div 64 * 64 + c mod 64 = c"
    by (rule div_mult_mod_eq)+
  have g: "((a1 * 64 + (a0 * 16 + b1)) * 64 + (b0 * 4 + c1)) * 64 + c0 = (a1 * 4 + a0) * 65536 + (b1 * 16 + b0) * 256 + (c1 * 64 + c0)"
    "(a1 * 64 + (a0 * 16 + b1)) * 64 + b0 * 4 = ((a1 * 4 + a0) * 256 + (b1 * 16 + b0)) * 4" "a1 * 64 + a0 * 16 = (a1 * 4 + a0) * 16"
    for a1 a0 b1 b0 c1 c0 :: nat by simp_all
  show "((a div 4 * 64 + (a mod 4 * 16 + b div 16)) * 64 + (b mod 16 * 4 + c div 64)) * 64 + c mod 64 = a * 65536 + b * 256 + c"
    "(a div 4 * 64 + (a mod 4 * 16 + b div 16)) * 64 + b mod 16 * 4 = (a * 256 + b) * 4" "a div 4 * 64 + a mod 4 * 16 = a * 16"
    unfolding g e by (rule refl)+
qed

lemma sextet_bounds:
  "unat (a :: byte) div 4 < 64" "unat (a :: byte) mod 4 * 16 + unat (b :: byte) div 16 < 64"
  "unat (b :: byte) mod 16 * 4 + unat (c :: byte) div 64 < 64" "unat (c :: byte) mod 64 < 64"
  "unat (b :: byte) mod 16 * 4 < 64" "unat (a :: byte) mod 4 * 16 < 64"
proof -
  have "unat a < 256" "unat b < 256" "unat c < 256" by (rule unat_byte_lt)+
  then have d: "unat a div 4 < 64" "unat b div 16 < 16" "unat c div 64 < 4" by (simp_all add: less_mult_imp_div_less)
  have m: "unat a mod 4 < 4" "unat b mod 16 < 16" by simp_all
  show "unat a div 4 < 64" "unat a mod 4 * 16 + unat b div 16 < 64" "unat b mod 16 * 4 + unat c div 64 < 64"
    "unat c mod 64 < 64" "unat b mod 16 * 4 < 64" "unat a mod 4 * 16 < 64"
    using d m by simp_all
qed

lemma digit: "(q * 64 + r) div 64 = q" "(q * 64 + r) mod 64 = r" if "r < 64" for q r :: nat
  using that by simp_all

lemma four_digits:
  fixes s1 s2 s3 s4 :: nat
  assumes "s1 < 64" "s2 < 64" "s3 < 64" "s4 < 64"
  defines "n \<equiv> ((s1 * 64 + s2) * 64 + s3) * 64 + s4"
  shows "n div 262144 mod 64 = s1" "n div 4096 mod 64 = s2" "n div 64 mod 64 = s3" "n mod 64 = s4"
proof -
  have e: "n div 4096 = n div 64 div 64" "n div 262144 = n div 64 div 64 div 64" by (simp_all add: div_mult2_eq [symmetric])
  show "n div 262144 mod 64 = s1" "n div 4096 mod 64 = s2" "n div 64 mod 64 = s3" "n mod 64 = s4"
    unfolding e unfolding n_def by (simp_all only: digit assms mod_less)
qed

lemma encode3: "encode (a # b # c # raw) =
    map sym [unat a div 4, unat a mod 4 * 16 + unat b div 16, unat b mod 16 * 4 + unat c div 64, unat c mod 64] @ encode raw"
  using four_digits [OF sextet_bounds(1) [of a] sextet_bounds(2) [of a b] sextet_bounds(3) [of b c] sextet_bounds(4) [of c], unfolded regroup]
  by (simp add: Let_def three_bytes drop_bit_eq_div and_mask)

lemma encode2: "encode [a, b] = map sym [unat a div 4, unat a mod 4 * 16 + unat b div 16, unat b mod 16 * 4]"
proof -
  let ?n = "unat a * 256 + unat b"
  have q: "?n div 1024 = ?n * 4 div 64 div 64" "?n div 16 = ?n * 4 div 64"
    by (simp_all add: div_mult2_eq [symmetric])
  have "?n div 1024 mod 64 = unat a div 4" "?n div 16 mod 64 = unat a mod 4 * 16 + unat b div 16" "?n * 4 mod 64 = unat b mod 16 * 4"
    unfolding q regroup(2) [symmetric] by (simp_all only: digit sextet_bounds mod_less)
  then show ?thesis
    unfolding encode.simps Let_def two_bytes by (simp add: drop_bit_eq_div and_mask push_bit_eq_mult)
qed

lemma encode1: "encode [a] = map sym [unat a div 4, unat a mod 4 * 16]"
proof -
  have "unat a div 4 mod 64 = unat a div 4" by (simp only: sextet_bounds mod_less)
  moreover have "unat a * 16 mod 64 = unat a mod 4 * 16" by (simp only: regroup(3) [of "unat a", symmetric] digit sextet_bounds)
  ultimately show ?thesis by (simp add: Let_def drop_bit_eq_div and_mask push_bit_eq_mult)
qed

lemma gather4: "v1 < 64 \<Longrightarrow> v2 < 64 \<Longrightarrow> v3 < 64 \<Longrightarrow> v4 < 64 \<Longrightarrow>
    gather 0 [sym v1, sym v2, sym v3, sym v4] = Inr (((v1 * 64 + v2) * 64 + v3) * 64 + v4)"
  using gather_sym [of "[v1, v2, v3, v4]" 0] by simp

lemma gather3: "v1 < 64 \<Longrightarrow> v2 < 64 \<Longrightarrow> v3 < 64 \<Longrightarrow> gather 0 [sym v1, sym v2, sym v3] = Inr ((v1 * 64 + v2) * 64 + v3)"
  using gather_sym [of "[v1, v2, v3]" 0] by simp

lemma gather2: "v1 < 64 \<Longrightarrow> v2 < 64 \<Longrightarrow> gather 0 [sym v1, sym v2] = Inr (v1 * 64 + v2)"
  using gather_sym [of "[v1, v2]" 0] by simp

lemma byte_back: "byte_of (unat (a :: byte)) = a"
  by simp

lemma bytes_of_number:
  fixes a b c :: byte
  shows "(unat a * 65536 + unat b * 256 + unat c) div 65536 mod 256 = unat a"
    "(unat a * 65536 + unat b * 256 + unat c) div 256 mod 256 = unat b"
    "(unat a * 65536 + unat b * 256 + unat c) mod 256 = unat c"
    "(unat a * 256 + unat b) div 256 mod 256 = unat a" "(unat a * 256 + unat b) mod 256 = unat b"
proof -
  have l: "unat a < 256" "unat b < 256" "unat c < 256" by (rule unat_byte_lt)+
  have e: "unat a * 65536 + unat b * 256 + unat c = (unat a * 256 + unat b) * 256 + unat c" by simp
  have d: "n div 65536 = n div 256 div 256" for n :: nat by (simp add: div_mult2_eq [symmetric])
  have g: "(q * 256 + r) div 256 = q" "(q * 256 + r) mod 256 = r" if "r < 256" for q r :: nat using that by simp_all
  show "(unat a * 65536 + unat b * 256 + unat c) div 65536 mod 256 = unat a"
    "(unat a * 65536 + unat b * 256 + unat c) div 256 mod 256 = unat b"
    "(unat a * 65536 + unat b * 256 + unat c) mod 256 = unat c"
    "(unat a * 256 + unat b) div 256 mod 256 = unat a" "(unat a * 256 + unat b) mod 256 = unat b"
    unfolding d e by (simp_all only: g l mod_less)
qed

lemma gathered:
  fixes a b c :: byte
  shows "gather 0 [sym (unat a div 4), sym (unat a mod 4 * 16 + unat b div 16), sym (unat b mod 16 * 4 + unat c div 64), sym (unat c mod 64)] =
      Inr (unat a * 65536 + unat b * 256 + unat c)"
    "gather 0 [sym (unat a div 4), sym (unat a mod 4 * 16 + unat b div 16), sym (unat b mod 16 * 4)] = Inr ((unat a * 256 + unat b) * 4)"
    "gather 0 [sym (unat a div 4), sym (unat a mod 4 * 16)] = Inr (unat a * 16)"
  by (simp_all only: gather4 gather3 gather2 sextet_bounds regroup)

lemma decode_encode: "decode (encode raw) = Inr raw"
proof (induction raw rule: encode.induct)
  case (1 a b c raw)
  then show ?case by (simp add: encode3 gathered drop_bit_eq_div and_mask bytes_of_number del: gather.simps encode.simps)
next
  case (2 a b)
  then show ?case by (simp add: encode2 gathered drop_bit_eq_div and_mask bytes_of_number del: gather.simps encode.simps)
next
  case (3 a)
  then show ?case by (simp add: encode1 gathered drop_bit_eq_div and_mask bytes_of_number del: gather.simps encode.simps)
qed simp

lemma length_decode: "decode s = Inr raw \<Longrightarrow> length raw = length s * 3 div 4"
  by (induction s arbitrary: raw rule: decode.induct) (auto simp: bindR_Inr_iff Let_def)

lemma encode_chars: "set (encode raw) \<subseteq> set SESSION_STRING_ALPHABET"
proof -
  have s: "v < 64 \<Longrightarrow> sym v \<in> set SESSION_STRING_ALPHABET" for v
    using alphabet_distinct(2) by (simp add: sym_def)
  show ?thesis
    by (induction raw rule: encode.induct) (simp_all only: encode3 encode2 encode1 set_append set_map, auto simp: s sextet_bounds)
qed

section \<open>What an exported string is decoded to\<close>

fun int_of :: "val \<Rightarrow> int" where
  "int_of (IntVal i) = i" | "int_of _ = 0"

fun bytes_of :: "val \<Rightarrow> bytes" where
  "bytes_of (BytesVal b) = b" | "bytes_of _ = []"

fun text_of :: "val \<Rightarrow> ustr" where
  "text_of (TextVal t) = t" | "text_of _ = []"

fun is_int :: "val \<Rightarrow> bool" where
  "is_int (IntVal i) = True" | "is_int _ = False"

text \<open>
  The attributes have the types of their accessors: flags may be the integers a database makes of them, and the three
  optional ones may be missing. Authorization keys have 256 bytes.
\<close>

definition typed_session :: "(attr \<Rightarrow> val) \<Rightarrow> bool" where
  "typed_session v \<longleftrightarrow>
     is_int (v DcId) \<and> is_int (v UserId) \<and> (v ApiId = NoVal \<or> is_int (v ApiId)) \<and> (v Port = NoVal \<or> is_int (v Port)) \<and>
     v AuthKey = BytesVal (bytes_of (v AuthKey)) \<and> length (bytes_of (v AuthKey)) = 256 \<and>
     (v ServerAddress = NoVal \<or> v ServerAddress = TextVal (text_of (v ServerAddress))) \<and>
     (text_of (v ServerAddress) \<noteq> [] \<longrightarrow> List.last (text_of (v ServerAddress)) \<noteq> 0)"

definition exported_session :: "(attr \<Rightarrow> val) \<Rightarrow> session_data" where
  "exported_session v =
     \<lparr>s_dc_id = int_of (v DcId), s_api_id = Some (int_of (v ApiId)), s_test_mode = val_truthy (v TestMode),
      s_auth_key = bytes_of (v AuthKey), s_user_id = int_of (v UserId), s_is_bot = val_truthy (v IsBot),
      s_port = Some (int_of (v Port)), s_server_address = Some (text_of (v ServerAddress))\<rparr>"

definition address_field :: "ustr \<Rightarrow> bytes" where
  "address_field t = map byte_of t @ replicate (SERVER_ADDRESS_SIZE - length t) 0"

definition session_fields :: "(attr \<Rightarrow> val) \<Rightarrow> sval list" where
  "session_fields v =
     [VInt 3, VInt (int_of (v DcId)), VInt (int_of (v ApiId)), VBool (val_truthy (v TestMode)), VBytes (bytes_of (v AuthKey)),
      VInt (int_of (v UserId)), VBool (val_truthy (v IsBot)), VInt (int_of (v Port)), VBytes (address_field (text_of (v ServerAddress)))]"

lemma rstrip_zeros:
  assumes "t \<noteq> [] \<Longrightarrow> List.last t \<noteq> (0 :: byte)"
  shows "rstrip_by (\<lambda>b. b = 0) (t @ replicate n 0) = t"
  using assms by (cases t rule: rev_cases) (simp_all add: rstrip_by_def dropWhile_replicate)

lemma ascii_byte: "c < 128 \<Longrightarrow> unat (byte_of c) = c" for c :: nat
  by simp

lemma ascii_back: "\<forall>c \<in> set t. c < 128 \<Longrightarrow> map (unat \<circ> byte_of) t = t"
  by (induction t) (simp_all add: ascii_byte)

lemma ascii_zero: "c < 128 \<Longrightarrow> byte_of c = 0 \<Longrightarrow> c = 0" for c :: nat
proof -
  assume "c < 128" "byte_of c = 0"
  then have "unat (byte_of c) = 0" by (simp only: unat_0)
  with \<open>c < 128\<close> show "c = 0" by (simp only: ascii_byte)
qed

lemma pack_flag: "pack_field big CBool (pack_val v) = pack_field big CBool (VBool (val_truthy v))"
  by (cases v) simp_all

lemma packed_fields:
  assumes "typed_session v" and "v TestMode \<noteq> NoVal" "v IsBot \<noteq> NoVal"
  shows "struct_pack True SESSION_STRING_FORMAT_V3
      [VInt 3, pack_val (v DcId), pack_val (or_zero (v ApiId)), pack_val (v TestMode), pack_val (v AuthKey), pack_val (v UserId),
       pack_val (v IsBot), pack_val (or_zero (v Port)), VBytes (address_field t)] =
     struct_pack True SESSION_STRING_FORMAT_V3
      [VInt 3, VInt (int_of (v DcId)), VInt (int_of (v ApiId)), VBool (val_truthy (v TestMode)), VBytes (bytes_of (v AuthKey)),
       VInt (int_of (v UserId)), VBool (val_truthy (v IsBot)), VInt (int_of (v Port)), VBytes (address_field t)]"
proof -
  have i: "pack_val x = VInt (int_of x)" if "is_int x" for x using that by (cases x) simp_all
  have z: "pack_val (or_zero x) = VInt (int_of x)" if "x = NoVal \<or> is_int x" for x
    using that by (cases x) (simp_all add: or_zero_def)
  have k: "pack_val (v AuthKey) = VBytes (bytes_of (v AuthKey))"
    using assms(1) by (metis typed_session_def pack_val.simps(4))
  have d: "pack_val (v DcId) = VInt (int_of (v DcId))" "pack_val (v UserId) = VInt (int_of (v UserId))"
    using assms(1) unfolding typed_session_def by (blast intro: i)+
  have o: "pack_val (or_zero (v ApiId)) = VInt (int_of (v ApiId))" "pack_val (or_zero (v Port)) = VInt (int_of (v Port))"
    using assms(1) unfolding typed_session_def by (blast intro: z)+
  show ?thesis
    by (simp only: SESSION_STRING_FORMAT_V3_def session_format_def struct_pack.simps d o k pack_flag)
qed

text \<open>An export that succeeds packs the session and its checksum.\<close>

lemma exported:
  assumes "export_values crc v = Inr str" and "typed_session v"
  obtains packed where "struct_pack True SESSION_STRING_FORMAT_V3 (session_fields v) = Inr packed"
    and "str = WZ_PREFIX @ encode (packed @ le_bytes 4 (crc packed))"
    and "\<forall>c \<in> set (text_of (v ServerAddress)). c < 128" "length (text_of (v ServerAddress)) \<le> 48"
proof -
  let ?t = "text_of (v ServerAddress)"
  have a: "address_text (v ServerAddress) = Inr ?t"
    using assms(2) unfolding typed_session_def by (cases "v ServerAddress") auto
  have n: "v TestMode \<noteq> NoVal" "v IsBot \<noteq> NoVal" using assms(1) by (auto simp: export_values_def split: if_splits)
  have e: "ascii_encode ?t = Inr (map byte_of ?t)" "\<forall>c \<in> set ?t. c < 128"
    using assms(1) by (auto simp: export_values_def a ascii_encode_def list_all_iff split: if_splits)
  from assms(1) have l: "length ?t \<le> 48"
    by (auto simp: export_values_def a e SERVER_ADDRESS_SIZE_def split: if_splits)
  from assms(1) l obtain packed where p: "struct_pack True SESSION_STRING_FORMAT_V3
      [VInt 3, pack_val (v DcId), pack_val (or_zero (v ApiId)), pack_val (v TestMode), pack_val (v AuthKey), pack_val (v UserId),
       pack_val (v IsBot), pack_val (or_zero (v Port)), VBytes (address_field ?t)] = Inr packed"
      "str = WZ_PREFIX @ encode (packed @ le_bytes 4 (crc packed))"
    by (auto simp: export_values_def a e SERVER_ADDRESS_SIZE_def address_field_def bindR_Inr_iff split: if_splits)
  from p(1) have "struct_pack True SESSION_STRING_FORMAT_V3 (session_fields v) = Inr packed"
    by (simp only: packed_fields [OF assms(2) n] session_fields_def)
  with p(2) e(2) l that show thesis by blast
qed

lemma fields_exact:
  assumes "struct_pack True SESSION_STRING_FORMAT_V3 (session_fields v) = Inr packed" and "typed_session v"
    and "length (text_of (v ServerAddress)) \<le> 48"
  shows "exacts SESSION_STRING_FORMAT_V3 (session_fields v)"
proof -
  have "length (bytes_of (v AuthKey)) = 256" using assms(2) by (simp add: typed_session_def)
  with assms(1,3) show ?thesis
    by (auto simp: SESSION_STRING_FORMAT_V3_def session_format_def session_fields_def address_field_def SERVER_ADDRESS_SIZE_def
        bindR_Inr_iff pack_int_def split: if_splits)
qed

lemma session_of_fields:
  assumes "\<forall>c \<in> set (text_of (v ServerAddress)). c < 128" and "typed_session v"
  shows "session_of (session_fields v) = Inr (exported_session v)"
proof -
  let ?t = "text_of (v ServerAddress)"
  have "?t \<noteq> [] \<longrightarrow> List.last ?t \<noteq> 0" using assms(2) by (simp add: typed_session_def)
  then have "rstrip_by (\<lambda>b. b = 0) (address_field ?t) = map byte_of ?t"
    unfolding address_field_def using assms(1) by (intro rstrip_zeros) (auto simp: last_map dest!: ascii_zero [rotated])
  moreover have "ascii_decode (map byte_of ?t) = Inr ?t"
    using assms(1) by (simp add: ascii_decode_def list_all_iff ascii_back ascii_byte)
  ultimately show ?thesis by (simp add: session_of_def session_fields_def exported_session_def)
qed

lemma checksum_appended: "crc packed < 2 ^ 32 \<Longrightarrow> checksum_ok crc (packed @ le_bytes 4 (crc packed))"
  by (simp add: checksum_ok_def le_nat_le_bytes)

lemma v3_packed_size: "struct_pack True SESSION_STRING_FORMAT_V3 vs = Inr packed \<Longrightarrow> length packed = 322"
  by (drule struct_pack_length) (simp add: SESSION_STRING_FORMAT_V3_def session_format_def)

lemma v3_decoded:
  assumes "length raw = 326" "checksum_ok crc raw" "try_decode_v3 (take 322 raw) = Inr (Some d)"
  shows "try_every_format crc raw u = Inr (Some d)"
  using assms by (simp add: try_every_format_def try_decode_v3_with_crc_def V3_CRC_PACKED_SIZE_def or_else_def)

lemma exported_decodes:
  assumes "struct_pack True SESSION_STRING_FORMAT_V3 (session_fields v) = Inr packed" and "typed_session v"
    and "\<forall>c \<in> set (text_of (v ServerAddress)). c < 128" "length (text_of (v ServerAddress)) \<le> 48"
  shows "try_decode_v3 packed = Inr (Some (exported_session v))"
proof -
  have "struct_unpack True SESSION_STRING_FORMAT_V3 packed = Inr (session_fields v)"
    using fields_exact [OF assms(1,2,4)] assms(1) by (rule struct_roundtrip)
  then show ?thesis
    using v3_packed_size [OF assms(1)] session_of_fields [OF assms(3,2)] by (simp add: try_decode_v3_def V3_PACKED_SIZE_def)
qed

lemma first_byte_three:
  "struct_pack True SESSION_STRING_FORMAT_V3 (session_fields v) = Inr packed \<Longrightarrow> \<exists>r. packed = 3 # r"
  by (auto simp: SESSION_STRING_FORMAT_V3_def session_format_def session_fields_def bindR_Inr_iff pack_int_def le_of_int_def order_def split: if_splits)

lemma decode_clean:
  assumes "strip_by py_space t \<noteq> []" "validate_char_set (fst (strip_prefix (strip_by py_space t))) = clean"
    and "decode clean = Inr raw" "try_every_format crc raw True = Inr (Some d)"
  shows "decode_session_string crc t = Inr d"
  using assms by (simp add: decode_session_string_def)

text \<open>No text that is cleaned to an exported string begins with the prefix by itself.\<close>

lemma cleaned_body:
  assumes "st \<in> {WZ_PREFIX @ body, body}" and "validate_char_set body = c # cs" and "c \<noteq> 87"
  shows "validate_char_set (fst (strip_prefix st)) = c # cs" "st \<noteq> []"
proof -
  have "body \<noteq> []" using assms(2) by (auto simp: validate_char_set_def)
  then show "st \<noteq> []" using assms(1) by (auto simp: WZ_PREFIX_def)
  have p: "WZ_PREFIX = [87, 90, 95]" by code_simp
  have w: "SESSION_STRING_DECODE 87 \<noteq> None" by code_simp
  have "\<not> starts_with WZ_PREFIX body"
  proof
    assume "starts_with WZ_PREFIX body"
    then obtain r where "body = 87 # r" by (cases body) (auto simp: starts_with_def p)
    with assms(2,3) w show False by (simp add: validate_char_set_def)
  qed
  moreover have "starts_with WZ_PREFIX (WZ_PREFIX @ body)" by (simp add: starts_with_def)
  ultimately show "validate_char_set (fst (strip_prefix st)) = c # cs"
    using assms(1,2) by (auto simp: strip_prefix_def)
qed

lemma encode_head: "\<exists>r. encode (3 # raw) = 65 # r"
proof -
  have h: "sym 0 = 65" by code_simp
  show ?thesis
  proof (cases raw)
    case Nil
    then show ?thesis by (simp add: encode1 h)
  next
    case (Cons b raw')
    then show ?thesis by (cases raw') (simp_all add: encode2 encode3 h del: encode.simps)
  qed
qed

lemma exported_noisy:
  assumes "export_values crc v = Inr str" and "typed_session v" and "\<forall>bs. crc bs < 2 ^ 32"
    and "strip_by py_space t \<in> {WZ_PREFIX @ body, body}" and "validate_char_set body = drop (length WZ_PREFIX) str"
  shows "decode_session_string crc t = Inr (exported_session v)"
proof -
  from exported [OF assms(1,2)] obtain packed where p: "struct_pack True SESSION_STRING_FORMAT_V3 (session_fields v) = Inr packed"
    "str = WZ_PREFIX @ encode (packed @ le_bytes 4 (crc packed))"
    "\<forall>c \<in> set (text_of (v ServerAddress)). c < 128" "length (text_of (v ServerAddress)) \<le> 48" .
  from first_byte_three [OF p(1)] encode_head obtain r where h: "encode (packed @ le_bytes 4 (crc packed)) = 65 # r"
    by (metis append_Cons)
  with assms(5) p(2) have c: "validate_char_set body = 65 # r" by simp
  have f: "try_every_format crc (packed @ le_bytes 4 (crc packed)) True = Inr (Some (exported_session v))"
    using v3_packed_size [OF p(1)] checksum_appended assms(3) exported_decodes [OF p(1) assms(2) p(3,4)]
    by (intro v3_decoded) simp_all
  show ?thesis
    using cleaned_body [OF assms(4) c] decode_encode [of "packed @ le_bytes 4 (crc packed)"] f unfolding h
    by (intro decode_clean) simp_all
qed

text \<open>
  C8. An exported session string is decoded to the session it was exported from, also when characters outside the
  alphabet have crept in, spaces surround it, or its prefix is gone.
\<close>

theorem export_decodes:
  assumes "export_values crc v = Inr str" and "typed_session v" and "\<forall>bs. crc bs < 2 ^ 32"
    and "strip_by py_space t \<in> {WZ_PREFIX @ body, body}" and "validate_char_set body = drop (length WZ_PREFIX) str"
  shows "decode_session_string crc t = Inr (exported_session v)"
  using assms by (rule exported_noisy)

definition sample_session :: "attr \<Rightarrow> val" where
  "sample_session = (\<lambda>_. NoVal)(DcId := IntVal 2, UserId := IntVal 77, AuthKey := BytesVal (replicate 256 5), TestMode := BoolVal False,
     IsBot := IntVal 1, ServerAddress := TextVal [49, 46, 49], Port := IntVal 443)"

lemma sample_typed: "typed_session sample_session"
  by (simp add: typed_session_def sample_session_def)

definition sample_packed :: bytes where
  "sample_packed = [3, 2, 0, 0, 0, 0, 0] @ replicate 256 5 @ [0, 0, 0, 0, 0, 0, 0, 77, 1, 1, 187, 49, 46, 49] @ replicate 45 0"

lemma sample_exported: "export_values crc sample_session = Inr (WZ_PREFIX @ encode (sample_packed @ le_bytes 4 (crc sample_packed)))"
proof -
  have "struct_pack True SESSION_STRING_FORMAT_V3
      [VInt 3, VInt 2, VInt 0, VBool False, VBytes (replicate 256 5), VInt 77, VInt 1, VInt 443, VBytes ([49, 46, 49] @ replicate 45 0)] = Inr sample_packed"
    by code_simp
  then show ?thesis
    by (simp add: export_values_def sample_session_def or_zero_def ascii_encode_def list_all_iff SERVER_ADDRESS_SIZE_def byte_of_def del: replicate.simps)
qed

lemma strip_id: "\<forall>c \<in> set s. \<not> p c \<Longrightarrow> strip_by p s = s"
proof -
  have d: "\<forall>c \<in> set s. \<not> p c \<Longrightarrow> dropWhile p s = s" for s by (cases s) simp_all
  show "\<forall>c \<in> set s. \<not> p c \<Longrightarrow> strip_by p s = s" by (simp add: strip_by_def d)
qed

lemma alphabet_clean: "set s \<subseteq> set SESSION_STRING_ALPHABET \<Longrightarrow> validate_char_set s = s"
  unfolding validate_char_set_def by (rule filter_True) (auto simp: SESSION_STRING_DECODE_def)

lemma alphabet_no_space: "c \<in> set SESSION_STRING_ALPHABET \<Longrightarrow> \<not> py_space c"
proof -
  have "list_all (\<lambda>c. 45 \<le> c \<and> c \<le> 122) SESSION_STRING_ALPHABET" by code_simp
  then show "c \<in> set SESSION_STRING_ALPHABET \<Longrightarrow> \<not> py_space c" by (auto simp: list_all_iff py_space_def)
qed

lemma wz_prefix: "WZ_PREFIX = [87, 90, 95]"
  by code_simp

lemma wz_no_space: "\<forall>c \<in> set WZ_PREFIX. \<not> py_space c"
  unfolding wz_prefix by (simp add: py_space_def)

lemma export_decodes_witness:
  "decode_session_string (\<lambda>_. 7) (WZ_PREFIX @ [61] @ encode (sample_packed @ [7, 0, 0, 0])) = Inr (exported_session sample_session)"
proof -
  let ?b = "encode (sample_packed @ [7, 0, 0, 0])"
  have l: "le_bytes 4 7 = [7, 0, 0, 0 :: byte]" by code_simp
  have a: "set ?b \<subseteq> set SESSION_STRING_ALPHABET" by (rule encode_chars)
  have w: "\<forall>c \<in> set (WZ_PREFIX @ [61]). \<not> py_space c" using wz_no_space by (auto simp: py_space_def)
  have "SESSION_STRING_DECODE 61 = None" by code_simp
  with alphabet_clean [OF a] have v: "validate_char_set ([61] @ ?b) = ?b" by (simp add: validate_char_set_def)
  have "strip_by py_space (WZ_PREFIX @ [61] @ ?b) = WZ_PREFIX @ [61] @ ?b"
    using w a alphabet_no_space by (intro strip_id) (auto simp del: encode.simps)
  then show ?thesis
    using v l sample_exported [where crc = "\<lambda>_. 7"] sample_typed
    by (intro export_decodes [where v = sample_session and body = "[61] @ ?b" and str = "WZ_PREFIX @ ?b"]) simp_all
qed

section \<open>Repair\<close>

lemma unverified_formats:
  assumes "length raw' = 326 \<Longrightarrow> checksum_ok crc raw' \<Longrightarrow> raw' = raw" and "length raw' \<noteq> 294"
    and "try_every_format crc raw False = Inr (Some d)"
  shows "try_every_format crc raw' False \<in> {Inr None, Inr (Some d)}"
  using assms by (cases "length raw' = 326 \<and> checksum_ok crc raw'")
    (auto simp: try_every_format_def try_decode_v3_with_crc_def try_decode_v2_with_crc_def V3_CRC_PACKED_SIZE_def V2_CRC_PACKED_SIZE_def or_else_def)

lemma try_repairs_found:
  assumes "\<forall>a \<in> set as. \<forall>raw. decode a = Inr raw \<longrightarrow> a \<noteq> clean \<longrightarrow> try_every_format crc raw False \<in> {Inr None, Inr (Some d)}"
    and "b \<in> set as" "b \<noteq> clean" "decode b = Inr raw" "try_every_format crc raw False = Inr (Some d)"
  shows "try_repairs crc clean as = Inr d"
  using assms
proof (induction as)
  case (Cons a as)
  show ?case
  proof (cases "a = clean")
    case True
    with Cons show ?thesis by simp
  next
    case False
    show ?thesis
    proof (cases "decode a")
      case (Inl e)
      with Cons False show ?thesis by (auto simp del: decode.simps)
    next
      case (Inr r)
      with Cons.prems(1) False have "try_every_format crc r False \<in> {Inr None, Inr (Some d)}" by simp
      with Inr Cons False show ?thesis by (auto simp del: decode.simps)
    qed
  qed
qed simp

lemma repair_attempts_longer:
  "a \<in> set (repair_attempts s) \<Longrightarrow> a = s \<or> length a = length s + 1 \<or> length a = length s + 2"
  by (auto simp: repair_attempts_def)

lemma lost_repaired:
  assumes "set str \<subseteq> set SESSION_STRING_ALPHABET" and "2 \<le> length str"
    and "clean \<in> {tl str, tl (tl str), butlast str, butlast (butlast str)}"
  shows "str \<in> set (repair_attempts clean)"
proof -
  from assms(2) obtain a b r where f: "str = a # b # r" by (cases str; cases "tl str") auto
  from assms(2) obtain c d r' where l: "str = r' @ [c, d]"
    by (cases str rule: rev_cases; cases "butlast str" rule: rev_cases) auto
  have "a \<in> set str" "b \<in> set str" using f by simp_all
  moreover have "c \<in> set str" "d \<in> set str" using l by simp_all
  ultimately have m: "a \<in> set SESSION_STRING_ALPHABET" "b \<in> set SESSION_STRING_ALPHABET"
    "c \<in> set SESSION_STRING_ALPHABET" "d \<in> set SESSION_STRING_ALPHABET" using assms(1) by blast+
  have t: "tl str = b # r" "tl (tl str) = r" using f by simp_all
  have u: "butlast str = r' @ [c]" "butlast (butlast str) = r'" using l by (simp_all add: butlast_append)
  from assms(3) consider "clean = b # r" | "clean = r" | "clean = r' @ [c]" | "clean = r'" 
    using t u by auto
  then show ?thesis
  proof cases
    case 1
    with m(1) f show ?thesis by (auto simp: repair_attempts_def)
  next
    case 2
    with m(1,2) f show ?thesis by (auto simp: repair_attempts_def)
  next
    case 3
    with m(4) l show ?thesis by (auto simp: repair_attempts_def)
  next
    case 4
    with m(3,4) l show ?thesis by (auto simp: repair_attempts_def)
  qed
qed

lemma lost_shorter: "clean \<in> {tl str, tl (tl str), butlast str, butlast (butlast str)} \<Longrightarrow> 2 \<le> length str \<Longrightarrow>
    length clean + 1 = length str \<or> length clean + 2 = length str"
  by auto



end
