(* ===== verification/Session_Store.thy ===== *)
theory Session_Store
  imports Session_String_Laws
begin

text \<open>
  The interface every storage offers to \<open>load_session_string\<close> and \<open>export_session_string\<close>: an attribute reads as what
  was last written to it. The lemmas on loading and exporting are proved once from it; each storage interprets it.
\<close>

lemma export_values_cong: "\<forall>a \<in> set EXPORTED. f a = g a \<Longrightarrow> export_values crc f = export_values crc g"
  by (simp add: export_values_def EXPORTED_def image_iff cong: if_cong)

lemma zip_EXPORTED: "a \<in> set EXPORTED \<Longrightarrow> (case map_of (zip EXPORTED (map f EXPORTED)) a of Some v \<Rightarrow> v | None \<Rightarrow> NoVal) = f a"
  by (simp add: map_of_zip_map)

locale session_store =
  fixes rd :: "attr \<Rightarrow> 's \<Rightarrow> val result \<times> 's"
    and wr :: "attr \<Rightarrow> val \<Rightarrow> 's \<Rightarrow> unit result \<times> 's"
    and ok :: "'s \<Rightarrow> bool"
    and storable :: "attr \<Rightarrow> val \<Rightarrow> bool"
    and look :: "'s \<Rightarrow> attr \<Rightarrow> val"
  assumes reading: "ok s \<Longrightarrow> fst (rd a s) = Inr (look s a) \<and> ok (snd (rd a s)) \<and> look (snd (rd a s)) = look s"
    and writing: "ok s \<Longrightarrow> storable a v \<Longrightarrow>
      fst (wr a v s) = Inr () \<and> ok (snd (wr a v s)) \<and> look (snd (wr a v s)) = (look s)(a := v)"
begin

lemma read_all_looks: "ok s \<Longrightarrow> fst (read_all rd as s) = Inr (map (look s) as) \<and> ok (snd (read_all rd as s)) \<and> look (snd (read_all rd as s)) = look s"
proof (induction as arbitrary: s)
  case (Cons a as)
  let ?s = "snd (rd a s)"
  from reading [OF Cons.prems, of a] obtain s' where r: "rd a s = (Inr (look s a), s')" "ok s'" "look s' = look s"
    by (metis prod.collapse)
  from Cons.IH [OF r(2)] obtain s'' where "read_all rd as s' = (Inr (map (look s') as), s'')" "ok s''" "look s'' = look s'"
    by (metis prod.collapse)
  with r show ?case by simp
qed simp

lemma write_all_looks:
  "ok s \<Longrightarrow> \<forall>(a, v) \<in> set avs. storable a v \<Longrightarrow>
     fst (write_all wr avs s) = Inr () \<and> ok (snd (write_all wr avs s)) \<and>
     look (snd (write_all wr avs s)) = fold (\<lambda>(a, v) m. m(a := v)) avs (look s)"
proof (induction avs arbitrary: s)
  case (Cons av avs)
  obtain a v where av: "av = (a, v)" by (cases av)
  with Cons.prems(2) have st: "storable a v" by simp
  from writing [OF Cons.prems(1) st] obtain s' where "wr a v s = (Inr (), s')" "ok s'" "look s' = (look s)(a := v)"
    by (metis prod.collapse)
  with Cons.IH [of s'] Cons.prems(2) show ?case by (simp add: av)
qed simp

lemma load_looks:
  assumes "ok s" and "decode_session_string crc t = Inr d" and "\<forall>(a, v) \<in> set (load_writes d). storable a v"
  shows "fst (load_session_string crc wr t s) = Inr ()" "ok (snd (load_session_string crc wr t s))"
    "look (snd (load_session_string crc wr t s)) = fold (\<lambda>(a, v) m. m(a := v)) (load_writes d) (look s)"
  using write_all_looks [OF assms(1,3)] by (simp_all add: load_session_string_def assms(2))

lemma load_refused: "decode_session_string crc t = Inl e \<Longrightarrow> load_session_string crc wr t s = (Inl e, s)"
  by (simp add: load_session_string_def)

lemma export_looks: "ok s \<Longrightarrow> fst (export_session_string crc rd s) = export_values crc (look s)"
proof -
  assume "ok s"
  from read_all_looks [OF this, of EXPORTED] obtain s' where "read_all rd EXPORTED s = (Inr (map (look s) EXPORTED), s')"
    by (metis prod.collapse)
  then show ?thesis using zip_EXPORTED [of _ "look s"] by (auto simp: export_session_string_def intro: export_values_cong)
qed

end

text \<open>What a storage reads after loading a session that names its server.\<close>

lemma loaded_attributes:
  assumes "s_server_address d = Some a" "a \<noteq> []" "s_port d = Some p" "p \<noteq> 0" "s_api_id d = Some api"
  shows "fold (\<lambda>(a, v) m. m(a := v)) (load_writes d) m =
    m(DcId := IntVal (s_dc_id d), TestMode := BoolVal (s_test_mode d), AuthKey := BytesVal (s_auth_key d),
      UserId := IntVal (s_user_id d), IsBot := BoolVal (s_is_bot d), Date := IntVal 0, ServerAddress := TextVal a,
      Port := IntVal p, ApiId := IntVal api)"
  using assms by (cases a) (simp_all add: load_writes_def fun_upd_twist)

text \<open>The text an export returns is decoded as it is.\<close>

lemma exported_decoded:
  assumes "export_values crc v = Inr str" "typed_session v" "\<forall>bs. crc bs < 2 ^ 32"
  shows "decode_session_string crc str = Inr (exported_session v)"
proof -
  from exported [OF assms(1,2)] obtain packed where str: "str = WZ_PREFIX @ encode (packed @ le_bytes 4 (crc packed))" by blast
  let ?b = "encode (packed @ le_bytes 4 (crc packed))"
  have a: "set ?b \<subseteq> set SESSION_STRING_ALPHABET" by (rule encode_chars)
  from a alphabet_no_space wz_no_space have "strip_by py_space str = str" unfolding str by (intro strip_id) auto
  with alphabet_clean [OF a] show ?thesis
    by (intro exported_noisy [where body = ?b and v = v, OF assms]) (simp_all add: str)
qed

end
