(* ===== verification/Peer_Ids.thy ===== *)
theory Peer_Ids
  imports Prelude
begin

text \<open>
  The arithmetic of peer identifiers (\<open>pyrogram/utils.py\<close>): one signed number names a user, a basic group, a channel, a
  secret chat or a monoforum, and the raw types carry the unsigned identifier of their own kind.
\<close>

definition ZERO_SECRET_CHAT_ID :: int where "ZERO_SECRET_CHAT_ID = -2000000000000"
definition ZERO_CHANNEL_ID :: int where "ZERO_CHANNEL_ID = -1000000000000"
definition MAX_CHANNEL_ID :: int where "MAX_CHANNEL_ID = 1000000000000 - push_bit 31 1"
definition MIN_MONOFORUM_CHANNEL_ID :: int where "MIN_MONOFORUM_CHANNEL_ID = 1000000000000 + push_bit 31 1 + 1"
definition MAX_MONOFORUM_CHANNEL_ID :: int where "MAX_MONOFORUM_CHANNEL_ID = 3000000000000"
definition MAX_USER_ID :: int where "MAX_USER_ID = push_bit 40 1 - 1"
definition MAX_CHAT_ID :: int where "MAX_CHAT_ID = 999999999999"

lemmas peer_bounds = ZERO_SECRET_CHAT_ID_def ZERO_CHANNEL_ID_def MAX_CHANNEL_ID_def MIN_MONOFORUM_CHANNEL_ID_def
  MAX_MONOFORUM_CHANNEL_ID_def MAX_USER_ID_def MAX_CHAT_ID_def

text \<open>A raw peer object, by the attributes \<open>hasattr\<close> finds on it.\<close>

record peer_obj =
  p_user_id :: "int option"
  p_chat_id :: "int option"
  p_channel_id :: "int option"

datatype peer_arg = PeerInt int | PeerObj peer_obj

definition raw_of_int :: "int \<Rightarrow> int option" where
  "raw_of_int peer =
     (if peer < 0 then
        (if - MAX_CHAT_ID \<le> peer then Some (- peer)
         else if ZERO_CHANNEL_ID - MAX_CHANNEL_ID \<le> peer \<and> peer \<noteq> ZERO_CHANNEL_ID then Some (ZERO_CHANNEL_ID - peer)
         else if ZERO_CHANNEL_ID - MAX_MONOFORUM_CHANNEL_ID \<le> peer then Some (ZERO_CHANNEL_ID - peer)
         else None)
      else if 0 < peer \<and> peer \<le> MAX_USER_ID then Some peer
      else None)"

fun get_raw_peer_id :: "peer_arg \<Rightarrow> int option" where
  "get_raw_peer_id (PeerInt peer) = raw_of_int peer"
| "get_raw_peer_id (PeerObj peer) =
     (case p_user_id peer of
        Some i \<Rightarrow> Some i
      | None \<Rightarrow> (case p_chat_id peer of Some i \<Rightarrow> Some i | None \<Rightarrow> p_channel_id peer))"

definition get_peer_id :: "peer_obj \<Rightarrow> int result" where
  "get_peer_id peer =
     (case p_user_id peer of
        Some i \<Rightarrow> Inr i
      | None \<Rightarrow>
          (case p_chat_id peer of
             Some i \<Rightarrow> Inr (- i)
           | None \<Rightarrow>
               (case p_channel_id peer of
                  Some i \<Rightarrow> Inr (ZERO_CHANNEL_ID - i)
                | None \<Rightarrow> Inl ValueError)))"

text \<open>The results of \<open>get_peer_type\<close>, in the source texts.\<close>

datatype peer_kind = KUser | KChat | KChannel | KSecretChat | KMonoforum

definition get_peer_type :: "int option \<Rightarrow> peer_kind result" where
  "get_peer_type p =
     (case p of
        None \<Rightarrow> Inl ValueError
      | Some peer_id \<Rightarrow>
          if peer_id < 0 then
            (if - MAX_CHAT_ID \<le> peer_id then Inr KChat
             else if ZERO_CHANNEL_ID - MAX_CHANNEL_ID \<le> peer_id \<and> peer_id \<noteq> ZERO_CHANNEL_ID then Inr KChannel
             else if ZERO_SECRET_CHAT_ID + (- push_bit 31 1) \<le> peer_id \<and> peer_id \<noteq> ZERO_SECRET_CHAT_ID then Inr KSecretChat
             else if ZERO_CHANNEL_ID - MAX_MONOFORUM_CHANNEL_ID \<le> peer_id then Inr KMonoforum
             else Inl ValueError)
          else if 0 < peer_id \<and> peer_id \<le> MAX_USER_ID then Inr KUser
          else Inl ValueError)"

definition get_channel_id :: "int \<Rightarrow> int" where
  "get_channel_id peer_id = ZERO_CHANNEL_ID - peer_id"

text \<open>What \<open>resolve_peer\<close> answers is an argument: the client's own peer (\<open>InputPeerSelf\<close>) or a peer object.\<close>

definition resolve_peer_id :: "peer_obj option result \<Rightarrow> int result \<Rightarrow> int result" where
  "resolve_peer_id resolved own =
     bindR resolved (\<lambda>r. case r of None \<Rightarrow> own | Some peer \<Rightarrow> get_peer_id peer)"

section \<open>The kinds partition the numbers\<close>

text \<open>A peer of a kind and the raw identifiers that kind has.\<close>

definition peer_of :: "peer_kind \<Rightarrow> int \<Rightarrow> peer_obj" where
  "peer_of k i =
     \<lparr>p_user_id = (if k = KUser then Some i else None), p_chat_id = (if k = KChat then Some i else None),
      p_channel_id = (if k \<in> {KChannel, KMonoforum} then Some i else None)\<rparr>"

definition raw_range :: "peer_kind \<Rightarrow> int set" where
  "raw_range k =
     (case k of
        KUser \<Rightarrow> {1..MAX_USER_ID}
      | KChat \<Rightarrow> {1..MAX_CHAT_ID}
      | KChannel \<Rightarrow> {1..MAX_CHANNEL_ID}
      | KMonoforum \<Rightarrow> {MIN_MONOFORUM_CHANNEL_ID..MAX_MONOFORUM_CHANNEL_ID}
      | KSecretChat \<Rightarrow> {})"

lemma peer_of_number:
  assumes "i \<in> raw_range k"
  obtains n where "get_peer_id (peer_of k i) = Inr n" "get_peer_type (Some n) = Inr k" "raw_of_int n = Some i"
proof -
  have "\<exists>n. get_peer_id (peer_of k i) = Inr n \<and> get_peer_type (Some n) = Inr k \<and> raw_of_int n = Some i"
    using assms
    by (cases k) (auto simp: raw_range_def peer_of_def get_peer_id_def get_peer_type_def raw_of_int_def peer_bounds)
  with that show thesis by blast
qed

text \<open>
  C39. Peer numbers are typed: the number of a user, group, channel or monoforum is classified as that kind, gives its raw
  identifier back, and is shared with no other peer.
\<close>

theorem peer_numbers_typed:
  assumes "i \<in> raw_range k" and "i' \<in> raw_range k'"
  shows "(\<exists>n. get_peer_id (peer_of k i) = Inr n \<and> get_peer_type (Some n) = Inr k \<and> get_raw_peer_id (PeerInt n) = Some i) \<and>
    (get_peer_id (peer_of k i) = get_peer_id (peer_of k' i')) = ((k, i) = (k', i'))"
proof -
  from peer_of_number [OF assms(1)] obtain n where n: "get_peer_id (peer_of k i) = Inr n" "get_peer_type (Some n) = Inr k" "raw_of_int n = Some i" .
  from peer_of_number [OF assms(2)] obtain n' where n': "get_peer_id (peer_of k' i') = Inr n'" "get_peer_type (Some n') = Inr k'" "raw_of_int n' = Some i'" .
  from n n' have "get_peer_id (peer_of k i) = get_peer_id (peer_of k' i') \<longleftrightarrow> (k, i) = (k', i')"
    by (metis Inr_inject option.inject prod.inject)
  with n show ?thesis by auto
qed

lemma peer_numbers_typed_witness:
  "get_peer_id (peer_of KChannel 7) = Inr (-1000000000007) \<and> get_peer_type (Some (-1000000000007)) = Inr KChannel \<and>
   get_peer_id (peer_of KChannel 7) \<noteq> get_peer_id (peer_of KUser 7)"
proof -
  have r: "7 \<in> raw_range KChannel" "7 \<in> raw_range KUser" by (simp_all add: raw_range_def peer_bounds)
  have "get_peer_id (peer_of KChannel 7) = Inr (-1000000000007)" by code_simp
  then show ?thesis using peer_numbers_typed [OF r] by simp
qed

text \<open>
  \<open>get_peer_type\<close> accepts exactly the numbers in the bounds of the kinds; the two offsets fall outside their own
  kind.
\<close>

theorem peer_type_bounds:
  "get_peer_type (Some n) =
     (if 1 \<le> n \<and> n \<le> 1099511627775 then Inr KUser
      else if -999999999999 \<le> n \<and> n \<le> -1 then Inr KChat
      else if -1997852516352 \<le> n \<and> n \<le> -1000000000001 then Inr KChannel
      else if n = -1000000000000 \<or> -2002147483648 \<le> n \<and> n \<le> -1997852516353 \<and> n \<noteq> -2000000000000 then Inr KSecretChat
      else if n = -2000000000000 \<or> -4000000000000 \<le> n \<and> n \<le> -2002147483649 then Inr KMonoforum
      else Inl ValueError)"
  by (simp add: get_peer_type_def peer_bounds)

end
