(* ===== verification/Peer_Cache.thy ===== *)
theory Peer_Cache
  imports Peer_Ids Complex_Main
begin

text \<open>
  The two caches in front of a storage (\<open>pyrogram/storage/caching.py\<close>): a bounded cache of peer rows, least recently
  used first out, and the session row. Times are readings of \<open>time.monotonic()\<close>, given to the operations.
\<close>

section \<open>Input peers\<close>

datatype input_peer = InputPeerUser int int | InputPeerChat int | InputPeerChannel int int

text \<open>A stored row: identifier, access hash and type; a peer to store also has its phone number.\<close>

type_synonym peer_key = "int \<times> int \<times> ustr"
type_synonym peer_row = "int \<times> int \<times> ustr \<times> ustr option"

definition get_input_peer :: "peer_key \<Rightarrow> input_peer result" where
  "get_input_peer row =
     (case row of (peer_id, access_hash, peer_type) \<Rightarrow>
        if peer_type \<in> {ustr ''user'', ustr ''bot''} then Inr (InputPeerUser peer_id access_hash)
        else if peer_type = ustr ''group'' then Inr (InputPeerChat (- peer_id))
        else if peer_type \<in> {ustr ''direct'', ustr ''channel'', ustr ''forum'', ustr ''supergroup''} then
          Inr (InputPeerChannel (get_channel_id peer_id) access_hash)
        else Inl ValueError)"

section \<open>The cache of peer rows\<close>

text \<open>The \<open>OrderedDict\<close>, oldest entry first: the row, its phone number and when it was written, if it was.\<close>

type_synonym cache_entry = "peer_key \<times> ustr option \<times> rat option"

record row_cache =
  cache_size :: nat
  write_ttl :: rat
  rows :: "(int \<times> cache_entry) list"

definition new_row_cache :: "nat \<Rightarrow> rat \<Rightarrow> row_cache" where
  "new_row_cache n ttl = \<lparr>cache_size = n, write_ttl = ttl, rows = []\<rparr>"

definition cache_len :: "row_cache \<Rightarrow> nat" where
  "cache_len c = length (rows c)"

text \<open>\<open>pop(k, None)\<close>, \<open>move_to_end(k)\<close> and \<open>popitem(last=False)\<close>.\<close>

definition pop_row :: "int \<Rightarrow> row_cache \<Rightarrow> row_cache" where
  "pop_row k c = c\<lparr>rows := filter (\<lambda>kv. fst kv \<noteq> k) (rows c)\<rparr>"

definition move_to_end :: "int \<Rightarrow> row_cache \<Rightarrow> row_cache" where
  "move_to_end k c =
     c\<lparr>rows := filter (\<lambda>kv. fst kv \<noteq> k) (rows c) @ filter (\<lambda>kv. fst kv = k) (rows c)\<rparr>"

fun evict :: "nat \<Rightarrow> 'a list \<Rightarrow> 'a list" where
  "evict n [] = []"
| "evict n (x # xs) = (if n < length (x # xs) then evict n xs else x # xs)"

definition get_row :: "int \<Rightarrow> row_cache \<Rightarrow> peer_key option \<times> row_cache" where
  "get_row peer_id c =
     (case map_of (rows c) peer_id of
        None \<Rightarrow> (None, c)
      | Some entry \<Rightarrow> (Some (fst entry), move_to_end peer_id c))"

definition matches_row :: "rat \<Rightarrow> peer_row \<Rightarrow> row_cache \<Rightarrow> bool \<times> row_cache" where
  "matches_row now p c =
     (case p of (peer_id, access_hash, peer_type, phone_number) \<Rightarrow>
        (case map_of (rows c) peer_id of
           None \<Rightarrow> (False, c)
         | Some (row, phone, written_at) \<Rightarrow>
             (case written_at of
                None \<Rightarrow> (False, c)
              | Some w \<Rightarrow>
                  if now - w > write_ttl c then (False, c)
                  else if row \<noteq> (peer_id, access_hash, peer_type) \<or> phone \<noteq> phone_number then (False, c)
                  else (True, move_to_end peer_id c))))"

definition remember_row :: "rat \<Rightarrow> peer_key \<Rightarrow> ustr option \<Rightarrow> bool \<Rightarrow> row_cache \<Rightarrow> row_cache" where
  "remember_row now row phone_number written c =
     (let rs = rows (pop_row (fst row) c) @ [(fst row, (row, phone_number, if written then Some now else None))] in
      c\<lparr>rows := evict (cache_size c) rs\<rparr>)"

definition forget_row :: "int \<Rightarrow> row_cache \<Rightarrow> row_cache" where
  "forget_row peer_id c = pop_row peer_id c"

definition clear_rows :: "row_cache \<Rightarrow> row_cache" where
  "clear_rows c = c\<lparr>rows := []\<rparr>"

section \<open>The session row in memory\<close>

text \<open>\<open>MISSING\<close> and a value are kept apart; a value may be \<open>None\<close> as well (\<open>set\<close>, \<open>load\<close>).\<close>

datatype 'v cached = MISSING | Cached 'v

type_synonym ('k, 'v) attr_cache = "'k \<Rightarrow> 'v cached option"

definition cache_get :: "'v \<Rightarrow> 'k \<Rightarrow> ('k, 'v) attr_cache \<Rightarrow> 'v option" where
  "cache_get none a c = (case c a of None \<Rightarrow> None | Some MISSING \<Rightarrow> Some none | Some (Cached v) \<Rightarrow> Some v)"

definition cache_set :: "'k \<Rightarrow> 'v \<Rightarrow> ('k, 'v) attr_cache \<Rightarrow> ('k, 'v) attr_cache" where
  "cache_set a v c = c(a \<mapsto> Cached v)"

definition cache_remember :: "'v \<Rightarrow> 'k \<Rightarrow> 'v \<Rightarrow> ('k, 'v) attr_cache \<Rightarrow> ('k, 'v) attr_cache" where
  "cache_remember none a v c = c(a \<mapsto> (if v = none then MISSING else Cached v))"

definition cache_load :: "('k \<times> 'v) list \<Rightarrow> ('k, 'v) attr_cache \<Rightarrow> ('k, 'v) attr_cache" where
  "cache_load avs c = fold (\<lambda>(a, v). cache_set a v) avs c"

definition cache_snapshot :: "'v \<Rightarrow> ('k, 'v) attr_cache \<Rightarrow> 'k \<Rightarrow> 'v option" where
  "cache_snapshot none c = (\<lambda>a. cache_get none a c)"

lemma cache_simps [simp]:
  "cache_get none a (cache_set b v c) = (if a = b then Some v else cache_get none a c)"
  "cache_get none a (cache_remember none b v c) = (if a = b then Some v else cache_get none a c)"
  "cache_get none a Map.empty = None"
  by (simp_all add: cache_get_def cache_set_def cache_remember_def)

section \<open>Bounds of the row cache\<close>

definition row_cache_ok :: "row_cache \<Rightarrow> bool" where
  "row_cache_ok c \<longleftrightarrow> distinct (map fst (rows c)) \<and> length (rows c) \<le> cache_size c \<and> (\<forall>(k, e) \<in> set (rows c). fst (fst e) = k)"

lemma evict_drop: "evict n xs = drop (length xs - n) xs"
  by (induction xs) (auto simp: Suc_diff_le)

lemma new_row_cache_ok [simp]: "row_cache_ok (new_row_cache n ttl)"
  by (simp add: row_cache_ok_def new_row_cache_def)

lemma pop_row_ok [simp]: "row_cache_ok c \<Longrightarrow> row_cache_ok (pop_row k c)"
  by (auto simp: row_cache_ok_def pop_row_def distinct_map_filter intro: le_trans [OF length_filter_le])

lemma move_parts: "distinct (map fst xs) \<Longrightarrow>
    distinct (map fst (filter (\<lambda>kv. fst kv \<noteq> k) xs @ filter (\<lambda>kv. fst kv = k) xs))"
  by (auto simp: distinct_map_filter)

lemma move_to_end_ok [simp]: "row_cache_ok c \<Longrightarrow> row_cache_ok (move_to_end k c)"
  using sum_length_filter_compl [of "\<lambda>kv. fst kv = k" "rows c"] move_parts [of "rows c" k]
  by (auto simp: row_cache_ok_def move_to_end_def)

lemma set_move_to_end [simp]: "set (rows (move_to_end k c)) = set (rows c)"
  by (auto simp: move_to_end_def)

lemma get_row_ok [simp]: "row_cache_ok c \<Longrightarrow> row_cache_ok (snd (get_row k c))"
  by (simp add: get_row_def split: option.split)

lemma matches_row_ok [simp]: "row_cache_ok c \<Longrightarrow> row_cache_ok (snd (matches_row now p c))"
  by (simp add: matches_row_def split: option.split prod.split)

lemma remember_row_ok [simp]: "row_cache_ok c \<Longrightarrow> row_cache_ok (remember_row now row ph w c)"
proof -
  assume "row_cache_ok c"
  then have p: "row_cache_ok (pop_row (fst row) c)" by simp
  let ?rs = "rows (pop_row (fst row) c) @ [(fst row, (row, ph, if w then Some now else None))]"
  have r: "rows (remember_row now row ph w c) = drop (length ?rs - cache_size c) ?rs"
    by (simp add: remember_row_def Let_def evict_drop del: drop_append)
  have "distinct (map fst ?rs)" using p by (auto simp: row_cache_ok_def pop_row_def)
  then have "distinct (map fst (rows (remember_row now row ph w c)))" unfolding r drop_map [symmetric] by (rule distinct_drop)
  moreover have "\<forall>(k, e) \<in> set ?rs. fst (fst e) = k" using p by (auto simp: row_cache_ok_def)
  then have "\<forall>(k, e) \<in> set (rows (remember_row now row ph w c)). fst (fst e) = k"
    unfolding r by (meson in_set_dropD)
  moreover have "length (rows (remember_row now row ph w c)) \<le> cache_size (remember_row now row ph w c)"
    unfolding r by (simp add: remember_row_def)
  ultimately show ?thesis unfolding row_cache_ok_def by blast
qed

lemma forget_row_ok [simp]: "row_cache_ok c \<Longrightarrow> row_cache_ok (forget_row k c)"
  by (simp add: forget_row_def)

lemma clear_rows_ok [simp]: "row_cache_ok c \<Longrightarrow> row_cache_ok (clear_rows c)"
  by (simp add: row_cache_ok_def clear_rows_def)

section \<open>Who is evicted\<close>

datatype row_op = GetRow int | MatchRow rat peer_row | RememberRow rat peer_key "ustr option" bool | ForgetRow int | ClearRows

fun row_step :: "row_op \<Rightarrow> row_cache \<Rightarrow> row_cache" where
  "row_step (GetRow k) c = snd (get_row k c)"
| "row_step (MatchRow now p) c = snd (matches_row now p c)"
| "row_step (RememberRow now row ph w) c = remember_row now row ph w c"
| "row_step (ForgetRow k) c = forget_row k c"
| "row_step ClearRows c = clear_rows c"

lemma row_step_ok [simp]: "row_cache_ok c \<Longrightarrow> row_cache_ok (row_step op c)"
  by (cases op) simp_all

lemma row_step_size [simp]: "cache_size (row_step op c) = cache_size c"
  by (cases op) (auto simp: get_row_def matches_row_def move_to_end_def remember_row_def forget_row_def pop_row_def clear_rows_def
      split: option.split prod.split)

lemma row_steps_ok: "row_cache_ok c \<Longrightarrow> row_cache_ok (fold row_step ops c) \<and> cache_size (fold row_step ops c) = cache_size c"
  by (induction ops arbitrary: c) simp_all

text \<open>The entry of \<open>k\<close> stands with none but the peers of \<open>T\<close> behind it.\<close>

definition recent :: "int \<Rightarrow> cache_entry \<Rightarrow> int set \<Rightarrow> row_cache \<Rightarrow> bool" where
  "recent k e T c \<longleftrightarrow> (\<exists>ys zs. rows c = ys @ (k, e) # zs \<and> fst ` set zs \<subseteq> T)"

lemma recentI: "rows c = ys @ (k, e) # zs \<Longrightarrow> fst ` set zs \<subseteq> T \<Longrightarrow> recent k e T c"
  unfolding recent_def by blast

fun op_key :: "row_op \<Rightarrow> int set" where
  "op_key (GetRow j) = {j}"
| "op_key (MatchRow now p) = {fst p}"
| "op_key (RememberRow now row ph w) = {fst row}"
| "op_key (ForgetRow j) = {j}"
| "op_key ClearRows = {}"

fun keeps_row :: "int \<Rightarrow> row_op \<Rightarrow> bool" where
  "keeps_row k (RememberRow now row ph w) = (fst row \<noteq> k)"
| "keeps_row k (ForgetRow j) = (j \<noteq> k)"
| "keeps_row k ClearRows = False"
| "keeps_row k _ = True"

lemma recent_lookup: "row_cache_ok c \<Longrightarrow> recent k e T c \<Longrightarrow> map_of (rows c) k = Some e"
  by (auto simp: recent_def row_cache_ok_def)

lemma recent_mono: "recent k e T c \<Longrightarrow> T \<subseteq> T' \<Longrightarrow> recent k e T' c"
  unfolding recent_def by (meson subset_trans)

lemma keys_of_filter: "fst ` set (filter (\<lambda>kv. fst kv = j) xs) \<subseteq> {j}"
  by auto

lemma recent_move:
  assumes "row_cache_ok c" "recent k e T c"
  shows "recent k e (insert j T) (move_to_end j c)"
proof -
  from assms(2) obtain ys zs where r: "rows c = ys @ (k, e) # zs" "fst ` set zs \<subseteq> T" by (auto simp: recent_def)
  show ?thesis
  proof (cases "j = k")
    case True
    have "k \<notin> fst ` set ys" "k \<notin> fst ` set zs" using assms(1) r(1) by (simp_all add: row_cache_ok_def)
    then have "filter (\<lambda>kv. fst kv = k) ys = []" "filter (\<lambda>kv. fst kv = k) zs = []" by (auto simp: filter_empty_conv)
    then have "rows (move_to_end j c) = (filter (\<lambda>kv. fst kv \<noteq> k) ys @ filter (\<lambda>kv. fst kv \<noteq> k) zs) @ (k, e) # []"
      by (simp add: move_to_end_def r(1) True)
    then show ?thesis by (rule recentI) simp
  next
    case False
    then have "rows (move_to_end j c) = filter (\<lambda>kv. fst kv \<noteq> j) ys @ (k, e) # (filter (\<lambda>kv. fst kv \<noteq> j) zs @
        filter (\<lambda>kv. fst kv = j) (rows c))"
      by (simp add: move_to_end_def r(1))
    moreover have "fst ` set (filter (\<lambda>kv. fst kv \<noteq> j) zs @ filter (\<lambda>kv. fst kv = j) (rows c)) \<subseteq> insert j T"
      using r(2) by force
    ultimately show ?thesis by (rule recentI)
  qed
qed

lemma recent_pop: "recent k e T c \<Longrightarrow> j \<noteq> k \<Longrightarrow> recent k e T (pop_row j c)"
proof -
  assume "recent k e T c" "j \<noteq> k"
  then obtain ys zs where r: "rows c = ys @ (k, e) # zs" "fst ` set zs \<subseteq> T" by (auto simp: recent_def)
  with \<open>j \<noteq> k\<close> have "rows (pop_row j c) = filter (\<lambda>kv. fst kv \<noteq> j) ys @ (k, e) # filter (\<lambda>kv. fst kv \<noteq> j) zs"
    by (simp add: pop_row_def)
  moreover have "fst ` set (filter (\<lambda>kv. fst kv \<noteq> j) zs) \<subseteq> T" using r(2) by force
  ultimately show ?thesis by (rule recentI)
qed

lemma recent_remember:
  assumes "row_cache_ok c" "recent k e T c" "fst row \<noteq> k" "finite T" "card (insert (fst row) T) < cache_size c"
  shows "recent k e (insert (fst row) T) (remember_row now row ph w c)"
proof -
  let ?c = "pop_row (fst row) c" and ?x = "(fst row, (row, ph, if w then Some now else None))"
  from recent_pop [OF assms(2,3)] obtain ys zs where r: "rows ?c = ys @ (k, e) # zs" "fst ` set zs \<subseteq> T" by (auto simp: recent_def)
  have "row_cache_ok ?c" using assms(1) by simp
  then have d: "distinct (map fst zs)" using r(1) by (simp add: row_cache_ok_def)
  have n: "fst row \<notin> fst ` set zs"
  proof
    assume "fst row \<in> fst ` set zs"
    then have "fst row \<in> fst ` set (rows ?c)" using r(1) by auto
    then show False by (auto simp: pop_row_def)
  qed
  have "length (zs @ [?x]) = card (fst ` set (zs @ [?x]))"
    using d n distinct_card [of "map fst (zs @ [?x])"] by simp
  also have "\<dots> \<le> card (insert (fst row) T)" using r(2) assms(4) by (intro card_mono) auto
  finally have l: "length (zs @ [?x]) < cache_size c" using assms(5) by simp
  have "rows (remember_row now row ph w c) = drop (length (ys @ (k, e) # zs @ [?x]) - cache_size c) (ys @ (k, e) # zs @ [?x])"
    by (simp add: remember_row_def r(1) evict_drop)
  also have "\<dots> = drop (length (ys @ (k, e) # zs @ [?x]) - cache_size c) ys @ (k, e) # zs @ [?x]"
    using l by simp
  finally have "rows (remember_row now row ph w c) = \<dots>" .
  moreover have "fst ` set (zs @ [?x]) \<subseteq> insert (fst row) T" using r(2) by auto
  ultimately show ?thesis by (rule recentI)
qed

lemma row_reads: "snd (get_row k c) \<in> {c, move_to_end k c}" "snd (matches_row now p c) \<in> {c, move_to_end (fst p) c}"
  by (auto simp: get_row_def matches_row_def split: option.split prod.split)

lemma recent_step:
  assumes "row_cache_ok c" "recent k e T c" "keeps_row k op" "finite T" "card (op_key op \<union> T) < cache_size c"
  shows "recent k e (op_key op \<union> T) (row_step op c)"
proof (cases op)
  case (GetRow j)
  with recent_move [OF assms(1,2), of j] recent_mono [OF assms(2) subset_insertI, of j] show ?thesis
    using row_reads(1) [of j c] by auto
next
  case (MatchRow now p)
  with recent_move [OF assms(1,2), of "fst p"] recent_mono [OF assms(2) subset_insertI, of "fst p"] show ?thesis
    using row_reads(2) [of now p c] by auto
next
  case (RememberRow now row ph w)
  with recent_remember [OF assms(1,2)] assms(3-5) show ?thesis by simp
next
  case (ForgetRow j)
  with recent_pop [OF recent_mono [OF assms(2) subset_insertI], of j j] assms(3) show ?thesis by (simp add: forget_row_def)
qed (use assms in simp)

lemma recent_steps:
  assumes "row_cache_ok c" "recent k e T c" "list_all (keeps_row k) ops" "finite T" "card (\<Union> (op_key ` set ops) \<union> T) < cache_size c"
  shows "recent k e (\<Union> (op_key ` set ops) \<union> T) (fold row_step ops c)"
  using assms
proof (induction ops arbitrary: c T)
  case (Cons op ops)
  have f: "finite (op_key op)" for op by (cases op) simp_all
  then have fin: "finite (\<Union> (op_key ` set (op # ops)) \<union> T)" using Cons.prems(4) by auto
  then have "card (op_key op \<union> T) \<le> card (\<Union> (op_key ` set (op # ops)) \<union> T)" by (intro card_mono) auto
  with Cons.prems have "recent k e (op_key op \<union> T) (row_step op c)" by (intro recent_step) simp_all
  then have "recent k e (\<Union> (op_key ` set ops) \<union> (op_key op \<union> T)) (fold row_step ops (row_step op c))"
    using Cons.prems f by (intro Cons.IH) (simp_all add: Un_assoc Un_left_commute Un_commute)
  then show ?case by (simp add: Un_assoc Un_left_commute Un_commute)
qed simp

text \<open>
  The cache of peer rows stays within its size and names each peer once; a remembered row is there as long as fewer
  other peers than the size were looked up or stored since, however often.
\<close>

theorem row_cache_bounded:
  fixes now :: rat and row :: peer_key and ph :: "ustr option" and w :: bool
  assumes "row_cache_ok c" and "list_all (keeps_row (fst row)) ops" and "card (\<Union> (op_key ` set ops)) < cache_size c"
  defines "c' \<equiv> fold row_step ops (remember_row now row ph w c)"
  shows "map_of (rows c') (fst row) = Some (row, ph, if w then Some now else None) \<and>
    cache_len c' \<le> cache_size c \<and> distinct (map fst (rows c'))"
proof -
  let ?e = "(row, ph, if w then Some now else None)"
  have ok: "row_cache_ok (remember_row now row ph w c)" using assms(1) by simp
  have z: "cache_size (remember_row now row ph w c) = cache_size c" by (simp add: remember_row_def)
  from row_steps_ok [OF ok] z have k: "row_cache_ok c'" "cache_size c' = cache_size c" by (simp_all add: c'_def)
  have "recent (fst row) ?e {} (remember_row now row ph w c)"
    using assms(3) by (auto simp: recent_def remember_row_def evict_drop)
  from recent_steps [OF ok this assms(2)] assms(3) z have "recent (fst row) ?e (\<Union> (op_key ` set ops)) c'"
    by (simp add: c'_def)
  from recent_lookup [OF k(1) this] have "map_of (rows c') (fst row) = Some ?e" .
  with k show ?thesis by (simp add: row_cache_ok_def cache_len_def)
qed

lemma row_cache_bounded_witness:
  "map_of (rows (fold row_step [GetRow 1, RememberRow 3 (2, 0, []) None True, MatchRow 4 (1, 9, [], None)]
     (remember_row 0 (1, 9, []) None True (new_row_cache 3 100)))) 1 = Some ((1, 9, []), None, Some 0)"
  using row_cache_bounded [where c = "new_row_cache 3 100" and row = "(1, 9, [])" and now = 0 and ph = None and w = True
      and ops = "[GetRow 1, RememberRow 3 (2, 0, []) None True, MatchRow 4 (1, 9, [], None)]"]
  by (simp add: new_row_cache_def row_cache_ok_def insert_commute)

end
