(* ===== verification/Sqlite_Storage.thy ===== *)
theory Sqlite_Storage
  imports Session_Store Peer_Cache
begin

text \<open>
  The SQLite engine (\<open>pyrogram/storage/sqlite_storage.py\<close>): its tables, what each statement does to them, the caches in
  front of them, the batching of commits and the migrations. The statements run on a connection whose changes reach the
  file when they are committed. A column or table an older schema lacks reads as empty.
\<close>

section \<open>Tables\<close>

type_synonym db_peer = "int \<times> ustr \<times> ustr option \<times> int"
type_synonym state_row = "int option \<times> int option \<times> int option \<times> int option"

record tables =
  t_sessions :: "(attr \<Rightarrow> val) list"
  t_peers :: "(int \<times> db_peer) list"
  t_usernames :: "(int \<times> ustr) list"
  t_states :: "(int \<times> state_row) list"
  t_version :: int

definition VERSION :: int where "VERSION = 8"
definition USERNAME_TTL :: int where "USERNAME_TTL = 8 * 60 * 60"
definition AUTO_COMMIT_INTERVAL :: nat where "AUTO_COMMIT_INTERVAL = 20"

text \<open>How a value is kept in its column: \<open>True\<close> and \<open>False\<close> as integers. Values have the types of their accessors.\<close>

fun column :: "val \<Rightarrow> val" where
  "column (BoolVal b) = IntVal (if b then 1 else 0)"
| "column v = v"

definition check_column :: "attr \<Rightarrow> val \<Rightarrow> unit result" where
  "check_column a v =
     (case column v of
        NoVal \<Rightarrow> if a \<in> {DcId, Date} then Inl IntegrityError else Inr ()
      | IntVal i \<Rightarrow> if - (2 ^ 63) \<le> i \<and> i < 2 ^ 63 then Inr () else Inl OverflowError
      | _ \<Rightarrow> if a = DcId then Inl IntegrityError else Inr ())"

definition update_sessions :: "attr \<Rightarrow> val \<Rightarrow> tables \<Rightarrow> tables result" where
  "update_sessions a v t =
     bindR (check_column a v) (\<lambda>_. Inr (t\<lparr>t_sessions := map (\<lambda>r. r(a := column v)) (t_sessions t)\<rparr>))"

text \<open>A table with an integer primary key lists its rows by it; \<open>REPLACE\<close> deletes the row in the way.\<close>

definition replace_row :: "int \<Rightarrow> 'r \<Rightarrow> (int \<times> 'r) list \<Rightarrow> (int \<times> 'r) list" where
  "replace_row k r t = insort_key fst (k, r) (filter (\<lambda>kr. fst kr \<noteq> k) t)"

definition replace_peer :: "int \<Rightarrow> peer_row \<Rightarrow> tables \<Rightarrow> tables" where
  "replace_peer now p t =
     (case p of (i, h, ty, ph) \<Rightarrow> t\<lparr>t_peers := replace_row i (h, ty, ph, now) (t_peers t)\<rparr>)"

definition delete_usernames :: "int \<Rightarrow> tables \<Rightarrow> tables" where
  "delete_usernames i t = t\<lparr>t_usernames := filter (\<lambda>iu. fst iu \<noteq> i) (t_usernames t)\<rparr>"

definition insert_username :: "int \<times> ustr \<Rightarrow> tables \<Rightarrow> tables" where
  "insert_username iu t = t\<lparr>t_usernames := t_usernames t @ [iu]\<rparr>"

definition coalesce :: "'a option \<Rightarrow> 'a option \<Rightarrow> 'a option" where
  "coalesce x y = (case x of Some v \<Rightarrow> Some v | None \<Rightarrow> y)"

definition merge_state :: "state_row \<Rightarrow> state_row \<Rightarrow> state_row" where
  "merge_state new old =
     (case (new, old) of ((p, q, d, s), (p', q', d', s')) \<Rightarrow> (coalesce p p', coalesce q q', coalesce d d', coalesce s s'))"

definition upsert_state :: "int \<Rightarrow> state_row \<Rightarrow> tables \<Rightarrow> tables" where
  "upsert_state i r t =
     t\<lparr>t_states := replace_row i (case map_of (t_states t) i of None \<Rightarrow> r | Some old \<Rightarrow> merge_state r old) (t_states t)\<rparr>"

definition delete_state :: "int \<Rightarrow> tables \<Rightarrow> tables" where
  "delete_state i t = t\<lparr>t_states := filter (\<lambda>kr. fst kr \<noteq> i) (t_states t)\<rparr>"

text \<open>\<open>ORDER BY date ASC\<close>, where a missing date comes first.\<close>

definition date_key :: "int \<times> state_row \<Rightarrow> int \<times> int" where
  "date_key kr = (case snd kr of (p, q, d, s) \<Rightarrow> case d of None \<Rightarrow> (0, 0) | Some x \<Rightarrow> (1, x))"

fun date_le :: "int \<times> state_row \<Rightarrow> int \<times> state_row \<Rightarrow> bool" where
  "date_le a b = (fst (date_key a) < fst (date_key b) \<or> fst (date_key a) = fst (date_key b) \<and> snd (date_key a) \<le> snd (date_key b))"

fun insert_by_date :: "int \<times> state_row \<Rightarrow> (int \<times> state_row) list \<Rightarrow> (int \<times> state_row) list" where
  "insert_by_date x [] = [x]"
| "insert_by_date x (y # ys) = (if date_le x y then x # y # ys else y # insert_by_date x ys)"

definition states_by_date :: "tables \<Rightarrow> (int \<times> state_row) list" where
  "states_by_date t = foldr insert_by_date (t_states t) []"

text \<open>The join of \<open>get_peer_by_username\<close>, latest update first.\<close>

definition peers_named :: "ustr \<Rightarrow> tables \<Rightarrow> (int \<times> db_peer) list" where
  "peers_named u t =
     concat (map (\<lambda>kr. map (\<lambda>_. kr) (filter (\<lambda>iu. fst iu = fst kr \<and> snd iu = u) (t_usernames t))) (t_peers t))"

definition updated_on :: "int \<times> db_peer \<Rightarrow> int" where
  "updated_on kr = (case snd kr of (h, ty, ph, on) \<Rightarrow> on)"

fun latest :: "(int \<times> db_peer) list \<Rightarrow> (int \<times> db_peer) option" where
  "latest [] = None"
| "latest (x # xs) = (case latest xs of None \<Rightarrow> Some x | Some y \<Rightarrow> if updated_on y > updated_on x then Some y else Some x)"

definition peer_of_phone :: "ustr \<Rightarrow> tables \<Rightarrow> (int \<times> db_peer) option" where
  "peer_of_phone phone t = find (\<lambda>kr. case snd kr of (h, ty, ph, on) \<Rightarrow> ph = Some phone) (t_peers t)"

definition row_key :: "int \<times> db_peer \<Rightarrow> peer_key" where
  "row_key kr = (case snd kr of (h, ty, ph, on) \<Rightarrow> (fst kr, h, ty))"

section \<open>The storage\<close>

text \<open>
  The connection is open or not; \<open>work\<close> is what it sees and \<open>committed\<close> what the file holds, if there is one. A storage
  in memory has no file to come back to.
\<close>

record sqlite =
  conn :: bool
  in_memory :: bool
  start_string :: "ustr option"
  work :: tables
  committed :: "tables option"
  attr_cache :: "(attr, val) attr_cache"
  peer_cache :: row_cache
  dirty :: bool
  write_count :: nat
  flush_pending :: bool

record clock_pair =
  wall :: rat
  mono_time :: rat

definition new_sqlite :: "bool \<Rightarrow> ustr option \<Rightarrow> nat \<Rightarrow> sqlite" where
  "new_sqlite mem str cap =
     \<lparr>conn = False, in_memory = mem, start_string = str,
      work = \<lparr>t_sessions = [], t_peers = [], t_usernames = [], t_states = [], t_version = 0\<rparr>, committed = None,
      attr_cache = Map.empty, peer_cache = new_row_cache cap (of_int USERNAME_TTL / 2), dirty = False, write_count = 0,
      flush_pending = False\<rparr>"

section \<open>Committing\<close>

definition commit :: "sqlite \<Rightarrow> sqlite" where
  "commit s = s\<lparr>committed := Some (work s)\<rparr>"

definition ensure_committed :: "sqlite \<Rightarrow> sqlite" where
  "ensure_committed s = (if dirty s \<and> conn s then (commit s)\<lparr>dirty := False\<rparr> else s)"

definition schedule_flush :: "sqlite \<Rightarrow> sqlite" where
  "schedule_flush s = (if flush_pending s then s else s\<lparr>flush_pending := True\<rparr>)"

definition maybe_commit :: "sqlite \<Rightarrow> sqlite" where
  "maybe_commit s =
     (let s = s\<lparr>dirty := True, write_count := write_count s + 1\<rparr> in
      if AUTO_COMMIT_INTERVAL \<le> write_count s then ensure_committed (s\<lparr>write_count := 0\<rparr>)
      else schedule_flush s)"

text \<open>The flush task after its sleep.\<close>

definition flush_later :: "sqlite \<Rightarrow> sqlite" where
  "flush_later s =
     (let s = s\<lparr>flush_pending := False\<rparr> in
      if conn s then ensure_committed (s\<lparr>write_count := 0\<rparr>) else s)"

section \<open>Session attributes\<close>

definition session_row :: "tables \<Rightarrow> (attr \<Rightarrow> val) option" where
  "session_row t = (case t_sessions t of [] \<Rightarrow> None | r # rs \<Rightarrow> Some r)"

definition row_val :: "tables \<Rightarrow> attr \<Rightarrow> val" where
  "row_val t a = (case session_row t of None \<Rightarrow> NoVal | Some r \<Rightarrow> r a)"

definition read_attr :: "attr \<Rightarrow> sqlite \<Rightarrow> val result \<times> sqlite" where
  "read_attr a s =
     (if \<not> conn s then (Inl ConnectionError, s)
      else (case cache_get NoVal a (attr_cache s) of
              Some v \<Rightarrow> (Inr v, s)
            | None \<Rightarrow>
                (Inr (row_val (work s) a), s\<lparr>attr_cache := cache_remember NoVal a (row_val (work s) a) (attr_cache s)\<rparr>)))"

definition write_attr :: "attr \<Rightarrow> val \<Rightarrow> sqlite \<Rightarrow> unit result \<times> sqlite" where
  "write_attr a v s =
     (if \<not> conn s then (Inl ConnectionError, s)
      else (case update_sessions a v (work s) of
              Inl e \<Rightarrow> (Inl e, s)
            | Inr t \<Rightarrow> (Inr (), maybe_commit (s\<lparr>work := t, attr_cache := cache_set a v (attr_cache s)\<rparr>))))"

definition load_cache :: "sqlite \<Rightarrow> sqlite" where
  "load_cache s =
     (case session_row (work s) of
        None \<Rightarrow> s
      | Some r \<Rightarrow>
          s\<lparr>attr_cache := cache_load (map (\<lambda>a. (a, r a))
             [DcId, ServerAddress, Port, ApiId, TestMode, AuthKey, Date, UserId, IsBot]) (attr_cache s)\<rparr>)"

section \<open>Opening and closing\<close>

definition create_tables :: tables where
  "create_tables =
     \<lparr>t_sessions = [(\<lambda>_. NoVal)(DcId := IntVal 2, ServerAddress := TextVal (ustr ''149.154.167.51''), Port := IntVal 443, Date := IntVal 0)],
      t_peers = [], t_usernames = [], t_states = [], t_version = VERSION\<rparr>"

definition create :: "sqlite \<Rightarrow> sqlite" where
  "create s = commit (s\<lparr>work := create_tables\<rparr>)"

text \<open>The steps of \<open>update\<close>, each for one version of the schema.\<close>

definition server_of :: "val \<Rightarrow> val \<Rightarrow> ustr option" where
  "server_of test dc = (case dc of IntVal i \<Rightarrow> (if val_truthy test then TEST_ADDRESSES else PROD_ADDRESSES) i | _ \<Rightarrow> None)"

definition migrate_servers :: "sqlite \<Rightarrow> sqlite result" where
  "migrate_servers s =
     (case read_attr TestMode s of
        (Inl e, s) \<Rightarrow> Inl e
      | (Inr test, s) \<Rightarrow>
          (case read_attr DcId s of
             (Inl e, s) \<Rightarrow> Inl e
           | (Inr dc, s) \<Rightarrow>
               (case server_of test dc of
                  None \<Rightarrow> Inr s
                | Some address \<Rightarrow>
                    Inr (commit (s\<lparr>work := (work s)\<lparr>t_sessions := map (\<lambda>r. r(ServerAddress := TextVal address,
                      Port := IntVal (default_port (val_truthy test)))) (t_sessions (work s))\<rparr>\<rparr>)))))"

definition add_columns :: "attr set \<Rightarrow> sqlite \<Rightarrow> sqlite" where
  "add_columns as s =
     commit (s\<lparr>work := (work s)\<lparr>t_sessions := map (\<lambda>r a. if a \<in> as then NoVal else r a) (t_sessions (work s))\<rparr>\<rparr>)"

definition migrate_step :: "int \<times> sqlite \<Rightarrow> int \<Rightarrow> (int \<times> sqlite) result" where
  "migrate_step vs n =
     (case vs of (version, s) \<Rightarrow>
        if version \<noteq> n then Inr (version, s)
        else if n = 1 then
          Inr (version + 1, commit (s\<lparr>work := (work s)\<lparr>t_peers := []\<rparr>, peer_cache := clear_rows (peer_cache s)\<rparr>))
        else if n = 2 then Inr (version + 1, add_columns {ApiId} s)
        else if n = 3 then Inr (version + 1, commit (s\<lparr>work := (work s)\<lparr>t_usernames := []\<rparr>\<rparr>))
        else if n = 4 then Inr (version + 1, commit (s\<lparr>work := (work s)\<lparr>t_states := []\<rparr>\<rparr>))
        else if n = 5 then Inr (version + 1, commit s)
        else if n = 6 then Inr (version + 1, add_columns {ServerAddress, Port} s)
        else if n = 7 then bindR (migrate_servers s) (\<lambda>s. Inr (version + 1, s))
        else Inr (version, s))"

definition update_schema :: "sqlite \<Rightarrow> sqlite result" where
  "update_schema s =
     bindR (foldl (\<lambda>r n. bindR r (\<lambda>vs. migrate_step vs n)) (Inr (t_version (work s), s)) [1, 2, 3, 4, 5, 6, 7])
       (\<lambda>(version, s). Inr (commit (s\<lparr>work := (work s)\<lparr>t_version := version\<rparr>\<rparr>)))"

definition load_start :: "(bytes \<Rightarrow> nat) \<Rightarrow> sqlite \<Rightarrow> unit result \<times> sqlite" where
  "load_start crc s =
     (case start_string s of
        Some (c # cs) \<Rightarrow> load_session_string crc write_attr (c # cs) s
      | _ \<Rightarrow> (Inr (), s))"

definition open_sqlite :: "(bytes \<Rightarrow> nat) \<Rightarrow> sqlite \<Rightarrow> unit result \<times> sqlite" where
  "open_sqlite crc s =
     (if in_memory s then
        (case load_start crc (create (s\<lparr>conn := True\<rparr>)) of
           (Inl e, s) \<Rightarrow> (Inl e, s)
         | (Inr _, s) \<Rightarrow> (Inr (), ensure_committed s))
      else
        (case committed s of
           Some file \<Rightarrow>
             (case update_schema (s\<lparr>conn := True, work := file\<rparr>) of
                Inl e \<Rightarrow> (Inl e, s\<lparr>conn := True, work := file\<rparr>)
              | Inr s \<Rightarrow> (Inr (), ensure_committed (load_cache s)))
         | None \<Rightarrow>
             (case load_start crc (create (s\<lparr>conn := True\<rparr>)) of
                (Inl e, s) \<Rightarrow> (Inl e, s)
              | (Inr _, s) \<Rightarrow> (Inr (), ensure_committed (load_cache s)))))"

definition save_sqlite :: "clock_pair \<Rightarrow> sqlite \<Rightarrow> unit result \<times> sqlite" where
  "save_sqlite now s =
     (case write_attr Date (IntVal \<lfloor>wall now\<rfloor>) s of
        (Inl e, s) \<Rightarrow> (Inl e, s)
      | (Inr _, s) \<Rightarrow> (Inr (), ensure_committed s))"

definition close_sqlite :: "sqlite \<Rightarrow> sqlite" where
  "close_sqlite s =
     (let s = ensure_committed (s\<lparr>flush_pending := False\<rparr>) in
      s\<lparr>conn := False, committed := (if in_memory s then None else committed s), attr_cache := Map.empty\<rparr>)"

definition delete_sqlite :: "sqlite \<Rightarrow> sqlite" where
  "delete_sqlite s = s\<lparr>conn := False, committed := None\<rparr>"

section \<open>Peers, usernames and update states\<close>

fun fresh_peers :: "rat \<Rightarrow> peer_row list \<Rightarrow> row_cache \<Rightarrow> peer_row list \<times> row_cache" where
  "fresh_peers now [] c = ([], c)"
| "fresh_peers now (p # ps) c =
     (let (m, c) = matches_row now p c; (fresh, c) = fresh_peers now ps c in
      (if m then fresh else p # fresh, c))"

definition remember_peer :: "rat \<Rightarrow> peer_row \<Rightarrow> row_cache \<Rightarrow> row_cache" where
  "remember_peer now p c = (case p of (i, h, ty, ph) \<Rightarrow> remember_row now (i, h, ty) ph True c)"

definition update_peers :: "clock_pair \<Rightarrow> peer_row list \<Rightarrow> sqlite \<Rightarrow> sqlite" where
  "update_peers now peers s =
     (if peers = [] \<or> \<not> conn s then s
      else (let (fresh, c) = fresh_peers (mono_time now) peers (peer_cache s); s = s\<lparr>peer_cache := c\<rparr> in
            if fresh = [] then s
            else maybe_commit (s\<lparr>work := fold (replace_peer \<lfloor>wall now\<rfloor>) fresh (work s),
                                 peer_cache := fold (remember_peer (mono_time now)) fresh c\<rparr>)))"

definition update_usernames :: "(int \<times> ustr list) list \<Rightarrow> sqlite \<Rightarrow> sqlite" where
  "update_usernames us s =
     (if us = [] \<or> \<not> conn s then s
      else (let t = fold delete_usernames (map fst us) (work s);
                t = fold insert_username (concat (map (\<lambda>(i, ns). map (\<lambda>n. (i, n)) ns) us)) t in
            maybe_commit (s\<lparr>work := t\<rparr>)))"

text \<open>The three calls of \<open>update_state\<close>.\<close>

definition read_states :: "sqlite \<Rightarrow> (int \<times> state_row) list" where
  "read_states s = (if conn s then states_by_date (work s) else [])"

datatype state_arg = DeleteState int | WriteState int state_row

definition update_state :: "state_arg \<Rightarrow> sqlite \<Rightarrow> sqlite" where
  "update_state v s =
     (if \<not> conn s then s
      else (case v of
              DeleteState i \<Rightarrow> maybe_commit (s\<lparr>work := delete_state i (work s)\<rparr>)
            | WriteState i r \<Rightarrow> maybe_commit (s\<lparr>work := upsert_state i r (work s)\<rparr>)))"

definition get_peer_by_id :: "int \<Rightarrow> sqlite \<Rightarrow> input_peer result \<times> sqlite" where
  "get_peer_by_id peer_id s =
     (case get_row peer_id (peer_cache s) of (found, c) \<Rightarrow>
        (case found of
           Some row \<Rightarrow> (get_input_peer row, s\<lparr>peer_cache := c\<rparr>)
         | None \<Rightarrow>
             if \<not> conn s then (Inl ConnectionError, s)
             else (case map_of (t_peers (work s)) peer_id of
                     None \<Rightarrow> (Inl (KeyError peer_id), s)
                   | Some r \<Rightarrow>
                       let row = row_key (peer_id, r) in
                       (get_input_peer row, s\<lparr>peer_cache := remember_row 0 row None False (peer_cache s)\<rparr>))))"

definition get_peer_by_username :: "clock_pair \<Rightarrow> ustr \<Rightarrow> sqlite \<Rightarrow> input_peer result" where
  "get_peer_by_username now username s =
     (if \<not> conn s then Inl ConnectionError
      else (case latest (peers_named username (work s)) of
              None \<Rightarrow> Inl (KeyErrorText username)
            | Some r \<Rightarrow>
                if \<bar>wall now - of_int (updated_on r)\<bar> > of_int USERNAME_TTL then Inl (KeyErrorText username)
                else get_input_peer (row_key r)))"

definition get_peer_by_phone_number :: "ustr \<Rightarrow> sqlite \<Rightarrow> input_peer result" where
  "get_peer_by_phone_number phone s =
     (if \<not> conn s then Inl ConnectionError
      else (case peer_of_phone phone (work s) of
              None \<Rightarrow> Inl (KeyErrorText phone)
            | Some r \<Rightarrow> get_input_peer (row_key r)))"

end
