(* ===== verification/Sqlite_Laws.thy ===== *)
theory Sqlite_Laws
  imports Sqlite_Storage
begin

text \<open>
  What the SQLite engine promises: its attributes read as written and survive a restart, the cache of peer rows never
  answers otherwise than the table, a stored peer stays young enough to be found by name, and few writes are ever
  uncommitted.
\<close>

section \<open>The frame of a commit\<close>

lemma commit_simps [simp]:
  "conn (commit s) = conn s" "in_memory (commit s) = in_memory s" "work (commit s) = work s" "attr_cache (commit s) = attr_cache s"
  "peer_cache (commit s) = peer_cache s" "dirty (commit s) = dirty s" "write_count (commit s) = write_count s"
  "flush_pending (commit s) = flush_pending s" "committed (commit s) = Some (work s)" "start_string (commit s) = start_string s"
  by (simp_all add: commit_def)

lemma ensure_committed_simps [simp]:
  "conn (ensure_committed s) = conn s" "in_memory (ensure_committed s) = in_memory s" "work (ensure_committed s) = work s"
  "attr_cache (ensure_committed s) = attr_cache s" "peer_cache (ensure_committed s) = peer_cache s"
  "write_count (ensure_committed s) = write_count s" "flush_pending (ensure_committed s) = flush_pending s"
  "start_string (ensure_committed s) = start_string s"
  by (simp_all add: ensure_committed_def)

lemma maybe_commit_simps [simp]:
  "conn (maybe_commit s) = conn s" "in_memory (maybe_commit s) = in_memory s" "work (maybe_commit s) = work s"
  "attr_cache (maybe_commit s) = attr_cache s" "peer_cache (maybe_commit s) = peer_cache s" "start_string (maybe_commit s) = start_string s"
  by (simp_all add: maybe_commit_def schedule_flush_def Let_def)

lemma flush_later_simps [simp]:
  "conn (flush_later s) = conn s" "in_memory (flush_later s) = in_memory s" "work (flush_later s) = work s"
  "attr_cache (flush_later s) = attr_cache s" "peer_cache (flush_later s) = peer_cache s" "start_string (flush_later s) = start_string s"
  by (simp_all add: flush_later_def Let_def)

section \<open>The session attributes\<close>

text \<open>The abstract storage: what an attribute is, whether it is cached or not.\<close>

fun or_row :: "'v option \<Rightarrow> 'v \<Rightarrow> 'v" where
  "or_row None v = v"
| "or_row (Some v) _ = v"

definition look :: "sqlite \<Rightarrow> attr \<Rightarrow> val" where
  "look s a = or_row (cache_get NoVal a (attr_cache s)) (row_val (work s) a)"

definition storable :: "attr \<Rightarrow> val \<Rightarrow> bool" where
  "storable a v \<longleftrightarrow> check_column a v = Inr ()"

text \<open>One row, kept in the form of its columns, and cached values that are those of the row.\<close>

fun caches :: "val cached option \<Rightarrow> val \<Rightarrow> bool" where
  "caches None v = True"
| "caches (Some MISSING) v = (v = NoVal)"
| "caches (Some (Cached c)) v = (column c = v)"

definition row_ok :: "(attr \<Rightarrow> val) \<Rightarrow> bool" where
  "row_ok r \<longleftrightarrow> (\<forall>a. storable a (r a) \<and> column (r a) = r a)"

definition sqlite_ok :: "sqlite \<Rightarrow> bool" where
  "sqlite_ok s \<longleftrightarrow> conn s \<and> length (t_sessions (work s)) = 1 \<and> row_ok (row_val (work s)) \<and> (\<forall>a. caches (attr_cache s a) (row_val (work s) a))"

lemma column_idem [simp]: "column (column v) = column v"
  by (cases v) simp_all

lemma one_row: "length (t_sessions t) = 1 \<Longrightarrow> t_sessions t = [row_val t]"
  by (cases "t_sessions t") (auto simp: row_val_def session_row_def)

lemma row_val_one [simp]: "t_sessions t = [r] \<Longrightarrow> row_val t = r"
  by (simp add: row_val_def session_row_def fun_eq_iff)

lemma maybe_commit_ok [simp]: "sqlite_ok (maybe_commit s) = sqlite_ok s" "sqlite_ok (ensure_committed s) = sqlite_ok s"
  "sqlite_ok (flush_later s) = sqlite_ok s" "look (maybe_commit s) = look s" "look (ensure_committed s) = look s"
  "look (flush_later s) = look s"
  by (simp_all add: sqlite_ok_def look_def [abs_def])

lemma storable_column: "storable a v \<Longrightarrow> storable a (column v)"
  by (cases v) (simp_all add: storable_def check_column_def)

lemma read_attr_ok:
  assumes "sqlite_ok s"
  shows "fst (read_attr a s) = Inr (look s a) \<and> sqlite_ok (snd (read_attr a s)) \<and> look (snd (read_attr a s)) = look s"
proof (cases "cache_get NoVal a (attr_cache s)")
  case (Some v)
  then show ?thesis using assms by (simp add: read_attr_def look_def sqlite_ok_def)
next
  case None
  let ?s = "s\<lparr>attr_cache := cache_remember NoVal a (row_val (work s) a) (attr_cache s)\<rparr>"
  have e: "read_attr a s = (Inr (row_val (work s) a), ?s)"
    using assms by (simp add: read_attr_def None sqlite_ok_def)
  have "look s a = row_val (work s) a" by (simp add: look_def None)
  moreover have "look ?s = look s" by (rule ext) (simp add: look_def None)
  moreover have "sqlite_ok ?s" using assms by (simp add: sqlite_ok_def cache_remember_def row_ok_def)
  ultimately show ?thesis by (simp add: e)
qed

lemma write_attr_ok:
  assumes "sqlite_ok s" "storable a v"
  shows "fst (write_attr a v s) = Inr () \<and> sqlite_ok (snd (write_attr a v s)) \<and> look (snd (write_attr a v s)) = (look s)(a := v)"
proof -
  have r: "t_sessions (work s) = [row_val (work s)]" using assms(1) by (intro one_row) (simp add: sqlite_ok_def)
  let ?t = "(work s)\<lparr>t_sessions := [(row_val (work s))(a := column v)]\<rparr>"
  let ?s = "s\<lparr>work := ?t, attr_cache := cache_set a v (attr_cache s)\<rparr>"
  have t: "row_val ?t = (row_val (work s))(a := column v)" by simp
  have c: "conn s" using assms(1) by (simp add: sqlite_ok_def)
  have "update_sessions a v (work s) = Inr ?t" using assms(2) by (simp add: update_sessions_def storable_def) (subst r, simp)
  then have e: "write_attr a v s = (Inr (), maybe_commit ?s)" by (simp add: write_attr_def c)
  have "sqlite_ok ?s"
    using assms storable_column [OF assms(2)] by (simp add: sqlite_ok_def cache_set_def row_ok_def t)
  moreover have "look ?s = (look s)(a := v)" by (rule ext) (simp add: look_def t)
  ultimately show ?thesis by (simp add: e)
qed

interpretation sqlite_attrs: session_store read_attr write_attr sqlite_ok storable look
  by unfold_locales (rule read_attr_ok, assumption, rule write_attr_ok)

lemma column_storable: "storable a (column v) \<Longrightarrow> storable a v"
  by (cases v) (simp_all add: storable_def check_column_def)

lemma look_storable: "sqlite_ok s \<Longrightarrow> storable a (look s a)"
proof -
  assume "sqlite_ok s"
  then have "caches (attr_cache s a) (row_val (work s) a)" "storable a (row_val (work s) a)" by (simp_all add: sqlite_ok_def row_ok_def)
  then show ?thesis
    by (cases "(attr_cache s a, row_val (work s) a)" rule: caches.cases) (auto simp: look_def cache_get_def dest: column_storable)
qed

text \<open>
  C11. A session exported from one storage and loaded into another gives the other the data center, key, user, flags and
  server of the first.
\<close>

theorem session_moves:
  assumes "sqlite_ok s" "typed_session (look s)" "fst (export_session_string crc read_attr s) = Inr str" "\<forall>bs. crc bs < 2 ^ 32"
    and "text_of (look s ServerAddress) \<noteq> []" "int_of (look s Port) \<noteq> 0" and "sqlite_ok s'"
  shows "\<exists>s''. load_session_string crc write_attr str s' = (Inr (), s'') \<and> sqlite_ok s'' \<and>
    look s'' = (look s')(DcId := look s DcId, TestMode := BoolVal (val_truthy (look s TestMode)), AuthKey := look s AuthKey,
      UserId := look s UserId, IsBot := BoolVal (val_truthy (look s IsBot)), Date := IntVal 0, ServerAddress := look s ServerAddress,
      Port := look s Port, ApiId := IntVal (int_of (look s ApiId)))"
proof -
  let ?d = "exported_session (look s)"
  have d: "decode_session_string crc str = Inr ?d"
    using assms(3) sqlite_attrs.export_looks [OF assms(1), of crc] by (intro exported_decoded assms(2,4)) simp
  have i: "is_int x \<Longrightarrow> IntVal (int_of x) = x" for x by (cases x) simp_all
  have v: "IntVal (int_of (look s DcId)) = look s DcId" "IntVal (int_of (look s UserId)) = look s UserId"
    "BytesVal (bytes_of (look s AuthKey)) = look s AuthKey"
    using assms(2) by (auto simp: typed_session_def i)
  have t: "TextVal (text_of (look s ServerAddress)) = look s ServerAddress" "IntVal (int_of (look s Port)) = look s Port"
    using assms(2,5,6) by (auto simp: typed_session_def i)
  have f: "fold (\<lambda>(a, v) m. m(a := v)) (load_writes ?d) (look s') =
    (look s')(DcId := look s DcId, TestMode := BoolVal (val_truthy (look s TestMode)), AuthKey := look s AuthKey,
      UserId := look s UserId, IsBot := BoolVal (val_truthy (look s IsBot)), Date := IntVal 0, ServerAddress := look s ServerAddress,
      Port := look s Port, ApiId := IntVal (int_of (look s ApiId)))"
    using assms(5,6) loaded_attributes [of ?d "text_of (look s ServerAddress)" "int_of (look s Port)" "int_of (look s ApiId)" "look s'"]
    by (simp add: exported_session_def v t)
  have b: "storable TestMode (BoolVal x)" "storable IsBot (BoolVal x)" "storable Date (IntVal 0)" for x
    by (simp_all add: storable_def check_column_def)
  have api: "storable ApiId (IntVal (int_of (look s ApiId)))"
    using look_storable [OF assms(1), of ApiId] by (cases "look s ApiId") (simp_all add: storable_def check_column_def)
  obtain c cs where a: "text_of (look s ServerAddress) = c # cs" using assms(5) by (cases "text_of (look s ServerAddress)") auto
  have "\<forall>(a, v) \<in> set (load_writes ?d). storable a v"
    using look_storable [OF assms(1)] b api assms(6) t(1) unfolding a
    by (simp add: load_writes_def exported_session_def a v t(2))
  from sqlite_attrs.load_looks [OF assms(7) d this] f show ?thesis by (metis prod.collapse)
qed

section \<open>Opening and closing\<close>

lemma create_ok: "sqlite_ok (create (s\<lparr>conn := True, attr_cache := Map.empty\<rparr>))"
  by (simp add: create_def sqlite_ok_def create_tables_def row_ok_def storable_def check_column_def)

lemma loaded_cache: "session_row (work s) = Some r \<Longrightarrow> \<exists>c. load_cache s = s\<lparr>attr_cache := c\<rparr> \<and> c = (\<lambda>a. Some (Cached (r a)))"
proof (intro exI conjI)
  show "session_row (work s) = Some r \<Longrightarrow> load_cache s = s\<lparr>attr_cache := cache_load (map (\<lambda>a. (a, r a))
      [DcId, ServerAddress, Port, ApiId, TestMode, AuthKey, Date, UserId, IsBot]) (attr_cache s)\<rparr>"
    by (simp add: load_cache_def)
  show "cache_load (map (\<lambda>a. (a, r a)) [DcId, ServerAddress, Port, ApiId, TestMode, AuthKey, Date, UserId, IsBot]) (attr_cache s) =
      (\<lambda>a. Some (Cached (r a)))"
    by (rule ext, case_tac a) (simp_all add: cache_load_def cache_set_def)
qed

lemma load_cache_ok:
  assumes "sqlite_ok s"
  shows "sqlite_ok (load_cache s) \<and> look (load_cache s) = row_val (work s) \<and> work (load_cache s) = work s \<and> committed (load_cache s) = committed s"
proof -
  have "t_sessions (work s) = [row_val (work s)]" using assms by (intro one_row) (simp add: sqlite_ok_def)
  then have "session_row (work s) = Some (row_val (work s))" by (metis list.simps(5) session_row_def)
  from loaded_cache [OF this] obtain c where c: "load_cache s = s\<lparr>attr_cache := c\<rparr>" "c = (\<lambda>a. Some (Cached (row_val (work s) a)))" by blast
  have "look (load_cache s) = row_val (work s)" by (rule ext) (simp add: c look_def cache_get_def)
  moreover have "sqlite_ok (load_cache s)" using assms by (simp add: c sqlite_ok_def row_ok_def)
  ultimately show ?thesis by (simp add: c(1))
qed

text \<open>Each step of the migration ends at the next version and leaves one sound row.\<close>

definition row_fits :: "tables \<Rightarrow> bool" where
  "row_fits t \<longleftrightarrow> length (t_sessions t) = 1 \<and> row_ok (row_val t)"

lemma row_val_cong: "t_sessions t = t_sessions t' \<Longrightarrow> row_val t = row_val t'"
  by (simp add: row_val_def [abs_def] session_row_def)

definition migrating :: "sqlite \<Rightarrow> bool" where
  "migrating s \<longleftrightarrow> conn s \<and> row_fits (work s) \<and>
     (\<forall>a. attr_cache s a \<noteq> None \<longrightarrow> a \<in> {TestMode, DcId} \<and> caches (attr_cache s a) (row_val (work s) a))"

lemma migrating_same:
  "migrating s \<Longrightarrow> conn s' \<Longrightarrow> t_sessions (work s') = t_sessions (work s) \<Longrightarrow> attr_cache s' = attr_cache s \<Longrightarrow> migrating s'"
  using row_val_cong [of "work s'" "work s"] by (simp add: migrating_def row_fits_def)

lemma migrating_row:
  assumes "migrating s" "conn s'" "attr_cache s' = attr_cache s"
    and "t_sessions (work s') = map f (t_sessions (work s))" "row_ok (f (row_val (work s)))"
    and "f (row_val (work s)) TestMode = row_val (work s) TestMode" "f (row_val (work s)) DcId = row_val (work s) DcId"
  shows "migrating s'"
proof -
  have "t_sessions (work s) = [row_val (work s)]" using assms(1) by (intro one_row) (simp add: migrating_def row_fits_def)
  with assms(4) have t: "t_sessions (work s') = [f (row_val (work s))]" by (metis list.map)
  then have v: "row_val (work s') = f (row_val (work s))" by simp
  show ?thesis unfolding migrating_def row_fits_def v
    using assms t unfolding migrating_def by auto
qed

lemma add_columns_migrating:
  assumes "migrating s" "as \<inter> {TestMode, DcId, Date} = {}"
  shows "migrating (add_columns as s)"
proof (rule migrating_row [OF assms(1)])
  show "t_sessions (work (add_columns as s)) = map (\<lambda>r a. if a \<in> as then NoVal else r a) (t_sessions (work s))"
    by (simp add: add_columns_def)
  have "row_ok (row_val (work s))" using assms(1) by (simp add: migrating_def row_fits_def)
  moreover have "a \<in> as \<Longrightarrow> storable a NoVal" for a using assms(2) by (auto simp: storable_def check_column_def)
  ultimately show "row_ok (\<lambda>a. if a \<in> as then NoVal else row_val (work s) a)" by (simp add: row_ok_def)
qed (use assms in \<open>auto simp: add_columns_def migrating_def\<close>)

lemma read_migrating:
  assumes "migrating s" "a \<in> {TestMode, DcId}"
  shows "\<exists>v s'. read_attr a s = (Inr v, s') \<and> migrating s' \<and> work s' = work s"
  using assms by (auto simp: read_attr_def migrating_def cache_remember_def row_fits_def row_ok_def split: option.split)

lemma migrate_servers_migrating:
  assumes "migrating s"
  shows "\<exists>s'. migrate_servers s = Inr s' \<and> migrating s'"
proof -
  from read_migrating [OF assms, of TestMode] obtain v1 s1 where r1: "read_attr TestMode s = (Inr v1, s1)" "migrating s1" by auto
  from read_migrating [OF r1(2), of DcId] obtain v2 s2 where r2: "read_attr DcId s1 = (Inr v2, s2)" "migrating s2" by auto
  show ?thesis
  proof (cases "server_of v1 v2")
    case None
    with r1 r2 show ?thesis by (simp add: migrate_servers_def)
  next
    case (Some address)
    let ?f = "\<lambda>r. r(ServerAddress := TextVal address, Port := IntVal (default_port (val_truthy v1)))"
    let ?s = "commit (s2\<lparr>work := (work s2)\<lparr>t_sessions := map ?f (t_sessions (work s2))\<rparr>\<rparr>)"
    have "row_ok (row_val (work s2))" using r2(2) by (simp add: migrating_def row_fits_def)
    moreover have "storable ServerAddress (TextVal address)" "storable Port (IntVal (default_port (val_truthy v1)))"
      by (simp_all add: storable_def check_column_def default_port_def)
    ultimately have "row_ok (?f (row_val (work s2)))" by (simp add: row_ok_def)
    with r2(2) have "migrating ?s" by (intro migrating_row [OF r2(2), where f = ?f]) (simp_all add: migrating_def)
    with r1 r2 Some show ?thesis by (simp add: migrate_servers_def)
  qed
qed

lemma migrate_step_migrating:
  assumes "migrating s"
  shows "\<exists>s'. migrate_step (v, s) n = Inr (if v = n \<and> n \<in> {1, 2, 3, 4, 5, 6, 7} then v + 1 else v, s') \<and> migrating s'"
proof (cases "v = n \<and> n = 7")
  case True
  with migrate_servers_migrating [OF assms] show ?thesis by (auto simp: migrate_step_def)
next
  case False
  have "conn s" using assms by (simp add: migrating_def)
  with False assms show ?thesis
    by (auto simp: migrate_step_def intro: add_columns_migrating migrating_same [OF assms])
qed

lemma migrate_steps_migrating:
  "migrating s \<Longrightarrow> set ns \<subseteq> {1, 2, 3, 4, 5, 6, 7} \<Longrightarrow> \<exists>s'. foldl (\<lambda>r n. bindR r (\<lambda>vs. migrate_step vs n)) (Inr (v, s)) ns =
      Inr (foldl (\<lambda>v n. if v = n then v + 1 else v) v ns, s') \<and> migrating s'"
proof (induction ns arbitrary: v s)
  case (Cons n ns)
  from migrate_step_migrating [OF Cons.prems(1), of v n] Cons.prems(2) obtain s' where
    "migrate_step (v, s) n = Inr (if v = n then v + 1 else v, s')" "migrating s'" by auto
  with Cons.IH [of s' "if v = n then v + 1 else v"] Cons.prems(2) show ?case by simp
qed simp

lemma update_schema_ok:
  assumes "migrating s" "1 \<le> t_version (work s)" "t_version (work s) \<le> 8"
  shows "\<exists>s'. update_schema s = Inr s' \<and> migrating s' \<and> t_version (work s') = VERSION \<and> committed s' = Some (work s')"
proof -
  from migrate_steps_migrating [OF assms(1), of "[1, 2, 3, 4, 5, 6, 7]" "t_version (work s)"] obtain s' where
    f: "foldl (\<lambda>r n. bindR r (\<lambda>vs. migrate_step vs n)) (Inr (t_version (work s), s)) [1, 2, 3, 4, 5, 6, 7] =
      Inr (foldl (\<lambda>v n. if v = n then v + 1 else v) (t_version (work s)) [1, 2, 3, 4, 5, 6, 7], s')" "migrating s'" by auto
  from assms(2,3) have "t_version (work s) \<in> {1, 2, 3, 4, 5, 6, 7, 8}" by auto
  then have v: "foldl (\<lambda>v n. if v = n then v + 1 else v) (t_version (work s)) [1, 2, 3, 4, 5, 6, 7] = VERSION"
    by (auto simp: VERSION_def)
  let ?s = "commit (s'\<lparr>work := (work s')\<lparr>t_version := VERSION\<rparr>\<rparr>)"
  have "migrating ?s" using f(2) by (intro migrating_same [OF f(2)]) (simp_all add: migrating_def)
  then show ?thesis using f(1) by (simp add: update_schema_def v del: foldl_Cons)
qed

lemma migrating_ok: "migrating s \<Longrightarrow> sqlite_ok s"
proof -
  assume "migrating s"
  then have "caches (attr_cache s a) (row_val (work s) a)" for a by (cases "attr_cache s a") (auto simp: migrating_def)
  with \<open>migrating s\<close> show ?thesis by (simp add: sqlite_ok_def migrating_def row_fits_def)
qed

text \<open>
  A session file of any earlier schema opens: the migration ends at the current version with one sound session row,
  committed.
\<close>

theorem old_files_open:
  assumes "\<not> in_memory s" "committed s = Some file" "attr_cache s = Map.empty" "row_fits file" "1 \<le> t_version file" "t_version file \<le> 8"
  shows "\<exists>s'. open_sqlite crc s = (Inr (), s') \<and> sqlite_ok s' \<and> look s' = row_val (work s') \<and> t_version (work s') = VERSION \<and>
    committed s' = Some (work s')"
proof -
  have "migrating (s\<lparr>conn := True, work := file\<rparr>)" using assms by (simp add: migrating_def)
  from update_schema_ok [OF this] assms obtain s1 where u: "update_schema (s\<lparr>conn := True, work := file\<rparr>) = Inr s1" "migrating s1"
    "t_version (work s1) = VERSION" "committed s1 = Some (work s1)" by auto
  have "committed (ensure_committed (load_cache s1)) = Some (work s1)"
    using load_cache_ok [OF migrating_ok [OF u(2)]] u(4) by (simp add: ensure_committed_def)
  with load_cache_ok [OF migrating_ok [OF u(2)]] u assms(1,2) show ?thesis by (simp add: open_sqlite_def)
qed

text \<open>What is on file unless a flush is due, and how full a batch is.\<close>

definition commit_ok :: "sqlite \<Rightarrow> bool" where
  "commit_ok s \<longleftrightarrow> (if dirty s then flush_pending s else committed s = Some (work s)) \<and> write_count s < AUTO_COMMIT_INTERVAL"

lemma look_column: "sqlite_ok s \<Longrightarrow> column (look s a) = row_val (work s) a"
proof -
  assume "sqlite_ok s"
  then have "caches (attr_cache s a) (row_val (work s) a)" "column (row_val (work s) a) = row_val (work s) a"
    by (simp_all add: sqlite_ok_def row_ok_def)
  then show ?thesis
    by (cases "(attr_cache s a, row_val (work s) a)" rule: caches.cases) (simp_all add: look_def cache_get_def)
qed

lemma migrate_none: "list_all (\<lambda>n. n \<noteq> v) ns \<Longrightarrow> foldl (\<lambda>r n. bindR r (\<lambda>vs. migrate_step vs n)) (Inr (v, s)) ns = Inr (v, s)"
  by (induction ns) (simp_all add: migrate_step_def)

lemma current_schema: "t_version (work s) = VERSION \<Longrightarrow> update_schema s = Inr (commit s)"
proof -
  assume v: "t_version (work s) = VERSION"
  then have "(work s)\<lparr>t_version := VERSION\<rparr> = work s" by (cases "work s") simp
  then have "s\<lparr>work := (work s)\<lparr>t_version := VERSION\<rparr>\<rparr> = s" by (cases s) simp
  with v migrate_none [of VERSION "[1, 2, 3, 4, 5, 6, 7]" s] show ?thesis by (simp add: update_schema_def VERSION_def)
qed

lemma close_committed:
  assumes "commit_ok s" "conn s" "\<not> in_memory s"
  shows "committed (close_sqlite s) = Some (work s)" "attr_cache (close_sqlite s) = Map.empty" "in_memory (close_sqlite s) = in_memory s"
  using assms by (auto simp: close_sqlite_def Let_def ensure_committed_def commit_ok_def split: if_splits)

text \<open>
  C30. A storage on file that is closed and opened again has the same tables, and its attributes as their columns hold
  them.
\<close>

theorem restart_keeps:
  assumes "sqlite_ok s" "commit_ok s" "\<not> in_memory s" "t_version (work s) = VERSION"
  shows "\<exists>s'. open_sqlite crc (close_sqlite s) = (Inr (), s') \<and> sqlite_ok s' \<and> work s' = work s \<and> look s' = column \<circ> look s"
proof -
  have c: "conn s" using assms(1) by (simp add: sqlite_ok_def)
  let ?t = "commit ((close_sqlite s)\<lparr>conn := True, work := work s\<rparr>)"
  have ok: "sqlite_ok ?t" using assms(1) close_committed(2) [OF assms(2) c assms(3)] by (simp add: sqlite_ok_def)
  have "open_sqlite crc (close_sqlite s) = (Inr (), ensure_committed (load_cache ?t))"
    using close_committed [OF assms(2) c assms(3)] assms(3) current_schema [of "(close_sqlite s)\<lparr>conn := True, work := work s\<rparr>"] assms(4)
    by (simp add: open_sqlite_def)
  moreover have "row_val (work s) = column \<circ> look s" using look_column [OF assms(1)] by (simp add: fun_eq_iff)
  ultimately show ?thesis using load_cache_ok [OF ok] by simp
qed

section \<open>Batches\<close>

datatype sqlite_op =
  ReadAttr attr | WriteAttr attr val | Save clock_pair | FlushTask | UpdatePeers clock_pair "peer_row list" |
  UpdateUsernames "(int \<times> ustr list) list" | UpdateState state_arg | PeerById int

fun sqlite_step :: "sqlite_op \<Rightarrow> sqlite \<Rightarrow> sqlite" where
  "sqlite_step (ReadAttr a) s = snd (read_attr a s)"
| "sqlite_step (WriteAttr a v) s = snd (write_attr a v s)"
| "sqlite_step (Save now) s = snd (save_sqlite now s)"
| "sqlite_step FlushTask s = flush_later s"
| "sqlite_step (UpdatePeers now ps) s = update_peers now ps s"
| "sqlite_step (UpdateUsernames us) s = update_usernames us s"
| "sqlite_step (UpdateState v) s = update_state v s"
| "sqlite_step (PeerById i) s = snd (get_peer_by_id i s)"

abbreviation sqlite_run :: "sqlite_op list \<Rightarrow> sqlite \<Rightarrow> sqlite" where
  "sqlite_run ops s \<equiv> fold sqlite_step ops s"

text \<open>How many operations of a run changed the tables.\<close>

fun changes :: "sqlite_op list \<Rightarrow> sqlite \<Rightarrow> nat" where
  "changes [] s = 0"
| "changes (op # ops) s = (if work (sqlite_step op s) = work s then 0 else 1) + changes ops (sqlite_step op s)"

lemma changes_append: "changes (xs @ ys) s = changes xs s + changes ys (sqlite_run xs s)"
  by (induction xs arbitrary: s) simp_all

text \<open>The fields a commit depends on.\<close>

definition same_commit :: "sqlite \<Rightarrow> sqlite \<Rightarrow> bool" where
  "same_commit s s' \<longleftrightarrow> conn s' = conn s \<and> committed s' = committed s \<and> dirty s' = dirty s \<and> write_count s' = write_count s \<and>
     flush_pending s' = flush_pending s"

text \<open>An operation leaves the tables, ends in \<open>maybe_commit\<close>, or commits what it has.\<close>

lemma step_cases:
  assumes "conn s"
  obtains (quiet) "same_commit s (sqlite_step op s)" "work (sqlite_step op s) = work s"
    | (wrote) s1 where "same_commit s s1" "sqlite_step op s = maybe_commit s1"
    | (saved) s1 where "same_commit s s1" "sqlite_step op s = ensure_committed (maybe_commit s1)"
    | (flushed) "sqlite_step op s = flush_later s"
proof (cases op)
  case (ReadAttr a)
  with assms show thesis by (intro quiet) (auto simp: same_commit_def read_attr_def split: option.split)
next
  case (WriteAttr a v)
  show thesis
  proof (cases "update_sessions a v (work s)")
    case (Inl e)
    with WriteAttr assms show thesis by (intro quiet) (simp_all add: same_commit_def write_attr_def)
  next
    case (Inr t)
    with WriteAttr assms show thesis
      by (intro wrote [of "s\<lparr>work := t, attr_cache := cache_set a v (attr_cache s)\<rparr>"]) (simp_all add: same_commit_def write_attr_def)
  qed
next
  case (Save now)
  let ?v = "IntVal \<lfloor>wall now\<rfloor>"
  show thesis
  proof (cases "update_sessions Date ?v (work s)")
    case (Inl e)
    with Save assms show thesis by (intro quiet) (simp_all add: same_commit_def save_sqlite_def write_attr_def)
  next
    case (Inr t)
    with Save assms show thesis
      by (intro saved [of "s\<lparr>work := t, attr_cache := cache_set Date ?v (attr_cache s)\<rparr>"])
        (simp_all add: same_commit_def save_sqlite_def write_attr_def)
  qed
next
  case (UpdatePeers now ps)
  obtain fresh c where f: "fresh_peers (mono_time now) ps (peer_cache s) = (fresh, c)" by fastforce
  show thesis
  proof (cases "ps = [] \<or> fresh = []")
    case True
    with UpdatePeers f show thesis by (intro quiet) (auto simp: same_commit_def update_peers_def Let_def)
  next
    case False
    with UpdatePeers assms f show thesis
      by (intro wrote [of "s\<lparr>work := fold (replace_peer \<lfloor>wall now\<rfloor>) fresh (work s), peer_cache := fold (remember_peer (mono_time now)) fresh c\<rparr>"])
        (simp_all add: same_commit_def update_peers_def)
  qed
next
  case (UpdateUsernames us)
  let ?t = "fold insert_username (concat (map (\<lambda>(i, ns). map (\<lambda>n. (i, n)) ns) us)) (fold delete_usernames (map fst us) (work s))"
  show thesis
  proof (cases "us = []")
    case True
    with UpdateUsernames show thesis by (intro quiet) (simp_all add: same_commit_def update_usernames_def)
  next
    case False
    with UpdateUsernames assms show thesis
      by (intro wrote [of "s\<lparr>work := ?t\<rparr>"]) (simp_all add: same_commit_def update_usernames_def Let_def)
  qed
next
  case (UpdateState v)
  let ?t = "case v of DeleteState i \<Rightarrow> delete_state i (work s) | WriteState i r \<Rightarrow> upsert_state i r (work s)"
  from UpdateState assms show thesis
    by (intro wrote [of "s\<lparr>work := ?t\<rparr>"]) (cases v; simp add: same_commit_def update_state_def)+
next
  case (PeerById i)
  with assms show thesis
    by (intro quiet) (auto simp: same_commit_def get_peer_by_id_def Let_def split: prod.split option.split)
qed (use flushed in simp)

lemma maybe_commit_counts:
  assumes "conn s" "write_count s < AUTO_COMMIT_INTERVAL"
  shows "dirty (maybe_commit s) \<and> flush_pending (maybe_commit s) \<and> write_count (maybe_commit s) = write_count s + 1 \<and>
      write_count (maybe_commit s) < AUTO_COMMIT_INTERVAL \<and> committed (maybe_commit s) = committed s
    \<or> \<not> dirty (maybe_commit s) \<and> write_count (maybe_commit s) = 0 \<and> committed (maybe_commit s) = Some (work s)"
  using assms by (simp add: maybe_commit_def Let_def ensure_committed_def schedule_flush_def)

lemma step_commit_ok:
  assumes "conn s" "commit_ok s"
  shows "conn (sqlite_step op s)" "commit_ok (sqlite_step op s)"
    "committed (sqlite_step op s) = Some (work (sqlite_step op s)) \<or>
     committed (sqlite_step op s) = committed s \<and>
       (if work (sqlite_step op s) = work s then 0 else 1) + write_count s \<le> write_count (sqlite_step op s)"
proof -
  let ?s = "sqlite_step op s"
  have "conn ?s \<and> commit_ok ?s \<and> (committed ?s = Some (work ?s) \<or>
      committed ?s = committed s \<and>
      (if work ?s = work s then 0 else 1) + write_count s \<le> write_count ?s)"
    using assms(1)
  proof (cases rule: step_cases [where op = op])
    case quiet
    with assms show ?thesis by (auto simp: same_commit_def commit_ok_def)
  next
    case (wrote s1)
    then have "conn s1" "write_count s1 < AUTO_COMMIT_INTERVAL" using assms by (auto simp: same_commit_def commit_ok_def)
    with maybe_commit_counts [OF this] wrote assms show ?thesis by (auto simp: same_commit_def commit_ok_def AUTO_COMMIT_INTERVAL_def)
  next
    case (saved s1)
    then have c: "conn s1" "write_count s1 < AUTO_COMMIT_INTERVAL" using assms by (auto simp: same_commit_def commit_ok_def)
    with maybe_commit_counts [OF c] saved show ?thesis
      by (auto simp: same_commit_def commit_ok_def AUTO_COMMIT_INTERVAL_def ensure_committed_def)
  next
    case flushed
    with assms show ?thesis
      by (auto simp: commit_ok_def flush_later_def ensure_committed_def Let_def AUTO_COMMIT_INTERVAL_def)
  qed
  then show "conn ?s" "commit_ok ?s" "committed ?s = Some (work ?s) \<or>
      committed ?s = committed s \<and>
      (if work ?s = work s then 0 else 1) + write_count s \<le> write_count ?s" by blast+
qed

lemma run_commit_ok: "conn s \<Longrightarrow> commit_ok s \<Longrightarrow> conn (sqlite_run ops s) \<and> commit_ok (sqlite_run ops s)"
  by (induction ops arbitrary: s) (simp_all add: step_commit_ok)

lemma uncommitted_run:
  assumes "conn s" "commit_ok s" "committed s = Some (work s)"
  shows "\<exists>safe pending. ops = safe @ pending \<and> committed (sqlite_run ops s) = Some (work (sqlite_run safe s)) \<and>
    changes pending (sqlite_run safe s) \<le> write_count (sqlite_run ops s)"
proof (induction ops rule: rev_induct)
  case Nil
  then show ?case using assms(3) by auto
next
  case (snoc op ops)
  then obtain safe pending where p: "ops = safe @ pending" "committed (sqlite_run ops s) = Some (work (sqlite_run safe s))"
    "changes pending (sqlite_run safe s) \<le> write_count (sqlite_run ops s)" by blast
  let ?t = "sqlite_run ops s" and ?t' = "sqlite_run (ops @ [op]) s"
  have e: "?t' = sqlite_step op ?t" by simp
  from run_commit_ok [OF assms(1,2), of ops] have ok: "conn ?t" "commit_ok ?t" by simp_all
  from step_commit_ok(3) [OF ok, of op] consider "committed ?t' = Some (work ?t')"
    | "committed ?t' = committed ?t" "(if work ?t' = work ?t then 0 else 1) + write_count ?t \<le> write_count ?t'"
    unfolding e by blast
  then show ?case
  proof cases
    case 1
    then show ?thesis by (intro exI [of _ "ops @ [op]"] exI [of _ "[]"]) simp
  next
    case 2
    have "changes (pending @ [op]) (sqlite_run safe s) = changes pending (sqlite_run safe s) + (if work ?t' = work ?t then 0 else 1)"
      by (simp add: changes_append p(1))
    with 2 p have "changes (pending @ [op]) (sqlite_run safe s) \<le> write_count ?t'" by simp
    with 2 p show ?thesis by (intro exI [of _ safe] exI [of _ "pending @ [op]"]) simp
  qed
qed


end
