(* ===== verification/Sqlite_Peers.thy ===== *)
theory Sqlite_Peers
  imports Sqlite_Laws
begin

text \<open>
  The peers of the SQLite engine: the row cache never answers otherwise than the table, and skipping the writes of rows
  that have not changed keeps every peer young enough to be found by name. Two flaws are shown by example.
\<close>

section \<open>Tables keyed by an integer\<close>

lemma map_of_insort: "k \<notin> fst ` set t \<Longrightarrow> map_of (insort_key fst (k, r) t) = (map_of t)(k \<mapsto> r)"
  by (induction t) (auto simp: fun_eq_iff image_iff)

lemma map_of_replace_row [simp]: "map_of (replace_row k r t) = (map_of t)(k \<mapsto> r)"
proof -
  have "map_of (filter (\<lambda>kr. fst kr \<noteq> k) t) j = (if j = k then None else map_of t j)" for j
    by (induction t) auto
  then have "(map_of (filter (\<lambda>kr. fst kr \<noteq> k) t))(k \<mapsto> r) = (map_of t)(k \<mapsto> r)" by (simp add: fun_eq_iff)
  moreover have "k \<notin> fst ` set (filter (\<lambda>kr. fst kr \<noteq> k) t)" by auto
  ultimately show ?thesis by (simp add: replace_row_def map_of_insort)
qed

lemma replace_peer_peers: "map_of (t_peers (replace_peer on (i, h, ty, ph) t)) = (map_of (t_peers t))(i \<mapsto> (h, ty, ph, on))"
  by (simp add: replace_peer_def)

section \<open>The cache agrees with the table\<close>

text \<open>
  Every cached row is that of the table; one that was written also has the phone number, and \<open>P\<close> relates when it was
  written to the time in the table.
\<close>

definition entry_ok :: "(rat \<Rightarrow> int \<Rightarrow> bool) \<Rightarrow> (int \<Rightarrow> db_peer option) \<Rightarrow> int \<times> cache_entry \<Rightarrow> bool" where
  "entry_ok P t ke =
     (case ke of (k, (row, ph, w)) \<Rightarrow>
        (case t k of
           None \<Rightarrow> False
         | Some (h, ty, ph', on) \<Rightarrow> row = (k, h, ty) \<and> (case w of None \<Rightarrow> True | Some m \<Rightarrow> ph = ph' \<and> P m on)))"

definition coherent :: "(rat \<Rightarrow> int \<Rightarrow> bool) \<Rightarrow> row_cache \<Rightarrow> tables \<Rightarrow> bool" where
  "coherent P c t \<longleftrightarrow> row_cache_ok c \<and> (\<forall>ke \<in> set (rows c). entry_ok P (map_of (t_peers t)) ke)"

lemma coherent_move [simp]: "coherent P c t \<Longrightarrow> coherent P (move_to_end k c) t"
  by (simp add: coherent_def)

lemma coherent_reads:
  "coherent P c t \<Longrightarrow> coherent P (snd (get_row k c)) t" "coherent P c t \<Longrightarrow> coherent P (snd (matches_row now p c)) t"
  using row_reads(1) [of k c] row_reads(2) [of now p c] by auto

lemma remembered_rows:
  "set (rows (remember_row now row ph w c)) \<subseteq>
     insert (fst row, (row, ph, if w then Some now else None)) (set (filter (\<lambda>kv. fst kv \<noteq> fst row) (rows c)))"
proof -
  let ?rs = "filter (\<lambda>kv. fst kv \<noteq> fst row) (rows c) @ [(fst row, (row, ph, if w then Some now else None))]"
  have "rows (remember_row now row ph w c) = drop (length ?rs - cache_size c) ?rs"
    by (simp add: remember_row_def Let_def evict_drop pop_row_def del: drop_append)
  then have "set (rows (remember_row now row ph w c)) \<subseteq> set ?rs" by (metis set_drop_subset)
  then show ?thesis by simp
qed

lemma coherent_remember:
  assumes "coherent P c t" "P now on"
  shows "coherent P (remember_peer now p c) (replace_peer on p t)"
proof -
  obtain i h ty ph where p: "p = (i, h, ty, ph)" by (cases p)
  let ?t = "map_of (t_peers (replace_peer on p t))"
  have t: "?t = (map_of (t_peers t))(i \<mapsto> (h, ty, ph, on))" by (simp add: p replace_peer_peers)
  have new: "entry_ok P ?t (i, ((i, h, ty), ph, Some now))" using assms(2) by (simp add: entry_ok_def t)
  have old: "entry_ok P ?t ke" if "ke \<in> set (rows c)" "fst ke \<noteq> i" for ke
    using assms(1) that by (auto simp: coherent_def entry_ok_def t split: prod.splits)
  have "entry_ok P ?t ke" if "ke \<in> set (rows (remember_peer now p c))" for ke
  proof -
    from that remembered_rows [of now "(i, h, ty)" ph True c] have "ke = (i, ((i, h, ty), ph, Some now)) \<or> ke \<in> set (rows c) \<and> fst ke \<noteq> i"
      by (auto simp: remember_peer_def p)
    with new old show ?thesis by blast
  qed
  then show ?thesis using assms(1) by (simp add: coherent_def remember_peer_def p)
qed

lemma coherent_fetched:
  assumes "coherent P c t" "map_of (t_peers t) i = Some r"
  shows "coherent P (remember_row now (row_key (i, r)) None False c) t"
proof -
  obtain h ty ph on where r: "r = (h, ty, ph, on)" by (cases r)
  have new: "entry_ok P (map_of (t_peers t)) (i, ((i, h, ty), None, None))" using assms(2) by (simp add: entry_ok_def r)
  have "entry_ok P (map_of (t_peers t)) ke" if "ke \<in> set (rows (remember_row now (i, h, ty) None False c))" for ke
  proof -
    from that remembered_rows [of now "(i, h, ty)" None False c] have "ke = (i, ((i, h, ty), None, None)) \<or> ke \<in> set (rows c)" by auto
    with new assms(1) show ?thesis by (auto simp: coherent_def)
  qed
  then show ?thesis using assms(1) by (simp add: coherent_def row_key_def r)
qed

lemma coherent_fresh: "coherent P c t \<Longrightarrow> coherent P (snd (fresh_peers now ps c)) t"
  by (induction ps arbitrary: c) (auto simp: coherent_reads split: prod.splits, metis coherent_reads(2) snd_conv)

lemma coherent_fold:
  "coherent P c t \<Longrightarrow> P now on \<Longrightarrow> coherent P (fold (remember_peer now) ps c) (fold (replace_peer on) ps t)"
  by (induction ps arbitrary: c t) (simp_all add: coherent_remember)

lemma other_tables [simp]:
  "t_peers (fold delete_usernames is t) = t_peers t" "t_peers (fold insert_username us t) = t_peers t"
  "t_peers (upsert_state i r t) = t_peers t" "t_peers (delete_state i t) = t_peers t"
proof -
  show "t_peers (fold delete_usernames is t) = t_peers t" by (induction "is" arbitrary: t) (simp_all add: delete_usernames_def)
  show "t_peers (fold insert_username us t) = t_peers t" by (induction us arbitrary: t) (simp_all add: insert_username_def)
qed (simp_all add: upsert_state_def delete_state_def)

lemma coherent_peers: "t_peers t = t_peers t' \<Longrightarrow> coherent P c t = coherent P c t'"
  by (simp add: coherent_def)

text \<open>The operations stamp what they write by clocks that \<open>P\<close> relates.\<close>

fun stamps :: "(rat \<Rightarrow> int \<Rightarrow> bool) \<Rightarrow> sqlite_op \<Rightarrow> bool" where
  "stamps P (UpdatePeers now ps) = P (mono_time now) \<lfloor>wall now\<rfloor>"
| "stamps P _ = True"

lemma save_peers: "t_peers (work (snd (save_sqlite now s))) = t_peers (work s) \<and> peer_cache (snd (save_sqlite now s)) = peer_cache s"
  by (cases "check_column Date (IntVal \<lfloor>wall now\<rfloor>)") (auto simp: save_sqlite_def write_attr_def update_sessions_def)

lemma write_attr_peers: "t_peers (work (snd (write_attr a v s))) = t_peers (work s) \<and> peer_cache (snd (write_attr a v s)) = peer_cache s"
  by (cases "check_column a v") (auto simp: write_attr_def update_sessions_def)

lemma step_coherent:
  assumes "coherent P (peer_cache s) (work s)" "stamps P op"
  shows "coherent P (peer_cache (sqlite_step op s)) (work (sqlite_step op s))"
proof (cases op)
  case (ReadAttr a)
  with assms(1) show ?thesis by (simp add: read_attr_def split: option.split)
next
  case (WriteAttr a v)
  with assms(1) write_attr_peers [of a v s] show ?thesis by (simp add: coherent_peers [of "work (snd (write_attr a v s))" "work s"])
next
  case (Save now)
  with assms(1) save_peers [of now s] show ?thesis by (simp add: coherent_peers [of "work (snd (save_sqlite now s))" "work s"])
next
  case FlushTask
  with assms(1) show ?thesis by simp
next
  case (UpdatePeers now ps)
  obtain fresh c where f: "fresh_peers (mono_time now) ps (peer_cache s) = (fresh, c)" by fastforce
  with coherent_fresh [OF assms(1), of "mono_time now" ps] have c: "coherent P c (work s)" by simp
  with UpdatePeers assms f coherent_fold [OF c, of "mono_time now" "\<lfloor>wall now\<rfloor>" fresh] show ?thesis
    by (simp add: update_peers_def Let_def)
next
  case (UpdateUsernames us)
  with assms(1) show ?thesis by (simp add: update_usernames_def Let_def coherent_def)
next
  case (UpdateState v)
  with assms(1) show ?thesis by (cases v) (simp_all add: update_state_def coherent_def)
next
  case (PeerById i)
  with assms(1) coherent_reads(1) [OF assms(1), of i] show ?thesis
    by (auto simp: get_peer_by_id_def coherent_fetched Let_def split: prod.splits option.splits)
qed

lemma run_coherent:
  "coherent P (peer_cache s) (work s) \<Longrightarrow> list_all (stamps P) ops \<Longrightarrow> coherent P (peer_cache (sqlite_run ops s)) (work (sqlite_run ops s))"
  by (induction ops arbitrary: s) (simp_all add: step_coherent)

section \<open>What the caches promise\<close>

lemma coherent_lookup:
  assumes "coherent P c t" "map_of (rows c) i = Some (row, ph, w)"
  shows "\<exists>h ty ph' on. map_of (t_peers t) i = Some (h, ty, ph', on) \<and> row = (i, h, ty) \<and> (\<forall>m. w = Some m \<longrightarrow> ph = ph' \<and> P m on)"
proof -
  have "entry_ok P (map_of (t_peers t)) (i, (row, ph, w))" using assms by (auto simp: coherent_def dest: map_of_SomeD)
  then show ?thesis by (auto simp: entry_ok_def split: option.splits)
qed


text \<open>The clock that stamps the table and the one that stamps the cache run at the same speed.\<close>

definition in_step :: "rat \<Rightarrow> rat \<Rightarrow> int \<Rightarrow> bool" where
  "in_step off m on \<longleftrightarrow> on = \<lfloor>m + off\<rfloor>"

text \<open>The row of a peer in the table, and how old it is.\<close>

definition has_row :: "rat \<Rightarrow> (int \<Rightarrow> db_peer option) \<Rightarrow> peer_row \<Rightarrow> bool" where
  "has_row since t p =
     (case p of (i, h, ty, ph) \<Rightarrow> (case t i of None \<Rightarrow> False | Some (h', ty', ph', on) \<Rightarrow> h' = h \<and> ty' = ty \<and> ph' = ph \<and> since \<le> of_int on))"

lemma matched_row:
  assumes "coherent (in_step off) c t" "fst (matches_row m p c)"
  shows "has_row (m + off - write_ttl c - 1) (map_of (t_peers t)) p"
proof -
  obtain i h ty ph where p: "p = (i, h, ty, ph)" by (cases p)
  from assms(2) obtain w where l: "map_of (rows c) i = Some ((i, h, ty), ph, Some w)" "\<not> write_ttl c < m - w"
    by (auto simp: matches_row_def p split: option.splits prod.splits if_splits)
  from coherent_lookup [OF assms(1) l(1)] obtain on where on: "map_of (t_peers t) i = Some (h, ty, ph, on)" "on = \<lfloor>w + off\<rfloor>"
    by (auto simp: in_step_def)
  have "w + off - 1 \<le> of_int \<lfloor>w + off\<rfloor>" by linarith
  with l(2) on show ?thesis by (simp add: has_row_def p)
qed

lemma ttl_kept [simp]: "write_ttl (snd (matches_row m p c)) = write_ttl c"
  using row_reads(2) [of m p c] by (auto simp: move_to_end_def)

lemma fresh_cases:
  assumes "coherent (in_step off) c t" "fst (fresh_peers m ps c) = fresh"
  shows "set fresh \<subseteq> set ps \<and> (\<forall>p \<in> set ps. p \<in> set fresh \<or> has_row (m + off - write_ttl c - 1) (map_of (t_peers t)) p)"
  using assms
proof (induction ps arbitrary: c fresh)
  case (Cons p ps)
  obtain b c' where m: "matches_row m p c = (b, c')" by fastforce
  obtain f c'' where f: "fresh_peers m ps c' = (f, c'')" by fastforce
  have c': "coherent (in_step off) c' t" "write_ttl c' = write_ttl c"
    using coherent_reads(2) [OF Cons.prems(1), of m p] ttl_kept [of m p c] m by simp_all
  from Cons.IH [OF c'(1), of f] f c'(2) have ih: "set f \<subseteq> set ps" "\<forall>p \<in> set ps. p \<in> set f \<or> has_row (m + off - write_ttl c - 1) (map_of (t_peers t)) p"
    by simp_all
  have "fresh = (if b then f else p # f)" using Cons.prems(2) m f by simp
  with ih matched_row [OF Cons.prems(1), of m p] m show ?case by auto
qed simp

lemma fresh_distinct:
  "distinct (map fst ps) \<Longrightarrow> distinct (map fst (fst (fresh_peers m ps c))) \<and> set (fst (fresh_peers m ps c)) \<subseteq> set ps"
proof (induction ps arbitrary: c)
  case (Cons p ps)
  obtain b c' where m: "matches_row m p c = (b, c')" by fastforce
  obtain f c'' where f: "fresh_peers m ps c' = (f, c'')" by fastforce
  from Cons.IH [of c'] Cons.prems f have "distinct (map fst f)" "set f \<subseteq> set ps" by simp_all
  with Cons.prems m f show ?case by auto
qed simp

text \<open>Storing peers with different identifiers one after the other.\<close>

lemma replaced_peers:
  assumes "distinct (map fst ps)"
  shows "map_of (t_peers (fold (replace_peer on) ps t)) i =
    (case map_of ps i of None \<Rightarrow> map_of (t_peers t) i | Some (h, ty, ph) \<Rightarrow> Some (h, ty, ph, on))"
  using assms
proof (induction ps arbitrary: t)
  case (Cons p ps)
  obtain k h ty ph where p: "p = (k, h, ty, ph)" by (cases p)
  have "i = k \<Longrightarrow> map_of ps i = None" using Cons.prems by (simp add: p map_of_eq_None_iff)
  with Cons show ?case by (auto simp: p replace_peer_peers split: option.split)
qed simp

text \<open>
  After \<open>update_peers\<close> every peer it was given is in the table with its data, whether it was written or skipped, and its
  row is at most half of \<open>USERNAME_TTL\<close> (and a second) old.
\<close>

theorem stored_peers_young:
  assumes "coherent (in_step off) (peer_cache s) (work s)" "conn s" "wall now = mono_time now + off"
    and "distinct (map fst ps)" "write_ttl (peer_cache s) = of_int USERNAME_TTL / 2"
  shows "list_all (has_row (wall now - of_int USERNAME_TTL / 2 - 1) (map_of (t_peers (work (update_peers now ps s))))) ps"
proof -
  obtain fresh c where f: "fresh_peers (mono_time now) ps (peer_cache s) = (fresh, c)" by fastforce
  let ?t = "map_of (t_peers (fold (replace_peer \<lfloor>wall now\<rfloor>) fresh (work s)))" and ?since = "wall now - of_int USERNAME_TTL / 2 - 1"
  have w: "?t = map_of (t_peers (work (update_peers now ps s)))"
    using assms(2) f by (cases "ps = []") (auto simp: update_peers_def Let_def)
  from fresh_cases [OF assms(1), of "mono_time now" ps fresh] f assms(3,5)
  have cases: "set fresh \<subseteq> set ps" "\<forall>p \<in> set ps. p \<in> set fresh \<or> has_row ?since (map_of (t_peers (work s))) p" by simp_all
  have d: "distinct (map fst fresh)" using fresh_distinct [OF assms(4), of "mono_time now" "peer_cache s"] f by simp
  have "has_row ?since ?t p" if p: "p \<in> set ps" for p
  proof -
    obtain i h ty ph where e: "p = (i, h, ty, ph)" by (cases p)
    show ?thesis
    proof (cases "map_of fresh i")
      case (Some r)
      then have "(i, r) \<in> set ps" using cases(1) by (blast dest: map_of_SomeD)
      then have "r = (h, ty, ph)" using p e assms(4) by (metis eq_key_imp_eq_value)
      moreover have "?since \<le> of_int \<lfloor>wall now\<rfloor>"
      proof -
        have "wall now - 1 \<le> of_int \<lfloor>wall now\<rfloor>" by linarith
        then show ?thesis by (simp add: USERNAME_TTL_def)
      qed
      ultimately show ?thesis using Some by (simp add: has_row_def e replaced_peers [OF d])
    next
      case None
      then have "p \<notin> set fresh" by (auto simp: e map_of_eq_None_iff image_iff)
      with cases(2) p have "has_row ?since (map_of (t_peers (work s))) p" by blast
      with None show ?thesis by (simp add: has_row_def e replaced_peers [OF d])
    qed
  qed
  then show ?thesis by (simp add: w list_all_iff)
qed

lemma only_row: "distinct (map fst t) \<Longrightarrow> (i, r) \<in> set t \<Longrightarrow> filter (\<lambda>kr. fst kr = i) t = [(i, r)]"
proof (induction t)
  case (Cons a t)
  then show ?case by (cases "fst a = i") (auto simp: filter_empty_conv image_iff)
qed simp

text \<open>
  A peer just stored with its name is found by that name for half of \<open>USERNAME_TTL\<close>, less a second, if no other peer
  of the table has the name.
\<close>

theorem stored_peer_named:
  assumes "has_row (since - of_int USERNAME_TTL / 2 - 1) (map_of (t_peers (work s))) (i, h, ty, ph)" and "conn s"
    and "distinct (map fst (t_peers (work s)))"
    and "filter (\<lambda>iu. snd iu = u) (t_usernames (work s)) = [(i, u)]"
    and "\<forall>kr \<in> set (t_peers (work s)). of_int (updated_on kr) \<le> wall now"
    and "wall now < since + of_int USERNAME_TTL / 2 - 1"
  shows "get_peer_by_username now u s = get_input_peer (i, h, ty)"
proof -
  from assms(1) obtain on where on: "map_of (t_peers (work s)) i = Some (h, ty, ph, on)" "since - of_int USERNAME_TTL / 2 - 1 \<le> of_int on"
    by (auto simp: has_row_def split: option.splits)
  from on(1) have m: "(i, h, ty, ph, on) \<in> set (t_peers (work s))" by (rule map_of_SomeD)
  let ?g = "\<lambda>kr. map (\<lambda>_. kr) (filter (\<lambda>iu. fst iu = fst kr \<and> snd iu = u) (t_usernames (work s)))"
  have "filter (\<lambda>iu. fst iu = k \<and> snd iu = u) (t_usernames (work s)) = filter (\<lambda>iu. fst iu = k) [(i, u)]" for k
    unfolding assms(4) [symmetric] by (simp add: conj_commute)
  then have g: "?g kr = (if fst kr = i then [kr] else [])" for kr by simp
  have "concat (map ?g ps) = filter (\<lambda>kr. fst kr = i) ps" for ps
    by (induction ps) (simp_all add: g)
  then have "peers_named u (work s) = filter (\<lambda>kr. fst kr = i) (t_peers (work s))" by (simp add: peers_named_def)
  also have "\<dots> = [(i, h, ty, ph, on)]" using assms(3) m by (rule only_row)
  finally have l: "latest (peers_named u (work s)) = Some (i, h, ty, ph, on)" by simp
  have "of_int on \<le> wall now" using assms(5) m by (auto simp: updated_on_def)
  with on(2) assms(6) have "\<not> of_int USERNAME_TTL < \<bar>wall now - of_int on\<bar>" by (simp add: USERNAME_TTL_def)
  with l assms(2) show ?thesis by (simp add: get_peer_by_username_def updated_on_def row_key_def)
qed

section \<open>Examples\<close>

text \<open>A storage in memory that has just been opened.\<close>

definition opened :: sqlite where
  "opened = create ((new_sqlite True None 4096)\<lparr>conn := True\<rparr>)"

lemma opened_coherent: "coherent P (peer_cache opened) (work opened)"
  by (simp add: opened_def create_def new_sqlite_def coherent_def create_tables_def) (simp add: new_row_cache_def)

definition at_time :: "rat \<Rightarrow> clock_pair" where
  "at_time t = \<lparr>wall = 1000000 + t, mono_time = t\<rparr>"

definition user_a :: peer_row where "user_a = (1, 11, ustr ''user'', None)"
definition user_b :: peer_row where "user_b = (2, 22, ustr ''user'', None)"


text \<open>The second call skips the peer, which was written an hour before.\<close>

lemma stored_peers_young_witness:
  "list_all (has_row (1000000 + 3600 - of_int USERNAME_TTL / 2 - 1)
     (map_of (t_peers (work (update_peers (at_time 3600) [user_a] (sqlite_run [UpdatePeers (at_time 0) [user_a]] opened)))))) [user_a]"
proof -
  let ?s = "sqlite_run [UpdatePeers (at_time 0) [user_a]] opened"
  have "coherent (in_step 1000000) (peer_cache ?s) (work ?s)"
    using opened_coherent by (rule run_coherent) (simp add: in_step_def at_time_def)
  moreover have "conn ?s" "write_ttl (peer_cache ?s) = of_int USERNAME_TTL / 2" by code_simp+
  ultimately show ?thesis
    using stored_peers_young [where off = 1000000 and now = "at_time 3600" and ps = "[user_a]" and s = ?s]
    by (simp add: at_time_def)
qed

lemma stored_peer_named_witness:
  "get_peer_by_username (at_time 14000) (ustr ''ann'')
     (sqlite_run [UpdatePeers (at_time 0) [user_a], UpdateUsernames [(1, [ustr ''ann''])]] opened) = Inr (InputPeerUser 1 11)"
proof -
  let ?s = "sqlite_run [UpdatePeers (at_time 0) [user_a], UpdateUsernames [(1, [ustr ''ann''])]] opened"
  have r: "has_row (1000000 - of_int USERNAME_TTL / 2 - 1) (map_of (t_peers (work ?s))) (1, 11, ustr ''user'', None)" by code_simp
  have "conn ?s" by code_simp
  moreover have "distinct (map fst (t_peers (work ?s)))" by code_simp
  moreover have "filter (\<lambda>iu. snd iu = ustr ''ann'') (t_usernames (work ?s)) = [(1, ustr ''ann'')]" by code_simp
  moreover have "\<forall>kr \<in> set (t_peers (work ?s)). of_int (updated_on kr) \<le> wall (at_time 14000)" by code_simp
  moreover have "wall (at_time 14000) < 1000000 + of_int USERNAME_TTL / 2 - 1" by code_simp
  ultimately show ?thesis using stored_peer_named [OF r] by (simp add: get_input_peer_def)
qed

text \<open>
  A name that moves to a peer whose write was skipped still finds its former owner: the row of the new owner looks older
  than that of the former one.
\<close>

lemma stale_owner_wins:
  "get_peer_by_username (at_time 7201) (ustr ''ann'')
     (sqlite_run [UpdatePeers (at_time 0) [user_a],
        UpdatePeers (at_time 3600) [user_b], UpdateUsernames [(2, [ustr ''ann''])],
        UpdatePeers (at_time 7200) [user_a], UpdateUsernames [(1, [ustr ''ann''])]] opened) = Inr (InputPeerUser 2 22)"
  by code_simp

text \<open>
  Closing a storage leaves its row cache as it is: in the tables a storage in memory starts from again, the peers it still
  remembers are neither found by name nor written when they are seen again.
\<close>

lemma reopened_cache_stale:
  "get_peer_by_username (at_time 20) (ustr ''ann'')
     (sqlite_run [UpdatePeers (at_time 10) [user_a], UpdateUsernames [(1, [ustr ''ann''])]]
        (snd (open_sqlite (\<lambda>_. 0) (close_sqlite (sqlite_run [UpdatePeers (at_time 0) [user_a]] opened))))) = Inl (KeyErrorText (ustr ''ann''))"
  by code_simp

lemma opened_ok: "sqlite_ok opened" "commit_ok opened" "committed opened = Some (work opened)" "conn opened" "t_version (work opened) = VERSION"
proof -
  show "sqlite_ok opened" using create_ok [of "new_sqlite True None 4096"] by (simp add: opened_def new_sqlite_def)
qed (simp_all add: opened_def create_def new_sqlite_def commit_ok_def AUTO_COMMIT_INTERVAL_def create_tables_def)


definition opened_file :: sqlite where
  "opened_file = opened\<lparr>in_memory := False\<rparr>"

lemma restart_keeps_witness:
  "\<exists>s'. open_sqlite (\<lambda>_. 0) (close_sqlite opened_file) = (Inr (), s') \<and> sqlite_ok s' \<and> work s' = work opened_file \<and> look s' = column \<circ> look opened_file"
proof (rule restart_keeps)
  show "sqlite_ok opened_file" using opened_ok(1) by (simp add: opened_file_def sqlite_ok_def)
qed (use opened_ok in \<open>simp_all add: opened_file_def commit_ok_def\<close>)

definition old_file :: tables where
  "old_file = create_tables\<lparr>t_version := 3\<rparr>"

lemma old_files_open_witness:
  "\<exists>s'. open_sqlite (\<lambda>_. 0) ((new_sqlite False None 10)\<lparr>committed := Some old_file\<rparr>) = (Inr (), s') \<and>
     sqlite_ok s' \<and> look s' = row_val (work s') \<and> t_version (work s') = VERSION \<and> committed s' = Some (work s')"
proof -
  have f: "row_fits old_file" "t_version old_file = 3"
    by (simp_all add: old_file_def create_tables_def row_fits_def row_ok_def storable_def check_column_def)
  show ?thesis using old_files_open [of "(new_sqlite False None 10)\<lparr>committed := Some old_file\<rparr>" old_file "\<lambda>_. 0"] f
    by (simp add: new_sqlite_def)
qed

text \<open>A session moved from one storage to another.\<close>

definition sample_store :: sqlite where
  "sample_store = sqlite_run [WriteAttr UserId (IntVal 77), WriteAttr AuthKey (BytesVal (replicate 256 5)), WriteAttr TestMode (BoolVal False),
     WriteAttr IsBot (BoolVal True)] opened"

lemma sample_store_looks:
  "sqlite_ok sample_store" "look sample_store = (look opened)(UserId := IntVal 77, AuthKey := BytesVal (replicate 256 5),
     TestMode := BoolVal False, IsBot := BoolVal True)"
proof -
  have w: "sqlite_ok (snd (write_attr a v s)) \<and> look (snd (write_attr a v s)) = (look s)(a := v)" if "sqlite_ok s" "check_column a v = Inr ()" for a v s
    using write_attr_ok [OF that(1), of a v] that(2) by (simp add: storable_def)
  have c: "check_column UserId (IntVal 77) = Inr ()" "check_column AuthKey (BytesVal (replicate 256 5)) = Inr ()"
    "check_column TestMode (BoolVal False) = Inr ()" "check_column IsBot (BoolVal True) = Inr ()" by (simp_all add: check_column_def)
  note w1 = w [OF opened_ok(1) c(1)]
  note w2 = w [OF conjunct1 [OF w1] c(2)]
  note w3 = w [OF conjunct1 [OF w2] c(3)]
  note w4 = w [OF conjunct1 [OF w3] c(4)]
  show "sqlite_ok sample_store" "look sample_store = (look opened)(UserId := IntVal 77, AuthKey := BytesVal (replicate 256 5),
     TestMode := BoolVal False, IsBot := BoolVal True)"
    using w1 w2 w3 w4 by (simp_all add: sample_store_def)
qed

lemma opened_looks: "look opened ServerAddress = TextVal (ustr ''149.154.167.51'')" "look opened Port = IntVal 443" "look opened DcId = IntVal 2"
  "look opened ApiId = NoVal"
  by code_simp+

lemma sample_address: "length (ustr ''149.154.167.51'') = 14" "ascii_encode (ustr ''149.154.167.51'') = Inr (map byte_of (ustr ''149.154.167.51''))"
  "text_of (TextVal (ustr ''149.154.167.51'')) \<noteq> []" "List.last (ustr ''149.154.167.51'') \<noteq> 0"
  by code_simp+

lemma sample_store_exported: "\<exists>str. fst (export_session_string crc read_attr sample_store) = Inr str"
proof -
  have "\<exists>p. struct_pack True SESSION_STRING_FORMAT_V3 [VInt 3, VInt 2, VInt 0, VBool False, VBytes (replicate 256 5), VInt 77, VBool True, VInt 443,
      VBytes (map byte_of (ustr ''149.154.167.51'') @ replicate 34 0)] = Inr p"
    by (rule struct_pack_exact) (simp add: SESSION_STRING_FORMAT_V3_def session_format_def fits_def sample_address)
  then obtain p where p: "struct_pack True SESSION_STRING_FORMAT_V3 [VInt 3, VInt 2, VInt 0, VBool False, VBytes (replicate 256 5), VInt 77,
      VBool True, VInt 443, VBytes (map byte_of (ustr ''149.154.167.51'') @ replicate 34 0)] = Inr p" ..
  have "export_values crc (look sample_store) = Inr (WZ_PREFIX @ encode (p @ le_bytes 4 (crc p)))"
    by (simp add: export_values_def sample_store_looks opened_looks sample_address p or_zero_def SERVER_ADDRESS_SIZE_def del: replicate.simps)
  then show ?thesis using sqlite_attrs.export_looks [OF sample_store_looks(1), of crc] by auto
qed

lemma session_moves_witness:
  "\<exists>str s''. fst (export_session_string (\<lambda>_. 7) read_attr sample_store) = Inr str \<and>
     load_session_string (\<lambda>_. 7) write_attr str opened = (Inr (), s'') \<and> look s'' UserId = IntVal 77"
proof -
  obtain str where e: "fst (export_session_string (\<lambda>_. 7) read_attr sample_store) = Inr str"
    using sample_store_exported by blast
  have t: "typed_session (look sample_store)"
    using sample_address by (simp add: typed_session_def sample_store_looks opened_looks)
  have p: "text_of (look sample_store ServerAddress) \<noteq> []" "int_of (look sample_store Port) \<noteq> 0"
    using sample_address by (simp_all add: sample_store_looks opened_looks)
  from session_moves [OF sample_store_looks(1) t e _ p opened_ok(1)] obtain s'' where
    "load_session_string (\<lambda>_. 7) write_attr str opened = (Inr (), s'')" "look s'' UserId = look sample_store UserId" by auto
  with e show ?thesis by (auto simp: sample_store_looks)
qed

end
