(* ===== verification/Auth_Crypto.thy ===== *)
theory Auth_Crypto
  imports Prelude Complex_Main
begin

text \<open>
  The arithmetic of the authorization key exchange (\<open>pyrogram/crypto/prime.py\<close>, \<open>rsa.py\<close>): Euclid, the factorization of
  \<open>pq\<close>, the table of public keys and textbook RSA. Random draws are arguments.
\<close>

section \<open>Factorization\<close>

function gcd_loop :: "int \<Rightarrow> int \<Rightarrow> int" where
  "gcd_loop a b = (if b \<noteq> 0 then gcd_loop b (a mod b) else a)"
  by pat_completeness auto

termination
proof (relation "measure (\<lambda>(a, b). nat \<bar>b\<bar>)")
  show "wf (measure (\<lambda>(a, b). nat \<bar>b\<bar>))" by simp
  show "((b, a mod b), (a, b)) \<in> measure (\<lambda>(a, b). nat \<bar>b\<bar>)" if "b \<noteq> 0" for a b :: int
    using abs_mod_less [of b a] that by simp
qed

declare gcd_loop.simps [simp del]

lemma gcd_loop_eq: "\<bar>gcd_loop a b\<bar> = gcd a b"
proof (induction a b rule: gcd_loop.induct)
  case (1 a b)
  show ?case
  proof (cases "b = 0")
    case True
    then show ?thesis by (simp add: gcd_loop.simps [of a 0])
  next
    case False
    then show ?thesis using "1.IH" by (simp add: gcd_loop.simps [of a b] gcd_red_int [symmetric] gcd.commute)
  qed
qed

text \<open>The sequence of Brent's variant, and the product of the differences along it.\<close>

definition brent :: "int \<Rightarrow> int \<Rightarrow> int \<Rightarrow> int" where
  "brent pq c y = (pow_mod y 2 pq + c) mod pq"

fun brent_product :: "nat \<Rightarrow> int \<Rightarrow> int \<Rightarrow> int \<Rightarrow> int \<Rightarrow> int \<Rightarrow> int \<times> int" where
  "brent_product 0 pq c x y q = (y, q)"
| "brent_product (Suc n) pq c x y q =
     (let y = brent pq c y in brent_product n pq c x y (q * \<bar>x - y\<bar> mod pq))"

text \<open>
  The loops, over all their variables: \<open>while k < r and g == 1\<close>, \<open>while g == 1\<close> and the last one. None of them is bound
  to end.
\<close>

partial_function (option) brent_inner ::
    "(int \<times> int \<times> nat) \<times> int \<times> nat \<times> nat \<times> int \<times> int \<times> int \<times> int \<Rightarrow> (int \<times> int \<times> int \<times> int) option" where
  "brent_inner v =
     (case v of ((pq, c, m), x, r, k, ys, y, q, g) \<Rightarrow>
        if k < r \<and> g = 1 then
          (case brent_product (min m (r - k)) pq c x y q of
             (y', q') \<Rightarrow> brent_inner ((pq, c, m), x, r, k + m, y, y', q', gcd_loop q' pq))
        else Some (ys, y, q, g))"

partial_function (option) brent_outer ::
    "(int \<times> int \<times> nat) \<times> nat \<times> int \<times> int \<times> int \<times> int \<times> int \<Rightarrow> (int \<times> int \<times> int) option" where
  "brent_outer v =
     (case v of ((pq, c, m), r, x, ys, y, q, g) \<Rightarrow>
        if g = 1 then
          (case brent_inner ((pq, c, m), y, r, 0, ys, (brent pq c ^^ r) y, q, g) of
             None \<Rightarrow> None
           | Some (ys, y', q, g) \<Rightarrow> brent_outer ((pq, c, m), 2 * r, y, ys, y', q, g))
        else Some (x, ys, g))"

partial_function (option) brent_last :: "(int \<times> int) \<times> int \<times> int \<Rightarrow> int option" where
  "brent_last v =
     (case v of ((pq, c), x, ys) \<Rightarrow>
        let ys = brent pq c ys; g = gcd_loop \<bar>x - ys\<bar> pq in
        if g > 1 then Some g else brent_last ((pq, c), x, ys))"

definition decompose :: "int \<Rightarrow> int \<Rightarrow> nat \<Rightarrow> int \<Rightarrow> int option" where
  "decompose y c m pq =
     (if pq mod 2 = 0 then Some 2
      else (case brent_outer ((pq, c, m), 1, 0, 0, y, 1, 1) of
              None \<Rightarrow> None
            | Some (x, ys, g) \<Rightarrow> if g = pq then brent_last ((pq, c), x, ys) else Some g))"

section \<open>The known prime and public keys\<close>

definition CURRENT_DH_PRIME :: int where
  "CURRENT_DH_PRIME = 0xC71CAEB9C6B1C9048E6C522F70F13F73980D40238E3E21C14934D037563D930F48198A0AA7C14058229493D22530F4DBFA336F6E0AC925139543AED44CCE7C3720FD51F69458705AC68CD4FE6B6B13ABDC9746512969328454F18FAF8C595F642477FE96BB2A941D5BCD1D4AC8CC49880708FA9B378E3C4F3A9060BEE67CF9A4A4A695811051907E162753B56B0F6B410DBA74D8A84B2A14B3144E0EF1284754FD17ED950D5965B4B9DD46582DB1178D169C6BC465B0D6FF9CA3928FEF5B9AE4E418FC15E83EBEA0F87FA9FF5EED70050DED2849F47BF959D956850CE929851F0D8115F635B105EE2E4E15D04B2454BF6F4FADF034B10403119CD8E3B92FCC5B"

text \<open>\<open>PublicKey(m, e)\<close>.\<close>

type_synonym public_key = "int \<times> nat"

definition server_public_keys :: "(int \<times> public_key) list" where
  "server_public_keys =
     [(0xc3b42b026ce86b21 - push_bit 64 1, (0xC150023E2F70DB7985DED064759CFECF0AF328E69A41DAF4D6F01B538135A6F91F8F8B2A0EC9BA9720CE352EFCF6C5680FFC424BD634864902DE0B4BD6D49F4E580230E3AE97D95C8B19442B3C0A10D8F5633FECEDD6926A7F6DAB0DDB7D457F9EA81B8465FCD6FFFEED114011DF91C059CAEDAF97625F6C96ECC74725556934EF781D866B34F011FCE4D835A090196E9A5F0E4449AF7EB697DDB9076494CA5F81104A305B6DD27665722C46B60E5DF680FB16B210607EF217652E60236C255F6A28315F4083A96791D7214BF64C1DF4FD0DB1944FB26A2A57031B32EEE64AD15A8BA68885CDE74A5BFC920F6ABF59BA5C75506373E7130F9042DA922179251F, 0x010001)),
      (0x10bc35f3509f7b7a5 - push_bit 64 1, (0xAEEC36C8FFC109CB099624685B97815415657BD76D8C9C3E398103D7AD16C9BBA6F525ED0412D7AE2C2DE2B44E77D72CBF4B7438709A4E646A05C43427C7F184DEBF72947519680E651500890C6832796DD11F772C25FF8F576755AFE055B0A3752C696EB7D8DA0D8BE1FAF38C9BDD97CE0A77D3916230C4032167100EDD0F9E7A3A9B602D04367B689536AF0D64B613CCBA7962939D3B57682BEB6DAE5B608130B2E52ACA78BA023CF6CE806B1DC49C72CF928A7199D22E3D7AC84E47BC9427D0236945D10DBD15177BAB413FBF0EDFDA09F014C7A7DA088DDE9759702CA760AF2B8E4E97CC055C617BD74C3D97008635B98DC4D621B4891DA9FB0473047927, 0x010001)),
      (0x115ae5fa8b5529542 - push_bit 64 1, (0xBDF2C77D81F6AFD47BD30F29AC76E55ADFE70E487E5E48297E5A9055C9C07D2B93B4ED3994D3ECA5098BF18D978D54F8B7C713EB10247607E69AF9EF44F38E28F8B439F257A11572945CC0406FE3F37BB92B79112DB69EEDF2DC71584A661638EA5BECB9E23585074B80D57D9F5710DD30D2DA940E0ADA2F1B878397DC1A72B5CE2531B6F7DD158E09C828D03450CA0FF8A174DEACEBCAA22DDE84EF66AD370F259D18AF806638012DA0CA4A70BAA83D9C158F3552BC9158E69BF332A45809E1C36905A5CAA12348DD57941A482131BE7B2355A5F4635374F3BD3DDF5FF925BF4809EE27C1E67D9120C5FE08A9DE458B1B4A3C5D0A428437F2BECA81F4E2D5FF, 0x010001)),
      (0xaeae98e13cd7f94f - push_bit 64 1, (0xB3F762B739BE98F343EB1921CF0148CFA27FF7AF02B6471213FED9DAA0098976E667750324F1ABCEA4C31E43B7D11F1579133F2B3D9FE27474E462058884E5E1B123BE9CBBC6A443B2925C08520E7325E6F1A6D50E117EB61EA49D2534C8BB4D2AE4153FABE832B9EDF4C5755FDD8B19940B81D1D96CF433D19E6A22968A85DC80F0312F596BD2530C1CFB28B5FE019AC9BC25CD9C2A5D8A0F3A1C0C79BCCA524D315B5E21B5C26B46BABE3D75D06D1CD33329EC782A0F22891ED1DB42A1D6C0DEA431428BC4D7AABDCF3E0EB6FDA4E23EB7733E7727E9A1915580796C55188D2596D2665AD1182BA7ABF15AAA5A8B779EA996317A20AE044B820BFF35B6E8A1, 0x010001)),
      (0x15a181b2235057d98 - push_bit 64 1, (0xBE6A71558EE577FF03023CFA17AAB4E6C86383CFF8A7AD38EDB9FAFE6F323F2D5106CBC8CAFB83B869CFFD1CCF121CD743D509E589E68765C96601E813DC5B9DFC4BE415C7A6526132D0035CA33D6D6075D4F535122A1CDFE017041F1088D1419F65C8E5490EE613E16DBF662698C0F54870F0475FA893FC41EB55B08FF1AC211BC045DED31BE27D12C96D8D3CFC6A7AE8AA50BF2EE0F30ED507CC2581E3DEC56DE94F5DC0A7ABEE0BE990B893F2887BD2C6310A1E0A9E3E38BD34FDED2541508DC102A9C9B4C95EFFD9DD2DFE96C29BE647D6C69D66CA500843CFAED6E440196F1DBE0E2E22163C61CA48C79116FA77216726749A976A1C4B0944B5121E8C01, 0x010001)),
      (0x995effd323b5db80 - push_bit 64 1, (0xE2D587706265125931BB129027016325ABA59951E0771340DF0808D84F176CD9C0F3CCB9D57A205799BC04462E4D23F89655D9638652256E559455E79AC253FE19A3C9E16AA936A3C805BA9DBF6FC195F6F7542FA83FF5642141CBB4CBBC233495B34812170B31FDF7655F007AD2C077EB912C5E901E8B32B39C34889EF1F946C6C03C727DE89CF042499EC29A5EB50EC11C9C31137E57FCC3C926B4118975BB5101D4C0D7D7F8C857521011B2EF7411F8BEC55354475628797339C1734FDA97FE0F1789B08F8872C9BEA41BF215626EFB3D35A00DC8295C044B7798EB9C1B5FF8E8B8A591CFCA7789E509CA219348C81CDA7CB32994CCD5913D41A64ECDD23F, 0x010001)),
      (0x1254672538e935938 - push_bit 64 1, (0xCEE1D50BBB04E742A1A3FC83559B569E5980E417FF68CF0A658DD6CD2D7AC3AC35B01AA2A63F2880C186ED42DB181B5898A11A23B20824EE963369B531A5D59ECA92F1DECF6860198B2F2B48DDD2ED2D9AF30A7845765E86CD09017BD9788CF8E6207208C05FC9C6C92A64B079891EB11508EE150EF1E4219A6FD4614129258ED53ADD087A68AE5114A9AA5450D8595CC876A161435CBDB2026F8FBF00FEDCA0A067E9C079172CCCECC09C2B16C428EC776373149DB66AAB9A4DEBF7916B391E832AE5A7892E27DE0AB1B4451C55F90F1F2ECE3ACEF708BC2C5EE022066EE4344C7268D724AABAAC667667D727AC3F2956ED4BDAF7089DDE0AEB18A6652DA16F, 0x010001)),
      (0xc884b3e62d09e5c5 - push_bit 64 1, (0xBA0E9F11355BECD917618BB9B9E66E334A6AC3585EBAA52B64D628990374952D28EE2EA6016C1BD7F162B1C14AFB2E0B412484C7EA14CD70218E6965F5F99BE1EECF6D4897A3C32E5CED118F77B9E35E835DF4E23981965E5151574690CEEF1A832D5EA4AC2414389D9E6CBB839AC9255D2AD7EDDE47E264D8E11CFC1EA53003AFDDF054EB1844641C8DF60A9CE9FBE4368D773D0F096195121ADB732E5632EFAB859AF141851B0953E2CD436F9BB131F069F49F7D56256766E824E6E5BEA6D159EE39DC2CECB1A496CB0197390996BD56C47BB17CAB5922FECED2F01C585AB8522C9E9BB2EF556569C81C3F6F077E1017C20004F444F779A108E1C1A89C5205, 0x010001)),
      (0xbb27580fd5b01626 - push_bit 64 1, (0xBFF2FAB5DFA68FB0E5F353477EEF977F528DB6F64F475B52E7116A92252CA27D6EEC3DAE94AD398CCF072AFA55D68FB51CF3EA85A5E16ACBEC5FDD2EDD3207450D33B89289C4A022668DC62BBA611E8CE3009F555056CEEE32806B905313DB57800E59C090224166F753ACA4C11CE4DDF1517B959A5BBC5F55489EA71C9619DAF579E7285827C169FD530977DC4BBBDCCA58CD4F4DE9C2DD98C92E625C4E48079C01079CAA4929B8198B56591EBB52322C5C177BED34697E82C6A5F39D507C41CF86528FC0FBEA6D73969203E49DA917A6C7E3E642CF4494A6FDE3EDB13C58596F80C7F010F870C4C62275119ACAAF5894B9587780FE628AB453A8D2DCC59345, 0x010001))]"

definition rsa_encrypt :: "bytes \<Rightarrow> int \<Rightarrow> bytes result" where
  "rsa_encrypt data fingerprint =
     (case map_of server_public_keys fingerprint of
        None \<Rightarrow> Inl (KeyError fingerprint)
      | Some (m, e) \<Rightarrow> to_bytes_be 256 (pow_mod (int (be_nat data)) e m))"

section \<open>What a factorization is\<close>

lemma gcd_loop_nonneg: "0 \<le> a \<Longrightarrow> 0 \<le> b \<Longrightarrow> 0 \<le> gcd_loop a b"
proof (induction a b rule: gcd_loop.induct)
  case (1 a b)
  then show ?case by (subst gcd_loop.simps) simp
qed

lemma gcd_loop_gcd: "0 \<le> a \<Longrightarrow> 0 \<le> b \<Longrightarrow> gcd_loop a b = gcd a b"
  using gcd_loop_eq [of a b] gcd_loop_nonneg [of a b] by simp

lemma brent_product_nonneg: "0 < pq \<Longrightarrow> 0 \<le> q \<Longrightarrow> 0 \<le> snd (brent_product n pq c x y q)"
  by (induction n pq c x y q rule: brent_product.induct) (simp_all add: Let_def)

text \<open>The running gcd is a positive divisor, and the product is not negative.\<close>

definition divisor :: "int \<Rightarrow> int \<Rightarrow> bool" where
  "divisor pq g \<longleftrightarrow> 1 \<le> g \<and> g dvd pq"

lemma gcd_divides: "0 < pq \<Longrightarrow> 0 \<le> q \<Longrightarrow> divisor pq (gcd_loop q pq)"
proof -
  assume "0 < pq" "0 \<le> q"
  then have e: "gcd_loop q pq = gcd q pq" by (simp add: gcd_loop_gcd)
  have "0 < gcd q pq" using \<open>0 < pq\<close> by simp
  then have "1 \<le> gcd q pq" by linarith
  then show ?thesis unfolding divisor_def e by simp
qed

lemma brent_inner_ok:
  assumes "brent_inner v = Some st"
  shows "case v of ((pq, c, m), x, r, k, ys, y, q, g) \<Rightarrow> case st of (ys', y', q', g') \<Rightarrow>
    0 < pq \<longrightarrow> 0 \<le> q \<longrightarrow> divisor pq g \<longrightarrow> 0 \<le> q' \<and> divisor pq g'" (is "?P v st")
proof (rule brent_inner.raw_induct [OF _ assms, of ?P])
  fix f v st
  assume IH: "\<And>v st. f v = Some st \<Longrightarrow> ?P v st"
    and step: "(case v of ((pq, c, m), x, r, k, ys, y, q, g) \<Rightarrow>
        if k < r \<and> g = 1 then
          (case brent_product (min m (r - k)) pq c x y q of (y', q') \<Rightarrow> f ((pq, c, m), x, r, k + m, y, y', q', gcd_loop q' pq))
        else Some (ys, y, q, g)) = Some st"
  obtain pq c m x r k ys y q g where v: "v = ((pq, c, m), x, r, k, ys, y, q, g)" by (metis prod_cases3 surj_pair)
  obtain ys' y' q' g' where st: "st = (ys', y', q', g')" by (metis surj_pair)
  have "0 \<le> q' \<and> divisor pq g'" if pq: "0 < pq" and ok: "0 \<le> q" "divisor pq g"
  proof (cases "k < r \<and> g = 1")
    case True
    obtain y1 q1 where p: "brent_product (min m (r - k)) pq c x y q = (y1, q1)" by fastforce
    with brent_product_nonneg [OF pq ok(1), of "min m (r - k)" c x y] have q1: "0 \<le> q1" by simp
    from step True p have "f ((pq, c, m), x, r, k + m, y, y1, q1, gcd_loop q1 pq) = Some st" by (simp add: v)
    from IH [OF this] pq q1 gcd_divides [OF pq q1] show ?thesis by (simp add: st)
  next
    case False
    with step ok show ?thesis by (auto simp: v st)
  qed
  then show "?P v st" by (simp add: v st)
qed

lemma brent_outer_ok:
  assumes "brent_outer v = Some res"
  shows "case v of ((pq, c, m), r, x, ys, y, q, g) \<Rightarrow> 0 < pq \<longrightarrow> 0 \<le> q \<longrightarrow> divisor pq g \<longrightarrow>
    divisor pq (snd (snd res)) \<and> snd (snd res) \<noteq> 1" (is "?P v res")
proof (rule brent_outer.raw_induct [OF _ assms, of ?P])
  fix f v res
  assume IH: "\<And>v res. f v = Some res \<Longrightarrow> ?P v res"
    and step: "(case v of ((pq, c, m), r, x, ys, y, q, g) \<Rightarrow>
        if g = 1 then
          (case brent_inner ((pq, c, m), y, r, 0, ys, (brent pq c ^^ r) y, q, g) of
             None \<Rightarrow> None
           | Some (ys, y', q, g) \<Rightarrow> f ((pq, c, m), 2 * r, y, ys, y', q, g))
        else Some (x, ys, g)) = Some res"
  obtain pq c m r x ys y q g where v: "v = ((pq, c, m), r, x, ys, y, q, g)" by (metis prod_cases3 surj_pair)
  have "divisor pq (snd (snd res)) \<and> snd (snd res) \<noteq> 1" if pq: "0 < pq" and ok: "0 \<le> q" "divisor pq g"
  proof (cases "g = 1")
    case True
    with step obtain ys' y' q' g' where i: "brent_inner ((pq, c, m), y, r, 0, ys, (brent pq c ^^ r) y, q, g) = Some (ys', y', q', g')"
      "f ((pq, c, m), 2 * r, y, ys', y', q', g') = Some res" by (auto simp: v split: option.splits)
    from brent_inner_ok [OF i(1)] pq ok have "0 \<le> q' \<and> divisor pq g'" by simp
    with IH [OF i(2)] pq show ?thesis by simp
  next
    case False
    with step ok show ?thesis by (auto simp: v)
  qed
  then show "?P v res" by (simp add: v)
qed

lemma brent_last_ok:
  assumes "brent_last v = Some g"
  shows "case v of ((pq, c), x, ys) \<Rightarrow> 0 < pq \<longrightarrow> 1 < g \<and> g dvd pq" (is "?P v g")
proof (rule brent_last.raw_induct [OF _ assms, of ?P])
  fix f v g
  assume IH: "\<And>v g. f v = Some g \<Longrightarrow> ?P v g"
    and step: "(case v of ((pq, c), x, ys) \<Rightarrow>
        let ys = brent pq c ys; g = gcd_loop \<bar>x - ys\<bar> pq in if g > 1 then Some g else f ((pq, c), x, ys)) = Some g"
  obtain pq c x ys where v: "v = ((pq, c), x, ys)" by (metis surj_pair)
  show "?P v g"
  proof (cases "gcd_loop \<bar>x - brent pq c ys\<bar> pq > 1")
    case True
    with step gcd_divides [of pq "\<bar>x - brent pq c ys\<bar>"] show ?thesis by (auto simp: v Let_def divisor_def)
  next
    case False
    with step have "f ((pq, c), x, brent pq c ys) = Some g" by (simp add: v Let_def)
    from IH [OF this] show ?thesis by (simp add: v)
  qed
qed

text \<open>Whatever was drawn, a factorization that ends gives a divisor greater than 1.\<close>

lemma decompose_divides:
  assumes "decompose y c m pq = Some g" "1 < pq"
  shows "1 < g" "g dvd pq"
proof -
  have "1 < g \<and> g dvd pq"
  proof (cases "pq mod 2 = 0")
    case True
    with assms(1) have "g = 2" "even pq" by (auto simp: decompose_def even_iff_mod_2_eq_zero)
    then show ?thesis by simp
  next
    case False
    with assms(1) obtain x ys g' where o: "brent_outer ((pq, c, m), 1, 0, 0, y, 1, 1) = Some (x, ys, g')"
      "g' = pq \<and> brent_last ((pq, c), x, ys) = Some g \<or> g' = g" by (auto simp: decompose_def split: option.splits if_splits)
    have "divisor pq g' \<and> g' \<noteq> 1" using brent_outer_ok [OF o(1)] assms(2) by (simp add: divisor_def)
    with o(2) brent_last_ok assms(2) show ?thesis by (auto simp: divisor_def)
  qed
  then show "1 < g" "g dvd pq" by blast+
qed

section \<open>RSA\<close>

lemma public_keys_sized: "list_all (\<lambda>(f, m, e). 2 ^ 2047 < m \<and> m < 2 ^ 2048) server_public_keys"
  by (simp add: server_public_keys_def)

text \<open>A block of 255 bytes is encrypted to 256 bytes without overflow, and is smaller than the modulus.\<close>

lemma rsa_block:
  assumes "map_of server_public_keys fp = Some (m, e)" "length data \<le> 255"
  shows "rsa_encrypt data fp = Inr (be_bytes 256 (nat (int (be_nat data) ^ e mod m)))" "int (be_nat data) < m"
proof -
  from map_of_SomeD [OF assms(1)] public_keys_sized have m: "2 ^ 2047 < m" "m < 2 ^ 2048" by (auto simp: list_all_iff)
  have "int (be_nat data) ^ e mod m < 256 ^ 256" "0 \<le> int (be_nat data) ^ e mod m"
  proof -
    have "0 < m" using m(1) by (smt (verit) zero_less_power)
    then show "0 \<le> int (be_nat data) ^ e mod m" by simp
    have "int (be_nat data) ^ e mod m < m" using \<open>0 < m\<close> by simp
    also have "m < 256 ^ 256" using m(2) by simp
    finally show "int (be_nat data) ^ e mod m < 256 ^ 256" .
  qed
  then show "rsa_encrypt data fp = Inr (be_bytes 256 (nat (int (be_nat data) ^ e mod m)))"
    by (simp only: rsa_encrypt_def assms(1) option.case prod.case to_bytes_be_def pow_mod_eq) simp
  have "be_nat data < 256 ^ length data" by (rule be_nat_lt)
  also have "\<dots> \<le> 256 ^ 255" using assms(2) by (intro power_increasing) simp_all
  finally have "int (be_nat data) < 256 ^ 255" by (metis of_nat_less_iff of_nat_numeral of_nat_power)
  also have "(256 :: int) ^ 255 = 2 ^ 2040" by simp
  also have "\<dots> < 2 ^ 2047" by simp
  finally show "int (be_nat data) < m" using m(1) by simp
qed

end
