(* ===== verification/Auth.thy ===== *)
theory Auth
  imports Auth_Crypto Connection TL_Codec
begin

text \<open>
  The creation of an authorization key (\<open>pyrogram/session/auth.py\<close>): one attempt message by message, over the TL layer,
  and the loop over attempts. SHA-1 and AES-IGE are arguments, as are the random draws; the server is what it answers to
  the bytes it is sent.
\<close>

section \<open>The messages\<close>

definition ResPQ_ID :: int where "ResPQ_ID = 0x05162463"
definition PQInnerData_ID :: int where "PQInnerData_ID = 0x83c95aec"
definition ServerDHParamsFail_ID :: int where "ServerDHParamsFail_ID = 0x79cb045d"
definition ServerDHParamsOk_ID :: int where "ServerDHParamsOk_ID = 0xd0e8075c"
definition ServerDHInnerData_ID :: int where "ServerDHInnerData_ID = 0xb5890dba"
definition ClientDHInnerData_ID :: int where "ClientDHInnerData_ID = 0x6643b654"
definition DhGenOk_ID :: int where "DhGenOk_ID = 0x3bcbf734"
definition DhGenRetry_ID :: int where "DhGenRetry_ID = 0x46dc1fb9"
definition DhGenFail_ID :: int where "DhGenFail_ID = 0xa69dae02"
definition ReqPqMulti_ID :: int where "ReqPqMulti_ID = 0xbe7e8ef1"
definition ReqDHParams_ID :: int where "ReqDHParams_ID = 0xd712e4be"
definition SetClientDHParams_ID :: int where "SetClientDHParams_ID = 0xf5045f1f"

lemmas auth_ids = ResPQ_ID_def PQInnerData_ID_def ServerDHParamsFail_ID_def ServerDHParamsOk_ID_def ServerDHInnerData_ID_def
  ClientDHInnerData_ID_def DhGenOk_ID_def DhGenRetry_ID_def DhGenFail_ID_def ReqPqMulti_ID_def ReqDHParams_ID_def SetClientDHParams_ID_def

definition plain_arg :: "core_type \<Rightarrow> tl_arg" where
  "plain_arg t = \<lparr>a_flag = None, a_type = ACore t\<rparr>"

text \<open>Their combinators in the schema (\<open>compiler/api/source/auth_key.tl\<close>).\<close>

definition auth_schema :: "(int \<times> tl_arg list) list" where
  "auth_schema =
     [(ResPQ_ID, [plain_arg Cint128, plain_arg Cint128, plain_arg Cbytes, \<lparr>a_flag = None, a_type = AVector (Some Clong)\<rparr>]),
      (PQInnerData_ID, map plain_arg [Cbytes, Cbytes, Cbytes, Cint128, Cint128, Cint256]),
      (ServerDHParamsFail_ID, map plain_arg [Cint128, Cint128, Cint128]),
      (ServerDHParamsOk_ID, map plain_arg [Cint128, Cint128, Cbytes]),
      (ServerDHInnerData_ID, map plain_arg [Cint128, Cint128, Cint, Cbytes, Cbytes, Cint]),
      (ClientDHInnerData_ID, map plain_arg [Cint128, Cint128, Clong, Cbytes]),
      (DhGenOk_ID, map plain_arg [Cint128, Cint128, Cint128]),
      (DhGenRetry_ID, map plain_arg [Cint128, Cint128, Cint128]),
      (DhGenFail_ID, map plain_arg [Cint128, Cint128, Cint128]),
      (ReqPqMulti_ID, [plain_arg Cint128]),
      (ReqDHParams_ID, map plain_arg [Cint128, Cint128, Cbytes, Cbytes, Clong, Cbytes]),
      (SetClientDHParams_ID, map plain_arg [Cint128, Cint128, Cbytes])]"

text \<open>An attribute of an object that is not of the expected class is missing.\<close>

fun obj_args :: "int \<Rightarrow> tlval \<Rightarrow> tlval list result" where
  "obj_args cid (TObj c vs) = (if c = cid then Inr vs else Inl AttributeError)"
| "obj_args cid _ = Inl AttributeError"

fun as_tint :: "tlval \<Rightarrow> int result" where
  "as_tint (TInt i) = Inr i" | "as_tint _ = Inl TypeError"

fun as_tbytes :: "tlval \<Rightarrow> bytes result" where
  "as_tbytes (TBytes b) = Inr b" | "as_tbytes _ = Inl TypeError"

fun as_tlist :: "tlval \<Rightarrow> tlval list result" where
  "as_tlist (TList vs) = Inr vs" | "as_tlist _ = Inl TypeError"

definition arg_at :: "tlval list \<Rightarrow> nat \<Rightarrow> tlval" where
  "arg_at vs i = (if i < length vs then vs ! i else TNone)"

definition res_pq_of :: "tlval \<Rightarrow> (int \<times> int \<times> bytes \<times> tlval list) result" where
  "res_pq_of v =
     bindR (obj_args ResPQ_ID v) (\<lambda>vs. bindR (as_tint (arg_at vs 0)) (\<lambda>n. bindR (as_tint (arg_at vs 1)) (\<lambda>sn.
     bindR (as_tbytes (arg_at vs 2)) (\<lambda>pq. bindR (as_tlist (arg_at vs 3)) (\<lambda>fps. Inr (n, sn, pq, fps))))))"

definition dh_params_of :: "tlval \<Rightarrow> (int \<times> int \<times> bytes) result" where
  "dh_params_of v =
     (case obj_args ServerDHParamsFail_ID v of
        Inr _ \<Rightarrow> Inl SecurityCheckMismatch
      | Inl _ \<Rightarrow>
          bindR (obj_args ServerDHParamsOk_ID v) (\<lambda>vs. bindR (as_tint (arg_at vs 0)) (\<lambda>n.
          bindR (as_tint (arg_at vs 1)) (\<lambda>sn. bindR (as_tbytes (arg_at vs 2)) (\<lambda>a. Inr (n, sn, a))))))"

record dh_inner =
  dh_g :: int
  dh_prime :: bytes
  dh_g_a :: bytes
  dh_time :: int

definition dh_inner_of :: "tlval \<Rightarrow> dh_inner result" where
  "dh_inner_of v =
     bindR (obj_args ServerDHInnerData_ID v) (\<lambda>vs. bindR (as_tint (arg_at vs 2)) (\<lambda>g. bindR (as_tbytes (arg_at vs 3)) (\<lambda>p.
     bindR (as_tbytes (arg_at vs 4)) (\<lambda>a. bindR (as_tint (arg_at vs 5)) (\<lambda>t.
       Inr \<lparr>dh_g = g, dh_prime = p, dh_g_a = a, dh_time = t\<rparr>)))))"

definition dh_gen_of :: "tlval \<Rightarrow> (int \<times> int) result" where
  "dh_gen_of v =
     (case obj_args DhGenOk_ID v of
        Inl _ \<Rightarrow> Inl SecurityCheckMismatch
      | Inr vs \<Rightarrow> bindR (as_tint (arg_at vs 0)) (\<lambda>n. bindR (as_tint (arg_at vs 1)) (\<lambda>sn. Inr (n, sn))))"

section \<open>Plain messages\<close>

type_synonym 's exchange = "bytes \<Rightarrow> 's \<Rightarrow> bytes option result \<times> 's"

definition auth_pack :: "tl_env \<Rightarrow> int \<Rightarrow> tlval \<Rightarrow> bytes result" where
  "auth_pack env msg_id data =
     bindR (Long_new True msg_id) (\<lambda>m. bindR (tl_write env data) (\<lambda>d. bindR (Int_new True (int (length d))) (\<lambda>l.
       Inr (replicate 8 0 @ m @ l @ d))))"

definition auth_unpack :: "tl_env \<Rightarrow> nat \<Rightarrow> bytes \<Rightarrow> tlval result" where
  "auth_unpack env fuel b = fst (tl_read env fuel None (drop 20 b))"

definition auth_invoke :: "tl_env \<Rightarrow> nat \<Rightarrow> 's exchange \<Rightarrow> int \<Rightarrow> tlval \<Rightarrow> 's \<Rightarrow> tlval result \<times> 's" where
  "auth_invoke env fuel xchg msg_id data s =
     (case auth_pack env msg_id data of
        Inl e \<Rightarrow> (Inl e, s)
      | Inr req \<Rightarrow>
          bindT (xchg req s) (\<lambda>response s.
            case transport_error response of
              Some _ \<Rightarrow> (Inl ConnectionResetError, s)
            | None \<Rightarrow> (auth_unpack env fuel (the response), s)))"

section \<open>One attempt\<close>

record auth_crypto =
  sha1 :: "bytes \<Rightarrow> bytes"
  ige256_encrypt :: "bytes \<Rightarrow> bytes \<Rightarrow> bytes \<Rightarrow> bytes"
  ige256_decrypt :: "bytes \<Rightarrow> bytes \<Rightarrow> bytes \<Rightarrow> bytes"

text \<open>What one attempt draws: \<open>urandom\<close> for the nonces, the exponent and the paddings, the factorization, message ids.
  The new nonce is kept as its 32 bytes, which \<open>from_bytes\<close> and \<open>to_bytes\<close> of the source carry back and forth.\<close>

record auth_draws =
  draw_nonce :: bytes
  draw_new_nonce :: bytes
  draw_brent :: "int \<times> int \<times> nat"
  draw_b :: bytes
  draw_padding :: "nat \<Rightarrow> bytes"
  draw_dh_padding :: "nat \<Rightarrow> bytes"
  draw_msg_id :: "nat \<Rightarrow> int"

fun known_fingerprint :: "tlval list \<Rightarrow> int result" where
  "known_fingerprint [] = Inl PlainException"
| "known_fingerprint (v # vs) =
     (case v of
        TInt i \<Rightarrow> if map_of server_public_keys i \<noteq> None then Inr i else known_fingerprint vs
      | _ \<Rightarrow> known_fingerprint vs)"

text \<open>\<open>p, q = sorted((g, pq // g))\<close>. \<open>OutOfFuel\<close> is a factorization that does not end.\<close>

definition factors :: "auth_draws \<Rightarrow> int \<Rightarrow> (int \<times> int) result" where
  "factors r pq =
     (case draw_brent r of (y, c, m) \<Rightarrow>
        (case decompose y c m pq of
           None \<Rightarrow> Inl OutOfFuel
         | Some g \<Rightarrow> Inr (min g (pq div g), max g (pq div g))))"

definition with_hash :: "auth_crypto \<Rightarrow> (nat \<Rightarrow> bytes) \<Rightarrow> nat \<Rightarrow> bytes \<Rightarrow> bytes" where
  "with_hash A pad block data =
     (let sha = sha1 A data in sha @ data @ pad (nat ((- int (length data + length sha)) mod int block)))"

definition tmp_aes_key :: "auth_crypto \<Rightarrow> bytes \<Rightarrow> bytes \<Rightarrow> bytes" where
  "tmp_aes_key A new_nonce server_nonce =
     sha1 A (new_nonce @ server_nonce) @ take 12 (sha1 A (server_nonce @ new_nonce))"

definition tmp_aes_iv :: "auth_crypto \<Rightarrow> bytes \<Rightarrow> bytes \<Rightarrow> bytes" where
  "tmp_aes_iv A new_nonce server_nonce =
     drop 12 (sha1 A (server_nonce @ new_nonce)) @ sha1 A (new_nonce @ new_nonce) @ take 4 new_nonce"

text \<open>Step 1 to 4: what the client asks with, once it knows \<open>pq\<close>.\<close>

definition pq_inner_data :: "bytes \<Rightarrow> bytes \<Rightarrow> bytes \<Rightarrow> int \<Rightarrow> int \<Rightarrow> int \<Rightarrow> tlval" where
  "pq_inner_data pq p q nonce server_nonce new_nonce =
     TObj PQInnerData_ID [TBytes pq, TBytes p, TBytes q, TInt nonce, TInt server_nonce, TInt new_nonce]"

definition req_dh_params :: "tl_env \<Rightarrow> auth_crypto \<Rightarrow> auth_draws \<Rightarrow> int \<Rightarrow> int \<times> int \<times> bytes \<times> tlval list \<Rightarrow> tlval result" where
  "req_dh_params env A r nonce res =
     (case res of (_, server_nonce, pq_bytes, fps) \<Rightarrow>
        bindR (known_fingerprint fps) (\<lambda>fp.
        bindR (factors r (int (be_nat pq_bytes))) (\<lambda>(p, q).
        bindR (to_bytes_be 4 p) (\<lambda>p. bindR (to_bytes_be 4 q) (\<lambda>q.
        bindR (tl_write env (pq_inner_data pq_bytes p q nonce server_nonce (le_int True (draw_new_nonce r)))) (\<lambda>data.
        bindR (rsa_encrypt (with_hash A (draw_padding r) 255 data) fp) (\<lambda>encrypted.
          Inr (TObj ReqDHParams_ID [TInt nonce, TInt server_nonce, TBytes p, TBytes q, TInt fp, TBytes encrypted]))))))))"

text \<open>Step 5 and 6: the answer of the server and the half of the client.\<close>

definition read_dh_inner :: "tl_env \<Rightarrow> nat \<Rightarrow> bytes \<Rightarrow> (tlval \<times> dh_inner) result" where
  "read_dh_inner env fuel answer =
     bindR (fst (tl_read env fuel None answer)) (\<lambda>v. bindR (dh_inner_of v) (\<lambda>d. Inr (v, d)))"

definition power_of :: "int \<Rightarrow> auth_draws \<Rightarrow> dh_inner \<Rightarrow> bytes result" where
  "power_of x r d =
     (let p = int (be_nat (dh_prime d)) in
      if p = 0 then Inl ValueError else to_bytes_be 256 (pow_mod x (be_nat (draw_b r)) p))"

definition set_client_dh :: "tl_env \<Rightarrow> auth_crypto \<Rightarrow> auth_draws \<Rightarrow> int \<Rightarrow> int \<Rightarrow> bytes \<Rightarrow> bytes \<Rightarrow> bytes \<Rightarrow> tlval result" where
  "set_client_dh env A r nonce server_nonce key iv g_b =
     bindR (tl_write env (TObj ClientDHInnerData_ID [TInt nonce, TInt server_nonce, TInt 0, TBytes g_b])) (\<lambda>data.
       Inr (TObj SetClientDHParams_ID [TInt nonce, TInt server_nonce,
         TBytes (ige256_encrypt A (with_hash A (draw_dh_padding r) 16 data) key iv)]))"

text \<open>Step 7 and the security checks, in the order of the source.\<close>

definition dh_checks :: "dh_inner \<Rightarrow> bytes \<Rightarrow> unit result" where
  "dh_checks d g_b =
     (let p = int (be_nat (dh_prime d)); g_a = int (be_nat (dh_g_a d)); g_b = int (be_nat g_b) in
      bindR (check (p = CURRENT_DH_PRIME) SecurityCheckMismatch) (\<lambda>_.
      bindR (check (1 < dh_g d \<and> dh_g d < p - 1) SecurityCheckMismatch) (\<lambda>_.
      bindR (check (1 < g_a \<and> g_a < p - 1) SecurityCheckMismatch) (\<lambda>_.
      bindR (check (1 < g_b \<and> g_b < p - 1) SecurityCheckMismatch) (\<lambda>_.
      bindR (check (2 ^ (2048 - 64) < g_a \<and> g_a < p - 2 ^ (2048 - 64)) SecurityCheckMismatch) (\<lambda>_.
      check (2 ^ (2048 - 64) < g_b \<and> g_b < p - 2 ^ (2048 - 64)) SecurityCheckMismatch))))))"

definition nonce_checks :: "int \<Rightarrow> int \<Rightarrow> int \<Rightarrow> int \<times> int \<times> bytes \<Rightarrow> int \<times> int \<Rightarrow> unit result" where
  "nonce_checks nonce server_nonce res_nonce params gen =
     bindR (check (nonce = res_nonce) SecurityCheckMismatch) (\<lambda>_.
     bindR (check (nonce = fst params) SecurityCheckMismatch) (\<lambda>_.
     bindR (check (server_nonce = fst (snd params)) SecurityCheckMismatch) (\<lambda>_.
     bindR (check (nonce = fst gen) SecurityCheckMismatch) (\<lambda>_.
     check (server_nonce = snd gen) SecurityCheckMismatch))))"

definition auth_attempt :: "tl_env \<Rightarrow> nat \<Rightarrow> auth_crypto \<Rightarrow> 's exchange \<Rightarrow> auth_draws \<Rightarrow> 's \<Rightarrow> bytes result \<times> 's" where
  "auth_attempt env fuel A xchg r s =
     (let nonce = le_int True (draw_nonce r); new_nonce = draw_new_nonce r in
      bindT (auth_invoke env fuel xchg (draw_msg_id r 0) (TObj ReqPqMulti_ID [TInt nonce]) s) (\<lambda>res s.
      bindT (res_pq_of res, s) (\<lambda>res s.
      bindT (req_dh_params env A r nonce res, s) (\<lambda>req s.
      bindT (auth_invoke env fuel xchg (draw_msg_id r 1) req s) (\<lambda>params s.
      bindT (dh_params_of params, s) (\<lambda>params s.
      bindT (to_bytes_le 16 True (fst (snd res)), s) (\<lambda>server_nonce s.
        let key = tmp_aes_key A new_nonce server_nonce; iv = tmp_aes_iv A new_nonce server_nonce;
            answer_with_hash = ige256_decrypt A (snd (snd params)) key iv in
      bindT (read_dh_inner env fuel (drop 20 answer_with_hash), s) (\<lambda>(inner, d) s.
      bindT (power_of (dh_g d) r d, s) (\<lambda>g_b s.
      bindT (set_client_dh env A r nonce (fst (snd res)) key iv g_b, s) (\<lambda>req s.
      bindT (auth_invoke env fuel xchg (draw_msg_id r 2) req s) (\<lambda>gen s.
      bindT (dh_gen_of gen, s) (\<lambda>gen s.
      bindT (power_of (int (be_nat (dh_g_a d))) r d, s) (\<lambda>auth_key s.
      bindT (dh_checks d g_b, s) (\<lambda>_ s.
      bindT (tl_write env inner, s) (\<lambda>answer s.
      bindT (check (take 20 answer_with_hash = sha1 A answer) SecurityCheckMismatch, s) (\<lambda>_ s.
      bindT (nonce_checks nonce (fst (snd res)) (fst res) params gen, s) (\<lambda>_ s.
        (Inr auth_key, s))))))))))))))))))"

section \<open>The attempts\<close>

definition MAX_RETRIES :: nat where "MAX_RETRIES = 5"

text \<open>
  \<open>connect\<close>, the exchange and \<open>close\<close> of the connection each attempt opens. An exception is an attempt that failed,
  and every attempt that ends closes its connection; \<open>OutOfFuel\<close> is one that does not end.
\<close>

fun create_loop :: "(nat \<Rightarrow> 's \<Rightarrow> bytes result \<times> 's) \<Rightarrow> ('s \<Rightarrow> 's) \<Rightarrow> nat \<Rightarrow> nat \<Rightarrow> 's \<Rightarrow> bytes result \<times> 's" where
  "create_loop attempt close n retries_left s =
     (case attempt n s of
        (Inr key, s) \<Rightarrow> (Inr key, close s)
      | (Inl e, s) \<Rightarrow>
          if e = OutOfFuel then (Inl e, s)
          else
            (case retries_left of
               0 \<Rightarrow> (Inl e, close s)
             | Suc left \<Rightarrow> create_loop attempt close (Suc n) left (close s)))"

definition auth_create :: "tl_env \<Rightarrow> nat \<Rightarrow> auth_crypto \<Rightarrow> ('s \<Rightarrow> unit result \<times> 's) \<Rightarrow> 's exchange \<Rightarrow> ('s \<Rightarrow> 's) \<Rightarrow> (nat \<Rightarrow> auth_draws) \<Rightarrow>
    's \<Rightarrow> bytes result \<times> 's" where
  "auth_create env fuel A connect xchg close rs s =
     create_loop (\<lambda>n s. bindT (connect s) (\<lambda>_ s. auth_attempt env fuel A xchg (rs n) s)) close 0 MAX_RETRIES s"

end
