(* ===== verification/Auth_Laws.thy ===== *)
theory Auth_Laws
  imports Auth
begin

text \<open>
  What the creation of an authorization key promises: the key an attempt returns passed every check, an honest server ends
  with the same key, and the attempts are few and close their connections.
\<close>

section \<open>Safety\<close>

lemma dh_checks_Inr:
  "dh_checks d g_b = Inr u \<longleftrightarrow>
     int (be_nat (dh_prime d)) = CURRENT_DH_PRIME \<and> 1 < dh_g d \<and> dh_g d < CURRENT_DH_PRIME - 1 \<and>
     1 < int (be_nat (dh_g_a d)) \<and> int (be_nat (dh_g_a d)) < CURRENT_DH_PRIME - 1 \<and>
     1 < int (be_nat g_b) \<and> int (be_nat g_b) < CURRENT_DH_PRIME - 1 \<and>
     2 ^ 1984 < int (be_nat (dh_g_a d)) \<and> int (be_nat (dh_g_a d)) < CURRENT_DH_PRIME - 2 ^ 1984 \<and>
     2 ^ 1984 < int (be_nat g_b) \<and> int (be_nat g_b) < CURRENT_DH_PRIME - 2 ^ 1984"
  by (auto simp: dh_checks_def Let_def bindR_Inr_iff)

lemma nonce_checks_Inr:
  "nonce_checks nonce server_nonce res_nonce params gen = Inr u \<longleftrightarrow>
     res_nonce = nonce \<and> fst params = nonce \<and> fst (snd params) = server_nonce \<and> gen = (nonce, server_nonce)"
  by (cases gen) (auto simp: nonce_checks_def bindR_Inr_iff)

lemma prime_bounds: "2 ^ 2047 < CURRENT_DH_PRIME" "CURRENT_DH_PRIME < 2 ^ 2048"
  by (simp_all add: CURRENT_DH_PRIME_def)

lemma prime_pos: "0 < CURRENT_DH_PRIME"
  by (simp add: CURRENT_DH_PRIME_def)

lemma power_of_Inr:
  assumes "int (be_nat (dh_prime d)) = CURRENT_DH_PRIME"
  shows "power_of x r d = Inr (be_bytes 256 (nat (x ^ be_nat (draw_b r) mod CURRENT_DH_PRIME)))"
proof -
  have "0 \<le> x ^ be_nat (draw_b r) mod CURRENT_DH_PRIME" using prime_pos by simp
  moreover have "x ^ be_nat (draw_b r) mod CURRENT_DH_PRIME < 256 ^ 256"
  proof -
    have "x ^ be_nat (draw_b r) mod CURRENT_DH_PRIME < CURRENT_DH_PRIME" using prime_pos by simp
    also have "\<dots> < 2 ^ 2048" by (rule prime_bounds)
    also have "(2 :: int) ^ 2048 = 256 ^ 256" by simp
    finally show ?thesis .
  qed
  ultimately show ?thesis
    using prime_pos by (simp only: power_of_def assms pow_mod_eq to_bytes_be_def Let_def) simp
qed

text \<open>A number modulo the prime fits its 256 bytes.\<close>

lemma be_nat_mod_prime: "int (be_nat (be_bytes 256 (nat (x mod CURRENT_DH_PRIME)))) = x mod CURRENT_DH_PRIME"
proof -
  have r: "0 \<le> x mod CURRENT_DH_PRIME" "x mod CURRENT_DH_PRIME < CURRENT_DH_PRIME" using prime_pos by simp_all
  have "CURRENT_DH_PRIME < 256 ^ 256" using prime_bounds(2) by simp
  with r(2) have "x mod CURRENT_DH_PRIME < 256 ^ 256" by linarith
  then have "nat (x mod CURRENT_DH_PRIME) < 256 ^ 256" using r(1) by (simp only: nat_less_iff) simp
  then have "nat (x mod CURRENT_DH_PRIME) mod 256 ^ 256 = nat (x mod CURRENT_DH_PRIME)" by (rule mod_less)
  with r(1) show ?thesis by (simp only: be_nat_be_bytes int_nat_eq if_True)
qed

text \<open>
  C5. An attempt that returns a key ran the whole exchange: the prime is the known one, the generator and both halves are in
  the safe range, the hash of the server's answer is right, all three replies carry the client's nonce and the last two the
  server's, and the key is \<open>g_a\<close> to the client's exponent, in 256 bytes.
\<close>

theorem auth_key_safe:
  assumes "auth_attempt env fuel A xchg r s = (Inr key, s')"
  shows "\<exists>res params gen pq fps req enc answer inner d s1 s2 nonce server_nonce plain req'.
     nonce = le_int True (draw_nonce r) \<and>
     auth_invoke env fuel xchg (draw_msg_id r 0) (TObj ReqPqMulti_ID [TInt nonce]) s = (Inr res, s1) \<and>
     res_pq_of res = Inr (nonce, server_nonce, pq, fps) \<and>
     req_dh_params env A r nonce (nonce, server_nonce, pq, fps) = Inr req \<and>
     auth_invoke env fuel xchg (draw_msg_id r 1) req s1 = (Inr params, s2) \<and>
     dh_params_of params = Inr (nonce, server_nonce, enc) \<and>
     plain = ige256_decrypt A enc (tmp_aes_key A (draw_new_nonce r) (le_of_int 16 server_nonce))
               (tmp_aes_iv A (draw_new_nonce r) (le_of_int 16 server_nonce)) \<and>
     read_dh_inner env fuel (drop 20 plain) = Inr (inner, d) \<and>
     tl_write env inner = Inr answer \<and> take 20 plain = sha1 A answer \<and>
     auth_invoke env fuel xchg (draw_msg_id r 2) req' s2 = (Inr gen, s') \<and>
     dh_gen_of gen = Inr (nonce, server_nonce) \<and>
     int (be_nat (dh_prime d)) = CURRENT_DH_PRIME \<and> 1 < dh_g d \<and> dh_g d < CURRENT_DH_PRIME - 1 \<and>
     2 ^ 1984 < int (be_nat (dh_g_a d)) \<and> int (be_nat (dh_g_a d)) < CURRENT_DH_PRIME - 2 ^ 1984 \<and>
     2 ^ 1984 < dh_g d ^ be_nat (draw_b r) mod CURRENT_DH_PRIME \<and>
     dh_g d ^ be_nat (draw_b r) mod CURRENT_DH_PRIME < CURRENT_DH_PRIME - 2 ^ 1984 \<and>
     length key = 256 \<and>
     int (be_nat key) = int (be_nat (dh_g_a d)) ^ be_nat (draw_b r) mod CURRENT_DH_PRIME"
proof -
  define nonce where "nonce = le_int True (draw_nonce r)"
  from assms obtain res n sn pq fps req params m sm enc snb inner d g_b req' gen gn gsn u u' u'' answer s1 s2 where
    e: "auth_invoke env fuel xchg (draw_msg_id r 0) (TObj ReqPqMulti_ID [TInt nonce]) s = (Inr res, s1)"
      "res_pq_of res = Inr (n, sn, pq, fps)" "req_dh_params env A r nonce (n, sn, pq, fps) = Inr req"
      "auth_invoke env fuel xchg (draw_msg_id r 1) req s1 = (Inr params, s2)"
      "dh_params_of params = Inr (m, sm, enc)" "to_bytes_le 16 True sn = Inr snb"
      "read_dh_inner env fuel (drop 20 (ige256_decrypt A enc (tmp_aes_key A (draw_new_nonce r) snb)
         (tmp_aes_iv A (draw_new_nonce r) snb))) = Inr (inner, d)"
      "power_of (dh_g d) r d = Inr g_b"
      "auth_invoke env fuel xchg (draw_msg_id r 2) req' s2 = (Inr gen, s')" "dh_gen_of gen = Inr (gn, gsn)"
      "power_of (int (be_nat (dh_g_a d))) r d = Inr key" "dh_checks d g_b = Inr u" "tl_write env inner = Inr answer"
      "check (take 20 (ige256_decrypt A enc (tmp_aes_key A (draw_new_nonce r) snb)
         (tmp_aes_iv A (draw_new_nonce r) snb)) = sha1 A answer) SecurityCheckMismatch = Inr u'"
      "nonce_checks nonce sn n (m, sm, enc) (gn, gsn) = Inr u''"
    by (auto simp: auth_attempt_def Let_def bindT_Inr nonce_def [symmetric])
  from e(15) have n: "n = nonce" "m = nonce" "sm = sn" "gn = nonce" "gsn = sn" by (auto simp: nonce_checks_Inr)
  from e(12) have p: "int (be_nat (dh_prime d)) = CURRENT_DH_PRIME" by (simp add: dh_checks_Inr)
  from e(8) have gb: "g_b = be_bytes 256 (nat (dh_g d ^ be_nat (draw_b r) mod CURRENT_DH_PRIME))" by (simp add: power_of_Inr [OF p])
  from e(11) have k: "key = be_bytes 256 (nat (int (be_nat (dh_g_a d)) ^ be_nat (draw_b r) mod CURRENT_DH_PRIME))"
    by (simp add: power_of_Inr [OF p])
  have key: "length key = 256" "int (be_nat key) = int (be_nat (dh_g_a d)) ^ be_nat (draw_b r) mod CURRENT_DH_PRIME"
    unfolding k be_nat_mod_prime by simp_all
  have safe: "1 < dh_g d" "dh_g d < CURRENT_DH_PRIME - 1" "2 ^ 1984 < int (be_nat (dh_g_a d))"
    "int (be_nat (dh_g_a d)) < CURRENT_DH_PRIME - 2 ^ 1984" "2 ^ 1984 < dh_g d ^ be_nat (draw_b r) mod CURRENT_DH_PRIME"
    "dh_g d ^ be_nat (draw_b r) mod CURRENT_DH_PRIME < CURRENT_DH_PRIME - 2 ^ 1984"
    using e(12) unfolding dh_checks_Inr gb be_nat_mod_prime by blast+
  have snb: "snb = le_of_int 16 sn" using e(6) by (simp add: to_bytes_le_Inr)
  show ?thesis
    using e(1-5,7,9,10,13,14) n p key safe snb by (intro exI conjI) (auto simp: nonce_def)
qed


section \<open>The messages survive the wire\<close>

text \<open>A value of a plain argument, and a bound on the bytes it is written in.\<close>

fun written_in :: "tlval \<Rightarrow> nat" where
  "written_in (TInt i) = 32"
| "written_in (TBytes b) = length b + 8"
| "written_in (TList ws) = 8 + 8 * length ws"
| "written_in _ = 0"

definition fits_arg :: "tl_arg \<Rightarrow> tlval \<Rightarrow> bool" where
  "fits_arg a v \<longleftrightarrow> a_flag a = None \<and> written_in v \<le> 1100 \<and>
     (case a_type a of
        ACore t \<Rightarrow> t \<noteq> Ctrue \<and> size v = 0 \<and> core_val t v \<and> (\<exists>b. core_new t v = Inr b \<and> length b \<le> written_in v)
      | AVector (Some t) \<Rightarrow> (case v of TList ws \<Rightarrow> size v \<le> 101 \<and> list_all (core_val t) ws \<and>
           (\<exists>b. Vector_new (core_new t) ws = Inr b \<and> length b \<le> written_in v) | _ \<Rightarrow> False)
      | _ \<Rightarrow> False)"

lemma fits_int: "fits True 4 i \<Longrightarrow> fits_arg (plain_arg Cint) (TInt i)"
  by (simp add: fits_arg_def plain_arg_def core_val_def core_new_def Int_new_def to_bytes_le_Inr)

lemma fits_long: "fits True 8 i \<Longrightarrow> fits_arg (plain_arg Clong) (TInt i)"
  by (simp add: fits_arg_def plain_arg_def core_val_def core_new_def Long_new_def to_bytes_le_Inr)

lemma fits_int128: "fits True 16 i \<Longrightarrow> fits_arg (plain_arg Cint128) (TInt i)"
  by (simp add: fits_arg_def plain_arg_def core_val_def core_new_def Int128_new_def to_bytes_le_Inr)

lemma fits_int256: "fits True 32 i \<Longrightarrow> fits_arg (plain_arg Cint256) (TInt i)"
  by (simp add: fits_arg_def plain_arg_def core_val_def core_new_def Int256_new_def to_bytes_le_Inr)

lemma Bytes_new_short: "length v \<le> 1000 \<Longrightarrow> \<exists>b. Bytes_new v = Inr b \<and> length b \<le> length v + 8"
  using pad4_less [of "length v"] pad4_less [of "Suc (length v)"] by (auto simp: Bytes_new_def Let_def to_bytes3)

lemma fits_bytes: "length v \<le> 1000 \<Longrightarrow> fits_arg (plain_arg Cbytes) (TBytes v)"
  using Bytes_new_short [of v] by (force simp: fits_arg_def plain_arg_def core_val_def core_new_def)

lemma longs_written: "list_all (fits True 8) is \<Longrightarrow>
    \<exists>bs. mapR (core_new Clong) (map TInt is) = Inr bs \<and> length (concat bs) = 8 * length is"
  by (induction "is") (auto simp: core_new_def Long_new_def to_bytes_le_def)

lemma fits_longs:
  assumes "list_all (fits True 8) is" "length is \<le> 100"
  shows "fits_arg \<lparr>a_flag = None, a_type = AVector (Some Clong)\<rparr> (TList (map TInt is))"
proof -
  have "size_list size (map TInt is) = length is" by (induction "is") simp_all
  moreover have "list_all (core_val Clong) (map TInt is)" by (induction "is") (simp_all add: core_val_def)
  moreover have "\<exists>b. Vector_new (core_new Clong) (map TInt is) = Inr b \<and> length b \<le> 8 + 8 * length is"
    using longs_written [OF assms(1)] assms(2)
    by (auto simp: Vector_new_def Vector_ID_def Int_new_def to_bytes_le_def fits_def)
  ultimately show ?thesis using assms(2) by (simp add: fits_arg_def)
qed

lemmas fits_args = fits_int fits_long fits_int128 fits_int256 fits_bytes fits_longs

lemma fits_write_arg:
  assumes "fits_arg a v"
  shows "\<exists>b. write_arg w avs (a, v) = Inr b \<and> length b \<le> written_in v"
  using assms
  by (auto simp: fits_arg_def write_arg_def split: arg_type.splits option.splits tlval.splits)

lemma fits_arg_wt: "fits_arg a v \<Longrightarrow> arg_wt w avs (a, v)"
  by (auto simp: fits_arg_def arg_wt_def agrees_def split: arg_type.splits option.splits tlval.splits core_type.splits)

lemma fits_args_wt: "list_all2 fits_arg c vs \<Longrightarrow> list_all (arg_wt w avs) (zip c vs)"
  by (induction rule: list_all2_induct) (simp_all add: fits_arg_wt)

lemma fits_size: "fits_arg a v \<Longrightarrow> size v \<le> 101"
  by (auto simp: fits_arg_def split: arg_type.splits option.splits tlval.splits)

lemma fits_fields:
  assumes "list_all2 fits_arg c vs"
  shows "\<exists>bss. mapR (write_arg w avs) (zip c vs) = Inr bss \<and> length (concat bss) \<le> sum_list (map written_in vs)"
  using assms
proof (induction rule: list_all2_induct)
  case (Cons a c v vs)
  from fits_write_arg [OF Cons.hyps(1), of w avs] Cons.IH show ?case by fastforce
qed simp

lemma fits_wf_args: "list_all2 fits_arg c vs \<Longrightarrow> wf_args ks c"
  by (induction arbitrary: ks rule: list_all2_induct) (auto simp: fits_arg_def split: arg_type.splits)

lemma fits_written_in: "list_all2 fits_arg c vs \<Longrightarrow> sum_list (map written_in vs) \<le> 1100 * length c"
  by (induction rule: list_all2_induct) (auto simp: fits_arg_def)

lemma fits_list_size: "list_all2 fits_arg c vs \<Longrightarrow> size_list size vs \<le> 102 * length c"
  by (induction rule: list_all2_induct) (auto dest: fits_size)

text \<open>An environment with the messages of the exchange.\<close>

definition has_auth_schema :: "tl_env \<Rightarrow> bool" where
  "has_auth_schema env \<longleftrightarrow> list_all (\<lambda>(cid, c). env_schema env cid = Some c) auth_schema"

lemma auth_ids_fresh: "(cid, c) \<in> set auth_schema \<Longrightarrow> cid \<notin> set core_ids \<and> 0 \<le> cid \<and> cid < 2 ^ 32 \<and> length c \<le> 6"
  by (auto simp: auth_schema_def auth_ids core_ids_def tl_ids)

lemma plain_object:
  assumes env: "has_auth_schema env" and c: "(cid, c) \<in> set auth_schema" and vs: "list_all2 fits_arg c vs" and fuel: "700 \<le> fuel"
  obtains bs where "tl_write env (TObj cid vs) = Inr bs" "length bs \<le> 4 + sum_list (map written_in vs)" "tl_read env fuel None (bs @ rest) = (Inr (TObj cid vs), rest)"
proof -
  from env c have s: "env_schema env cid = Some c" by (auto simp: has_auth_schema_def list_all_iff)
  from auth_ids_fresh [OF c] have cid: "cid \<notin> set core_ids" "0 \<le> cid" "cid < 2 ^ 32" "length c \<le> 6" by blast+
  from cid(2,3) obtain h where h: "Int_new False cid = Inr h" "length h = 4"
    by (force simp: Int_new_def to_bytes_le_def fits_def)
  from fits_fields [OF vs] obtain bss where
    b: "mapR (write_arg (tl_write env) (zip c vs)) (zip c vs) = Inr bss" "length (concat bss) \<le> sum_list (map written_in vs)" by blast
  have w: "tl_write env (TObj cid vs) = Inr (h @ concat bss)" using s h b by simp
  have "wt env (TObj cid vs)"
    using cid(1) s fits_wf_args [OF vs] list_all2_lengthD [OF vs] fits_args_wt [OF vs] by simp
  moreover have "size (TObj cid vs) < fuel" using fits_list_size [OF vs] cid(4) fuel by simp
  ultimately have "tl_read env fuel None ((h @ concat bss) @ rest) = (Inr (TObj cid vs), rest)" using w by (intro object_read)
  with w show ?thesis using that [of "h @ concat bss"] h(2) b(2) cid(4) by simp
qed

text \<open>What a server that took part answers to a request: a plain message, whatever its header.\<close>

definition answers :: "tl_env \<Rightarrow> 's exchange \<Rightarrow> int \<Rightarrow> tlval \<Rightarrow> 's \<Rightarrow> tlval \<Rightarrow> 's \<Rightarrow> bool" where
  "answers env xchg msg_id req s rep s' \<longleftrightarrow>
     (\<forall>m. auth_pack env msg_id req = Inr m \<longrightarrow>
        (\<exists>reply. xchg m s = (Inr (Some reply), s') \<and> 20 \<le> length reply \<and> tl_write env rep = Inr (drop 20 reply)))"

lemma auth_pack_plain:
  assumes "has_auth_schema env" "(cid, c) \<in> set auth_schema" "list_all2 fits_arg c vs" "fits True 8 msg_id"
  obtains m where "auth_pack env msg_id (TObj cid vs) = Inr m"
proof -
  obtain bs where bs: "tl_write env (TObj cid vs) = Inr bs" "length bs \<le> 4 + sum_list (map written_in vs)" by (rule plain_object [OF assms(1-3) order_refl])
  from bs(2) fits_written_in [OF assms(3)] auth_ids_fresh [OF assms(2)] have "fits True 4 (int (length bs))" by (simp add: fits_def)
  with bs(1) assms(4) show ?thesis using that by (simp add: auth_pack_def Long_new_def Int_new_def to_bytes_le_def)
qed

lemma invoke_plain:
  assumes env: "has_auth_schema env" and fuel: "700 \<le> fuel" and msg: "fits True 8 msg_id"
    and req: "(cid, c) \<in> set auth_schema" "list_all2 fits_arg c vs"
    and rep: "(rid, rc) \<in> set auth_schema" "list_all2 fits_arg rc rvs"
    and ans: "answers env xchg msg_id (TObj cid vs) s (TObj rid rvs) s'"
  shows "auth_invoke env fuel xchg msg_id (TObj cid vs) s = (Inr (TObj rid rvs), s')"
proof -
  obtain m where m: "auth_pack env msg_id (TObj cid vs) = Inr m" by (rule auth_pack_plain [OF env req msg])
  obtain body where b: "tl_write env (TObj rid rvs) = Inr body" "tl_read env fuel None (body @ []) = (Inr (TObj rid rvs), [])"
    by (rule plain_object [OF env rep fuel])
  from ans m obtain reply where x: "xchg m s = (Inr (Some reply), s')" "20 \<le> length reply"
    "tl_write env (TObj rid rvs) = Inr (drop 20 reply)" unfolding answers_def by blast
  from x(3) b(1) have d: "drop 20 reply = body" by simp
  from x(2) have "transport_error (Some reply) = None" by (simp add: transport_error_def)
  with m x(1) d b(2) show ?thesis by (simp add: auth_invoke_def auth_unpack_def del: tl_write.simps tl_read.simps)
qed

section \<open>Agreement\<close>

definition crypto_ok :: "auth_crypto \<Rightarrow> bool" where
  "crypto_ok A \<longleftrightarrow> (\<forall>b. length (sha1 A b) = 20) \<and>
     (\<forall>b k iv. length b mod 16 = 0 \<longrightarrow> ige256_decrypt A (ige256_encrypt A b k iv) k iv = b \<and>
        length (ige256_encrypt A b k iv) = length b)"

definition draws_ok :: "auth_draws \<Rightarrow> bool" where
  "draws_ok r \<longleftrightarrow> length (draw_nonce r) = 16 \<and> length (draw_new_nonce r) = 32 \<and> (\<forall>n. length (draw_dh_padding r n) = n) \<and>
     fits True 8 (draw_msg_id r 0) \<and> fits True 8 (draw_msg_id r 1) \<and> fits True 8 (draw_msg_id r 2)"

text \<open>What the server chooses.\<close>

record dh_server =
  sv_nonce :: int
  sv_pq :: bytes
  sv_fingerprints :: "int list"
  sv_g :: int
  sv_a :: nat
  sv_time :: int
  sv_padding :: "nat \<Rightarrow> bytes"
  sv_hash :: int

definition safe_half :: "int \<Rightarrow> bool" where
  "safe_half y \<longleftrightarrow> 2 ^ 1984 < y \<and> y < CURRENT_DH_PRIME - 2 ^ 1984"

definition half :: "int \<Rightarrow> nat \<Rightarrow> int" where
  "half g e = g ^ e mod CURRENT_DH_PRIME"

definition server_ok :: "dh_server \<Rightarrow> bool" where
  "server_ok x \<longleftrightarrow> fits True 16 (sv_nonce x) \<and> length (sv_pq x) \<le> 8 \<and> list_all (fits True 8) (sv_fingerprints x) \<and>
     length (sv_fingerprints x) \<le> 100 \<and> list_ex (\<lambda>i. map_of server_public_keys i \<noteq> None) (sv_fingerprints x) \<and>
     1 < sv_g x \<and> sv_g x < 2 ^ 31 \<and> safe_half (half (sv_g x) (sv_a x)) \<and> fits True 4 (sv_time x) \<and>
     (\<forall>n. length (sv_padding x n) = n) \<and> fits True 16 (sv_hash x)"

definition client_nonce :: "auth_draws \<Rightarrow> int" where
  "client_nonce r = le_int True (draw_nonce r)"

definition shared_key :: "auth_crypto \<Rightarrow> auth_draws \<Rightarrow> dh_server \<Rightarrow> bytes" where
  "shared_key A r x = tmp_aes_key A (draw_new_nonce r) (le_of_int 16 (sv_nonce x))"

definition shared_iv :: "auth_crypto \<Rightarrow> auth_draws \<Rightarrow> dh_server \<Rightarrow> bytes" where
  "shared_iv A r x = tmp_aes_iv A (draw_new_nonce r) (le_of_int 16 (sv_nonce x))"

definition res_pq_args :: "auth_draws \<Rightarrow> dh_server \<Rightarrow> tlval list" where
  "res_pq_args r x = [TInt (client_nonce r), TInt (sv_nonce x), TBytes (sv_pq x), TList (map TInt (sv_fingerprints x))]"

definition inner_args :: "auth_draws \<Rightarrow> dh_server \<Rightarrow> tlval list" where
  "inner_args r x = [TInt (client_nonce r), TInt (sv_nonce x), TInt (sv_g x), TBytes (be_bytes 256 (nat CURRENT_DH_PRIME)),
     TBytes (be_bytes 256 (nat (half (sv_g x) (sv_a x)))), TInt (sv_time x)]"

text \<open>The answer with its hash and padding, encrypted under the key both sides derive from the nonces.\<close>

definition dh_answer :: "tl_env \<Rightarrow> auth_crypto \<Rightarrow> auth_draws \<Rightarrow> dh_server \<Rightarrow> bytes" where
  "dh_answer env A r x =
     (case tl_write env (TObj ServerDHInnerData_ID (inner_args r x)) of
        Inl _ \<Rightarrow> []
      | Inr answer \<Rightarrow> ige256_encrypt A (with_hash A (sv_padding x) 16 answer) (shared_key A r x) (shared_iv A r x))"

definition dh_args :: "tl_env \<Rightarrow> auth_crypto \<Rightarrow> auth_draws \<Rightarrow> dh_server \<Rightarrow> tlval list" where
  "dh_args env A r x = [TInt (client_nonce r), TInt (sv_nonce x), TBytes (dh_answer env A r x)]"

definition gen_args :: "auth_draws \<Rightarrow> dh_server \<Rightarrow> tlval list" where
  "gen_args r x = [TInt (client_nonce r), TInt (sv_nonce x), TInt (sv_hash x)]"

lemma schema_args:
  "(ReqPqMulti_ID, [plain_arg Cint128]) \<in> set auth_schema"
  "(ResPQ_ID, [plain_arg Cint128, plain_arg Cint128, plain_arg Cbytes, \<lparr>a_flag = None, a_type = AVector (Some Clong)\<rparr>]) \<in> set auth_schema"
  "(PQInnerData_ID, map plain_arg [Cbytes, Cbytes, Cbytes, Cint128, Cint128, Cint256]) \<in> set auth_schema"
  "(ReqDHParams_ID, map plain_arg [Cint128, Cint128, Cbytes, Cbytes, Clong, Cbytes]) \<in> set auth_schema"
  "(ServerDHParamsOk_ID, map plain_arg [Cint128, Cint128, Cbytes]) \<in> set auth_schema"
  "(ServerDHInnerData_ID, map plain_arg [Cint128, Cint128, Cint, Cbytes, Cbytes, Cint]) \<in> set auth_schema"
  "(ClientDHInnerData_ID, map plain_arg [Cint128, Cint128, Clong, Cbytes]) \<in> set auth_schema"
  "(SetClientDHParams_ID, map plain_arg [Cint128, Cint128, Cbytes]) \<in> set auth_schema"
  "(DhGenOk_ID, map plain_arg [Cint128, Cint128, Cint128]) \<in> set auth_schema"
  by (simp_all add: auth_schema_def)

lemma with_hash_parts:
  assumes "crypto_ok A" "\<And>n. length (pad n) = n" "0 < block"
  shows "take 20 (with_hash A pad block data) = sha1 A data" "\<exists>p. drop 20 (with_hash A pad block data) = data @ p"
    "length (with_hash A pad block data) mod block = 0"
    "length (with_hash A pad block data) < 20 + length data + block"
proof -
  have l: "length (sha1 A data) = 20" using assms(1) by (simp add: crypto_ok_def)
  then show "take 20 (with_hash A pad block data) = sha1 A data" by (simp add: with_hash_def Let_def)
  from l show "\<exists>p. drop 20 (with_hash A pad block data) = data @ p" by (simp add: with_hash_def Let_def)
  define n where "n = length data + 20"
  have m: "0 \<le> - int n mod int block" "- int n mod int block < int block" using assms(3) by simp_all
  have len: "length (with_hash A pad block data) = n + nat (- int n mod int block)"
    using l assms(2) by (simp add: with_hash_def Let_def n_def)
  have "(int n + - int n mod int block) mod int block = 0" by (simp add: mod_add_right_eq)
  moreover have "int (n + nat (- int n mod int block)) = int n + - int n mod int block" using m by simp
  ultimately have "int ((n + nat (- int n mod int block)) mod block) = 0" by (simp only: zmod_int)
  then show "length (with_hash A pad block data) mod block = 0" unfolding len by simp
  show "length (with_hash A pad block data) < 20 + length data + block" unfolding len using m n_def by linarith
qed

lemma known_fingerprint_found:
  assumes "list_ex (\<lambda>i. map_of server_public_keys i \<noteq> None) fps" "list_all (fits True 8) fps"
  obtains fp where "known_fingerprint (map TInt fps) = Inr fp" "fits True 8 fp" "map_of server_public_keys fp \<noteq> None"
proof -
  have "\<exists>fp. known_fingerprint (map TInt fps) = Inr fp \<and> fits True 8 fp \<and> map_of server_public_keys fp \<noteq> None"
    using assms by (induction fps) (auto split: option.splits)
  then show ?thesis using that by blast
qed

lemma half_bounds: "0 \<le> half g e" "half g e < CURRENT_DH_PRIME" "int (be_nat (be_bytes 256 (nat (half g e)))) = half g e"
  using prime_pos be_nat_mod_prime [of "g ^ e"] by (simp_all add: half_def)

lemma fits_client_nonce: "draws_ok r \<Longrightarrow> fits True 16 (client_nonce r)" "draws_ok r \<Longrightarrow> fits True 32 (le_int True (draw_new_nonce r))"
  using fits_le_int [of True "draw_nonce r"] fits_le_int [of True "draw_new_nonce r"]
  by (simp_all add: draws_ok_def client_nonce_def)

lemma rsa_encrypt_known:
  assumes "map_of server_public_keys fp \<noteq> None"
  shows "\<exists>b. rsa_encrypt data fp = Inr b \<and> length b = 256"
proof -
  from assms obtain m e where k: "map_of server_public_keys fp = Some (m, e)" by auto
  from map_of_SomeD [OF k] public_keys_sized have m: "2 ^ 2047 < m" "m < 2 ^ 2048" by (auto simp: list_all_iff)
  have "0 < m" using m(1) by (smt (verit) zero_less_power)
  then have r: "0 \<le> int (be_nat data) ^ e mod m" "int (be_nat data) ^ e mod m < m" by simp_all
  have "m < 256 ^ 256" using m(2) by simp
  with r show ?thesis by (simp only: rsa_encrypt_def k option.case prod.case to_bytes_be_def pow_mod_eq) simp
qed

lemma req_dh_params_sent:
  assumes "has_auth_schema env" "draws_ok r" "server_ok x"
    and pq: "factors r (int (be_nat (sv_pq x))) = Inr (p, q)" "0 \<le> p" "p < 2 ^ 32" "0 \<le> q" "q < 2 ^ 32"
  obtains args where
    "req_dh_params env A r (client_nonce r) (client_nonce r, sv_nonce x, sv_pq x, map TInt (sv_fingerprints x)) = Inr (TObj ReqDHParams_ID args)"
    "list_all2 fits_arg (map plain_arg [Cint128, Cint128, Cbytes, Cbytes, Clong, Cbytes]) args"
proof -
  have sv: "fits True 16 (sv_nonce x)" "length (sv_pq x) \<le> 8" "list_all (fits True 8) (sv_fingerprints x)"
    "list_ex (\<lambda>i. map_of server_public_keys i \<noteq> None) (sv_fingerprints x)" using assms(3) by (auto simp: server_ok_def)
  obtain fp where fp: "known_fingerprint (map TInt (sv_fingerprints x)) = Inr fp" "fits True 8 fp" "map_of server_public_keys fp \<noteq> None"
    by (rule known_fingerprint_found [OF sv(4,3)])
  let ?p = "be_bytes 4 (nat p)" and ?q = "be_bytes 4 (nat q)"
  have "list_all2 fits_arg (map plain_arg [Cbytes, Cbytes, Cbytes, Cint128, Cint128, Cint256])
      [TBytes (sv_pq x), TBytes ?p, TBytes ?q, TInt (client_nonce r), TInt (sv_nonce x), TInt (le_int True (draw_new_nonce r))]"
    using sv fits_client_nonce [OF assms(2)] by (simp add: fits_args)
  from plain_object [OF assms(1) schema_args(3) this order_refl] obtain data where
    d: "tl_write env (pq_inner_data (sv_pq x) ?p ?q (client_nonce r) (sv_nonce x) (le_int True (draw_new_nonce r))) = Inr data"
    unfolding pq_inner_data_def by blast
  from rsa_encrypt_known [OF fp(3)] obtain b where
    b: "rsa_encrypt (with_hash A (draw_padding r) 255 data) fp = Inr b" "length b = 256" by blast
  show ?thesis
  proof (rule that)
    show "req_dh_params env A r (client_nonce r) (client_nonce r, sv_nonce x, sv_pq x, map TInt (sv_fingerprints x)) =
        Inr (TObj ReqDHParams_ID [TInt (client_nonce r), TInt (sv_nonce x), TBytes ?p, TBytes ?q, TInt fp, TBytes b])"
      using pq fp(1) d b(1) by (simp add: req_dh_params_def to_bytes_be_def del: tl_write.simps)
    show "list_all2 fits_arg (map plain_arg [Cint128, Cint128, Cbytes, Cbytes, Clong, Cbytes])
        [TInt (client_nonce r), TInt (sv_nonce x), TBytes ?p, TBytes ?q, TInt fp, TBytes b]"
      using sv fits_client_nonce [OF assms(2)] fp(2) b(2) by (simp add: fits_args)
  qed
qed

lemma inner_fits:
  assumes "draws_ok r" "server_ok x"
  shows "list_all2 fits_arg (map plain_arg [Cint128, Cint128, Cint, Cbytes, Cbytes, Cint]) (inner_args r x)"
  using assms fits_client_nonce [OF assms(1)] by (simp add: inner_args_def server_ok_def fits_args fits_def)

lemma be_nat_prime: "int (be_nat (be_bytes 256 (nat CURRENT_DH_PRIME))) = CURRENT_DH_PRIME"
proof -
  have "CURRENT_DH_PRIME < 256 ^ 256" using prime_bounds(2) by simp
  then have "nat CURRENT_DH_PRIME < 256 ^ 256" using prime_pos by (simp only: nat_less_iff) simp
  then show ?thesis using prime_pos by (simp only: be_nat_be_bytes mod_less int_nat_eq) simp
qed

text \<open>The server's answer is decrypted, parsed and has the right hash.\<close>

lemma dh_answer_read:
  assumes env: "has_auth_schema env" and fuel: "700 \<le> fuel" and ok: "crypto_ok A" "draws_ok r" "server_ok x"
  obtains answer where "tl_write env (TObj ServerDHInnerData_ID (inner_args r x)) = Inr answer"
    "take 20 (ige256_decrypt A (dh_answer env A r x) (shared_key A r x) (shared_iv A r x)) = sha1 A answer"
    "read_dh_inner env fuel (drop 20 (ige256_decrypt A (dh_answer env A r x) (shared_key A r x) (shared_iv A r x))) =
       Inr (TObj ServerDHInnerData_ID (inner_args r x), \<lparr>dh_g = sv_g x, dh_prime = be_bytes 256 (nat CURRENT_DH_PRIME),
         dh_g_a = be_bytes 256 (nat (half (sv_g x) (sv_a x))), dh_time = sv_time x\<rparr>)"
    "length (dh_answer env A r x) \<le> 700"
proof -
  from plain_object [OF env schema_args(6) inner_fits [OF ok(2,3)] fuel] obtain answer where
    w: "tl_write env (TObj ServerDHInnerData_ID (inner_args r x)) = Inr answer"
      "length answer \<le> 4 + sum_list (map written_in (inner_args r x))" by blast
  define plain where "plain = with_hash A (sv_padding x) 16 answer"
  have pad: "\<And>n. length (sv_padding x n) = n" using ok(3) by (simp add: server_ok_def)
  note parts = with_hash_parts [OF ok(1) pad, where block = 16 and data = answer, folded plain_def, simplified]
  have a: "dh_answer env A r x = ige256_encrypt A plain (shared_key A r x) (shared_iv A r x)"
    using w(1) by (simp add: dh_answer_def plain_def del: tl_write.simps)
  have d: "ige256_decrypt A (dh_answer env A r x) (shared_key A r x) (shared_iv A r x) = plain"
    "length (dh_answer env A r x) = length plain"
    using ok(1) parts(3) unfolding a crypto_ok_def by auto
  from parts(2) obtain p where p: "drop 20 plain = answer @ p" by blast
  obtain answer' where "tl_write env (TObj ServerDHInnerData_ID (inner_args r x)) = Inr answer'"
    "tl_read env fuel None (answer' @ p) = (Inr (TObj ServerDHInnerData_ID (inner_args r x)), p)"
    by (rule plain_object [OF env schema_args(6) inner_fits [OF ok(2,3)] fuel])
  with w(1) have rd: "tl_read env fuel None (answer @ p) = (Inr (TObj ServerDHInnerData_ID (inner_args r x)), p)" by simp
  have "read_dh_inner env fuel (answer @ p) =
       Inr (TObj ServerDHInnerData_ID (inner_args r x), \<lparr>dh_g = sv_g x, dh_prime = be_bytes 256 (nat CURRENT_DH_PRIME),
         dh_g_a = be_bytes 256 (nat (half (sv_g x) (sv_a x))), dh_time = sv_time x\<rparr>)"
    unfolding read_dh_inner_def rd by (simp add: dh_inner_of_def inner_args_def arg_at_def)
  moreover have "length plain \<le> 700" using parts(4) w(2) by (simp add: inner_args_def)
  ultimately show ?thesis using that [OF w(1)] d parts(1) p by simp
qed

text \<open>What the client sends in return, and what the server reads in it.\<close>

definition client_args :: "auth_draws \<Rightarrow> dh_server \<Rightarrow> tlval list" where
  "client_args r x = [TInt (client_nonce r), TInt (sv_nonce x), TInt 0,
     TBytes (be_bytes 256 (nat (half (sv_g x) (be_nat (draw_b r)))))]"

lemma set_client_dh_sent:
  assumes env: "has_auth_schema env" and fuel: "700 \<le> fuel" and ok: "crypto_ok A" "draws_ok r" "server_ok x"
  obtains e where
    "set_client_dh env A r (client_nonce r) (sv_nonce x) (shared_key A r x) (shared_iv A r x)
       (be_bytes 256 (nat (half (sv_g x) (be_nat (draw_b r))))) =
       Inr (TObj SetClientDHParams_ID [TInt (client_nonce r), TInt (sv_nonce x), TBytes e])"
    "list_all2 fits_arg (map plain_arg [Cint128, Cint128, Cbytes]) [TInt (client_nonce r), TInt (sv_nonce x), TBytes e]"
    "fst (tl_read env fuel None (drop 20 (ige256_decrypt A e (shared_key A r x) (shared_iv A r x)))) =
       Inr (TObj ClientDHInnerData_ID (client_args r x))"
proof -
  have f: "list_all2 fits_arg (map plain_arg [Cint128, Cint128, Clong, Cbytes]) (client_args r x)"
    using fits_client_nonce [OF ok(2)] ok(3) by (simp add: client_args_def fits_args server_ok_def fits_def)
  from plain_object [OF env schema_args(7) f fuel] obtain data where
    w: "tl_write env (TObj ClientDHInnerData_ID (client_args r x)) = Inr data"
      "length data \<le> 4 + sum_list (map written_in (client_args r x))" by blast
  define plain where "plain = with_hash A (draw_dh_padding r) 16 data"
  have pad: "\<And>n. length (draw_dh_padding r n) = n" using ok(2) by (simp add: draws_ok_def)
  note parts = with_hash_parts [OF ok(1) pad, where block = 16 and data = data, folded plain_def, simplified]
  define e where "e = ige256_encrypt A plain (shared_key A r x) (shared_iv A r x)"
  have d: "ige256_decrypt A e (shared_key A r x) (shared_iv A r x) = plain" "length e = length plain"
    using ok(1) parts(3) unfolding e_def crypto_ok_def by auto
  from parts(2) obtain p where p: "drop 20 plain = data @ p" by blast
  obtain data' where "tl_write env (TObj ClientDHInnerData_ID (client_args r x)) = Inr data'"
    "tl_read env fuel None (data' @ p) = (Inr (TObj ClientDHInnerData_ID (client_args r x)), p)"
    by (rule plain_object [OF env schema_args(7) f fuel])
  with w(1) have rd: "tl_read env fuel None (data @ p) = (Inr (TObj ClientDHInnerData_ID (client_args r x)), p)" by simp
  show ?thesis
  proof (rule that [of e])
    show "set_client_dh env A r (client_nonce r) (sv_nonce x) (shared_key A r x) (shared_iv A r x)
       (be_bytes 256 (nat (half (sv_g x) (be_nat (draw_b r))))) =
       Inr (TObj SetClientDHParams_ID [TInt (client_nonce r), TInt (sv_nonce x), TBytes e])"
      using w(1) unfolding set_client_dh_def client_args_def e_def plain_def by (simp del: tl_write.simps)
    have "length e \<le> 1000" using d(2) parts(4) w(2) by (simp add: client_args_def)
    then show "list_all2 fits_arg (map plain_arg [Cint128, Cint128, Cbytes]) [TInt (client_nonce r), TInt (sv_nonce x), TBytes e]"
      using fits_client_nonce [OF ok(2)] ok(3) by (simp add: fits_args server_ok_def)
    show "fst (tl_read env fuel None (drop 20 (ige256_decrypt A e (shared_key A r x) (shared_iv A r x)))) =
       Inr (TObj ClientDHInnerData_ID (client_args r x))" unfolding d(1) p rd by simp
  qed
qed

lemma dh_checks_pass:
  assumes "server_ok x" "safe_half (half (sv_g x) b)"
    and "d = \<lparr>dh_g = sv_g x, dh_prime = be_bytes 256 (nat CURRENT_DH_PRIME), dh_g_a = be_bytes 256 (nat (half (sv_g x) (sv_a x))), dh_time = t\<rparr>"
  shows "dh_checks d (be_bytes 256 (nat (half (sv_g x) b))) = Inr ()"
proof -
  have big: "(1 :: int) < 2 ^ 1984" by simp
  have g: "1 < sv_g x" "sv_g x < 2 ^ 31" "safe_half (half (sv_g x) (sv_a x))" using assms(1) by (auto simp: server_ok_def)
  have "(2 :: int) ^ 31 < 2 ^ 2047 - 1" by simp
  then have "sv_g x < CURRENT_DH_PRIME - 1" using g(2) prime_bounds(1) by linarith
  moreover have "1 < y \<and> y < CURRENT_DH_PRIME - 1" if "safe_half y" for y using that big unfolding safe_half_def by linarith
  ultimately show ?thesis
    using g assms(2) unfolding dh_checks_Inr assms(3) by (simp add: be_nat_prime half_bounds(3)) (simp add: safe_half_def)
qed

lemma half_commutes: "half (half g a) b = half (half g b) a"
  by (simp add: half_def power_mod power_mult [symmetric] mult.commute)

lemma honest_attempt:
  fixes r x A env
  defines "nonce \<equiv> client_nonce r" and "server_nonce \<equiv> sv_nonce x" and "g_b \<equiv> half (sv_g x) (be_nat (draw_b r))"
  assumes env: "has_auth_schema env" "700 \<le> fuel" and ok: "crypto_ok A" "draws_ok r" "server_ok x"
    and pq: "factors r (int (be_nat (sv_pq x))) = Inr (p, q)" "0 \<le> p" "p < 2 ^ 32" "0 \<le> q" "q < 2 ^ 32"
    and g_b: "safe_half g_b"
    and first: "answers env xchg (draw_msg_id r 0) (TObj ReqPqMulti_ID [TInt nonce]) s0 (TObj ResPQ_ID (res_pq_args r x)) s1"
    and second: "\<And>req. req_dh_params env A r nonce (nonce, server_nonce, sv_pq x, map TInt (sv_fingerprints x)) = Inr req \<Longrightarrow>
      answers env xchg (draw_msg_id r 1) req s1 (TObj ServerDHParamsOk_ID (dh_args env A r x)) s2"
    and third: "\<And>req. set_client_dh env A r nonce server_nonce (shared_key A r x) (shared_iv A r x) (be_bytes 256 (nat g_b)) = Inr req \<Longrightarrow>
      answers env xchg (draw_msg_id r 2) req s2 (TObj DhGenOk_ID (gen_args r x)) s3"
  shows "auth_attempt env fuel A xchg r s0 = (Inr (be_bytes 256 (nat (half g_b (sv_a x)))), s3)"
proof -
  have fn: "fits True 16 nonce" "fits True 16 server_nonce" "fits True 16 (sv_hash x)"
    using fits_client_nonce [OF ok(2)] ok(3) by (simp_all add: nonce_def server_nonce_def server_ok_def)
  have msg: "fits True 8 (draw_msg_id r 0)" "fits True 8 (draw_msg_id r 1)" "fits True 8 (draw_msg_id r 2)"
    using ok(2) by (simp_all add: draws_ok_def)
  have sv: "length (sv_pq x) \<le> 8" "list_all (fits True 8) (sv_fingerprints x)" "length (sv_fingerprints x) \<le> 100"
    using ok(3) by (simp_all add: server_ok_def)
  obtain args1 where req1: "req_dh_params env A r nonce (nonce, server_nonce, sv_pq x, map TInt (sv_fingerprints x)) =
      Inr (TObj ReqDHParams_ID args1)"
    "list_all2 fits_arg (map plain_arg [Cint128, Cint128, Cbytes, Cbytes, Clong, Cbytes]) args1"
    unfolding nonce_def server_nonce_def by (rule req_dh_params_sent [OF env(1) ok(2,3) pq])
  obtain answer where ans: "tl_write env (TObj ServerDHInnerData_ID (inner_args r x)) = Inr answer"
    "take 20 (ige256_decrypt A (dh_answer env A r x) (shared_key A r x) (shared_iv A r x)) = sha1 A answer"
    "read_dh_inner env fuel (drop 20 (ige256_decrypt A (dh_answer env A r x) (shared_key A r x) (shared_iv A r x))) =
       Inr (TObj ServerDHInnerData_ID (inner_args r x), \<lparr>dh_g = sv_g x, dh_prime = be_bytes 256 (nat CURRENT_DH_PRIME),
         dh_g_a = be_bytes 256 (nat (half (sv_g x) (sv_a x))), dh_time = sv_time x\<rparr>)"
    "length (dh_answer env A r x) \<le> 700" by (rule dh_answer_read [OF env ok])
  obtain e where e: "set_client_dh env A r nonce server_nonce (shared_key A r x) (shared_iv A r x) (be_bytes 256 (nat g_b)) =
       Inr (TObj SetClientDHParams_ID [TInt nonce, TInt server_nonce, TBytes e])"
    "list_all2 fits_arg (map plain_arg [Cint128, Cint128, Cbytes]) [TInt nonce, TInt server_nonce, TBytes e]"
    "fst (tl_read env fuel None (drop 20 (ige256_decrypt A e (shared_key A r x) (shared_iv A r x)))) =
       Inr (TObj ClientDHInnerData_ID (client_args r x))"
    unfolding nonce_def server_nonce_def g_b_def by (rule set_client_dh_sent [OF env ok])
  have i0: "auth_invoke env fuel xchg (draw_msg_id r 0) (TObj ReqPqMulti_ID [TInt nonce]) s0 = (Inr (TObj ResPQ_ID (res_pq_args r x)), s1)"
    by (rule invoke_plain [OF env msg(1) schema_args(1) _ schema_args(2) _ first])
      (use fn sv in \<open>simp_all add: fits_args res_pq_args_def nonce_def [symmetric] server_nonce_def [symmetric]\<close>)
  have i1: "auth_invoke env fuel xchg (draw_msg_id r 1) (TObj ReqDHParams_ID args1) s1 =
      (Inr (TObj ServerDHParamsOk_ID (dh_args env A r x)), s2)"
    by (rule invoke_plain [OF env msg(2) schema_args(4) req1(2) schema_args(5) _ second [OF req1(1)]])
      (use fn ans(4) in \<open>simp add: fits_args dh_args_def nonce_def [symmetric] server_nonce_def [symmetric]\<close>)
  have i2: "auth_invoke env fuel xchg (draw_msg_id r 2) (TObj SetClientDHParams_ID [TInt nonce, TInt server_nonce, TBytes e]) s2 =
      (Inr (TObj DhGenOk_ID (gen_args r x)), s3)"
    by (rule invoke_plain [OF env msg(3) schema_args(8) e(2) schema_args(9) _ third [OF e(1)]])
      (use fn in \<open>simp add: fits_args gen_args_def nonce_def [symmetric] server_nonce_def [symmetric]\<close>)
  define d where "d = \<lparr>dh_g = sv_g x, dh_prime = be_bytes 256 (nat CURRENT_DH_PRIME),
    dh_g_a = be_bytes 256 (nat (half (sv_g x) (sv_a x))), dh_time = sv_time x\<rparr>"
  have p: "int (be_nat (dh_prime d)) = CURRENT_DH_PRIME" by (simp only: d_def dh_inner.simps be_nat_prime)
  have gb: "power_of (dh_g d) r d = Inr (be_bytes 256 (nat g_b))"
    unfolding power_of_Inr [OF p] by (simp add: g_b_def half_def d_def)
  have ga: "int (be_nat (dh_g_a d)) = half (sv_g x) (sv_a x)" by (simp add: d_def half_bounds(3))
  have key: "power_of (int (be_nat (dh_g_a d))) r d = Inr (be_bytes 256 (nat (half g_b (sv_a x))))"
    unfolding power_of_Inr [OF p] g_b_def half_commutes [of _ "be_nat (draw_b r)"] ga by (simp only: half_def)
  have checks: "dh_checks d (be_bytes 256 (nat g_b)) = Inr ()"
    using dh_checks_pass [OF ok(3) _ d_def] g_b by (simp add: g_b_def)
  have o: "res_pq_of (TObj ResPQ_ID (res_pq_args r x)) = Inr (nonce, server_nonce, sv_pq x, map TInt (sv_fingerprints x))"
    "dh_params_of (TObj ServerDHParamsOk_ID (dh_args env A r x)) = Inr (nonce, server_nonce, dh_answer env A r x)"
    "dh_gen_of (TObj DhGenOk_ID (gen_args r x)) = Inr (nonce, server_nonce)"
    by (simp_all add: res_pq_of_def res_pq_args_def dh_params_of_def dh_args_def dh_gen_of_def gen_args_def arg_at_def
      nonce_def server_nonce_def auth_ids)
  have sn: "to_bytes_le 16 True server_nonce = Inr (le_of_int 16 server_nonce)" using fn(2) by (simp add: to_bytes_le_def)
  note ks = shared_key_def [of A r x, folded server_nonce_def, symmetric] shared_iv_def [of A r x, folded server_nonce_def, symmetric]
  show ?thesis
    unfolding auth_attempt_def Let_def client_nonce_def [symmetric] nonce_def [symmetric] i0 bindT_simps o(1) req1(1)
      i1 o(2) prod.sel sn ks ans(3) d_def [symmetric] prod.case gb e(1) i2 o(3) key checks ans(1,2)
    by (simp add: nonce_checks_def)
qed


section \<open>A run\<close>

text \<open>A schema with the messages of the exchange only, stub ciphers, and a server that replies by rote.\<close>

definition demo_auth_env :: tl_env where
  "demo_auth_env = \<lparr>env_schema = map_of auth_schema, env_class = Map.empty, gz_compress = (\<lambda>b. b), gz_decompress = Inr\<rparr>"

definition demo_crypto :: auth_crypto where
  "demo_crypto = \<lparr>sha1 = (\<lambda>_. replicate 20 7), ige256_encrypt = (\<lambda>b _ _. b), ige256_decrypt = (\<lambda>b _ _. b)\<rparr>"

definition demo_draws :: auth_draws where
  "demo_draws = \<lparr>draw_nonce = replicate 16 1, draw_new_nonce = replicate 32 2, draw_brent = (1, 1, 1), draw_b = [7, 208],
     draw_padding = (\<lambda>n. replicate n 0), draw_dh_padding = (\<lambda>n. replicate n 0), draw_msg_id = (\<lambda>i. int i)\<rparr>"

definition demo_server :: dh_server where
  "demo_server = \<lparr>sv_nonce = 5, sv_pq = [14], sv_fingerprints = [3, 0xc3b42b026ce86b21 - push_bit 64 1], sv_g = 2, sv_a = 2000,
     sv_time = 100, sv_padding = (\<lambda>n. replicate n 0), sv_hash = 9\<rparr>"

definition demo_replies :: "tlval list" where
  "demo_replies = [TObj ResPQ_ID (res_pq_args demo_draws demo_server),
     TObj ServerDHParamsOk_ID (dh_args demo_auth_env demo_crypto demo_draws demo_server), TObj DhGenOk_ID (gen_args demo_draws demo_server)]"

definition demo_exchange :: "nat exchange" where
  "demo_exchange m n =
     (case tl_write demo_auth_env (demo_replies ! n) of
        Inl e \<Rightarrow> (Inl e, n)
      | Inr b \<Rightarrow> (Inr (Some (replicate 20 0 @ b)), Suc n))"

lemma demo_env_ok: "has_auth_schema demo_auth_env"
  by (simp add: has_auth_schema_def demo_auth_env_def auth_schema_def auth_ids)

lemma demo_crypto_ok: "crypto_ok demo_crypto"
  by (simp add: crypto_ok_def demo_crypto_def)

lemma demo_draws_ok: "draws_ok demo_draws"
  by (simp add: draws_ok_def demo_draws_def fits_def)

lemma demo_b: "be_nat (draw_b demo_draws) = 2000"
  by (simp add: demo_draws_def be_nat_def)

lemma demo_half: "half 2 2000 = 2 ^ 2000" "safe_half (half 2 2000)"
proof -
  have "(2 :: int) ^ 2000 < CURRENT_DH_PRIME" by (simp add: CURRENT_DH_PRIME_def)
  then show h: "half 2 2000 = 2 ^ 2000" unfolding half_def by (intro mod_pos_pos_trivial) simp_all
  show "safe_half (half 2 2000)" unfolding h safe_half_def CURRENT_DH_PRIME_def by simp
qed

lemma demo_server_ok: "server_ok demo_server"
  using demo_half(2) by (simp add: server_ok_def demo_server_def fits_def server_public_keys_def)

lemma demo_factors: "factors demo_draws (int (be_nat (sv_pq demo_server))) = Inr (2, 7)"
  by (simp add: factors_def demo_draws_def demo_server_def be_nat_def decompose_def)

lemma demo_answers:
  assumes "demo_replies ! n = TObj rid rvs" "(rid, rc) \<in> set auth_schema" "list_all2 fits_arg rc rvs"
  shows "answers demo_auth_env demo_exchange msg_id req n (TObj rid rvs) (Suc n)"
proof -
  obtain b where "tl_write demo_auth_env (TObj rid rvs) = Inr b" by (rule plain_object [OF demo_env_ok assms(2,3) order_refl])
  then show ?thesis by (simp add: answers_def demo_exchange_def assms(1) del: tl_write.simps)
qed

lemma demo_replies_fit:
  "list_all2 fits_arg [plain_arg Cint128, plain_arg Cint128, plain_arg Cbytes, \<lparr>a_flag = None, a_type = AVector (Some Clong)\<rparr>]
     (res_pq_args demo_draws demo_server)"
  "list_all2 fits_arg (map plain_arg [Cint128, Cint128, Cbytes]) (dh_args demo_auth_env demo_crypto demo_draws demo_server)"
  "list_all2 fits_arg (map plain_arg [Cint128, Cint128, Cint128]) (gen_args demo_draws demo_server)"
proof -
  note n = fits_client_nonce [OF demo_draws_ok]
  have sv: "fits True 16 (sv_nonce demo_server)" "length (sv_pq demo_server) \<le> 8" "list_all (fits True 8) (sv_fingerprints demo_server)"
    "length (sv_fingerprints demo_server) \<le> 100" "fits True 16 (sv_hash demo_server)"
    using demo_server_ok by (auto simp: server_ok_def)
  obtain answer where "length (dh_answer demo_auth_env demo_crypto demo_draws demo_server) \<le> 700"
    by (rule dh_answer_read [OF demo_env_ok order_refl demo_crypto_ok demo_draws_ok demo_server_ok])
  with n sv show
    "list_all2 fits_arg [plain_arg Cint128, plain_arg Cint128, plain_arg Cbytes, \<lparr>a_flag = None, a_type = AVector (Some Clong)\<rparr>]
       (res_pq_args demo_draws demo_server)"
    "list_all2 fits_arg (map plain_arg [Cint128, Cint128, Cbytes]) (dh_args demo_auth_env demo_crypto demo_draws demo_server)"
    "list_all2 fits_arg (map plain_arg [Cint128, Cint128, Cint128]) (gen_args demo_draws demo_server)"
    by (simp_all add: res_pq_args_def dh_args_def gen_args_def fits_args)
qed

lemma demo_answered:
  "answers demo_auth_env demo_exchange i req 0 (TObj ResPQ_ID (res_pq_args demo_draws demo_server)) 1"
  "answers demo_auth_env demo_exchange i req 1 (TObj ServerDHParamsOk_ID (dh_args demo_auth_env demo_crypto demo_draws demo_server)) 2"
  "answers demo_auth_env demo_exchange i req 2 (TObj DhGenOk_ID (gen_args demo_draws demo_server)) 3"
  using demo_answers [of 0, OF _ schema_args(2) demo_replies_fit(1)] demo_answers [of 1, OF _ schema_args(5) demo_replies_fit(2)]
    demo_answers [of 2, OF _ schema_args(9) demo_replies_fit(3)]
  by (simp_all add: demo_replies_def numeral_2_eq_2 numeral_3_eq_3)

lemma demo_safe: "safe_half (half (sv_g demo_server) (be_nat (draw_b demo_draws)))"
  using demo_half(2) by (simp add: demo_b demo_server_def)

lemma demo_attempt: "\<exists>key. auth_attempt demo_auth_env 700 demo_crypto demo_exchange demo_draws 0 = (Inr key, 3)"
  by (rule exI, rule honest_attempt [OF demo_env_ok order_refl demo_crypto_ok demo_draws_ok demo_server_ok demo_factors _ _ _ _
    demo_safe demo_answered]) simp_all

lemma auth_key_safe_witness:
  "\<exists>key. auth_attempt demo_auth_env 700 demo_crypto demo_exchange demo_draws 0 = (Inr key, 3) \<and> length key = 256"
proof -
  obtain key where k: "auth_attempt demo_auth_env 700 demo_crypto demo_exchange demo_draws 0 = (Inr key, 3)" using demo_attempt by blast
  from auth_key_safe [OF k] have "length key = 256" by blast
  with k show ?thesis by blast
qed

text \<open>
  C6. An exchange with a server that follows the protocol ends with one key on both sides: the attempt returns \<open>g_b\<close> to
  the server's exponent, where \<open>g_b\<close> is what the server reads in the last request.
\<close>

theorem auth_agreement:
  fixes r x A env
  defines "nonce \<equiv> client_nonce r" and "server_nonce \<equiv> sv_nonce x" and "g_b \<equiv> half (sv_g x) (be_nat (draw_b r))"
  assumes env: "has_auth_schema env" "700 \<le> fuel" and ok: "crypto_ok A" "draws_ok r" "server_ok x"
    and pq: "factors r (int (be_nat (sv_pq x))) = Inr (p, q)" "0 \<le> p" "p < 2 ^ 32" "0 \<le> q" "q < 2 ^ 32"
    and g_b: "safe_half g_b"
    and first: "answers env xchg (draw_msg_id r 0) (TObj ReqPqMulti_ID [TInt nonce]) s0 (TObj ResPQ_ID (res_pq_args r x)) s1"
    and second: "\<And>req. req_dh_params env A r nonce (nonce, server_nonce, sv_pq x, map TInt (sv_fingerprints x)) = Inr req \<Longrightarrow>
      answers env xchg (draw_msg_id r 1) req s1 (TObj ServerDHParamsOk_ID (dh_args env A r x)) s2"
    and third: "\<And>req. set_client_dh env A r nonce server_nonce (shared_key A r x) (shared_iv A r x) (be_bytes 256 (nat g_b)) = Inr req \<Longrightarrow>
      answers env xchg (draw_msg_id r 2) req s2 (TObj DhGenOk_ID (gen_args r x)) s3"
  shows "auth_attempt env fuel A xchg r s0 = (Inr (be_bytes 256 (nat (half g_b (sv_a x)))), s3) \<and>
    (\<exists>e. set_client_dh env A r nonce server_nonce (shared_key A r x) (shared_iv A r x) (be_bytes 256 (nat g_b)) =
           Inr (TObj SetClientDHParams_ID [TInt nonce, TInt server_nonce, TBytes e]) \<and>
         fst (tl_read env fuel None (drop 20 (ige256_decrypt A e (shared_key A r x) (shared_iv A r x)))) =
           Inr (TObj ClientDHInnerData_ID [TInt nonce, TInt server_nonce, TInt 0, TBytes (be_bytes 256 (nat g_b))]))"
proof -
  obtain e where "set_client_dh env A r nonce server_nonce (shared_key A r x) (shared_iv A r x) (be_bytes 256 (nat g_b)) =
       Inr (TObj SetClientDHParams_ID [TInt nonce, TInt server_nonce, TBytes e])"
    "fst (tl_read env fuel None (drop 20 (ige256_decrypt A e (shared_key A r x) (shared_iv A r x)))) =
       Inr (TObj ClientDHInnerData_ID (client_args r x))"
    unfolding nonce_def server_nonce_def g_b_def by (rule set_client_dh_sent [OF env ok])
  moreover have "auth_attempt env fuel A xchg r s0 = (Inr (be_bytes 256 (nat (half g_b (sv_a x)))), s3)"
    unfolding g_b_def
    by (rule honest_attempt [OF env ok pq g_b [unfolded g_b_def] first [unfolded nonce_def]
      second [unfolded nonce_def server_nonce_def] third [unfolded nonce_def server_nonce_def g_b_def]])
  ultimately show ?thesis by (auto simp: client_args_def g_b_def nonce_def server_nonce_def)
qed

lemma auth_agreement_witness:
  "\<exists>key. auth_attempt demo_auth_env 700 demo_crypto demo_exchange demo_draws 0 = (Inr key, 3) \<and>
     key = be_bytes 256 (nat (half (2 ^ 2000) 2000))"
proof -
  have "auth_attempt demo_auth_env 700 demo_crypto demo_exchange demo_draws 0 =
      (Inr (be_bytes 256 (nat (half (half (sv_g demo_server) (be_nat (draw_b demo_draws))) (sv_a demo_server)))), 3)"
    by (rule conjunct1 [OF auth_agreement [OF demo_env_ok order_refl demo_crypto_ok demo_draws_ok demo_server_ok demo_factors _ _ _ _
      demo_safe demo_answered]]) simp_all
  then show ?thesis using demo_half(1) unfolding demo_b by (simp add: demo_server_def)
qed

section \<open>The attempts\<close>

text \<open>The state an attempt starts in: every earlier one ran and closed its connection.\<close>

fun started :: "(nat \<Rightarrow> 's \<Rightarrow> bytes result \<times> 's) \<Rightarrow> ('s \<Rightarrow> 's) \<Rightarrow> 's \<Rightarrow> nat \<Rightarrow> 's" where
  "started attempt close s 0 = s"
| "started attempt close s (Suc n) = close (snd (attempt n (started attempt close s n)))"

definition ended :: "bytes result \<Rightarrow> bool" where
  "ended r \<longleftrightarrow> (case r of Inl e \<Rightarrow> e = OutOfFuel | Inr _ \<Rightarrow> True)"

definition failed :: "bytes result \<Rightarrow> bool" where
  "failed r \<longleftrightarrow> (case r of Inl e \<Rightarrow> e \<noteq> OutOfFuel | Inr _ \<Rightarrow> False)"

lemma not_failed [simp]: "\<not> failed r \<longleftrightarrow> ended r"
  by (simp add: failed_def ended_def split: sum.splits)

lemma create_loop_run:
  fixes attempt close s
  defines "t \<equiv> started attempt close s"
  shows "\<exists>k \<le> left. list_all (\<lambda>i. failed (fst (attempt i (t i)))) [n..<n + k] \<and>
    (let out = attempt (n + k) (t (n + k)) in
     (\<not> failed (fst out) \<or> k = left) \<and>
     create_loop attempt close n left (t n) = (fst out, if fst out = Inl OutOfFuel then snd out else t (Suc (n + k))))"
proof (induction left arbitrary: n)
  case 0
  then show ?case by (cases "attempt n (t n)"; cases "fst (attempt n (t n))") (auto simp: t_def)
next
  case (Suc left)
  obtain out s' where a: "attempt n (t n) = (out, s')" by force
  show ?case
  proof (cases "failed out")
    case False
    then show ?thesis using a by (intro exI [of _ 0]) (auto simp: failed_def t_def split: sum.splits)
  next
    case True
    then obtain e where e: "out = Inl e" "e \<noteq> OutOfFuel" by (auto simp: failed_def split: sum.splits)
    with a have step: "create_loop attempt close n (Suc left) (t n) = create_loop attempt close (Suc n) left (t (Suc n))"
      by (simp add: t_def)
    from Suc.IH [of "Suc n"] obtain k where k: "k \<le> left" "list_all (\<lambda>i. failed (fst (attempt i (t i)))) [Suc n..<Suc n + k]"
      "let out = attempt (Suc n + k) (t (Suc n + k)) in (\<not> failed (fst out) \<or> k = left) \<and>
       create_loop attempt close (Suc n) left (t (Suc n)) = (fst out, if fst out = Inl OutOfFuel then snd out else t (Suc (Suc n + k)))"
      by blast
    have "[n..<n + Suc k] = n # [Suc n..<Suc n + k]" by (simp add: upt_conv_Cons)
    with k(2) a True have "list_all (\<lambda>i. failed (fst (attempt i (t i)))) [n..<n + Suc k]" by simp
    with k(1,3) show ?thesis unfolding step by (intro exI [of _ "Suc k"]) (simp add: Let_def)
  qed
qed

text \<open>
  C24. Creating a key ends after at most six attempts. The earlier ones failed; the last one returned or was the sixth, and
  its outcome is the outcome. Each ran where the one before it, its connection closed, had left off, and the last connection
  is closed too (an attempt that never ends is the last).
\<close>

theorem create_attempts:
  fixes env fuel A connect xchg close rs s
  defines "attempt \<equiv> \<lambda>n s. bindT (connect s) (\<lambda>_ s. auth_attempt env fuel A xchg (rs n) s)"
  defines "t \<equiv> started attempt close s"
  shows "\<exists>n. n \<le> MAX_RETRIES \<and> list_all (\<lambda>i. failed (fst (attempt i (t i)))) [0..<n] \<and>
    (ended (fst (attempt n (t n))) \<or> n = MAX_RETRIES) \<and>
    auth_create env fuel A connect xchg close rs s =
      (fst (attempt n (t n)), if fst (attempt n (t n)) = Inl OutOfFuel then snd (attempt n (t n)) else t (Suc n))"
proof -
  have s: "t 0 = s" by (simp add: t_def)
  show ?thesis
    using create_loop_run [of MAX_RETRIES attempt close s 0, folded t_def]
    unfolding auth_create_def attempt_def [symmetric] s add_0 Let_def not_failed by blast
qed

end
