(* ===== verification/Text_Surrogates.thy ===== *)
theory Text_Surrogates
  imports Prelude
begin

text \<open>
  Texts as Telegram counts them (\<open>pyrogram/parser/utils.py\<close>): code points beyond the Basic Multilingual Plane are two
  surrogates, entity offsets are widened to whole code points.
\<close>

section \<open>Surrogate pairs\<close>

definition is_high_surrogate :: "nat \<Rightarrow> bool" where
  "is_high_surrogate c \<longleftrightarrow> 0xD800 \<le> c \<and> c \<le> 0xDBFF"

definition is_low_surrogate :: "nat \<Rightarrow> bool" where
  "is_low_surrogate c \<longleftrightarrow> 0xDC00 \<le> c \<and> c \<le> 0xDFFF"

text \<open>The UTF-16 units of a code point, \<open>unpack("<HH", c.encode("utf-16le"))\<close> for one beyond the plane.\<close>

definition utf16_units :: "nat \<Rightarrow> nat list" where
  "utf16_units c =
     (if 0x10000 \<le> c then [0xD800 + (c - 0x10000) div 0x400, 0xDC00 + (c - 0x10000) mod 0x400] else [c])"

definition add_surrogates :: "ustr \<Rightarrow> ustr" where
  "add_surrogates text = concat (map utf16_units text)"

text \<open>\<open>bytes.decode("utf-16")\<close> over the units: a surrogate without its partner raises.\<close>

fun utf16_decode :: "nat list \<Rightarrow> ustr result" where
  "utf16_decode [] = Inr []"
| "utf16_decode (u # us) =
     (if is_high_surrogate u then
        (case us of
           [] \<Rightarrow> Inl UnicodeError
         | l # us' \<Rightarrow>
             if is_low_surrogate l
             then bindR (utf16_decode us') (\<lambda>t. Inr ((0x10000 + (u - 0xD800) * 0x400 + (l - 0xDC00)) # t))
             else Inl UnicodeError)
      else if is_low_surrogate u then Inl UnicodeError
      else bindR (utf16_decode us) (\<lambda>t. Inr (u # t)))"

text \<open>\<open>encode("utf-16", "surrogatepass")\<close> and back; the byte order mark in front is consumed again.\<close>

definition remove_surrogates :: "ustr \<Rightarrow> ustr result" where
  "remove_surrogates text = utf16_decode (concat (map utf16_units text))"

text \<open>A Python text without lone surrogates.\<close>

definition is_text :: "ustr \<Rightarrow> bool" where
  "is_text t \<longleftrightarrow> list_all (\<lambda>c. c < 0x110000 \<and> \<not> is_high_surrogate c \<and> \<not> is_low_surrogate c) t"

text \<open>The units of a text: no unit beyond the plane.\<close>

definition is_units :: "nat list \<Rightarrow> bool" where
  "is_units us \<longleftrightarrow> list_all (\<lambda>u. u < 0x10000) us"

lemma is_text_simps [simp]:
  "is_text []" "is_text (c # t) \<longleftrightarrow> c < 0x110000 \<and> \<not> is_high_surrogate c \<and> \<not> is_low_surrogate c \<and> is_text t"
  "is_text (s @ t) \<longleftrightarrow> is_text s \<and> is_text t"
  by (auto simp: is_text_def)

lemma add_surrogates_simps [simp]:
  "add_surrogates [] = []" "add_surrogates (c # t) = utf16_units c @ add_surrogates t"
  "add_surrogates (s @ t) = add_surrogates s @ add_surrogates t"
  by (simp_all add: add_surrogates_def)

lemma pair_value:
  assumes "(0x10000 :: nat) \<le> c"
  shows "0x10000 + (c - 0x10000) div 0x400 * 0x400 + (c - 0x10000) mod 0x400 = c"
  using assms div_mult_mod_eq [of "c - 0x10000" "0x400"] by linarith

lemma pair_high: "c < 0x110000 \<Longrightarrow> (c - 0x10000) div 0x400 < (0x400 :: nat)"
  by (simp add: div_less_iff_less_mult)

lemma utf16_units_decode:
  assumes "c < 0x110000" "\<not> is_high_surrogate c" "\<not> is_low_surrogate c"
  shows "utf16_decode (utf16_units c @ us) = bindR (utf16_decode us) (\<lambda>t. Inr (c # t))"
proof (cases "0x10000 \<le> c")
  case True
  then have "(c - 0x10000) div 0x400 < 0x400" using assms(1) by (simp add: pair_high)
  moreover have "(c - 0x10000) mod 0x400 < 0x400" by simp
  ultimately have "is_high_surrogate (0xD800 + (c - 0x10000) div 0x400)" "is_low_surrogate (0xDC00 + (c - 0x10000) mod 0x400)"
    by (simp_all add: is_high_surrogate_def is_low_surrogate_def)
  with pair_value [OF True] show ?thesis using True by (simp add: utf16_units_def)
next
  case False
  with assms show ?thesis by (simp add: utf16_units_def)
qed

lemma decode_add_surrogates:
  "is_text t \<Longrightarrow> utf16_decode (add_surrogates t @ us) = bindR (utf16_decode us) (\<lambda>u. Inr (t @ u))"
proof (induction t)
  case Nil
  show ?case by (cases "utf16_decode us") simp_all
next
  case (Cons c t)
  then show ?case by (cases "utf16_decode us") (simp_all add: utf16_units_decode)
qed

lemma units_add_surrogates: "is_text t \<Longrightarrow> is_units (add_surrogates t)"
proof (induction t)
  case (Cons c t)
  have "0xD800 + (c - 0x10000) div 0x400 < 0x10000" using Cons.prems pair_high [of c] by simp
  moreover have "0xDC00 + (c - 0x10000) mod 0x400 < 0x10000"
    using mod_less_divisor [of "0x400" "c - 0x10000"] by simp
  ultimately show ?case using Cons by (auto simp: is_units_def utf16_units_def)
qed (simp add: is_units_def)

lemma units_unchanged: "is_units us \<Longrightarrow> concat (map utf16_units us) = us"
  by (induction us) (auto simp: is_units_def utf16_units_def)

lemma surrogates_roundtrip: "is_text t \<Longrightarrow> remove_surrogates (add_surrogates t) = Inr t"
  using decode_add_surrogates [of t "[]"]
  by (simp add: remove_surrogates_def units_unchanged [OF units_add_surrogates])

section \<open>Widening an offset\<close>

definition inside_pair :: "ustr \<Rightarrow> int \<Rightarrow> bool" where
  "inside_pair text i \<longleftrightarrow> 0 < i \<and> i < int (length text) \<and> is_high_surrogate (text ! nat (i - 1)) \<and> is_low_surrogate (text ! nat i)"

function clamp_to_code_point :: "ustr \<Rightarrow> int \<Rightarrow> bool \<Rightarrow> int" where
  "clamp_to_code_point text i start =
     (if inside_pair text i then clamp_to_code_point text (if start then i - 1 else i + 1) start else i)"
  by pat_completeness auto

termination
  by (relation "measure (\<lambda>(text, i, start). if start then nat i else nat (int (length text) - i))")
    (auto simp: inside_pair_def)

declare clamp_to_code_point.simps [simp del]

lemma not_both: "is_high_surrogate c \<Longrightarrow> \<not> is_low_surrogate c"
  by (simp add: is_high_surrogate_def is_low_surrogate_def)

lemma inside_neighbour:
  assumes "inside_pair text i"
  shows "\<not> inside_pair text (i - 1)" "\<not> inside_pair text (i + 1)"
  using assms not_both by (auto simp: inside_pair_def)

text \<open>The loop moves an offset by at most one, outwards, and never leaves it inside a pair.\<close>

lemma clamp_eq:
  "clamp_to_code_point text i start = (if inside_pair text i then (if start then i - 1 else i + 1) else i)"
  using inside_neighbour [of "text" i] clamp_to_code_point.simps [of "text" i start]
    clamp_to_code_point.simps [of "text" "i - 1" start] clamp_to_code_point.simps [of "text" "i + 1" start]
  by (cases start) simp_all

lemma clamp_safe: "\<not> inside_pair text (clamp_to_code_point text i start)"
  using inside_neighbour [of "text" i] by (simp add: clamp_eq)

lemma clamp_in_text: "0 \<le> i \<Longrightarrow> i \<le> int (length text) \<Longrightarrow>
    0 \<le> clamp_to_code_point text i start \<and> clamp_to_code_point text i start \<le> int (length text)"
  by (auto simp: clamp_eq inside_pair_def)

lemma inside_pair_int:
  "inside_pair us (int k) \<longleftrightarrow> 0 < k \<and> k < length us \<and> is_high_surrogate (us ! (k - 1)) \<and> is_low_surrogate (us ! k)"
proof -
  have "nat (int k - 1) = k - 1" by linarith
  then show ?thesis by (auto simp: inside_pair_def)
qed

text \<open>An offset that is not inside a pair cuts the units of a text into the units of two texts.\<close>

lemma split_text:
  assumes "is_text t" "k \<le> length (add_surrogates t)" "\<not> inside_pair (add_surrogates t) (int k)"
  obtains a b where "t = a @ b" "add_surrogates a = take k (add_surrogates t)" "add_surrogates b = drop k (add_surrogates t)"
  using assms
proof (induction t arbitrary: k thesis)
  case Nil
  then show ?case by (metis append_Nil add_surrogates_simps(1) drop_Nil take_Nil)
next
  case (Cons c t)
  show ?case
  proof (cases "k < length (utf16_units c)")
    case True
    then consider "k = 0" | "k = 1" "0x10000 \<le> c" by (fastforce simp: utf16_units_def split: if_splits)
    then show ?thesis
    proof cases
      case 1
      then show ?thesis using Cons.prems(1) [of "[]" "c # t"] by simp
    next
      case 2
      then have "(c - 0x10000) div 0x400 < 0x400" using Cons.prems(2) by (simp add: pair_high)
      moreover have "(c - 0x10000) mod 0x400 < 0x400" by simp
      ultimately have "inside_pair (add_surrogates (c # t)) (int k)"
        using 2(2) unfolding 2(1) inside_pair_int by (simp add: utf16_units_def is_high_surrogate_def is_low_surrogate_def)
      with Cons.prems(4) show ?thesis by simp
    qed
  next
    case False
    define k' where "k' = k - length (utf16_units c)"
    have k: "k = length (utf16_units c) + k'" using False by (simp add: k'_def)
    have i: "\<not> inside_pair (add_surrogates t) (int k')"
    proof
      assume a: "inside_pair (add_surrogates t) (int k')"
      then show False using Cons.prems(4) unfolding inside_pair_int k by (cases k') (auto simp: nth_append)
    qed
    have le: "k' \<le> length (add_surrogates t)" using Cons.prems(3) by (simp add: k)
    have t: "is_text t" using Cons.prems(2) by simp
    obtain a b where ab: "t = a @ b" "add_surrogates a = take k' (add_surrogates t)" "add_surrogates b = drop k' (add_surrogates t)"
      using Cons.IH [OF _ t le i] by blast
    show ?thesis
    proof (rule Cons.prems(1))
      show "c # t = (c # a) @ b" using ab(1) by simp
      show "add_surrogates (c # a) = take k (add_surrogates (c # t))" by (simp only: add_surrogates_simps ab(2)) (simp add: k)
      show "add_surrogates b = drop k (add_surrogates (c # t))" by (simp only: add_surrogates_simps ab(3)) (simp add: k)
    qed
  qed
qed

end
