(* ===== verification/Text_Spans.thy ===== *)
theory Text_Spans
  imports Text_Surrogates "HOL-Library.Product_Lexorder" "HOL-Library.Multiset"
begin

text \<open>
  \<open>split_crossing_spans\<close> of \<open>pyrogram/parser/utils.py\<close> and the walk over the spans both unparsers share: entities that
  overlap without nesting are cut where one ends, and the opening and closing tags of what is left come out in order.
\<close>

section \<open>Cutting crossing spans\<close>

text \<open>\<open>(start, end, entity)\<close>.\<close>

type_synonym 'e span = "int \<times> int \<times> 'e"

definition span_key :: "'e span \<Rightarrow> int \<times> int" where
  "span_key s = (fst s, - fst (snd s))"

text \<open>Python's stable sort by the key.\<close>

definition sort_spans :: "'e span list \<Rightarrow> 'e span list" where
  "sort_spans spans = sort_key span_key spans"

definition crosses :: "'e span \<Rightarrow> 'e span \<Rightarrow> bool" where
  "crosses a b \<longleftrightarrow> fst a < fst b \<and> fst b < fst (snd a) \<and> fst (snd a) < fst (snd b)"

text \<open>The first \<open>b\<close> that crosses \<open>a\<close>, cut in two.\<close>

fun cut_first :: "'e span \<Rightarrow> 'e span list \<Rightarrow> 'e span list option" where
  "cut_first a [] = None"
| "cut_first a (b # bs) =
     (if crosses a b then
        Some ((fst b, fst (snd a), snd (snd b)) # (fst (snd a), fst (snd b), snd (snd b)) # bs)
      else map_option ((#) b) (cut_first a bs))"

text \<open>The two loops over pairs, which stop at the first crossing.\<close>

fun cut_any :: "'e span list \<Rightarrow> 'e span list \<Rightarrow> 'e span list option" where
  "cut_any [] spans = None"
| "cut_any (a # as) spans = (case cut_first a spans of Some r \<Rightarrow> Some r | None \<Rightarrow> cut_any as spans)"

definition endpoints :: "'e span list \<Rightarrow> int set" where
  "endpoints spans = fst ` set spans \<union> (\<lambda>s. fst (snd s)) ` set spans"

text \<open>How many endpoints of any span are strictly inside a span: the cut removes one of them.\<close>

definition inside :: "int set \<Rightarrow> 'e span \<Rightarrow> nat" where
  "inside E s = card {x \<in> E. fst s < x \<and> x < fst (snd s)}"

definition cuts_left :: "'e span list \<Rightarrow> nat" where
  "cuts_left spans = sum_list (map (inside (endpoints spans)) spans)"

lemma cut_first_Some:
  assumes "cut_first a spans = Some r"
  obtains l b m where "spans = l @ b # m" "crosses a b"
    "r = l @ (fst b, fst (snd a), snd (snd b)) # (fst (snd a), fst (snd b), snd (snd b)) # m"
proof -
  have "\<exists>l b m. spans = l @ b # m \<and> crosses a b \<and>
    r = l @ (fst b, fst (snd a), snd (snd b)) # (fst (snd a), fst (snd b), snd (snd b)) # m"
    using assms
  proof (induction spans arbitrary: r)
    case (Cons b bs)
    show ?case
    proof (cases "crosses a b")
      case True
      with Cons.prems show ?thesis by (intro exI [of _ "[]"]) auto
    next
      case False
      with Cons.prems obtain r' where r': "cut_first a bs = Some r'" "r = b # r'" by auto
      from Cons.IH [OF r'(1)] obtain l b' m where "bs = l @ b' # m \<and> crosses a b' \<and>
        r' = l @ (fst b', fst (snd a), snd (snd b')) # (fst (snd a), fst (snd b'), snd (snd b')) # m" by blast
      with r'(2) show ?thesis by (intro exI [of _ "b # l"]) auto
    qed
  qed simp
  then show ?thesis using that by blast
qed

lemma cut_any_Some:
  "cut_any as spans = Some r \<Longrightarrow> \<exists>a \<in> set as. cut_first a spans = Some r"
  by (induction as) (auto split: option.splits)

lemma cut_any_None: "cut_any as spans = None \<longleftrightarrow> (\<forall>a \<in> set as. cut_first a spans = None)"
  by (induction as) (auto split: option.splits)

lemma cut_first_None: "cut_first a spans = None \<longleftrightarrow> (\<forall>b \<in> set spans. \<not> crosses a b)"
  by (induction spans) auto

text \<open>One cut, as a step on the list.\<close>

inductive cut_step :: "'e span list \<Rightarrow> 'e span list \<Rightarrow> bool" where
  "a \<in> set (l @ b # m) \<Longrightarrow> crosses a b \<Longrightarrow>
     cut_step (l @ b # m) (l @ (fst b, fst (snd a), snd (snd b)) # (fst (snd a), fst (snd b), snd (snd b)) # m)"

inductive_cases cut_stepE: "cut_step spans r"

lemma cut_any_step: "cut_any spans spans = Some r \<Longrightarrow> cut_step spans r"
  by (drule cut_any_Some) (auto elim!: cut_first_Some intro!: cut_step.intros)

lemma finite_endpoints [simp]: "finite (endpoints spans)"
  by (simp add: endpoints_def)

lemma cut_step_endpoints: "cut_step spans r \<Longrightarrow> endpoints r = endpoints spans"
  by (erule cut_stepE) (auto simp: endpoints_def crosses_def)

lemma inside_cut:
  assumes "finite E" "fst a \<in> E" "fst (snd a) \<in> E" "crosses a b"
  shows "inside E (fst b, fst (snd a), e) + inside E (fst (snd a), fst (snd b), e') < inside E b"
proof -
  let ?s = "fst b" and ?m = "fst (snd a)" and ?e = "fst (snd b)"
  have lt: "?s < ?m" "?m < ?e" using assms(4) by (simp_all add: crosses_def)
  have "{x \<in> E. ?s < x \<and> x < ?e} = insert ?m ({x \<in> E. ?s < x \<and> x < ?m} \<union> {x \<in> E. ?m < x \<and> x < ?e})"
    using lt assms(3) by auto
  moreover have "?m \<notin> {x \<in> E. ?s < x \<and> x < ?m} \<union> {x \<in> E. ?m < x \<and> x < ?e}" by simp
  moreover have "card ({x \<in> E. ?s < x \<and> x < ?m} \<union> {x \<in> E. ?m < x \<and> x < ?e}) =
      card {x \<in> E. ?s < x \<and> x < ?m} + card {x \<in> E. ?m < x \<and> x < ?e}"
    using assms(1) by (intro card_Un_disjoint) auto
  ultimately show ?thesis using assms(1) by (simp add: inside_def)
qed

lemma cut_step_decreases: "cut_step spans r \<Longrightarrow> cuts_left r < cuts_left spans"
proof -
  assume s: "cut_step spans r"
  then show ?thesis
  proof (rule cut_step.cases)
    fix a l b m
    assume l: "spans = l @ b # m" and r: "r = l @ (fst b, fst (snd a), snd (snd b)) # (fst (snd a), fst (snd b), snd (snd b)) # m"
      and a: "a \<in> set (l @ b # m)" "crosses a b"
    have "fst a \<in> endpoints spans" "fst (snd a) \<in> endpoints spans" using a(1) by (auto simp: endpoints_def l)
    from inside_cut [OF finite_endpoints this a(2), of "snd (snd b)" "snd (snd b)"]
    have "sum_list (map (inside (endpoints spans)) r) < sum_list (map (inside (endpoints spans)) spans)" by (simp add: l r)
    then show ?thesis by (simp only: cuts_left_def cut_step_endpoints [OF s])
  qed
qed

lemma set_sort_spans [simp]: "set (sort_spans spans) = set spans"
  by (simp add: sort_spans_def)

lemma mset_sort_spans [simp]: "mset (sort_spans spans) = mset spans"
  by (simp add: sort_spans_def)

lemma cuts_left_sort [simp]: "cuts_left (sort_spans spans) = cuts_left spans"
proof -
  have "endpoints (sort_spans spans) = endpoints spans" by (simp add: endpoints_def)
  then show ?thesis
    unfolding cuts_left_def by (metis mset_sort_spans mset_map sum_mset_sum_list)
qed

text \<open>The loop over cuts: cut the first crossing pair, sort again, until none crosses.\<close>

function cut_spans :: "'e span list \<Rightarrow> 'e span list" where
  "cut_spans spans = (case cut_any spans spans of Some r \<Rightarrow> cut_spans (sort_spans r) | None \<Rightarrow> spans)"
  by pat_completeness auto

termination
  by (relation "measure cuts_left") (auto dest: cut_any_step cut_step_decreases)

declare cut_spans.simps [simp del]

text \<open>An entity as the unparsers see it.\<close>

record 'e placed =
  e_offset :: int
  e_length :: int
  e_entity :: 'e

definition span_of :: "ustr \<Rightarrow> 'e placed \<Rightarrow> 'e span" where
  "span_of t e = (clamp_to_code_point t (e_offset e) True, clamp_to_code_point t (e_offset e + e_length e) False, e_entity e)"

definition split_crossing_spans :: "ustr \<Rightarrow> 'e placed list \<Rightarrow> 'e span list" where
  "split_crossing_spans t entities = cut_spans (sort_spans (map (span_of t) entities))"

section \<open>What the cuts do\<close>

definition noncrossing :: "'e span list \<Rightarrow> bool" where
  "noncrossing spans \<longleftrightarrow> list_all (\<lambda>a. list_all (\<lambda>b. \<not> crosses a b) spans) spans"

definition by_position :: "'e span list \<Rightarrow> bool" where
  "by_position spans \<longleftrightarrow> sorted (map span_key spans)"

text \<open>How many spans of the kind cover a position.\<close>

definition covers :: "'e span \<Rightarrow> int \<Rightarrow> bool" where
  "covers s x \<longleftrightarrow> fst s \<le> x \<and> x < fst (snd s)"

definition coverage :: "'e \<Rightarrow> int \<Rightarrow> 'e span list \<Rightarrow> nat" where
  "coverage e x spans = length (filter (\<lambda>s. snd (snd s) = e \<and> covers s x) spans)"

lemma coverage_sort [simp]: "coverage e x (sort_spans spans) = coverage e x spans"
  unfolding coverage_def by (rule mset_eq_length) simp

lemma coverage_cut: "cut_step spans r \<Longrightarrow> coverage e x r = coverage e x spans"
proof (erule cut_step.cases)
  fix a l b m
  assume l: "spans = l @ b # m" and r: "r = l @ (fst b, fst (snd a), snd (snd b)) # (fst (snd a), fst (snd b), snd (snd b)) # m"
    and c: "crosses a b"
  let ?l = "(fst b, fst (snd a), snd (snd b))" and ?r = "(fst (snd a), fst (snd b), snd (snd b))"
  from c have "covers b x \<longleftrightarrow> covers ?l x \<or> covers ?r x" "\<not> (covers ?l x \<and> covers ?r x)"
    by (auto simp: crosses_def covers_def)
  then show "coverage e x r = coverage e x spans"
    by (cases "covers ?l x"; cases "covers ?r x") (simp_all add: coverage_def l r)
qed

lemma by_position_sort [simp]: "by_position (sort_spans spans)"
  by (simp add: by_position_def sort_spans_def)

lemma cut_spans_keeps:
  assumes "P spans" "\<And>s r. P s \<Longrightarrow> cut_step s r \<Longrightarrow> P (sort_spans r)"
  shows "P (cut_spans spans)"
  using assms(1)
proof (induction spans rule: cut_spans.induct)
  case (1 spans)
  show ?case
  proof (cases "cut_any spans spans")
    case None
    with "1.prems" show ?thesis by (simp add: cut_spans.simps [of spans])
  next
    case (Some r)
    with "1.IH" [OF Some assms(2) [OF "1.prems" cut_any_step [OF Some]]] show ?thesis by (simp add: cut_spans.simps [of spans])
  qed
qed

lemma cut_spans_done: "noncrossing (cut_spans spans)"
proof (induction spans rule: cut_spans.induct)
  case (1 spans)
  show ?case
  proof (cases "cut_any spans spans")
    case None
    then have "cut_spans spans = spans" by (simp add: cut_spans.simps [of spans])
    with None show ?thesis by (simp add: noncrossing_def list_all_iff cut_any_None cut_first_None)
  next
    case (Some r)
    with "1.IH" [OF Some] show ?thesis by (simp add: cut_spans.simps [of spans])
  qed
qed

lemma endpoints_sort [simp]: "endpoints (sort_spans spans) = endpoints spans"
  by (simp add: endpoints_def)

lemma cut_spans_coverage: "coverage e x (cut_spans spans) = coverage e x spans"
  by (rule cut_spans_keeps [of "\<lambda>s. coverage e x s = coverage e x spans"]) (simp_all add: coverage_cut)

lemma cut_spans_by_position: "by_position spans \<Longrightarrow> by_position (cut_spans spans)"
  by (rule cut_spans_keeps) simp_all

lemma cut_spans_endpoints: "endpoints (cut_spans spans) = endpoints spans"
  by (rule cut_spans_keeps [of "\<lambda>s. endpoints s = endpoints spans"]) (simp_all add: cut_step_endpoints)

text \<open>A span keeps its kind and stays within what it was cut from.\<close>

lemma cut_spans_nonempty:
  assumes "\<And>s. s \<in> set spans \<Longrightarrow> fst s < fst (snd s)"
  shows "s \<in> set (cut_spans spans) \<Longrightarrow> fst s < fst (snd s)"
proof -
  have "\<forall>s \<in> set (cut_spans spans). fst s < fst (snd s)"
    by (rule cut_spans_keeps) (use assms in \<open>auto elim!: cut_step.cases simp: crosses_def\<close>)
  then show "s \<in> set (cut_spans spans) \<Longrightarrow> fst s < fst (snd s)" by blast
qed

lemma cut_step_kinds: "cut_step s r \<Longrightarrow> (\<lambda>s. snd (snd s)) ` set r = (\<lambda>s. snd (snd s)) ` set s"
  by (erule cut_step.cases) auto

lemma cut_spans_kinds: "(\<lambda>s. snd (snd s)) ` set (cut_spans spans) = (\<lambda>s. snd (snd s)) ` set spans"
  by (rule cut_spans_keeps [of "\<lambda>l. (\<lambda>s. snd (snd s)) ` set l = (\<lambda>s. snd (snd s)) ` set spans"])
    (simp_all add: cut_step_kinds)

text \<open>Spans that do not cross are left as they are.\<close>

lemma cut_spans_id: "noncrossing spans \<Longrightarrow> cut_spans spans = spans"
proof -
  assume n: "noncrossing spans"
  have "cut_any spans spans = None" using n by (simp add: cut_any_None cut_first_None noncrossing_def list_all_iff)
  then show ?thesis by (simp add: cut_spans.simps [of spans])
qed

end
