(* ===== verification/Html_Text.thy ===== *)
theory Html_Text
  imports Text_Spans Py_Text
begin

text \<open>
  Text formatting as HTML (\<open>pyrogram/parser/html.py\<close>): what \<open>unparse\<close> makes of a text with its entities, and the handlers
  that turn the events of the standard library's \<open>HTMLParser\<close> back into a text and entities. The tokenizer of the standard
  library and the resolution of mentioned users are arguments.
\<close>

section \<open>Entities\<close>

text \<open>\<open>MessageEntityType\<close> with the attributes the unparsers read; a type they know nothing of is \<open>Other\<close>.\<close>

datatype entity =
    Bold
  | Italic
  | Underline
  | Strikethrough
  | Spoiler
  | Code
  | Pre (pre_language: ustr)
  | Blockquote (quote_expandable: bool)
  | TextLink (link_url: ustr)
  | TextMention (mention_id: int)
  | CustomEmoji (emoji_id: int)
  | DateTime (dt_unix: int) (dt_format: ustr)
  | Other

section \<open>Writing\<close>

text \<open>\<open>html.escape(s)\<close>.\<close>

definition escape_char :: "nat \<Rightarrow> ustr" where
  "escape_char c =
     (if c = 38 then ustr ''&amp;'' else if c = 60 then ustr ''&lt;'' else if c = 62 then ustr ''&gt;''
      else if c = 34 then ustr ''&quot;'' else if c = 39 then ustr ''&#x27;'' else [c])"

definition html_escape :: "ustr \<Rightarrow> ustr" where
  "html_escape s = concat (map escape_char s)"

fun type_name :: "entity \<Rightarrow> string" where
  "type_name Bold = ''b''" | "type_name Italic = ''i''" | "type_name Underline = ''u''" | "type_name Strikethrough = ''s''"
| "type_name _ = ''''"

text \<open>\<open>parse_one\<close>: the opening and the closing tag.\<close>

definition html_tags :: "entity \<Rightarrow> (ustr \<times> ustr) option" where
  "html_tags e =
     (case e of
        Pre language \<Rightarrow>
          if language \<noteq> []
          then Some (ustr ''<pre><code class=\"language-'' @ language @ ustr ''\">'', ustr ''</code></pre>'')
          else Some (ustr ''<pre>'', ustr ''</pre>'')
      | Code \<Rightarrow> Some (ustr ''<code>'', ustr ''</code>'')
      | Spoiler \<Rightarrow> Some (ustr ''<tg-spoiler>'', ustr ''</tg-spoiler>'')
      | Blockquote expandable \<Rightarrow> Some (ustr (if expandable then ''<blockquote expandable>'' else ''<blockquote>''), ustr ''</blockquote>'')
      | TextLink url \<Rightarrow> Some (ustr ''<a href=\"'' @ url @ ustr ''\">'', ustr ''</a>'')
      | TextMention i \<Rightarrow> Some (ustr ''<a href=\"tg://user?id='' @ py_str_int i @ ustr ''\">'', ustr ''</a>'')
      | CustomEmoji i \<Rightarrow> Some (ustr ''<tg-emoji emoji-id=\"'' @ py_str_int i @ ustr ''\">'', ustr ''</tg-emoji>'')
      | DateTime unix fmt \<Rightarrow> Some (ustr ''<tg-time unix=\"'' @ py_str_int unix @ ustr ''\" format=\"'' @ fmt @ ustr ''\">'', ustr ''</tg-time>'')
      | Other \<Rightarrow> None
      | _ \<Rightarrow> Some (ustr (''<'' @ type_name e @ ''>''), ustr (''</'' @ type_name e @ ''>'')))"

text \<open>
  \<open>recursive\<close> and the loops around it, over the spans still to come: an element is with_open, the spans that start before its
  end are written inside, it is closed. A span without a tag is skipped. The result is the tags with their offsets and the
  spans left.
\<close>

type_synonym 'a tagged = "('a \<times> int) list"

function walk :: "('e span \<Rightarrow> (('a \<times> int) \<times> ('a \<times> int) \<times> 'a tagged) option) \<Rightarrow> int option \<Rightarrow> 'e span list \<Rightarrow> 'a tagged \<times> 'e span list" where
  "walk tags limit [] = ([], [])"
| "walk tags limit (s # rest) =
     (if limit \<noteq> None \<and> \<not> fst s < the limit then ([], s # rest)
      else (case tags s of
              None \<Rightarrow> walk tags limit rest
            | Some (open, close, extra) \<Rightarrow>
                (case walk tags (Some (snd close)) rest of
                   (inner, r) \<Rightarrow> (case walk tags limit r of (others, r') \<Rightarrow> (open # extra @ inner @ close # others, r')))))"
  by pat_completeness auto

lemma walk_shrinks: "walk_dom (tags, limit, spans) \<Longrightarrow> length (snd (walk tags limit spans)) \<le> length spans"
proof (induction tags limit spans rule: walk.pinduct)
  case (1 tags limit)
  then show ?case by (simp add: walk.psimps)
next
  case (2 tags limit s rest)
  show ?case
  proof (cases "limit \<noteq> None \<and> \<not> fst s < the limit")
    case True
    then show ?thesis by (simp add: walk.psimps(2) [OF "2.hyps"])
  next
    case False
    show ?thesis
    proof (cases "tags s")
      case None
      from "2.IH"(1) [OF False None] show ?thesis using False None by (simp add: walk.psimps(2) [OF "2.hyps"])
    next
      case (Some x)
      then obtain op cl extra where x: "tags s = Some (op, cl, extra)" by (cases x) auto
      obtain inner r where w: "walk tags (Some (snd cl)) rest = (inner, r)" by fastforce
      obtain others r' where w': "walk tags limit r = (others, r')" by fastforce
      from "2.IH"(2) [OF False x refl refl] w have "length r \<le> length rest" by simp
      moreover from "2.IH"(3) [OF False x refl refl w [symmetric]] w' have "length r' \<le> length r" by simp
      ultimately show ?thesis using False x w w' by (simp add: walk.psimps(2) [OF "2.hyps"])
    qed
  qed
qed

lemma walk_left: "(inner, r) = walk tags limit spans \<Longrightarrow> walk_dom (tags, limit, spans) \<Longrightarrow> length r \<le> length spans"
  using walk_shrinks [of tags limit spans] by (metis snd_conv)

termination walk
  by (relation "measure (\<lambda>(tags, limit, spans). length spans)") (auto dest: walk_left simp: less_Suc_eq_le)

text \<open>What a walk writes belongs to a span of the list.\<close>

definition written_by :: "('e span \<Rightarrow> (('a \<times> int) \<times> ('a \<times> int) \<times> 'a tagged) option) \<Rightarrow> 'a \<times> int \<Rightarrow> 'e span \<Rightarrow> bool" where
  "written_by tags x s \<longleftrightarrow> (case tags s of None \<Rightarrow> False | Some (op, cl, extra) \<Rightarrow> x = op \<or> x = cl \<or> x \<in> set extra)"

lemma walk_items:
  "(\<forall>x \<in> set (fst (walk tags limit spans)). \<exists>s \<in> set spans. written_by tags x s) \<and> set (snd (walk tags limit spans)) \<subseteq> set spans"
proof (induction tags limit spans rule: walk.induct)
  case (1 tags limit)
  then show ?case by simp
next
  case (2 tags limit s rest)
  show ?case
  proof (cases "limit \<noteq> None \<and> \<not> fst s < the limit")
    case False
    show ?thesis
    proof (cases "tags s")
      case None
      from "2.IH"(1) [OF False None] False None show ?thesis by auto
    next
      case (Some x)
      then obtain op cl extra where x: "tags s = Some (op, cl, extra)" by (cases x) auto
      obtain inner r where w: "walk tags (Some (snd cl)) rest = (inner, r)" by fastforce
      obtain others r' where w': "walk tags limit r = (others, r')" by fastforce
      have i: "(\<forall>x \<in> set inner. \<exists>s \<in> set rest. written_by tags x s) \<and> set r \<subseteq> set rest"
        using "2.IH"(2) [OF False x refl refl] w by simp
      have o: "(\<forall>x \<in> set others. \<exists>s \<in> set r. written_by tags x s) \<and> set r' \<subseteq> set r"
        using "2.IH"(3) [OF False x refl refl w [symmetric]] w' by simp
      have "\<forall>y \<in> set (op # cl # extra). written_by tags y s" by (auto simp: written_by_def x)
      moreover have "walk tags limit (s # rest) = (op # extra @ inner @ cl # others, r')" using False x w w' by auto
      ultimately show ?thesis using i o by (auto; blast)
    qed
  qed auto
qed

text \<open>\<open>text[i:j]\<close> with Python's reading of negative indices.\<close>

definition py_index :: "'a list \<Rightarrow> int \<Rightarrow> nat" where
  "py_index t i = nat (if i < 0 then max 0 (int (length t) + i) else min i (int (length t)))"

definition py_slice :: "'a list \<Rightarrow> int \<Rightarrow> int \<Rightarrow> 'a list" where
  "py_slice t i j = take (py_index t j - py_index t i) (drop (py_index t i) t)"

definition html_span :: "entity span \<Rightarrow> ((ustr \<times> int) \<times> (ustr \<times> int) \<times> ustr tagged) option" where
  "html_span s = map_option (\<lambda>(start_tag, end_tag). ((start_tag, fst s), (end_tag, fst (snd s)), [])) (html_tags (snd (snd s)))"

text \<open>Tags are put in from the end; the text between them is escaped.\<close>

definition put_tag :: "(ustr \<Rightarrow> ustr) \<Rightarrow> ustr \<times> int \<Rightarrow> ustr \<times> int \<Rightarrow> ustr \<times> int" where
  "put_tag esc tag state =
     (case tag of (entity, offset) \<Rightarrow> (case state of (t, last_offset) \<Rightarrow>
        (take (py_index t offset) t @ entity @ esc (py_slice t offset last_offset) @ drop (py_index t last_offset) t, offset)))"

definition html_text :: "ustr \<Rightarrow> entity placed list \<Rightarrow> ustr" where
  "html_text units entities =
     (let offsets = fst (walk html_span None (split_crossing_spans units entities));
          (t, last_offset) = fold (put_tag html_escape) (rev offsets) (units, int (length units)) in
      html_escape (take (py_index t last_offset) t) @ drop (py_index t last_offset) t)"

definition html_unparse :: "ustr \<Rightarrow> entity placed list \<Rightarrow> ustr result" where
  "html_unparse t entities = remove_surrogates (html_text (add_surrogates t) entities)"

section \<open>Reading\<close>

text \<open>What the tokenizer reports; an attribute without a value has none.\<close>

datatype html_token = StartTag ustr "(ustr \<times> ustr option) list" | EndTag ustr | Data ustr

record date_flags =
  relative :: bool
  short_time :: bool
  long_time :: bool
  short_date :: bool
  long_date :: bool
  day_of_week :: bool

text \<open>The raw entities; \<open>RMention\<close> is \<open>InputMessageEntityMentionName\<close>.\<close>

datatype 'u raw_kind =
    RBold
  | RItalic
  | RUnderline
  | RStrike
  | RSpoiler
  | RCode
  | RPre "ustr option"
  | RBlockquote bool
  | RTextUrl ustr
  | RMention 'u
  | RCustomEmoji int
  | RDate int date_flags

record 'u raw_entity =
  r_kind :: "'u raw_kind"
  r_offset :: nat
  r_length :: nat

record html_parser =
  p_text :: ustr
  p_entities :: "int raw_entity list"
  p_open :: "ustr \<rightharpoonup> int raw_entity list"

definition new_parser :: html_parser where
  "new_parser = \<lparr>p_text = [], p_entities = [], p_open = Map.empty\<rparr>"

definition parse_date_time_format :: "ustr \<Rightarrow> date_flags" where
  "parse_date_time_format f =
     (let r = (f = ustr ''r''); has = (\<lambda>c. \<not> r \<and> of_char c \<in> set f) in
      \<lparr>relative = r, short_time = has CHR ''t'', long_time = (\<not> has CHR ''t'' \<and> has CHR ''T''),
       short_date = has CHR ''d'', long_date = (\<not> has CHR ''d'' \<and> has CHR ''D''), day_of_week = has CHR ''w''\<rparr>)"

text \<open>\<open>dict(attrs)\<close>: the last attribute of a name counts. \<open>attrs.get(name, "")\<close> of one without a value is \<open>None\<close>.\<close>

definition attr_get :: "(ustr \<times> ustr option) list \<Rightarrow> string \<Rightarrow> ustr option option" where
  "attr_get attrs name = map_of (rev attrs) (ustr name)"

text \<open>\<open>re.match(r"tg://user\?id=(\d+)", url)\<close> and the number it found.\<close>

definition mention_of :: "ustr \<Rightarrow> int option" where
  "mention_of url =
     (let pre = ustr ''tg://user?id='' in
      if starts_with pre url then
        (case takeWhile (\<lambda>c. 48 \<le> c \<and> c \<le> 57) (drop (length pre) url) of
           [] \<Rightarrow> None
         | ds \<Rightarrow> (case py_int ds of Inr i \<Rightarrow> Some i | Inl _ \<Rightarrow> None))
      else None)"

definition int_attr :: "ustr option option \<Rightarrow> int option" where
  "int_attr a = (case a of Some (Some s) \<Rightarrow> (case py_int s of Inr i \<Rightarrow> Some i | Inl _ \<Rightarrow> None) | _ \<Rightarrow> None)"

definition tag_in :: "ustr \<Rightarrow> string list \<Rightarrow> bool" where
  "tag_in tag names = list_ex (\<lambda>n. tag = ustr n) names"

text \<open>What an opening tag stands for. \<open>Inr None\<close> is a tag that is ignored.\<close>

definition tag_kind :: "ustr \<Rightarrow> (ustr \<times> ustr option) list \<Rightarrow> int raw_kind option result" where
  "tag_kind tag attrs =
     (if tag_in tag [''b'', ''strong''] then Inr (Some RBold)
      else if tag_in tag [''i'', ''em''] then Inr (Some RItalic)
      else if tag_in tag [''u'', ''ins''] then Inr (Some RUnderline)
      else if tag_in tag [''s'', ''del'', ''strike''] then Inr (Some RStrike)
      else if tag_in tag [''blockquote''] then Inr (Some (RBlockquote (attr_get attrs ''expandable'' \<noteq> None)))
      else if tag_in tag [''pre''] then
        Inr (Some (RPre (case attr_get attrs ''language'' of None \<Rightarrow> Some [] | Some v \<Rightarrow> v)))
      else if tag_in tag [''code''] then Inr (Some RCode)
      else if tag_in tag [''spoiler'', ''tg-spoiler''] \<or> tag_in tag [''span''] \<and> attr_get attrs ''class'' = Some (Some (ustr ''tg-spoiler''))
      then Inr (Some RSpoiler)
      else if tag_in tag [''a''] then
        (case attr_get attrs ''href'' of
           Some None \<Rightarrow> Inl TypeError
         | a \<Rightarrow>
             let url = (case a of Some (Some u) \<Rightarrow> u | _ \<Rightarrow> []) in
             Inr (Some (case mention_of url of Some i \<Rightarrow> RMention i | None \<Rightarrow> RTextUrl url)))
      else if tag_in tag [''emoji'', ''tg-emoji''] then
        (let a = attr_get attrs ''emoji-id'' in
         Inr (map_option RCustomEmoji (int_attr (if a = None \<or> a = Some None \<or> a = Some (Some []) then attr_get attrs ''id'' else a))))
      else if tag_in tag [''tg-time''] then
        Inr (map_option
          (\<lambda>date. RDate date (parse_date_time_format (case attr_get attrs ''format'' of Some (Some f) \<Rightarrow> f | _ \<Rightarrow> [])))
          (int_attr (attr_get attrs ''unix'')))
      else Inr None)"

definition open_list :: "(ustr \<rightharpoonup> 'a list) \<Rightarrow> ustr \<Rightarrow> 'a list" where
  "open_list m tag = (case m tag of None \<Rightarrow> [] | Some es \<Rightarrow> es)"

definition handle_starttag :: "ustr \<Rightarrow> (ustr \<times> ustr option) list \<Rightarrow> html_parser \<Rightarrow> html_parser result" where
  "handle_starttag tag attrs p =
     (let active_pres = open_list (p_open p) (ustr ''pre'') in
      if tag_in tag [''code''] \<and> active_pres \<noteq> [] then
        (case attr_get attrs ''class'' of
           Some None \<Rightarrow> Inl AttributeError
         | a \<Rightarrow>
             let cls = (case a of Some (Some c) \<Rightarrow> c | _ \<Rightarrow> []) in
             Inr (if starts_with (ustr ''language-'') cls
                  then p\<lparr>p_open := (p_open p)(ustr ''pre'' \<mapsto>
                         butlast active_pres @ [(List.last active_pres)\<lparr>r_kind := RPre (Some (drop 9 cls))\<rparr>])\<rparr>
                  else p))
      else bindR (tag_kind tag attrs) (\<lambda>k.
        Inr (case k of
               None \<Rightarrow> p
             | Some kind \<Rightarrow> p\<lparr>p_open := (p_open p)(tag \<mapsto>
                 open_list (p_open p) tag @ [\<lparr>r_kind = kind, r_offset = length (p_text p), r_length = 0\<rparr>])\<rparr>)))"

definition lengthen :: "nat \<Rightarrow> 'u raw_entity \<Rightarrow> 'u raw_entity" where
  "lengthen n e = e\<lparr>r_length := r_length e + n\<rparr>"

definition handle_data :: "ustr \<Rightarrow> html_parser \<Rightarrow> html_parser" where
  "handle_data data p =
     (let data = add_surrogates data in
      p\<lparr>p_text := p_text p @ data,
        p_open := (\<lambda>tag. map_option (map (lengthen (length data))) (p_open p tag))\<rparr>)"

definition handle_endtag :: "ustr \<Rightarrow> html_parser \<Rightarrow> html_parser" where
  "handle_endtag tag p =
     (case open_list (p_open p) tag of
        [] \<Rightarrow> p
      | es \<Rightarrow> p\<lparr>p_entities := p_entities p @ [List.last es],
               p_open := (if butlast es = [] then (p_open p)(tag := None) else (p_open p)(tag \<mapsto> butlast es))\<rparr>)"

definition handle :: "html_token \<Rightarrow> html_parser \<Rightarrow> html_parser result" where
  "handle t p =
     (case t of
        StartTag tag attrs \<Rightarrow> handle_starttag tag attrs p
      | EndTag tag \<Rightarrow> Inr (handle_endtag tag p)
      | Data d \<Rightarrow> Inr (handle_data d p))"

fun feed_tokens :: "html_token list \<Rightarrow> html_parser \<Rightarrow> html_parser result" where
  "feed_tokens [] p = Inr p"
| "feed_tokens (t # ts) p = bindR (handle t p) (feed_tokens ts)"

text \<open>
  \<open>HTML.parse\<close>. \<open>resolve\<close> is the client's \<open>resolve_peer\<close>, absent without a client; \<open>None\<close> is \<open>PeerIdInvalid\<close>.
\<close>

datatype 'p mentioned = UserId int | InputUser 'p

fun resolve_kind :: "(int \<Rightarrow> 'p option) option \<Rightarrow> int raw_kind \<Rightarrow> 'p mentioned raw_kind option" where
  "resolve_kind resolve (RMention i) =
     (case resolve of None \<Rightarrow> Some (RMention (UserId i)) | Some r \<Rightarrow> map_option (\<lambda>p. RMention (InputUser p)) (r i))"
| "resolve_kind resolve RBold = Some RBold"
| "resolve_kind resolve RItalic = Some RItalic"
| "resolve_kind resolve RUnderline = Some RUnderline"
| "resolve_kind resolve RStrike = Some RStrike"
| "resolve_kind resolve RSpoiler = Some RSpoiler"
| "resolve_kind resolve RCode = Some RCode"
| "resolve_kind resolve (RPre l) = Some (RPre l)"
| "resolve_kind resolve (RBlockquote b) = Some (RBlockquote b)"
| "resolve_kind resolve (RTextUrl u) = Some (RTextUrl u)"
| "resolve_kind resolve (RCustomEmoji i) = Some (RCustomEmoji i)"
| "resolve_kind resolve (RDate i f) = Some (RDate i f)"

definition resolve_entity :: "(int \<Rightarrow> 'p option) option \<Rightarrow> int raw_entity \<Rightarrow> 'p mentioned raw_entity option" where
  "resolve_entity resolve e =
     map_option (\<lambda>k. \<lparr>r_kind = k, r_offset = r_offset e, r_length = r_length e\<rparr>) (resolve_kind resolve (r_kind e))"

text \<open>An entity within the text that is left after the trailing whitespace is gone.\<close>

definition trim_entity :: "nat \<Rightarrow> 'u raw_entity \<Rightarrow> 'u raw_entity option" where
  "trim_entity limit e =
     (if limit \<le> r_offset e then None
      else (let e = e\<lparr>r_length := min (r_length e) (limit - r_offset e)\<rparr> in if 0 < r_length e then Some e else None))"

definition finish :: "(int \<Rightarrow> 'p option) option \<Rightarrow> html_parser \<Rightarrow> (ustr \<times> 'p mentioned raw_entity list option) result" where
  "finish resolve p =
     (let entities = List.map_filter (resolve_entity resolve) (p_entities p);
          message = rstrip_by py_space (p_text p);
          kept = List.map_filter (trim_entity (length message)) entities in
      bindR (remove_surrogates message) (\<lambda>m.
        Inr (m, if kept = [] then None else Some (sort_key r_offset kept))))"

definition html_parse :: "(ustr \<Rightarrow> html_token list) \<Rightarrow> (int \<Rightarrow> 'p option) option \<Rightarrow> ustr \<Rightarrow> (ustr \<times> 'p mentioned raw_entity list option) result" where
  "html_parse tokenize resolve t =
     bindR (feed_tokens (tokenize (add_surrogates (py_strip t))) new_parser) (finish resolve)"

end
