(* ===== verification/Html_Laws.thy ===== *)
theory Html_Laws
  imports Html_Text
begin

text \<open>
  What the HTML formatting promises: the unparsed text is the escaped text with well-nested tags, and reading its tokens
  back gives the text and, for every cut of a crossing entity, the entity.
\<close>

section \<open>The unparsed text, piece by piece\<close>

definition sub :: "'a list \<Rightarrow> int \<Rightarrow> int \<Rightarrow> 'a list" where
  "sub t i j = take (nat (j - i)) (drop (nat i) t)"

fun offsets_in :: "int \<Rightarrow> int \<Rightarrow> 'a tagged \<Rightarrow> bool" where
  "offsets_in p q [] \<longleftrightarrow> p \<le> q"
| "offsets_in p q ((a, i) # r) \<longleftrightarrow> p \<le> i \<and> offsets_in i q r"

fun weave :: "(ustr \<Rightarrow> 'b list) \<Rightarrow> ('a \<Rightarrow> 'b list) \<Rightarrow> ustr \<Rightarrow> int \<Rightarrow> int \<Rightarrow> 'a tagged \<Rightarrow> 'b list" where
  "weave piece tag t p q [] = piece (sub t p q)"
| "weave piece tag t p q ((a, i) # r) = piece (sub t p i) @ tag a @ weave piece tag t i q r"

lemma in_order_le: "offsets_in p q offs \<Longrightarrow> p \<le> q"
  by (induction p q offs rule: offsets_in.induct) auto

lemma in_order_append: "offsets_in p q (xs @ (a, i) # ys) \<longleftrightarrow> offsets_in p i xs \<and> offsets_in i q ys"
  by (induction p i xs rule: offsets_in.induct) auto

lemma weave_append: "weave piece tag t p q (xs @ (a, i) # ys) = weave piece tag t p i xs @ tag a @ weave piece tag t i q ys"
  by (induction xs arbitrary: p) auto

lemma weave_map:
  "weave piece tag t p q (map (apfst f) offs) = weave piece (\<lambda>a. tag (f a)) t p q offs"
  by (induction offs arbitrary: p) auto

lemma sub_id: "sub t 0 (int (length t)) = t"
  by (simp add: sub_def)

lemma length_sub: "0 \<le> i \<Longrightarrow> i \<le> j \<Longrightarrow> j \<le> int (length t) \<Longrightarrow> length (sub t i j) = nat (j - i)"
  by (simp add: sub_def)

lemma sub_append: "0 \<le> i \<Longrightarrow> i \<le> j \<Longrightarrow> j \<le> k \<Longrightarrow> sub t i j @ sub t j k = sub t i k"
proof -
  assume a: "0 \<le> i" "i \<le> j" "j \<le> k"
  have "nat (k - i) = nat (j - i) + nat (k - j)" "nat j = nat (j - i) + nat i" using a by linarith+
  then show ?thesis by (simp add: sub_def take_add)
qed

text \<open>Putting in the tags from the end weaves them into the text.\<close>

lemma py_index_in: "0 \<le> i \<Longrightarrow> i \<le> int (length t) \<Longrightarrow> py_index t i = nat i"
  by (simp add: py_index_def)

lemma put_tags_weave:
  assumes "offsets_in 0 (int (length t)) offs"
  shows "\<exists>w l. foldr (put_tag esc) offs (t, int (length t)) = (take (nat l) t @ w, l) \<and> 0 \<le> l \<and> l \<le> int (length t) \<and>
     (\<forall>p. 0 \<le> p \<longrightarrow> offsets_in p (int (length t)) offs \<longrightarrow> p \<le> l \<and> weave esc (\<lambda>a. a) t p (int (length t)) offs =
       esc (sub t p l) @ w)"
  using assms
proof (induction offs)
  case Nil
  show ?case by (intro exI [of _ "[]"] exI [of _ "int (length t)"]) auto
next
  case (Cons x offs)
  obtain a i where x: "x = (a, i)" by (cases x)
  with Cons.prems have i: "0 \<le> i" "offsets_in i (int (length t)) offs" by simp_all
  then have le: "i \<le> int (length t)" by (auto dest: in_order_le)
  have "offsets_in 0 (int (length t)) offs" using i by (cases offs) auto
  from Cons.IH [OF this] obtain w l where w: "foldr (put_tag esc) offs (t, int (length t)) = (take (nat l) t @ w, l)"
    "0 \<le> l" "l \<le> int (length t)" and wv: "\<And>p. 0 \<le> p \<Longrightarrow> offsets_in p (int (length t)) offs \<Longrightarrow>
      p \<le> l \<and> weave esc (\<lambda>a. a) t p (int (length t)) offs = esc (sub t p l) @ w" by blast
  from wv [OF i] have il: "i \<le> l" and wi: "weave esc (\<lambda>a. a) t i (int (length t)) offs = esc (sub t i l) @ w" by simp_all
  have len: "l \<le> int (length (take (nat l) t @ w))" using w(2,3) by simp
  have "put_tag esc x (take (nat l) t @ w, l) = (take (nat i) t @ a @ esc (sub t i l) @ w, i)"
  proof -
    have "py_index (take (nat l) t @ w) i = nat i" "py_index (take (nat l) t @ w) l = nat l"
      using i(1) w(2) il len by (simp_all only: py_index_in)
    moreover have "take (nat i) (take (nat l) t @ w) = take (nat i) t" using il i(1) w(2,3) by simp
    moreover have "drop (nat l) (take (nat l) t @ w) = w" using w(2,3) by simp
    moreover have "take (nat l - nat i) (drop (nat i) (take (nat l) t @ w)) = sub t i l"
      using il i(1) w(2,3) by (simp add: sub_def drop_take_slice nat_diff_distrib)
    ultimately show ?thesis by (simp add: put_tag_def x py_slice_def)
  qed
  with w(1) have "foldr (put_tag esc) (x # offs) (t, int (length t)) = (take (nat i) t @ (a @ esc (sub t i l) @ w), i)" by simp
  moreover have "p \<le> i \<and> weave esc (\<lambda>a. a) t p (int (length t)) (x # offs) = esc (sub t p i) @ a @ esc (sub t i l) @ w"
    if "offsets_in p (int (length t)) (x # offs)" for p using that by (simp add: x wi)
  ultimately show ?case using i(1) le by blast
qed

lemma html_text_weave:
  assumes "offsets_in 0 (int (length t)) (fst (walk html_span None (split_crossing_spans t entities)))"
  shows "html_text t entities =
    weave html_escape (\<lambda>a. a) t 0 (int (length t)) (fst (walk html_span None (split_crossing_spans t entities)))"
proof -
  obtain w l where w: "foldr (put_tag html_escape) (fst (walk html_span None (split_crossing_spans t entities))) (t, int (length t)) =
      (take (nat l) t @ w, l)" "0 \<le> l" "l \<le> int (length t)"
    "weave html_escape (\<lambda>a. a) t 0 (int (length t)) (fst (walk html_span None (split_crossing_spans t entities))) =
      html_escape (sub t 0 l) @ w"
    using put_tags_weave [OF assms, of html_escape] assms by blast
  have "py_index (take (nat l) t @ w) l = nat l" using w(2,3) by (intro py_index_in) simp_all
  then show ?thesis using w by (simp add: html_text_def foldr_conv_fold [symmetric] Let_def sub_def)
qed

section \<open>Tokens\<close>

text \<open>The markup of a token.\<close>

definition render :: "html_token \<Rightarrow> ustr" where
  "render t =
     (case t of
        StartTag name attrs \<Rightarrow> ustr ''<'' @ name @ concat (map (\<lambda>(n, v). ustr '' '' @ n @
          (case v of None \<Rightarrow> [] | Some x \<Rightarrow> ustr ''=\"'' @ x @ ustr ''\"'')) attrs) @ ustr ''>''
      | EndTag name \<Rightarrow> ustr ''</'' @ name @ ustr ''>''
      | Data d \<Rightarrow> html_escape d)"

abbreviation render_all :: "html_token list \<Rightarrow> ustr" where
  "render_all ts \<equiv> concat (map render ts)"

definition tag_name :: "entity \<Rightarrow> ustr" where
  "tag_name e = ustr
     (case e of Pre _ \<Rightarrow> ''pre'' | Code \<Rightarrow> ''code'' | Spoiler \<Rightarrow> ''tg-spoiler'' | Blockquote _ \<Rightarrow> ''blockquote''
      | TextLink _ \<Rightarrow> ''a'' | TextMention _ \<Rightarrow> ''a'' | CustomEmoji _ \<Rightarrow> ''tg-emoji'' | DateTime _ _ \<Rightarrow> ''tg-time'' | _ \<Rightarrow> type_name e)"

definition tag_attrs :: "entity \<Rightarrow> (ustr \<times> ustr option) list" where
  "tag_attrs e =
     (case e of
        Blockquote True \<Rightarrow> [(ustr ''expandable'', None)]
      | TextLink url \<Rightarrow> [(ustr ''href'', Some url)]
      | TextMention i \<Rightarrow> [(ustr ''href'', Some (ustr ''tg://user?id='' @ py_str_int i))]
      | CustomEmoji i \<Rightarrow> [(ustr ''emoji-id'', Some (py_str_int i))]
      | DateTime unix fmt \<Rightarrow> [(ustr ''unix'', Some (py_str_int unix)), (ustr ''format'', Some fmt)]
      | _ \<Rightarrow> [])"

definition html_tokens :: "entity \<Rightarrow> html_token list \<times> html_token list" where
  "html_tokens e =
     (case e of
        Pre (c # language) \<Rightarrow>
          ([StartTag (ustr ''pre'') [], StartTag (ustr ''code'') [(ustr ''class'', Some (ustr ''language-'' @ c # language))]],
           [EndTag (ustr ''code''), EndTag (ustr ''pre'')])
      | _ \<Rightarrow> ([StartTag (tag_name e) (tag_attrs e)], [EndTag (tag_name e)]))"

lemma ustr_append: "ustr (a @ b) = ustr a @ ustr b"
  by (simp add: ustr_def)

lemma html_tags_render:
  "html_tags e = (if e = Other then None else Some (render_all (fst (html_tokens e)), render_all (snd (html_tokens e))))"
proof (cases e)
  case (Pre l)
  then show ?thesis by (cases l) (simp_all add: html_tags_def html_tokens_def render_def tag_name_def tag_attrs_def ustr_def)
next
  case (Blockquote x)
  then show ?thesis by (cases x) (simp_all add: html_tags_def html_tokens_def render_def tag_name_def tag_attrs_def ustr_def)
qed (simp_all add: html_tags_def html_tokens_def render_def tag_name_def tag_attrs_def ustr_def)

definition token_span :: "entity span \<Rightarrow> ((html_token list \<times> int) \<times> (html_token list \<times> int) \<times> html_token list tagged) option" where
  "token_span s =
     (if snd (snd s) = Other then None
      else Some ((fst (html_tokens (snd (snd s))), fst s), (snd (html_tokens (snd (snd s))), fst (snd s)), []))"

lemma walk_render:
  "walk html_span limit spans = apfst (map (apfst render_all)) (walk token_span limit spans)"
proof (induction token_span limit spans rule: walk.induct)
  case (1 limit)
  then show ?case by simp
next
  case (2 limit s rest)
  show ?case
  proof (cases "limit \<noteq> None \<and> \<not> fst s < the limit")
    case False
    show ?thesis
    proof (cases "snd (snd s) = Other")
      case True
      then have "token_span s = None" "html_span s = None" by (simp_all add: token_span_def html_span_def html_tags_render)
      with "2.hyps"(1) [OF False this(1)] False show ?thesis by auto
    next
      case n: False
      obtain inner r where w: "walk token_span (Some (fst (snd s))) rest = (inner, r)" by fastforce
      obtain others r' where w': "walk token_span limit r = (others, r')" by fastforce
      from n have t: "token_span s = Some ((fst (html_tokens (snd (snd s))), fst s), (snd (html_tokens (snd (snd s))), fst (snd s)), [])"
        and h: "html_span s = Some ((render_all (fst (html_tokens (snd (snd s)))), fst s),
          (render_all (snd (html_tokens (snd (snd s)))), fst (snd s)), [])"
        by (simp_all add: token_span_def html_span_def html_tags_render)
      from "2.hyps"(2) [OF False t refl refl] w
      have i: "walk html_span (Some (fst (snd s))) rest = (map (apfst render_all) inner, r)" by simp
      from "2.hyps"(3) [OF False t refl refl] w w'
      have o: "walk html_span limit r = (map (apfst render_all) others, r')" by simp
      from False t h w w' i o show ?thesis by auto
    qed
  qed auto
qed

section \<open>The tokens of the unparsed text\<close>

definition data :: "ustr \<Rightarrow> html_token list" where
  "data d = (if d = [] then [] else [Data d])"

lemma render_data [simp]: "render_all (data d) = html_escape d"
  by (simp add: data_def render_def html_escape_def)

lemma render_weave:
  "render_all (weave data (\<lambda>a. a) t p q offs) = weave html_escape render_all t p q offs"
  by (induction offs arbitrary: p) auto

definition html_stream :: "ustr \<Rightarrow> entity placed list \<Rightarrow> html_token list" where
  "html_stream t entities =
     weave data (\<lambda>a. a) t 0 (int (length t)) (fst (walk token_span None (split_crossing_spans t entities)))"

section \<open>Reading the tokens\<close>

fun raw_kind_of :: "entity \<Rightarrow> int raw_kind" where
  "raw_kind_of Bold = RBold"
| "raw_kind_of Italic = RItalic"
| "raw_kind_of Underline = RUnderline"
| "raw_kind_of Strikethrough = RStrike"
| "raw_kind_of Spoiler = RSpoiler"
| "raw_kind_of Code = RCode"
| "raw_kind_of (Pre l) = RPre (Some l)"
| "raw_kind_of (Blockquote b) = RBlockquote b"
| "raw_kind_of (TextLink u) = RTextUrl u"
| "raw_kind_of (TextMention i) = RMention i"
| "raw_kind_of (CustomEmoji i) = RCustomEmoji i"
| "raw_kind_of (DateTime u f) = RDate u (parse_date_time_format f)"
| "raw_kind_of Other = RBold"

text \<open>A link that is not read as a mention; the number of a user is not negative.\<close>

definition readable :: "entity \<Rightarrow> bool" where
  "readable e \<longleftrightarrow> (case e of TextLink u \<Rightarrow> mention_of u = None | TextMention i \<Rightarrow> 0 \<le> i | _ \<Rightarrow> True)"

text \<open>The kinds of a text: code and pre-formatted text are not mixed, since their tags are.\<close>

definition kinds_apart :: "entity set \<Rightarrow> bool" where
  "kinds_apart K \<longleftrightarrow> Code \<notin> K \<or> (\<forall>l. Pre l \<notin> K)"

definition ready :: "entity set \<Rightarrow> html_parser \<Rightarrow> bool" where
  "ready K p \<longleftrightarrow> (\<forall>tag. p_open p tag \<noteq> Some []) \<and>
     (Code \<in> K \<longrightarrow> p_open p (ustr ''pre'') = None) \<and> ((\<exists>l. Pre l \<in> K) \<longrightarrow> p_open p (ustr ''code'') = None)"

definition advance :: "ustr \<Rightarrow> int raw_entity list \<Rightarrow> html_parser \<Rightarrow> html_parser" where
  "advance d cl p = p\<lparr>p_text := p_text p @ d, p_entities := p_entities p @ cl,
     p_open := (\<lambda>tag. map_option (map (lengthen (length d))) (p_open p tag))\<rparr>"

lemma lengthen_0 [simp]: "lengthen 0 = id"
  by (rule ext) (simp add: lengthen_def)

lemma lengthen_lengthen: "lengthen m (lengthen n e) = lengthen (n + m) e"
  by (simp add: lengthen_def add.assoc)

lemma advance_nil [simp]: "advance [] [] p = p"
  by (simp add: advance_def option.map_id)

lemma advance_advance: "advance d' cl' (advance d cl p) = advance (d @ d') (cl @ cl') p"
  by (simp add: advance_def option.map_comp lengthen_lengthen comp_def)

lemma advance_simps [simp]:
  "p_text (advance d cl p) = p_text p @ d" "p_open (advance d cl p) tag = map_option (map (lengthen (length d))) (p_open p tag)"
  by (simp_all add: advance_def)

lemma ready_advance [simp]: "ready K (advance d cl p) \<longleftrightarrow> ready K p"
  by (auto simp: ready_def)

lemma feed_tokens_append: "feed_tokens (ts @ us) p = bindR (feed_tokens ts p) (feed_tokens us)"
  by (induction ts arbitrary: p) (auto simp: bindR_def split: sum.splits)

lemma feed_data: "is_units d \<Longrightarrow> feed_tokens (data d) p = Inr (advance d [] p)"
  by (simp add: data_def handle_def handle_data_def advance_def add_surrogates_def units_unchanged option.map_id)

text \<open>The entity an opening tag starts, and the parser with it.\<close>

definition with_open :: "entity \<Rightarrow> html_parser \<Rightarrow> html_parser" where
  "with_open e p = p\<lparr>p_open := (p_open p)(tag_name e \<mapsto>
     open_list (p_open p) (tag_name e) @ [\<lparr>r_kind = raw_kind_of e, r_offset = length (p_text p), r_length = 0\<rparr>])\<rparr>"

lemma mention_of_str_int: "0 \<le> i \<Longrightarrow> mention_of (ustr ''tg://user?id='' @ py_str_int i) = Some i"
proof -
  assume i: "0 \<le> i"
  let ?d = "dec_digits (nat i)"
  have "takeWhile (\<lambda>c. 48 \<le> c \<and> c \<le> 57) ?d = ?d" using dec_digits_range [of "nat i"] by (simp add: list_all_iff)
  moreover obtain c cs where "?d = c # cs" by (cases ?d) auto
  moreover have "py_int ?d = Inr i" using py_int_digits [OF dec_digits_range number_value_dec, of "nat i"] i by simp
  ultimately show ?thesis using i by (simp add: mention_of_def Let_def starts_with_def py_str_int_def)
qed

lemmas tag_simps = tag_name_def tag_attrs_def tag_in_def tag_kind_def attr_get_def ustr_def

lemma tag_kind_of: "e \<noteq> Other \<Longrightarrow> readable e \<Longrightarrow> (\<And>l. e = Pre l \<Longrightarrow> l = []) \<Longrightarrow>
    tag_kind (tag_name e) (tag_attrs e) = Inr (Some (raw_kind_of e))"
proof (cases e)
  case (TextMention i)
  moreover assume "readable e"
  ultimately show ?thesis using mention_of_str_int [of i] by (simp add: tag_simps readable_def)
next
  case (CustomEmoji i)
  have "py_str_int i \<noteq> []" by (simp add: py_str_int_def)
  with CustomEmoji show ?thesis using py_int_str_int [of i] by (simp add: tag_simps int_attr_def)
next
  case (DateTime u f)
  then show ?thesis using py_int_str_int [of u] by (simp add: tag_simps int_attr_def)
next
  case (Blockquote b)
  then show ?thesis by (cases b) (simp_all add: tag_simps)
qed (auto simp: tag_simps readable_def)

lemma handle_start_plain:
  assumes "tag_name e = ustr ''code'' \<Longrightarrow> p_open p (ustr ''pre'') = None"
    and "tag_kind (tag_name e) (tag_attrs e) = Inr (Some (raw_kind_of e))"
  shows "handle_starttag (tag_name e) (tag_attrs e) p = Inr (with_open e p)"
  using assms by (auto simp: handle_starttag_def Let_def tag_in_def with_open_def open_list_def)

lemma feed_start:
  assumes "e \<noteq> Other" "readable e" "e \<in> K" "ready K p"
  shows "feed_tokens (fst (html_tokens e)) p = Inr (with_open e p)"
proof (cases "\<exists>c l. e = Pre (c # l)")
  case True
  then obtain c l where e: "e = Pre (c # l)" by blast
  have k: "tag_kind (tag_name (Pre [])) (tag_attrs (Pre [])) = Inr (Some (raw_kind_of (Pre [])))"
    by (rule tag_kind_of) (simp_all add: readable_def)
  have "handle_starttag (ustr ''pre'') [] p = Inr (with_open (Pre []) p)"
    using handle_start_plain [OF _ k, of p] by (simp add: tag_name_def tag_attrs_def ustr_def)
  moreover have "handle_starttag (ustr ''code'') [(ustr ''class'', Some (ustr ''language-'' @ c # l))] (with_open (Pre []) p) = Inr (with_open e p)"
    by (simp add: handle_starttag_def e with_open_def tag_name_def open_list_def attr_get_def tag_in_def Let_def starts_with_def ustr_def)
  ultimately show ?thesis by (simp add: e html_tokens_def handle_def)
next
  case False
  have k: "tag_kind (tag_name e) (tag_attrs e) = Inr (Some (raw_kind_of e))"
    by (rule tag_kind_of [OF assms(1,2)]) (use False in \<open>metis list.exhaust\<close>)
  have "tag_name e = ustr ''code'' \<Longrightarrow> e = Code"
    by (cases e) (simp_all add: tag_name_def ustr_def)
  with assms(3,4) have "tag_name e = ustr ''code'' \<Longrightarrow> p_open p (ustr ''pre'') = None" by (simp add: ready_def)
  from handle_start_plain [OF this k] False show ?thesis
    by (auto simp: html_tokens_def handle_def split: entity.splits list.splits)
qed

lemma tag_name_pre: "tag_name e = ustr ''pre'' \<longleftrightarrow> (\<exists>l. e = Pre l)"
  by (cases e) (simp_all add: tag_name_def ustr_def)

lemma tag_name_code: "tag_name e = ustr ''code'' \<longleftrightarrow> e = Code"
  by (cases e) (simp_all add: tag_name_def ustr_def)

lemma ready_opened:
  assumes "ready K p" "kinds_apart K" "e \<in> K"
  shows "ready K (with_open e p)"
proof -
  have "ustr ''pre'' = tag_name e \<Longrightarrow> Code \<notin> K" "ustr ''code'' = tag_name e \<Longrightarrow> (\<forall>l. Pre l \<notin> K)"
    using assms(2,3) tag_name_pre [of e] tag_name_code [of e] by (auto simp: kinds_apart_def)
  with assms(1) show ?thesis by (auto simp: ready_def with_open_def)
qed

lemma handle_end:
  assumes "p_open p tag = Some (xs @ [x])"
  shows "handle_endtag tag p = p\<lparr>p_entities := p_entities p @ [x], p_open := (p_open p)(tag := if xs = [] then None else Some xs)\<rparr>"
  using assms by (cases xs) (simp_all add: handle_endtag_def open_list_def)

lemma feed_end:
  assumes "p_open p (tag_name e) = Some (xs @ [x])" "e \<in> K" "ready K p"
  shows "feed_tokens (snd (html_tokens e)) p =
    Inr (p\<lparr>p_entities := p_entities p @ [x], p_open := (p_open p)(tag_name e := if xs = [] then None else Some xs)\<rparr>)"
proof (cases "\<exists>c l. e = Pre (c # l)")
  case True
  then obtain c l where e: "e = Pre (c # l)" by blast
  have "p_open p (ustr ''code'') = None" using assms(2,3) e by (auto simp: ready_def)
  then have "handle_endtag (ustr ''code'') p = p" by (simp add: handle_endtag_def open_list_def)
  with assms(1) show ?thesis by (simp add: e html_tokens_def handle_def tag_name_def handle_end)
next
  case False
  with assms(1) show ?thesis by (auto simp: html_tokens_def handle_def handle_end split: entity.splits list.splits)
qed

text \<open>What an element leaves: its text and its entity, after those inside it.\<close>

definition reads_as :: "entity set \<Rightarrow> nat \<Rightarrow> html_token list \<Rightarrow> ustr \<Rightarrow> int raw_entity list \<Rightarrow> bool" where
  "reads_as K a ts d cl \<longleftrightarrow>
     (\<forall>p. length (p_text p) = a \<longrightarrow> ready K p \<longrightarrow> feed_tokens ts p = Inr (advance d cl p))"

lemma reads_data: "is_units d \<Longrightarrow> reads_as K a (data d) d []"
  by (simp add: reads_as_def feed_data)

lemma reads_append:
  assumes "reads_as K a ts d cl" "reads_as K (a + length d) us d' cl'"
  shows "reads_as K a (ts @ us) (d @ d') (cl @ cl')"
  using assms by (simp add: reads_as_def feed_tokens_append advance_advance)

lemma reads_element:
  assumes e: "e \<noteq> Other" "readable e" "e \<in> K" "kinds_apart K" and body: "reads_as K a ts d cl"
  shows "reads_as K a (fst (html_tokens e) @ ts @ snd (html_tokens e)) d
    (cl @ [\<lparr>r_kind = raw_kind_of e, r_offset = a, r_length = length d\<rparr>])"
  unfolding reads_as_def
proof (intro allI impI)
  fix p assume p: "length (p_text p) = a" "ready K p"
  let ?x = "\<lparr>r_kind = raw_kind_of e, r_offset = a, r_length = length d\<rparr>"
  let ?xs = "map (lengthen (length d)) (open_list (p_open p) (tag_name e))"
  let ?q = "advance d cl (with_open e p)"
  have start: "feed_tokens (fst (html_tokens e)) p = Inr (with_open e p)" by (rule feed_start [OF e(1-3) p(2)])
  have r: "ready K (with_open e p)" by (rule ready_opened [OF p(2) e(4,3)])
  have "length (p_text (with_open e p)) = a" using p(1) by (simp add: with_open_def)
  with body r have b: "feed_tokens ts (with_open e p) = Inr ?q" by (simp add: reads_as_def)
  have o: "p_open ?q (tag_name e) = Some (?xs @ [?x])" using p(1) by (simp add: with_open_def lengthen_def)
  have "ready K ?q" using r by simp
  from feed_end [OF o e(3) this] have f: "feed_tokens (snd (html_tokens e)) ?q =
    Inr (?q\<lparr>p_entities := p_entities ?q @ [?x], p_open := (p_open ?q)(tag_name e := if ?xs = [] then None else Some ?xs)\<rparr>)" .
  have "(p_open ?q)(tag_name e := if ?xs = [] then None else Some ?xs) = (\<lambda>tag. map_option (map (lengthen (length d))) (p_open p tag))"
    using p(2) by (auto simp: fun_eq_iff with_open_def open_list_def ready_def split: option.splits)
  with f have "feed_tokens (snd (html_tokens e)) ?q = Inr (advance d (cl @ [?x]) p)"
    by (simp add: advance_def with_open_def)
  then show "feed_tokens (fst (html_tokens e) @ ts @ snd (html_tokens e)) p = Inr (advance d (cl @ [?x]) p)"
    by (simp add: feed_tokens_append start b)
qed

section \<open>Reading what was written\<close>

definition raw_of :: "entity span \<Rightarrow> int raw_entity" where
  "raw_of s = \<lparr>r_kind = raw_kind_of (snd (snd s)), r_offset = nat (fst s), r_length = nat (fst (snd s) - fst s)\<rparr>"

definition written :: "entity span list \<Rightarrow> entity span list" where
  "written spans = filter (\<lambda>s. snd (snd s) \<noteq> Other) spans"

text \<open>Spans in order from a position on, within the text, none crossing another.\<close>

definition well_placed :: "entity set \<Rightarrow> int \<Rightarrow> int \<Rightarrow> entity span list \<Rightarrow> bool" where
  "well_placed K len p spans \<longleftrightarrow> by_position spans \<and> noncrossing spans \<and>
     list_all (\<lambda>s. p \<le> fst s \<and> fst s < fst (snd s) \<and> fst (snd s) \<le> len \<and> snd (snd s) \<in> K) spans"

lemma well_placed_Cons:
  assumes "well_placed K len p (s # rest)"
  shows "p \<le> fst s" "fst s < fst (snd s)" "fst (snd s) \<le> len" "snd (snd s) \<in> K" "well_placed K len (fst s) rest"
    "x \<in> set rest \<Longrightarrow> fst x < fst (snd s) \<Longrightarrow> fst (snd x) \<le> fst (snd s)"
proof -
  note w = assms [unfolded well_placed_def by_position_def noncrossing_def list_all_iff]
  from w show "p \<le> fst s" "fst s < fst (snd s)" "fst (snd s) \<le> len" "snd (snd s) \<in> K" by simp_all
  have k: "fst s < fst x \<or> fst s = fst x \<and> fst (snd x) \<le> fst (snd s)" if "x \<in> set rest" for x
    using w that by (auto simp: span_key_def less_eq_prod_def)
  have "fst s \<le> fst x" if "x \<in> set rest" for x using k [OF that] by linarith
  then show "well_placed K len (fst s) rest" using w by (auto simp: well_placed_def by_position_def noncrossing_def list_all_iff)
  show "fst (snd x) \<le> fst (snd s)" if "x \<in> set rest" "fst x < fst (snd s)"
    using k [OF that(1)] w that by (auto simp: crosses_def not_less)
qed

lemma well_placed_suffix:
  "well_placed K len p (used @ rest) \<Longrightarrow> (\<And>s. s \<in> set rest \<Longrightarrow> q \<le> fst s) \<Longrightarrow> well_placed K len q rest"
  by (auto simp: well_placed_def by_position_def noncrossing_def list_all_iff sorted_append)

lemma well_placed_from: "well_placed K len p spans \<Longrightarrow> s \<in> set spans \<Longrightarrow> fst (hd spans) \<le> fst s"
  by (cases spans) (auto simp: well_placed_def by_position_def span_key_def less_eq_prod_def)

lemma units_sub: "is_units t \<Longrightarrow> is_units (sub t i j)"
  by (auto simp: is_units_def list_all_iff sub_def dest!: in_set_takeD in_set_dropD)

text \<open>
  A walk from position \<open>p\<close>: it uses the spans that start below the limit, and up to any \<open>q\<close> past them what it wrote
  reads as the text between \<open>p\<close> and \<open>q\<close> with their entities.
\<close>

definition walk_ok :: "entity set \<Rightarrow> ustr \<Rightarrow> int \<Rightarrow> int option \<Rightarrow> entity span list \<Rightarrow> html_token list tagged \<Rightarrow> entity span list \<Rightarrow> bool" where
  "walk_ok K t p limit used offs rest \<longleftrightarrow>
     (\<forall>s \<in> set used. limit \<noteq> None \<longrightarrow> fst s < the limit) \<and> (rest \<noteq> [] \<longrightarrow> limit \<noteq> None \<and> the limit \<le> fst (hd rest)) \<and>
     (\<forall>q. p \<le> q \<longrightarrow> q \<le> int (length t) \<longrightarrow> (\<forall>s \<in> set used. fst (snd s) \<le> q) \<longrightarrow>
        offsets_in p q offs \<and>
        (\<exists>cl. reads_as K (nat p) (weave data (\<lambda>a. a) t p q offs) (sub t p q) cl \<and> mset cl = mset (map raw_of (written used))))"

lemma walk_ok_end: "is_units t \<Longrightarrow> (rest \<noteq> [] \<longrightarrow> limit \<noteq> None \<and> the limit \<le> fst (hd rest)) \<Longrightarrow> walk_ok K t p limit [] [] rest"
  using reads_data [OF units_sub] by (auto simp: walk_ok_def written_def intro!: exI [of _ "[]"])

lemma walk_ok_skip:
  assumes "walk_ok K t p limit used offs rest" "snd (snd s) = Other" "limit = None \<or> fst s < the limit"
  shows "walk_ok K t p limit (s # used) offs rest"
  using assms by (auto simp: walk_ok_def written_def)

lemma walk_ok_element:
  assumes inner: "walk_ok K t (fst s) (Some (fst (snd s))) used inner r"
    and others: "walk_ok K t (fst (snd s)) limit used' others rest"
    and s: "p \<le> fst s" "fst s < fst (snd s)" "fst (snd s) \<le> int (length t)" "snd (snd s) \<in> K" "snd (snd s) \<noteq> Other"
    and below: "\<And>x. x \<in> set used \<Longrightarrow> fst x < fst (snd s) \<Longrightarrow> fst (snd x) \<le> fst (snd s)"
    and limit: "limit = None \<or> fst s < the limit" "\<And>L. limit = Some L \<Longrightarrow> fst (snd s) \<le> L"
    and K: "kinds_apart K" "readable (snd (snd s))" and t: "is_units t" "0 \<le> p"
  shows "walk_ok K t p limit (s # used @ used')
    ((fst (html_tokens (snd (snd s))), fst s) # inner @ (snd (html_tokens (snd (snd s))), fst (snd s)) # others) rest"
proof -
  let ?a = "fst s" and ?b = "fst (snd s)" and ?e = "snd (snd s)"
  have lt: "\<forall>x \<in> set used. fst x < ?b" using inner by (simp add: walk_ok_def)
  with below have le: "\<forall>x \<in> set used. fst (snd x) \<le> ?b" by blast
  obtain cl where i: "offsets_in ?a ?b inner" "reads_as K (nat ?a) (weave data (\<lambda>a. a) t ?a ?b inner) (sub t ?a ?b) cl"
    "mset cl = mset (map raw_of (written used))"
    using inner s(2,3) le unfolding walk_ok_def by (metis less_imp_le)
  have a: "0 \<le> ?a" "?a \<le> int (length t)" using s(1-3) t(2) by linarith+
  have len: "length (sub t ?a ?b) = nat (?b - ?a)" using a s by (simp add: length_sub)
  have el: "reads_as K (nat ?a) (fst (html_tokens ?e) @ weave data (\<lambda>a. a) t ?a ?b inner @ snd (html_tokens ?e)) (sub t ?a ?b)
      (cl @ [raw_of s])"
    using reads_element [OF s(5) K(2) s(4) K(1) i(2)] by (simp add: raw_of_def len)
  have "offsets_in p q ((fst (html_tokens ?e), ?a) # inner @ (snd (html_tokens ?e), ?b) # others) \<and>
      (\<exists>cl. reads_as K (nat p) (weave data (\<lambda>a. a) t p q ((fst (html_tokens ?e), ?a) # inner @ (snd (html_tokens ?e), ?b) # others))
          (sub t p q) cl \<and> mset cl = mset (map raw_of (written (s # used @ used'))))"
    if q: "q \<le> int (length t)" "\<forall>x \<in> set (s # used @ used'). fst (snd x) \<le> q" for q
  proof -
    from others q obtain cl' where o: "offsets_in ?b q others" "reads_as K (nat ?b) (weave data (\<lambda>a. a) t ?b q others) (sub t ?b q) cl'"
      "mset cl' = mset (map raw_of (written used'))"
      unfolding walk_ok_def by (metis Un_iff list.set_intros set_append)
    have bq: "?b \<le> q" using q(2) by simp
    have "reads_as K (nat p) (data (sub t p ?a)) (sub t p ?a) []" by (rule reads_data [OF units_sub [OF t(1)]])
    moreover have "nat p + length (sub t p ?a) = nat ?a" using s(1) t(2) a by (simp add: length_sub)
    ultimately have "reads_as K (nat p) (data (sub t p ?a) @ fst (html_tokens ?e) @ weave data (\<lambda>a. a) t ?a ?b inner @ snd (html_tokens ?e))
        (sub t p ?a @ sub t ?a ?b) (cl @ [raw_of s])" using reads_append [of K "nat p" _ "sub t p ?a" "[]"] el by fastforce
    moreover have "nat p + length (sub t p ?a @ sub t ?a ?b) = nat ?b"
      using s t(2) a by (simp add: length_sub)
    ultimately have "reads_as K (nat p) ((data (sub t p ?a) @ fst (html_tokens ?e) @ weave data (\<lambda>a. a) t ?a ?b inner @ snd (html_tokens ?e)) @
        weave data (\<lambda>a. a) t ?b q others) ((sub t p ?a @ sub t ?a ?b) @ sub t ?b q) ((cl @ [raw_of s]) @ cl')"
      using reads_append o(2) by fastforce
    moreover have "(sub t p ?a @ sub t ?a ?b) @ sub t ?b q = sub t p q"
      using s t(2) a bq by (simp add: sub_append)
    ultimately have "reads_as K (nat p) (weave data (\<lambda>a. a) t p q ((fst (html_tokens ?e), ?a) # inner @ (snd (html_tokens ?e), ?b) # others))
        (sub t p q) ((cl @ [raw_of s]) @ cl')" by (simp add: weave_append)
    moreover have "mset ((cl @ [raw_of s]) @ cl') = mset (map raw_of (written (s # used @ used')))"
      using i(3) o(3) s(5) by (simp add: written_def)
    ultimately show ?thesis using s(1) i(1) o(1) by (auto simp: in_order_append)
  qed
  moreover have "\<forall>x \<in> set (s # used @ used'). limit \<noteq> None \<longrightarrow> fst x < the limit"
    using lt limit others by (fastforce simp: walk_ok_def)
  ultimately show ?thesis using others by (simp add: walk_ok_def)
qed

lemma walk_reads:
  assumes t: "is_units t" and K: "kinds_apart K" "\<And>e. e \<in> K \<Longrightarrow> readable e"
  shows "well_placed K (int (length t)) p spans \<Longrightarrow> 0 \<le> p \<Longrightarrow>
    (\<And>s L. s \<in> set spans \<Longrightarrow> limit = Some L \<Longrightarrow> fst s < L \<Longrightarrow> fst (snd s) \<le> L) \<Longrightarrow>
    \<exists>used. spans = used @ snd (walk token_span limit spans) \<and>
      walk_ok K t p limit used (fst (walk token_span limit spans)) (snd (walk token_span limit spans))"
proof (induction token_span limit spans arbitrary: p rule: walk.induct)
  case (1 limit)
  then show ?case by (auto intro: walk_ok_end [OF t])
next
  case (2 limit s rest)
  note w = well_placed_Cons [OF "2.prems"(1)]
  show ?case
  proof (cases "limit \<noteq> None \<and> \<not> fst s < the limit")
    case True
    then have "walk_ok K t p limit [] [] (s # rest)" by (intro walk_ok_end [OF t]) auto
    with True show ?thesis by auto
  next
    case False
    then have lim: "limit = None \<or> fst s < the limit" by blast
    show ?thesis
    proof (cases "snd (snd s) = Other")
      case True
      then have n: "token_span s = None" by (simp add: token_span_def)
      have "well_placed K (int (length t)) p rest" using "2.prems"(1) well_placed_suffix [of K "int (length t)" p "[s]" rest p] w(1)
          well_placed_from [OF "2.prems"(1)] by force
      from "2.hyps"(1) [OF False n this "2.prems"(2)] "2.prems"(3) obtain used where
        u: "rest = used @ snd (walk token_span limit rest)"
          "walk_ok K t p limit used (fst (walk token_span limit rest)) (snd (walk token_span limit rest))" by auto
      from walk_ok_skip [OF u(2) True lim] u(1) False n show ?thesis by (intro exI [of _ "s # used"]) auto
    next
      case e: False
      let ?a = "fst s" and ?b = "fst (snd s)"
      from e have tok: "token_span s = Some ((fst (html_tokens (snd (snd s))), ?a), (snd (html_tokens (snd (snd s))), ?b), [])"
        by (simp add: token_span_def)
      obtain inner r where i: "walk token_span (Some ?b) rest = (inner, r)" by fastforce
      obtain others r' where o: "walk token_span limit r = (others, r')" by fastforce
      have i2: "(inner, r) = walk token_span (Some (snd (snd (html_tokens (snd (snd s))), ?b))) rest" using i by simp
      have a0: "0 \<le> ?a" "0 \<le> ?b" using w(1,2) "2.prems"(2) by linarith+
      have "\<exists>used. rest = used @ snd (walk token_span (Some ?b) rest) \<and>
          walk_ok K t ?a (Some ?b) used (fst (walk token_span (Some ?b) rest)) (snd (walk token_span (Some ?b) rest))"
        using "2.hyps"(2) [OF False tok refl refl, simplified, OF w(5) a0(1)] w(6) by auto
      with i obtain used where u: "rest = used @ r" "walk_ok K t ?a (Some ?b) used inner r" by auto
      have r: "well_placed K (int (length t)) ?b r"
      proof -
        have "well_placed K (int (length t)) ?a r"
          using well_placed_suffix [of K _ ?a used r ?a] w(5) u(1) by (auto simp: well_placed_def list_all_iff)
        moreover have "?b \<le> fst x" if "x \<in> set r" for x
          using well_placed_from [OF calculation that] that u(2) by (cases r) (auto simp: walk_ok_def)
        ultimately show ?thesis by (auto simp: well_placed_def list_all_iff)
      qed
      have "\<exists>used. r = used @ snd (walk token_span limit r) \<and>
          walk_ok K t ?b limit used (fst (walk token_span limit r)) (snd (walk token_span limit r))"
        using "2.hyps"(3) [OF False tok refl refl i2 r a0(2)] "2.prems"(3) u(1) by simp
      with o obtain used' where u': "r = used' @ r'" "walk_ok K t ?b limit used' others r'" by auto
      have limb: "\<And>L. limit = Some L \<Longrightarrow> ?b \<le> L" using "2.prems"(3) [of s] lim by auto
      have bel: "\<And>x. x \<in> set used \<Longrightarrow> fst x < ?b \<Longrightarrow> fst (snd x) \<le> ?b" using w(6) u(1) by simp
      from walk_ok_element [OF u(2) u'(2) w(1-4) e bel lim limb K(1) K(2) [OF w(4)] t "2.prems"(2)]
      have "walk_ok K t p limit (s # used @ used')
        ((fst (html_tokens (snd (snd s))), ?a) # inner @ (snd (html_tokens (snd (snd s))), ?b) # others) r'" by blast
      moreover have "walk token_span limit (s # rest) =
          ((fst (html_tokens (snd (snd s))), ?a) # inner @ (snd (html_tokens (snd (snd s))), ?b) # others, r')"
        using False tok i o by auto
      ultimately show ?thesis using u(1) u'(1) by (intro exI [of _ "s # used @ used'"]) simp
    qed
  qed
qed

end
