(* ===== verification/Html_Roundtrip.thy ===== *)
theory Html_Roundtrip
  imports Html_Laws
begin

text \<open>
  Unparsing a text with its entities and parsing the markup again: the text comes back, with the entities where they were,
  cut where they crossed.
\<close>

section \<open>Placing the spans\<close>

definition placed_in :: "ustr \<Rightarrow> entity placed list \<Rightarrow> bool" where
  "placed_in t entities \<longleftrightarrow>
     list_all (\<lambda>e. 0 \<le> e_offset e \<and> 0 < e_length e \<and> e_offset e + e_length e \<le> int (length t)) entities"

lemma split_spans_placed:
  assumes "placed_in t entities"
  shows "well_placed (e_entity ` set entities) (int (length t)) 0 (split_crossing_spans t entities)"
    and "x \<in> endpoints (split_crossing_spans t entities) \<Longrightarrow> \<not> inside_pair t x"
proof -
  let ?s = "sort_spans (map (span_of t) entities)"
  have e: "0 \<le> fst s \<and> fst s < fst (snd s) \<and> fst (snd s) \<le> int (length t) \<and> \<not> inside_pair t (fst s) \<and> \<not> inside_pair t (fst (snd s))"
    if s: "s \<in> set ?s" for s
  proof -
    from s obtain e where ent: "e \<in> set entities" "s = span_of t e" by auto
    with assms have b: "0 \<le> e_offset e" "0 < e_length e" "e_offset e + e_length e \<le> int (length t)"
      by (auto simp: placed_in_def list_all_iff)
    have "fst s \<le> e_offset e" "e_offset e + e_length e \<le> fst (snd s)" by (simp_all add: ent(2) span_of_def clamp_eq)
    moreover have "0 \<le> fst s" using b clamp_in_text [of "e_offset e" t True] by (simp add: ent(2) span_of_def)
    moreover have "fst (snd s) \<le> int (length t)"
      using b clamp_in_text [of "e_offset e + e_length e" t False] by (simp add: ent(2) span_of_def)
    ultimately show ?thesis using b clamp_safe by (auto simp: ent(2) span_of_def)
  qed
  have ne: "fst s < fst (snd s)" if "s \<in> set (cut_spans ?s)" for s
    by (rule cut_spans_nonempty [OF _ that]) (use e in blast)
  have ep: "0 \<le> x \<and> x \<le> int (length t) \<and> \<not> inside_pair t x" if "x \<in> endpoints (cut_spans ?s)" for x
  proof -
    from that obtain s where "s \<in> set ?s" "x = fst s \<or> x = fst (snd s)" unfolding cut_spans_endpoints by (auto simp: endpoints_def)
    with e [of s] show ?thesis by auto
  qed
  then show "x \<in> endpoints (split_crossing_spans t entities) \<Longrightarrow> \<not> inside_pair t x" by (simp add: split_crossing_spans_def)
  have k: "snd (snd s) \<in> e_entity ` set entities" if "s \<in> set (cut_spans ?s)" for s
  proof -
    have "snd (snd s) \<in> (\<lambda>s. snd (snd s)) ` set ?s" using that cut_spans_kinds [of ?s] by blast
    then show ?thesis by (auto simp: span_of_def)
  qed
  have "0 \<le> fst s \<and> fst (snd s) \<le> int (length t)" if "s \<in> set (cut_spans ?s)" for s
    using ep [of "fst s"] ep [of "fst (snd s)"] that by (auto simp: endpoints_def)
  with ne k cut_spans_done [of ?s] cut_spans_by_position [OF by_position_sort, of "map (span_of t) entities"]
  show "well_placed (e_entity ` set entities) (int (length t)) 0 (split_crossing_spans t entities)"
    by (auto simp: well_placed_def list_all_iff split_crossing_spans_def)
qed

section \<open>The markup is a text\<close>

text \<open>Attribute texts without surrogates and without code points beyond the plane.\<close>

definition bmp_text :: "ustr \<Rightarrow> bool" where
  "bmp_text s \<longleftrightarrow> list_all (\<lambda>c. c < 0x10000 \<and> \<not> is_high_surrogate c \<and> \<not> is_low_surrogate c) s"

definition plain_attrs :: "entity \<Rightarrow> bool" where
  "plain_attrs e \<longleftrightarrow> (case e of Pre l \<Rightarrow> bmp_text l | TextLink u \<Rightarrow> bmp_text u | DateTime _ f \<Rightarrow> bmp_text f | _ \<Rightarrow> True)"

lemma plain_append [simp]: "bmp_text (s @ t) \<longleftrightarrow> bmp_text s \<and> bmp_text t"
  by (simp add: bmp_text_def)

lemma below_surrogates: "c < 0xD800 \<Longrightarrow> c < 0x10000 \<and> \<not> is_high_surrogate c \<and> \<not> is_low_surrogate c"
  by (simp add: is_high_surrogate_def is_low_surrogate_def)

lemma plain_ustr [simp]: "bmp_text (ustr s)"
proof -
  have "(of_char c :: nat) < 256" for c :: char by (rule nat_of_char_less_256)
  then have "(of_char c :: nat) < 0xD800" for c :: char by (rule less_trans) simp
  then have "(of_char c :: nat) < 0x10000 \<and> \<not> is_high_surrogate (of_char c) \<and> \<not> is_low_surrogate (of_char c)" for c :: char
    by (rule below_surrogates)
  then show ?thesis by (simp add: bmp_text_def ustr_def list_all_iff)
qed

lemma plain_str_int [simp]: "bmp_text (py_str_int i)"
proof -
  have "bmp_text (dec_digits n)" for n
    using dec_digits_range [of n]
    by (auto simp: bmp_text_def list_all_iff is_high_surrogate_def is_low_surrogate_def)
  moreover have "bmp_text [45]" by (simp add: bmp_text_def is_high_surrogate_def is_low_surrogate_def)
  ultimately show ?thesis using plain_append [of "[45]"] by (simp add: py_str_int_def)
qed

lemma plain_is_text: "bmp_text s \<Longrightarrow> is_text s" "bmp_text s \<Longrightarrow> add_surrogates s = s"
  by (induction s) (auto simp: bmp_text_def utf16_units_def)

lemma tags_plain: "plain_attrs e \<Longrightarrow> html_tags e = Some (a, b) \<Longrightarrow> bmp_text a \<and> bmp_text b"
  by (auto simp: html_tags_def plain_attrs_def split: entity.splits if_splits)

text \<open>Units that are those of a text.\<close>

definition of_text :: "ustr \<Rightarrow> bool" where
  "of_text us \<longleftrightarrow> (\<exists>s. is_text s \<and> add_surrogates s = us)"

lemma of_text_append: "of_text a \<Longrightarrow> of_text b \<Longrightarrow> of_text (a @ b)"
  unfolding of_text_def by (metis add_surrogates_simps(3) is_text_simps(3))

lemma of_text_plain: "bmp_text s \<Longrightarrow> of_text s"
  using plain_is_text by (auto simp: of_text_def)

lemma escape_units: "html_escape (utf16_units c) = concat (map utf16_units (escape_char c))"
  by (auto simp: html_escape_def utf16_units_def escape_char_def ustr_def)

lemma escape_of_text: "of_text us \<Longrightarrow> of_text (html_escape us)"
proof -
  assume "of_text us"
  then obtain s where s: "is_text s" "us = add_surrogates s" by (auto simp: of_text_def)
  have "is_text (html_escape s) \<and> add_surrogates (html_escape s) = html_escape (add_surrogates s)" using s(1)
  proof (induction s)
    case (Cons c s)
    have "is_text (escape_char c)" using Cons.prems plain_is_text(1) [OF plain_ustr] by (simp add: escape_char_def)
    with Cons escape_units [of c] show ?case by (simp add: html_escape_def add_surrogates_def)
  qed (simp add: html_escape_def)
  then show ?thesis by (auto simp: of_text_def s(2))
qed

lemma sub_of_text:
  assumes "of_text t" "0 \<le> i" "i \<le> j" "j \<le> int (length t)" "\<not> inside_pair t i" "\<not> inside_pair t j"
  shows "of_text (sub t i j)"
proof -
  obtain s where s: "is_text s" "add_surrogates s = t" using assms(1) by (auto simp: of_text_def)
  have j: "nat j \<le> length (add_surrogates s)" "\<not> inside_pair (add_surrogates s) (int (nat j))" using assms(2-4,6) by (simp_all add: s(2))
  obtain a b where a: "s = a @ b" "add_surrogates a = take (nat j) t"
    using split_text [OF s(1) j] unfolding s(2) by blast
  have "\<not> inside_pair (take (nat j) t) i" using assms(2-5) by (auto simp: inside_pair_def)
  then have i: "nat i \<le> length (add_surrogates a)" "\<not> inside_pair (add_surrogates a) (int (nat i))"
    using assms(2-4) by (simp_all add: a(2))
  have "is_text a" using s(1) a(1) by simp
  from split_text [OF this i] obtain c d where "a = c @ d" "add_surrogates d = drop (nat i) (take (nat j) t)"
    unfolding a(2) by blast
  moreover have "drop (nat i) (take (nat j) t) = sub t i j" using assms(2,3) by (simp add: sub_def drop_take_slice nat_diff_distrib)
  ultimately show ?thesis using s(1) a(1) by (auto simp: of_text_def)
qed

lemma weave_of_text:
  assumes t: "of_text t" and tags: "\<And>a i. (a, i) \<in> set offs \<Longrightarrow> bmp_text a \<and> \<not> inside_pair t i"
  shows "0 \<le> p \<Longrightarrow> \<not> inside_pair t p \<Longrightarrow> offsets_in p (int (length t)) offs \<Longrightarrow>
    of_text (weave html_escape (\<lambda>a. a) t p (int (length t)) offs)"
  using tags
proof (induction offs arbitrary: p)
  case Nil
  have "\<not> inside_pair t (int (length t))" by (simp add: inside_pair_def)
  with Nil t show ?case by (simp add: escape_of_text sub_of_text)
next
  case (Cons x offs)
  obtain a i where x: "x = (a, i)" by (cases x)
  from Cons.prems(4) [of a i] have a: "bmp_text a" "\<not> inside_pair t i" by (simp_all add: x)
  from Cons.prems(3) have i: "p \<le> i" "offsets_in i (int (length t)) offs" by (simp_all add: x)
  have "of_text (sub t p i)" using Cons.prems(1,2) i a(2) t in_order_le [OF i(2)] by (intro sub_of_text) simp_all
  moreover have "of_text (weave html_escape (\<lambda>a. a) t i (int (length t)) offs)"
    using Cons.prems(1,4) i a(2) by (intro Cons.IH) auto
  moreover have "of_text a" using a(1) by (simp add: of_text_plain)
  ultimately show ?case unfolding x weave.simps by (intro of_text_append escape_of_text)
qed

section \<open>Nothing to strip\<close>

lemma strip_by_id: "s \<noteq> [] \<Longrightarrow> \<not> p (hd s) \<Longrightarrow> \<not> p (List.last s) \<Longrightarrow> strip_by p s = s"
proof -
  assume s: "s \<noteq> []" "\<not> p (hd s)" "\<not> p (List.last s)"
  have "dropWhile p s = s" using s(1,2) by (cases s) auto
  moreover have "dropWhile p (rev s) = rev s" using s(1,3) by (cases s rule: rev_cases) auto
  ultimately show ?thesis by (simp add: strip_by_def)
qed

lemma rstrip_by_id: "s = [] \<or> \<not> p (List.last s) \<Longrightarrow> rstrip_by p s = s"
  by (cases s rule: rev_cases) (auto simp: rstrip_by_def)

text \<open>A text with no whitespace at its ends.\<close>

definition bare :: "ustr \<Rightarrow> bool" where
  "bare s \<longleftrightarrow> s = [] \<or> \<not> py_space (hd s) \<and> \<not> py_space (List.last s)"

lemma space_units: "py_space c \<Longrightarrow> utf16_units c = [c]"
  by (auto simp: py_space_def utf16_units_def)

lemma unit_space:
  assumes "0x10000 \<le> c"
  shows "\<not> py_space (0xD800 + (c - 0x10000) div 0x400)" "\<not> py_space (0xDC00 + (c - 0x10000) mod 0x400)"
  by (simp_all add: py_space_def)

lemma hd_units: "py_space (hd (utf16_units c)) \<longleftrightarrow> py_space c"
  using space_units [of c] unit_space [of c] by (auto simp: utf16_units_def)

lemma last_units: "py_space (List.last (utf16_units c)) \<longleftrightarrow> py_space c"
  using space_units [of c] unit_space [of c] by (auto simp: utf16_units_def)

lemma utf16_units_nonempty [simp]: "utf16_units c \<noteq> []"
  by (simp add: utf16_units_def)

lemma bare_units: "bare (add_surrogates s) \<longleftrightarrow> bare s"
proof (cases s)
  case (Cons c r)
  have "hd (add_surrogates s) = hd (utf16_units c)" by (simp add: Cons)
  moreover obtain r' d where d: "s = r' @ [d]" by (metis Cons list.distinct(1) rev_exhaust)
  then have "List.last (add_surrogates s) = List.last (utf16_units d)" by simp
  moreover have "add_surrogates s \<noteq> []" by (simp add: Cons)
  moreover have l: "List.last s = d" by (simp only: d last_snoc)
  moreover have ends: "s \<noteq> []" "hd s = c" by (simp_all add: Cons)
  ultimately show ?thesis using hd_units [of c] last_units [of d] ends l by (simp add: bare_def)
qed (simp add: bare_def)

lemma escape_char_ends: "escape_char c \<noteq> []" "py_space (hd (escape_char c)) \<longleftrightarrow> py_space c"
  "py_space (List.last (escape_char c)) \<longleftrightarrow> py_space c"
  by (auto simp: escape_char_def ustr_def py_space_def)

lemma last_escape: "s \<noteq> [] \<Longrightarrow> html_escape s \<noteq> [] \<and> (py_space (List.last (html_escape s)) \<longleftrightarrow> py_space (List.last s))"
  by (cases s rule: rev_cases) (simp_all add: html_escape_def escape_char_ends)

lemma hd_escape: "s \<noteq> [] \<Longrightarrow> html_escape s \<noteq> [] \<and> (py_space (hd (html_escape s)) \<longleftrightarrow> py_space (hd s))"
  by (cases s) (simp_all add: html_escape_def escape_char_ends)

definition tag_text :: "ustr \<Rightarrow> bool" where
  "tag_text a \<longleftrightarrow> a \<noteq> [] \<and> \<not> py_space (hd a) \<and> \<not> py_space (List.last a)"

lemma html_tags_text: "html_tags e = Some (a, b) \<Longrightarrow> tag_text a \<and> tag_text b"
  by (cases e) (auto simp: html_tags_def tag_text_def ustr_def py_space_def split: if_splits)

lemma last_sub: "i < int (length t) \<Longrightarrow> 0 \<le> i \<Longrightarrow> sub t i (int (length t)) \<noteq> [] \<and> List.last (sub t i (int (length t))) = List.last t"
proof -
  assume i: "i < int (length t)" "0 \<le> i"
  have "sub t i (int (length t)) = drop (nat i) t" using i by (simp add: sub_def)
  with i show ?thesis by (simp add: last_drop)
qed

lemma weave_last:
  assumes "t = [] \<or> \<not> py_space (List.last t)" "\<And>a i. (a, i) \<in> set offs \<Longrightarrow> tag_text a"
  shows "0 \<le> p \<Longrightarrow> offsets_in p (int (length t)) offs \<Longrightarrow> weave html_escape (\<lambda>a. a) t p (int (length t)) offs \<noteq> [] \<Longrightarrow>
    \<not> py_space (List.last (weave html_escape (\<lambda>a. a) t p (int (length t)) offs))"
  using assms(2)
proof (induction offs arbitrary: p)
  case Nil
  show ?case
  proof (cases "p < int (length t)")
    case True
    with Nil assms(1) last_sub [OF True Nil.prems(1)] show ?thesis using last_escape [of "sub t p (int (length t))"] by auto
  next
    case False
    then have "sub t p (int (length t)) = []" by (simp add: sub_def)
    with Nil.prems(3) show ?thesis by (simp add: html_escape_def)
  qed
next
  case (Cons x offs)
  obtain a i where x: "x = (a, i)" by (cases x)
  have a: "tag_text a" using Cons.prems(4) by (auto simp: x)
  let ?w = "weave html_escape (\<lambda>a. a) t i (int (length t)) offs"
  have "?w \<noteq> [] \<Longrightarrow> \<not> py_space (List.last ?w)"
    using Cons.prems by (intro Cons.IH) (auto simp: x)
  with a show ?case unfolding x weave.simps by (cases "?w = []") (auto simp: tag_text_def)
qed

lemma weave_hd:
  assumes "t = [] \<or> \<not> py_space (hd t)" "\<And>a i. (a, i) \<in> set offs \<Longrightarrow> tag_text a" "offsets_in 0 (int (length t)) offs"
    "weave html_escape (\<lambda>a. a) t 0 (int (length t)) offs \<noteq> []"
  shows "\<not> py_space (hd (weave html_escape (\<lambda>a. a) t 0 (int (length t)) offs))"
proof (cases offs)
  case Nil
  with assms(4) have "html_escape t \<noteq> []" by (simp add: sub_id)
  then have "t \<noteq> []" by (auto simp: html_escape_def)
  with assms(1) hd_escape [OF this] show ?thesis by (simp add: Nil sub_id)
next
  case (Cons x r)
  obtain a i where x: "x = (a, i)" by (cases x)
  have a: "tag_text a" using assms(2) by (auto simp: x Cons)
  show ?thesis
  proof (cases "sub t 0 i = []")
    case True
    with a show ?thesis by (simp add: Cons x html_escape_def tag_text_def)
  next
    case False
    then have "hd (sub t 0 i) = hd t" "t \<noteq> []" by (auto simp: sub_def)
    with False assms(1) hd_escape [OF False] show ?thesis by (auto simp: Cons x)
  qed
qed

section \<open>The round trip\<close>

text \<open>The raw entity of a span as \<open>parse\<close> returns it; a mention of a user that cannot be resolved is dropped.\<close>

definition read_back :: "(int \<Rightarrow> 'p option) option \<Rightarrow> entity span list \<Rightarrow> 'p mentioned raw_entity list" where
  "read_back resolve spans = List.map_filter (\<lambda>s. resolve_entity resolve (raw_of s)) (written spans)"

lemma in_order_map [simp]: "offsets_in p q (map (apfst f) offs) = offsets_in p q offs"
  by (induction p q offs rule: offsets_in.induct) auto

lemma map_filter_mset: "mset xs = mset ys \<Longrightarrow> mset (List.map_filter f xs) = mset (List.map_filter f ys)"
  by (simp add: List.map_filter_def)

lemma map_filter_comp: "List.map_filter f (map g xs) = List.map_filter (\<lambda>x. f (g x)) xs"
  by (induction xs) (simp_all add: List.map_filter_simps split: option.splits)

text \<open>A tag of the walk is one of a span, at its start or end.\<close>

definition tag_of_span :: "ustr \<times> int \<Rightarrow> entity span \<Rightarrow> bool" where
  "tag_of_span x s \<longleftrightarrow> (\<exists>b. html_tags (snd (snd s)) = Some (fst x, b)) \<and> snd x = fst s \<or>
     (\<exists>b. html_tags (snd (snd s)) = Some (b, fst x)) \<and> snd x = fst (snd s)"

lemma written_by_html: "written_by html_span x s \<Longrightarrow> tag_of_span x s"
  by (cases x) (auto simp: written_by_def tag_of_span_def html_span_def split: option.splits)

lemma walk_tags: "x \<in> set (fst (walk html_span limit spans)) \<Longrightarrow> \<exists>s \<in> set spans. tag_of_span x s"
  using walk_items [of html_span limit spans] written_by_html by blast

lemma markup_ok:
  assumes t: "is_text s" "t = add_surrogates s" "bare s" and placed: "placed_in t entities"
    and kinds: "kinds_apart (e_entity ` set entities)" "\<And>e. e \<in> e_entity ` set entities \<Longrightarrow> readable e \<and> plain_attrs e"
  obtains m cl where "html_unparse s entities = Inr m" "add_surrogates m = html_text t entities" "bare m"
    "feed_tokens (html_stream t entities) new_parser = Inr (advance t cl new_parser)"
    "mset cl = mset (map raw_of (written (split_crossing_spans t entities)))"
proof -
  let ?K = "e_entity ` set entities" and ?spans = "split_crossing_spans t entities"
  let ?offs = "fst (walk html_span None ?spans)" and ?toks = "fst (walk token_span None ?spans)"
  have units: "is_units t" using t(1) by (simp add: t(2) units_add_surrogates)
  have place: "well_placed ?K (int (length t)) 0 ?spans" by (rule split_spans_placed [OF placed])
  have r: "readable e" if "e \<in> ?K" for e using kinds(2) [OF that] by blast
  have "\<exists>used. ?spans = used @ snd (walk token_span None ?spans) \<and>
      walk_ok ?K t 0 None used ?toks (snd (walk token_span None ?spans))"
    by (rule walk_reads [OF units kinds(1) r place]) simp_all
  then have "walk_ok ?K t 0 None ?spans ?toks []" by (auto simp: walk_ok_def)
  moreover have "\<forall>x \<in> set ?spans. fst (snd x) \<le> int (length t)" using place by (simp add: well_placed_def list_all_iff)
  ultimately have q: "offsets_in 0 (int (length t)) ?toks \<and> (\<exists>cl. reads_as ?K (nat 0) (weave data (\<lambda>a. a) t 0 (int (length t)) ?toks)
      (sub t 0 (int (length t))) cl \<and> mset cl = mset (map raw_of (written ?spans)))"
    unfolding walk_ok_def by (metis of_nat_0_le_iff order_refl)
  then have ord: "offsets_in 0 (int (length t)) ?toks" by blast
  from q obtain cl where rd: "reads_as ?K 0 (html_stream t entities) t cl" and cl: "mset cl = mset (map raw_of (written ?spans))"
    by (auto simp: html_stream_def sub_id)
  have offs: "?offs = map (apfst render_all) ?toks" by (simp add: walk_render)
  have ord': "offsets_in 0 (int (length t)) ?offs" using ord by (simp add: offs)
  have tags: "bmp_text a \<and> tag_text a \<and> \<not> inside_pair t i" if ai: "(a, i) \<in> set ?offs" for a i
  proof -
    from walk_tags ai obtain x where x: "x \<in> set ?spans" "tag_of_span (a, i) x" by blast
    then obtain b c where h: "html_tags (snd (snd x)) = Some (b, c)" "a = b \<or> a = c" by (auto simp: tag_of_span_def)
    have "snd (snd x) \<in> ?K" using place x(1) by (simp add: well_placed_def list_all_iff)
    then have "plain_attrs (snd (snd x))" using kinds(2) by blast
    with h tags_plain html_tags_text have "bmp_text a \<and> tag_text a" by blast
    moreover have "i \<in> endpoints ?spans" using x by (auto simp: tag_of_span_def endpoints_def)
    ultimately show ?thesis using split_spans_placed(2) [OF placed] by blast
  qed
  have w: "html_text t entities = weave html_escape (\<lambda>a. a) t 0 (int (length t)) ?offs" by (rule html_text_weave [OF ord'])
  have "of_text (html_text t entities)" unfolding w
    by (rule weave_of_text) (use t tags ord' in \<open>auto simp: of_text_def inside_pair_def\<close>)
  then obtain m where m: "is_text m" "add_surrogates m = html_text t entities" by (auto simp: of_text_def)
  have bt: "bare t" using t(3) by (simp add: t(2) bare_units)
  have "bare (html_text t entities)"
  proof (cases "html_text t entities = []")
    case False
    have "\<not> py_space (hd (html_text t entities))" unfolding w
      by (rule weave_hd) (use bt tags ord' False in \<open>auto simp: bare_def w\<close>)
    moreover have "\<not> py_space (List.last (html_text t entities))" unfolding w
      by (rule weave_last) (use bt tags ord' False in \<open>auto simp: bare_def w\<close>)
    ultimately show ?thesis by (simp add: bare_def)
  qed (simp add: bare_def)
  then have "bare m" by (simp add: m(2) [symmetric] bare_units)
  moreover have "html_unparse s entities = Inr m"
    using surrogates_roundtrip [OF m(1)] by (simp add: html_unparse_def t(2) [symmetric] m(2))
  moreover have "feed_tokens (html_stream t entities) new_parser = Inr (advance t cl new_parser)"
    using rd by (simp add: reads_as_def ready_def new_parser_def)
  ultimately show ?thesis using that m(2) cl by blast
qed

lemma resolve_keeps: "resolve_entity resolve e = Some f \<Longrightarrow> r_offset f = r_offset e \<and> r_length f = r_length e"
  by (auto simp: resolve_entity_def)

lemma trim_inside:
  assumes "r_offset e < n" "0 < r_length e" "r_offset e + r_length e \<le> n"
  shows "trim_entity n e = Some e"
  using assms by (simp add: trim_entity_def)

lemma map_filter_all: "(\<And>x. x \<in> set xs \<Longrightarrow> f x = Some x) \<Longrightarrow> List.map_filter f xs = xs"
  by (induction xs) (simp_all add: List.map_filter_simps)

lemma set_map_filter: "y \<in> set (List.map_filter f xs) \<longleftrightarrow> (\<exists>x \<in> set xs. f x = Some y)"
  by (induction xs) (auto simp: List.map_filter_simps split: option.splits)

lemma raw_of_inside:
  assumes "0 \<le> fst s" "fst s < fst (snd s)" "fst (snd s) \<le> int n"
  shows "r_offset (raw_of s) < n" "0 < r_length (raw_of s)" "r_offset (raw_of s) + r_length (raw_of s) \<le> n"
  using assms by (simp_all add: raw_of_def)

lemma finish_advance:
  assumes s: "is_text s" "bare s" and t: "t = add_surrogates s"
    and place: "well_placed K (int (length t)) 0 spans" and cl: "mset cl = mset (map raw_of (written spans))"
  shows "\<exists>es. finish resolve (advance t cl new_parser) = Inr (s, if es = [] then None else Some es) \<and>
    sorted (map r_offset es) \<and> mset es = mset (read_back resolve spans)"
proof -
  let ?kept = "List.map_filter (resolve_entity resolve) cl"
  have "bare t" using s(2) by (simp add: t bare_units)
  then have strip: "rstrip_by py_space t = t" by (intro rstrip_by_id) (auto simp: bare_def)
  have "set cl = set (map raw_of (written spans))" using cl by (rule mset_eq_setD)
  then have c: "\<exists>x \<in> set spans. e = raw_of x" if "e \<in> set cl" for e using that by (auto simp: written_def)
  have "List.map_filter (trim_entity (length t)) ?kept = ?kept"
  proof (rule map_filter_all)
    fix f assume "f \<in> set ?kept"
    then obtain e where e: "e \<in> set cl" "resolve_entity resolve e = Some f" by (auto simp: set_map_filter)
    from c [OF e(1)] obtain x where x: "x \<in> set spans" "e = raw_of x" by blast
    with place have "0 \<le> fst x" "fst x < fst (snd x)" "fst (snd x) \<le> int (length t)" by (auto simp: well_placed_def list_all_iff)
    from raw_of_inside [OF this] resolve_keeps [OF e(2)] show "trim_entity (length t) f = Some f"
      by (intro trim_inside) (simp_all add: x(2))
  qed
  then have "finish resolve (advance t cl new_parser) =
      Inr (s, if sort_key r_offset ?kept = [] then None else Some (sort_key r_offset ?kept))"
    using surrogates_roundtrip [OF s(1)] by (simp add: finish_def advance_def new_parser_def strip Let_def t [symmetric])
      (metis mset_sort mset_zero_iff)
  moreover have "mset (sort_key r_offset ?kept) = mset (read_back resolve spans)"
    using map_filter_mset [OF cl, of "resolve_entity resolve"] by (simp add: read_back_def map_filter_comp)
  ultimately show ?thesis using sorted_sort_key [of r_offset ?kept] by blast
qed


text \<open>Bold and italic cross, a link holds an emoji.\<close>

definition demo_text :: ustr where
  "demo_text = ustr ''a<b c'' @ [0x1F600]"

definition demo_entities :: "entity placed list" where
  "demo_entities = [\<lparr>e_offset = 0, e_length = 3, e_entity = Bold\<rparr>, \<lparr>e_offset = 2, e_length = 3, e_entity = Italic\<rparr>,
     \<lparr>e_offset = 4, e_length = 3, e_entity = TextLink (ustr ''https://t.me'')\<rparr>]"

lemma demo_checks: "is_text demo_text" "bare demo_text" "placed_in (add_surrogates demo_text) demo_entities"
  "kinds_apart (e_entity ` set demo_entities)"
  "list_all (\<lambda>e. readable (e_entity e) \<and> plain_attrs (e_entity e)) demo_entities"
proof -
  have l: "length (add_surrogates demo_text) = 7" by (simp add: demo_text_def ustr_def utf16_units_def)
  show "placed_in (add_surrogates demo_text) demo_entities" by (simp add: placed_in_def demo_entities_def l)
  show "is_text demo_text"
    using plain_is_text(1) [OF plain_ustr, of "''a<b c''"] by (simp add: demo_text_def is_high_surrogate_def is_low_surrogate_def)
  show "bare demo_text" by (simp add: bare_def demo_text_def ustr_def py_space_def)
  show "kinds_apart (e_entity ` set demo_entities)" by (simp add: kinds_apart_def demo_entities_def)
  show "list_all (\<lambda>e. readable (e_entity e) \<and> plain_attrs (e_entity e)) demo_entities"
    by (simp add: demo_entities_def readable_def plain_attrs_def) (simp add: mention_of_def starts_with_def ustr_def)
qed


text \<open>
  C18. The spans the unparsers write come in order, none crosses another, every position is covered by as many spans of each
  entity as before the cuts, and no span starts or ends inside a surrogate pair.
\<close>

theorem spans_cut:
  "noncrossing (split_crossing_spans t entities) \<and> by_position (split_crossing_spans t entities) \<and>
   coverage e x (split_crossing_spans t entities) = coverage e x (map (span_of t) entities) \<and>
   list_all (\<lambda>s. \<not> inside_pair t (fst s) \<and> \<not> inside_pair t (fst (snd s))) (split_crossing_spans t entities)"
proof -
  let ?l = "sort_spans (map (span_of t) entities)"
  have ep: "x \<in> endpoints (cut_spans ?l) \<Longrightarrow> \<not> inside_pair t x" for x
    unfolding cut_spans_endpoints using clamp_safe by (auto simp: endpoints_def span_of_def)
  have "list_all (\<lambda>s. \<not> inside_pair t (fst s) \<and> \<not> inside_pair t (fst (snd s))) (cut_spans ?l)"
    using ep by (simp add: list_all_iff endpoints_def)
  moreover have "coverage e x (cut_spans ?l) = coverage e x (map (span_of t) entities)"
    by (simp add: cut_spans_coverage)
  ultimately show ?thesis
    using cut_spans_done [of ?l] cut_spans_by_position [OF by_position_sort, of "map (span_of t) entities"]
    by (simp add: split_crossing_spans_def)
qed

text \<open>
  The text of an entity is joined again, the address of a link is not: the tokenizer reads_as both from the text with surrogate
  pairs, so an emoji in an address is left as two surrogates, which no text may hold.
\<close>

lemma address_keeps_surrogates:
  fixes tokenize :: "ustr \<Rightarrow> html_token list" and resolve :: "(int \<Rightarrow> 'p option) option"
  assumes "tokenize (add_surrogates (py_strip m)) =
    [StartTag (ustr ''a'') [(ustr ''href'', Some (add_surrogates [0x1F600]))], Data (ustr ''x''), EndTag (ustr ''a'')]"
  shows "html_parse tokenize resolve m =
      Inr (ustr ''x'', Some [\<lparr>r_kind = RTextUrl (add_surrogates [0x1F600]), r_offset = 0, r_length = 1\<rparr>]) \<and>
    \<not> is_text (add_surrogates [0x1F600])"
proof -
  have u: "add_surrogates [0x1F600] = [0xD83D, 0xDE00]" by (simp add: utf16_units_def)
  have m: "mention_of [0xD83D, 0xDE00] = None" by (simp add: mention_of_def starts_with_def ustr_def)
  have x: "add_surrogates (ustr ''x'') = ustr ''x''" using plain_is_text(2) [OF plain_ustr] .
  have r: "remove_surrogates (ustr ''x'') = Inr (ustr ''x'')"
    using surrogates_roundtrip [OF plain_is_text(1) [OF plain_ustr, of "''x''"]] by (simp add: x)
  have s: "rstrip_by py_space (ustr ''x'') = ustr ''x''" by (simp add: rstrip_by_def ustr_def py_space_def)
  have "html_parse tokenize resolve m = finish resolve \<lparr>p_text = ustr ''x'',
      p_entities = [\<lparr>r_kind = RTextUrl [0xD83D, 0xDE00], r_offset = 0, r_length = 1\<rparr>], p_open = Map.empty\<rparr>"
    unfolding html_parse_def assms u
    by (simp add: handle_def handle_starttag_def tag_kind_def tag_in_def attr_get_def Let_def new_parser_def open_list_def m ustr_def
      handle_data_def handle_endtag_def lengthen_def utf16_units_def fun_upd_def cong: if_cong)
  also have "\<dots> = Inr (ustr ''x'', Some [\<lparr>r_kind = RTextUrl [0xD83D, 0xDE00], r_offset = 0, r_length = 1\<rparr>])"
    by (simp add: finish_def s r Let_def List.map_filter_simps resolve_entity_def trim_entity_def) (simp add: ustr_def)
  finally show ?thesis unfolding u by (simp add: is_high_surrogate_def)
qed

end
