(* ===== verification/Markdown.thy ===== *)
theory Markdown
  imports Html_Roundtrip "HOL-Library.Sublist"
begin

text \<open>
  Text formatting as Markdown (\<open>pyrogram/parser/markdown.py\<close>): quotes become HTML, the delimiters and links of the text
  become tags one after the other, and the HTML parser does the rest; \<open>unparse\<close> writes delimiters. The standard library's
  reading of a URL is an argument.
\<close>

section \<open>Delimiters\<close>

definition BOLD_DELIM :: ustr where "BOLD_DELIM = ustr ''**''"
definition ITALIC_DELIM :: ustr where "ITALIC_DELIM = ustr ''__''"
definition UNDERLINE_DELIM :: ustr where "UNDERLINE_DELIM = ustr ''--''"
definition STRIKE_DELIM :: ustr where "STRIKE_DELIM = ustr ''~~''"
definition SPOILER_DELIM :: ustr where "SPOILER_DELIM = ustr ''||''"
definition CODE_DELIM :: ustr where "CODE_DELIM = ustr ''`''"
definition PRE_DELIM :: ustr where "PRE_DELIM = ustr ''```''"
definition QUOTE_DELIM :: ustr where "QUOTE_DELIM = ustr ''>''"
definition EXPANDABLE_QUOTE_DELIM :: ustr where "EXPANDABLE_QUOTE_DELIM = ustr ''**>''"

lemmas delim_defs = BOLD_DELIM_def ITALIC_DELIM_def UNDERLINE_DELIM_def STRIKE_DELIM_def SPOILER_DELIM_def CODE_DELIM_def
  PRE_DELIM_def

text \<open>The order of the alternatives in \<open>MARKDOWN_RE\<close>.\<close>

definition delimiters :: "ustr list" where
  "delimiters = [PRE_DELIM, CODE_DELIM, STRIKE_DELIM, UNDERLINE_DELIM, ITALIC_DELIM, BOLD_DELIM, SPOILER_DELIM]"

definition FIXED_WIDTH_DELIMS :: "ustr list" where
  "FIXED_WIDTH_DELIMS = [CODE_DELIM, PRE_DELIM]"

definition QUOTE_MARKERS :: "(ustr \<times> bool) list" where
  "QUOTE_MARKERS = [(EXPANDABLE_QUOTE_DELIM, True), (ustr ''**&gt;'', True), (QUOTE_DELIM, False), (ustr ''&gt;'', False)]"

section \<open>Quotes\<close>

fun first_marker :: "(ustr \<times> bool) list \<Rightarrow> ustr \<Rightarrow> (ustr \<times> bool) option" where
  "first_marker [] line = None"
| "first_marker ((m, expandable) # ms) line =
     (if starts_with m line then Some (drop (length m) line, expandable) else first_marker ms line)"

definition split_quote_marker :: "ustr \<Rightarrow> (ustr \<times> bool) option" where
  "split_quote_marker line = first_marker QUOTE_MARKERS line"

text \<open>\<open>s.count(sub)\<close>: occurrences that do not overlap.\<close>

function count_sub :: "ustr \<Rightarrow> ustr \<Rightarrow> nat" where
  "count_sub s [] = 0"
| "count_sub s (c # t) = (if s \<noteq> [] \<and> starts_with s (c # t) then Suc (count_sub s (drop (length s) (c # t))) else count_sub s t)"
  by pat_completeness auto

termination
  by (relation "measure (\<lambda>(s, t). length t)") auto

text \<open>The lines of a quote after its first one.\<close>

fun quote_lines :: "ustr list \<Rightarrow> ustr list \<times> ustr list" where
  "quote_lines [] = ([], [])"
| "quote_lines (l # ls) =
     (case split_quote_marker l of
        Some (body, False) \<Rightarrow> (case quote_lines ls of (b, r) \<Rightarrow> (body # b, r))
      | _ \<Rightarrow> ([], l # ls))"

lemma quote_lines_shrinks: "length (snd (quote_lines ls)) \<le> length ls"
  by (induction ls) (auto split: option.splits prod.splits bool.splits)

definition join_with :: "ustr \<Rightarrow> ustr list \<Rightarrow> ustr" where
  "join_with sep ls = (case ls of [] \<Rightarrow> [] | l # r \<Rightarrow> l @ concat (map (\<lambda>x. sep @ x) r))"

definition quote_html :: "bool \<Rightarrow> ustr list \<Rightarrow> ustr" where
  "quote_html expandable block =
     (let quoted = join_with [10] block;
          quoted = (if expandable \<and> ends_with SPOILER_DELIM quoted then take (length quoted - length SPOILER_DELIM) quoted else quoted) in
      ustr (if expandable then ''<blockquote expandable>'' else ''<blockquote>'') @ quoted @ ustr ''</blockquote>'')"

function quotes :: "bool \<Rightarrow> ustr list \<Rightarrow> ustr list" where
  "quotes in_pre [] = []"
| "quotes in_pre (l # ls) =
     (let in_pre = (if odd (count_sub PRE_DELIM l) then \<not> in_pre else in_pre) in
      case (if in_pre then None else split_quote_marker l) of
        None \<Rightarrow> l # quotes in_pre ls
      | Some (body, expandable) \<Rightarrow>
          (case quote_lines ls of (block, r) \<Rightarrow> quote_html expandable (body # block) # quotes in_pre r))"
  by pat_completeness auto

termination
proof (relation "measure (\<lambda>(p, ls). length ls)")
  show "((x, y), (in_pre, l # ls)) \<in> measure (\<lambda>(p, ls). length ls)" if "(b, y) = quote_lines ls" for x y in_pre l ls b
    using quote_lines_shrinks [of ls] that by (metis in_measure case_prod_conv le_imp_less_Suc list.size(4) snd_conv add.right_neutral add_Suc_right)
qed (auto split: if_splits)

definition quotes_to_html :: "ustr \<Rightarrow> ustr" where
  "quotes_to_html t = join_with [10] (quotes False (split_on 10 t))"

section \<open>Scanning\<close>

text \<open>A match of \<open>MARKDOWN_RE\<close>: a delimiter, or a link with its optional exclamation mark.\<close>

datatype md_match = Delim ustr | Link bool ustr ustr

definition full :: "md_match \<Rightarrow> ustr" where
  "full m =
     (case m of
        Delim d \<Rightarrow> d
      | Link bang text_url url \<Rightarrow> (if bang then ustr ''!'' else []) @ ustr ''['' @ text_url @ ustr ''](''  @ url @ ustr '')'')"

text \<open>\<open>.+?\<close> up to the first place, past one character, where the continuation succeeds; no newline in it.\<close>

fun lazy_until :: "(ustr \<Rightarrow> 'a option) \<Rightarrow> ustr \<Rightarrow> (ustr \<times> 'a) option" where
  "lazy_until k [] = None"
| "lazy_until k (c # t) =
     (if c = 10 then None
      else (case k t of
              Some x \<Rightarrow> Some ([c], x)
            | None \<Rightarrow> map_option (\<lambda>(s, x). (c # s, x)) (lazy_until k t)))"

definition after :: "string \<Rightarrow> (ustr \<Rightarrow> 'a option) \<Rightarrow> ustr \<Rightarrow> 'a option" where
  "after s k t = (if starts_with (ustr s) t then k (drop (length s) t) else None)"

definition match_link :: "ustr \<Rightarrow> (ustr \<times> ustr) option" where
  "match_link t =
     after ''['' (\<lambda>t.
       map_option (\<lambda>(text_url, (url, _)). (text_url, url))
         (lazy_until (after '']('' (lazy_until (after '')'' Some))) t)) t"

fun match_delim :: "ustr list \<Rightarrow> ustr \<Rightarrow> md_match option" where
  "match_delim [] t = None"
| "match_delim (d # ds) t = (if starts_with d t then Some (Delim d) else match_delim ds t)"

definition match_here :: "ustr \<Rightarrow> md_match option" where
  "match_here t =
     (case match_delim delimiters t of
        Some m \<Rightarrow> Some m
      | None \<Rightarrow>
          (case t of
             c # r \<Rightarrow>
               if c = of_char CHR ''!'' \<and> match_link r \<noteq> None then map_option (\<lambda>(a, b). Link True a b) (match_link r)
               else map_option (\<lambda>(a, b). Link False a b) (match_link t)
           | [] \<Rightarrow> None))"

text \<open>\<open>re.finditer\<close>: the matches with where they start. None of them is empty.\<close>

lemma match_delim_nonempty: "match_delim ds t = Some m \<Longrightarrow> (\<And>d. d \<in> set ds \<Longrightarrow> d \<noteq> []) \<Longrightarrow> full m \<noteq> []"
  by (induction ds) (auto simp: full_def split: if_splits)

lemma full_nonempty: "match_here t = Some m \<Longrightarrow> full m \<noteq> []"
  by (auto simp: match_here_def full_def ustr_def delimiters_def delim_defs split: option.splits list.splits if_splits md_match.splits
    dest!: match_delim_nonempty)

function finditer :: "nat \<Rightarrow> ustr \<Rightarrow> (nat \<times> md_match) list" where
  "finditer i [] = []"
| "finditer i (c # t) =
     (case match_here (c # t) of
        None \<Rightarrow> finditer (Suc i) t
      | Some m \<Rightarrow> (i, m) # finditer (i + length (full m)) (drop (length (full m)) (c # t)))"
  by pat_completeness auto

termination
  by (relation "measure (\<lambda>(i, t). length t)") (auto dest: full_nonempty)

section \<open>From delimiters to tags\<close>

text \<open>\<open>s.find(sub, start)\<close> for a non-negative start.\<close>

fun find_sub :: "ustr \<Rightarrow> ustr \<Rightarrow> nat option" where
  "find_sub s [] = (if s = [] then Some 0 else None)"
| "find_sub s (c # t) = (if starts_with s (c # t) then Some 0 else map_option Suc (find_sub s t))"

definition find_from :: "ustr \<Rightarrow> ustr \<Rightarrow> nat \<Rightarrow> nat option" where
  "find_from t s start = (if start \<le> length t then map_option ((+) start) (find_sub s (drop start t)) else None)"

text \<open>\<open>utils.replace_once\<close>.\<close>

definition replace_once :: "ustr \<Rightarrow> ustr \<Rightarrow> ustr \<Rightarrow> nat \<Rightarrow> ustr" where
  "replace_once source old new start =
     (case find_sub old (drop start source) of
        None \<Rightarrow> source
      | Some k \<Rightarrow> take start source @ take k (drop start source) @ new @ drop (k + length old) (drop start source))"

text \<open>What \<open>urlparse\<close> and \<open>parse_qs\<close> read in a URL: the scheme, the host, the first value of a parameter.\<close>

type_synonym url_reading = "ustr \<times> ustr \<times> (string \<Rightarrow> ustr option)"

definition py_isdigit :: "ustr \<Rightarrow> bool" where
  "py_isdigit s \<longleftrightarrow> s \<noteq> [] \<and> list_all (\<lambda>c. 48 \<le> c \<and> c \<le> 57) s"

definition or_empty :: "ustr option \<Rightarrow> ustr" where
  "or_empty v = (case v of None \<Rightarrow> [] | Some x \<Rightarrow> x)"

definition bang_markup :: "url_reading \<Rightarrow> ustr \<Rightarrow> ustr option" where
  "bang_markup parts text_url =
     (case parts of (scheme, netloc, params) \<Rightarrow>
        if scheme = ustr ''tg'' \<and> netloc = ustr ''emoji'' then
          (let i = or_empty (params ''id'') in
           if py_isdigit i then Some (ustr ''<tg-emoji emoji-id=\"'' @ i @ ustr ''\">'' @ text_url @ ustr ''</tg-emoji>'') else None)
        else if scheme = ustr ''tg'' \<and> netloc = ustr ''time'' then
          (let u = or_empty (params ''unix'') in
           if py_isdigit u
           then Some (ustr ''<tg-time unix=\"'' @ u @ ustr ''\" format=\"'' @ or_empty (params ''format'') @ ustr ''\">'' @ text_url @ ustr ''</tg-time>'')
           else None)
        else None)"

definition link_markup :: "(ustr \<Rightarrow> url_reading) \<Rightarrow> bool \<Rightarrow> ustr \<Rightarrow> ustr \<Rightarrow> ustr" where
  "link_markup urlparse bang text_url url =
     (case (if bang then bang_markup (urlparse url) text_url else None) of
        Some m \<Rightarrow> m
      | None \<Rightarrow> (if bang then ustr ''!'' else []) @ ustr ''<a href=\"'' @ url @ ustr ''\">'' @ text_url @ ustr ''</a>'')"

definition delim_tag :: "ustr \<Rightarrow> string" where
  "delim_tag d =
     (if d = BOLD_DELIM then ''b'' else if d = ITALIC_DELIM then ''i'' else if d = UNDERLINE_DELIM then ''u''
      else if d = STRIKE_DELIM then ''s'' else if d = CODE_DELIM then ''code'' else if d = PRE_DELIM then ''pre'' else ''spoiler'')"

record md_state =
  md_text :: ustr
  md_delims :: "ustr list"
  md_fixed :: bool

text \<open>The opening of a code block: its first line is the language.\<close>

definition open_pre :: "nat \<Rightarrow> ustr \<Rightarrow> ustr" where
  "open_pre start t =
     (let pos = (case find_from t PRE_DELIM start of None \<Rightarrow> -1 | Some k \<Rightarrow> int k);
          line = takeWhile (\<lambda>c. c \<noteq> 10) (drop (py_index t pos) t); e = pos + int (length line);
          e = (if py_slice t e (e + 1) = [10] then e + 1 else e) in
      take (py_index t pos) t @ ustr ''<pre language=\"'' @ drop (length PRE_DELIM) line @ ustr ''\">'' @ drop (py_index t e) t)"

definition close_pre :: "nat \<Rightarrow> ustr \<Rightarrow> ustr" where
  "close_pre start t =
     (case find_from t PRE_DELIM start of
        Some pos \<Rightarrow>
          if 0 < pos \<and> t ! (pos - 1) = 10 then take (pos - 1) t @ ustr ''</pre>'' @ drop (pos + length PRE_DELIM) t
          else replace_once t PRE_DELIM (ustr ''</pre>'') start
      | None \<Rightarrow> replace_once t PRE_DELIM (ustr ''</pre>'') start)"

definition md_step :: "(ustr \<Rightarrow> url_reading) \<Rightarrow> nat \<times> md_match \<Rightarrow> md_state \<Rightarrow> md_state" where
  "md_step urlparse im st =
     (case im of (start, m) \<Rightarrow>
        (case m of
           Link bang text_url url \<Rightarrow>
             if md_fixed st then st
             else st\<lparr>md_text := replace_once (md_text st) (full m) (link_markup urlparse bang text_url url) start\<rparr>
         | Delim d \<Rightarrow>
             let fixed = (if d \<in> set FIXED_WIDTH_DELIMS then \<not> md_fixed st else md_fixed st); st = st\<lparr>md_fixed := fixed\<rparr> in
             if fixed \<and> d \<notin> set FIXED_WIDTH_DELIMS then st
             else if d \<notin> set (md_delims st) then
               st\<lparr>md_delims := d # md_delims st,
                  md_text := (if d = PRE_DELIM then open_pre start (md_text st)
                              else replace_once (md_text st) d (ustr (''<'' @ delim_tag d @ ''>'')) start)\<rparr>
             else
               st\<lparr>md_delims := removeAll d (md_delims st),
                  md_text := (if d = PRE_DELIM then close_pre start (md_text st)
                              else replace_once (md_text st) d (ustr (''</'' @ delim_tag d @ ''>'')) start)\<rparr>))"

definition markdown_to_html :: "(ustr \<Rightarrow> url_reading) \<Rightarrow> bool \<Rightarrow> ustr \<Rightarrow> ustr" where
  "markdown_to_html urlparse strict t =
     (let t = quotes_to_html (if strict then html_escape t else t) in
      md_text (fold (md_step urlparse) (finditer 0 t) \<lparr>md_text = t, md_delims = [], md_fixed = False\<rparr>))"

definition markdown_parse :: "(ustr \<Rightarrow> url_reading) \<Rightarrow> (ustr \<Rightarrow> html_token list) \<Rightarrow> (int \<Rightarrow> 'p option) option \<Rightarrow> bool \<Rightarrow> ustr \<Rightarrow>
    (ustr \<times> 'p mentioned raw_entity list option) result" where
  "markdown_parse urlparse tokenize resolve strict t = html_parse tokenize resolve (markdown_to_html urlparse strict t)"

section \<open>Writing\<close>

definition link_end :: "ustr \<Rightarrow> ustr" where
  "link_end url = ustr ''](''  @ url @ ustr '')''"

text \<open>The delimiters of an entity that is not a quote.\<close>

definition md_tags :: "entity \<Rightarrow> (ustr \<times> ustr) option" where
  "md_tags e =
     (case e of
        Bold \<Rightarrow> Some (BOLD_DELIM, BOLD_DELIM)
      | Italic \<Rightarrow> Some (ITALIC_DELIM, ITALIC_DELIM)
      | Underline \<Rightarrow> Some (UNDERLINE_DELIM, UNDERLINE_DELIM)
      | Strikethrough \<Rightarrow> Some (STRIKE_DELIM, STRIKE_DELIM)
      | Code \<Rightarrow> Some (CODE_DELIM, CODE_DELIM)
      | Pre language \<Rightarrow> Some (PRE_DELIM @ language @ [10], [10] @ PRE_DELIM)
      | Spoiler \<Rightarrow> Some (SPOILER_DELIM, SPOILER_DELIM)
      | TextLink url \<Rightarrow> Some (ustr ''['', link_end url)
      | TextMention i \<Rightarrow> Some (ustr ''['', link_end (ustr ''tg://user?id='' @ py_str_int i))
      | CustomEmoji i \<Rightarrow> Some (ustr ''!['', link_end (ustr ''tg://emoji?id='' @ py_str_int i))
      | DateTime u f \<Rightarrow> Some (ustr ''!['', link_end (ustr ''tg://time?unix='' @ py_str_int u @
          (if f \<noteq> [] then ustr ''&format='' @ f else [])))
      | _ \<Rightarrow> None)"

text \<open>A quote marks each of its lines; an expandable one is closed at the end of its last line.\<close>

definition quote_marks :: "ustr \<Rightarrow> int \<Rightarrow> int \<Rightarrow> ustr tagged" where
  "quote_marks t start e = map (\<lambda>i. (QUOTE_DELIM, i + 1)) (filter (\<lambda>i. t ! nat i = 10) [start..e - 2])"

definition line_end :: "ustr \<Rightarrow> int \<Rightarrow> int" where
  "line_end t e = (case find_from t [10] (py_index t e) of None \<Rightarrow> int (length t) | Some k \<Rightarrow> int k)"

definition md_span :: "ustr \<Rightarrow> entity span \<Rightarrow> ((ustr \<times> int) \<times> (ustr \<times> int) \<times> ustr tagged) option" where
  "md_span t s =
     (case s of (start, e, entity) \<Rightarrow>
        (case entity of
           Blockquote expandable \<Rightarrow>
             Some ((if expandable then EXPANDABLE_QUOTE_DELIM else QUOTE_DELIM, start),
                   (if expandable then SPOILER_DELIM else [], if expandable then line_end t e else e),
                   quote_marks t start e)
         | _ \<Rightarrow> map_option (\<lambda>(a, b). ((a, start), (b, e), [])) (md_tags entity)))"

definition markdown_text :: "ustr \<Rightarrow> entity placed list \<Rightarrow> ustr" where
  "markdown_text t entities =
     (let offsets = sort_key snd (fst (walk (md_span t) None (split_crossing_spans t entities))) in
      fst (fold (put_tag (\<lambda>s. s)) (rev offsets) (t, int (length t))))"

definition markdown_unparse :: "ustr \<Rightarrow> entity placed list \<Rightarrow> ustr result" where
  "markdown_unparse t entities = remove_surrogates (markdown_text (add_surrogates t) entities)"

section \<open>Nothing of the text is lost\<close>

lemma in_order_sorted:
  assumes "sorted (map snd offs)" "\<And>a i. (a, i) \<in> set offs \<Longrightarrow> p \<le> i \<and> i \<le> q" "p \<le> q"
  shows "offsets_in p q offs"
  using assms
proof (induction offs arbitrary: p)
  case (Cons x offs)
  obtain a i where x: "x = (a, i)" by (cases x)
  have "offsets_in i q offs"
    by (rule Cons.IH) (use Cons.prems in \<open>force simp: x\<close>)+
  moreover have "p \<le> i" using Cons.prems(2) [of a i] by (simp add: x)
  ultimately show ?case by (simp add: x)
qed simp

lemma subseq_weave:
  "0 \<le> p \<Longrightarrow> offsets_in p (int (length t)) offs \<Longrightarrow> subseq (drop (nat p) t) (weave (\<lambda>s. s) (\<lambda>a. a) t p (int (length t)) offs)"
proof (induction offs arbitrary: p)
  case Nil
  then show ?case by (simp add: sub_def)
next
  case (Cons x offs)
  obtain a i where x: "x = (a, i)" by (cases x)
  with Cons.prems have i: "p \<le> i" "offsets_in i (int (length t)) offs" by simp_all
  then have "i \<le> int (length t)" by (auto dest: in_order_le)
  then have d: "drop (nat p) t = sub t p i @ drop (nat i) t"
    using sub_append [of p i "int (length t)" t] i(1) Cons.prems(1) by (simp add: sub_def)
  have "subseq (drop (nat i) t) (weave (\<lambda>s. s) (\<lambda>a. a) t i (int (length t)) offs)"
    using Cons.IH [of i] Cons.prems(1) i by simp
  then show ?case unfolding d x weave.simps subseq_append' by (rule list_emb_append2)
qed

lemma md_span_in:
  assumes "written_by (md_span t) x s" "0 \<le> fst s" "fst s \<le> fst (snd s)" "fst (snd s) \<le> int (length t)"
  shows "0 \<le> snd x \<and> snd x \<le> int (length t)"
proof -
  have "0 \<le> line_end t e \<and> line_end t e \<le> int (length t)" for e
  proof -
    have f: "k \<le> length u" if "find_sub s u = Some k" for s u k
      using that by (induction s u arbitrary: k rule: find_sub.induct) (auto split: if_splits)
    show ?thesis using f by (fastforce simp: line_end_def find_from_def split: option.splits if_splits)
  qed
  with assms show ?thesis
    by (auto simp: written_by_def md_span_def quote_marks_def split: option.splits prod.splits entity.splits if_splits)
qed



section \<open>A pair of delimiters\<close>

text \<open>Characters that mean nothing to the scanner and to quotes.\<close>

definition unmarked :: "ustr \<Rightarrow> bool" where
  "unmarked s \<longleftrightarrow> set s \<inter> set (ustr ''*_-~|`![>&'') = {}"

definition pair_delims :: "ustr list" where
  "pair_delims = [BOLD_DELIM, ITALIC_DELIM, UNDERLINE_DELIM, STRIKE_DELIM, SPOILER_DELIM]"

lemma unmarked_simps [simp]: "unmarked []" "unmarked (c # s) \<longleftrightarrow> c \<notin> set (ustr ''*_-~|`![>&'') \<and> unmarked s"
  "unmarked (s @ t) \<longleftrightarrow> unmarked s \<and> unmarked t"
  by (auto simp: unmarked_def)

lemma split_on_nonempty [simp]: "split_on c t \<noteq> []"
  by (induction t) (auto split: list.splits)

lemma join_split: "join_with [10] (split_on 10 t) = t"
proof (induction t)
  case (Cons c t)
  obtain l r where "split_on 10 t = l # r" using split_on_nonempty list.exhaust by metis
  with Cons show ?case by (auto simp: join_with_def)
qed (simp add: join_with_def)

lemma split_on_sub: "l \<in> set (split_on c t) \<Longrightarrow> set l \<subseteq> set t"
proof (induction t arbitrary: l)
  case (Cons x t)
  obtain p ps where p: "split_on c t = p # ps" using split_on_nonempty list.exhaust by metis
  have "set p \<subseteq> set t" "\<And>l. l \<in> set ps \<Longrightarrow> set l \<subseteq> set t" using Cons.IH by (auto simp: p)
  with Cons.prems show ?case by (fastforce simp: p split: if_splits)
qed simp

lemma starts_with_set: "starts_with m l \<Longrightarrow> set m \<subseteq> set l"
  unfolding starts_with_def by (metis set_take_subset)

lemma no_marker: "62 \<notin> set l \<Longrightarrow> 38 \<notin> set l \<Longrightarrow> split_quote_marker l = None"
  using starts_with_set [of EXPANDABLE_QUOTE_DELIM l] starts_with_set [of "ustr ''**&gt;''" l] starts_with_set [of QUOTE_DELIM l]
    starts_with_set [of "ustr ''&gt;''" l]
  by (auto simp: split_quote_marker_def QUOTE_MARKERS_def EXPANDABLE_QUOTE_DELIM_def QUOTE_DELIM_def ustr_def)

lemma quotes_none: "(\<And>l. l \<in> set ls \<Longrightarrow> split_quote_marker l = None) \<Longrightarrow> quotes p ls = ls"
  by (induction p ls rule: quotes.induct) (auto simp: Let_def)

lemma quotes_to_html_id: "62 \<notin> set t \<Longrightarrow> 38 \<notin> set t \<Longrightarrow> quotes_to_html t = t"
proof -
  assume t: "62 \<notin> set t" "38 \<notin> set t"
  have "quotes False (split_on 10 t) = split_on 10 t"
  proof (rule quotes_none)
    fix l assume "l \<in> set (split_on 10 t)"
    from split_on_sub [OF this] t show "split_quote_marker l = None" by (intro no_marker) auto
  qed
  then show ?thesis by (simp add: quotes_to_html_def join_split)
qed

lemma starts_with_hd: "starts_with (x # m) (c # t) \<longleftrightarrow> x = c \<and> starts_with m t"
  by (auto simp: starts_with_def)

lemma starts_with_Nil [simp]: "starts_with [] t"
  by (simp add: starts_with_def)

lemma match_quiet: "unmarked [c] \<Longrightarrow> match_here (c # t) = None"
  by (simp add: match_here_def delimiters_def delim_defs starts_with_hd ustr_def match_link_def after_def)

lemma match_pair: "d \<in> set pair_delims \<Longrightarrow> match_here (d @ t) = Some (Delim d)"
proof -
  assume "d \<in> set pair_delims"
  then consider "d = [42, 42]" | "d = [95, 95]" | "d = [45, 45]" | "d = [126, 126]" | "d = [124, 124]"
    by (auto simp: pair_delims_def delim_defs ustr_def)
  then have "match_delim delimiters (d @ t) = Some (Delim d)"
    by cases (simp_all add: delimiters_def delim_defs ustr_def starts_with_hd)
  then show ?thesis by (simp add: match_here_def)
qed

lemma finditer_quiet: "unmarked s \<Longrightarrow> finditer i (s @ t) = finditer (i + length s) t"
  by (induction s arbitrary: i) (simp_all add: match_quiet)

lemma finditer_pair: "d \<in> set pair_delims \<Longrightarrow> finditer i (d @ t) = (i, Delim d) # finditer (i + 2) t"
proof -
  assume d: "d \<in> set pair_delims"
  then obtain a b where ab: "d = [a, b]" by (auto simp: pair_delims_def delim_defs ustr_def)
  from match_pair [OF d, of t] show ?thesis by (simp add: ab full_def)
qed

lemma find_sub_skip: "d = a # r \<Longrightarrow> a \<notin> set s \<Longrightarrow> find_sub d (s @ d @ t) = Some (length s)"
  by (induction s) (auto simp: starts_with_def)

lemma replace_once_at:
  assumes "d = a # r" "a \<notin> set s" "length p = start"
  shows "replace_once (p @ s @ d @ t) d new start = p @ s @ new @ t"
  using assms find_sub_skip [OF assms(1,2), of t] by (simp add: replace_once_def)

text \<open>
  A pair of delimiters around unmarked text becomes a pair of tags around it, and nothing else changes.
\<close>

theorem delimiters_pair:
  assumes "d \<in> set pair_delims" "unmarked a" "unmarked b" "unmarked c"
  shows "markdown_to_html urlparse False (a @ d @ b @ d @ c) =
    a @ ustr (''<'' @ delim_tag d @ ''>'') @ b @ ustr (''</'' @ delim_tag d @ ''>'') @ c"
proof -
  let ?t = "a @ d @ b @ d @ c"
  obtain x where d: "d = [x, x]" "x \<in> set (ustr ''*_-~|'')" using assms(1) by (auto simp: pair_delims_def delim_defs ustr_def)
  have q: "quotes_to_html ?t = ?t" using assms(2-4) d by (intro quotes_to_html_id) (auto simp: unmarked_def ustr_def)
  have f: "finditer 0 ?t = [(length a, Delim d), (length a + 2 + length b, Delim d)]"
    using finditer_quiet [OF assms(4), of _ "[]"]
    by (simp add: finditer_quiet [OF assms(2)] finditer_quiet [OF assms(3)] finditer_pair [OF assms(1)])
  have w: "d \<notin> set FIXED_WIDTH_DELIMS" "d \<noteq> PRE_DELIM" using d by (auto simp: FIXED_WIDTH_DELIMS_def delim_defs ustr_def)
  let ?o = "ustr (''<'' @ delim_tag d @ ''>'')" and ?c = "ustr (''</'' @ delim_tag d @ ''>'')"
  have r1: "replace_once ?t d ?o (length a) = a @ ?o @ b @ d @ c"
    using replace_once_at [of d x "[x]" "[]" a "length a" "b @ d @ c" ?o] d(1) by simp
  have o: "x \<notin> set ?o" "2 \<le> length ?o"
    using assms(1) d by (auto simp: pair_delims_def delim_tag_def delim_defs ustr_def)
  have bx: "x \<notin> set b" using assms(3) d(2) by (auto simp: unmarked_def ustr_def)
  have "replace_once (a @ ?o @ b @ d @ c) d ?c (length a + 2 + length b) = a @ ?o @ b @ ?c @ c"
  proof -
    define ob where "ob = ?o @ b"
    have join: "(a @ take (2 + length b) ob) @ drop (2 + length b) ob @ r = a @ ob @ r" for r
      by (metis append_assoc append_take_drop_id)
    have "x \<notin> set (drop (2 + length b) ob)" using o(1) bx by (metis Un_iff in_set_dropD ob_def set_append)
    moreover have "length (a @ take (2 + length b) ob) = length a + 2 + length b" using o(2) by (simp add: ob_def)
    ultimately have "replace_once ((a @ take (2 + length b) ob) @ drop (2 + length b) ob @ d @ c) d ?c (length a + 2 + length b) =
        (a @ take (2 + length b) ob) @ drop (2 + length b) ob @ ?c @ c"
      by (intro replace_once_at [OF d(1)])
    also have "\<dots> = a @ ob @ ?c @ c" by (rule join)
    finally show ?thesis by (simp only: join) (simp add: ob_def)
  qed
  with r1 show ?thesis by (simp add: markdown_to_html_def q f md_step_def w Let_def)
qed

lemma delimiters_pair_witness:
  "markdown_to_html (\<lambda>_. ([], [], \<lambda>_. None)) False (ustr ''so '' @ BOLD_DELIM @ ustr ''bold'' @ BOLD_DELIM @ ustr '' it is'') =
     ustr ''so <b>bold</b> it is''"
  using delimiters_pair [of BOLD_DELIM "ustr ''so ''" "ustr ''bold''" "ustr '' it is''" "\<lambda>_. ([], [], \<lambda>_. None)"]
  by (simp add: pair_delims_def ustr_def delim_tag_def)

text \<open>
  A delimiter after a link is looked for from its place in the original text, which the longer markup of the link has
  reached: the delimiter inside the address is replaced instead.
\<close>

lemma address_damaged:
  "markdown_to_html (\<lambda>_. ([], [], \<lambda>_. None)) False (ustr ''[a](u__) __b__'') = ustr ''<a href=\"u<i>\">a</a> </i>b__''"
  by code_simp

end
