(* ===== verification/Hybrid_Storage.thy ===== *)
theory Hybrid_Storage
  imports Sqlite_Storage
begin

text \<open>
  The two-layer storage (\<open>pyrogram/storage/hybrid_storage.py\<close>): a local SQLite storage that serves every read, and a
  backend that a background task brings up to date from a bounded queue of writes. The backend is any storage, given by
  its operations. The steps of the background task and the calls of the client interleave at the points where they wait.
\<close>

section \<open>Two layers\<close>

text \<open>A call that returns or raises, and leaves a state either way; the sequence of two calls.\<close>

type_synonym ('s, 'a) call = "'s \<Rightarrow> 'a result \<times> 's"

definition give :: "'a \<Rightarrow> ('s, 'a) call" where
  "give x s = (Inr x, s)"

definition chain :: "('s, 'a) call \<Rightarrow> ('a \<Rightarrow> ('s, 'c) call) \<Rightarrow> ('s, 'c) call" where
  "chain m f s = (case m s of (Inl e, t) \<Rightarrow> (Inl e, t) | (Inr x, t) \<Rightarrow> f x t)"

text \<open>The abstract storage as a backend; what it answers from the network may raise. Two methods may be missing.\<close>

type_synonym stored_peer = "int \<times> int \<times> ustr \<times> int"

record 'b backend_ops =
  b_open :: "('b, unit) call"
  b_close :: "('b, unit) call"
  b_delete :: "('b, unit) call"
  b_read :: "attr \<Rightarrow> ('b, val) call"
  b_write :: "attr \<Rightarrow> val \<Rightarrow> ('b, unit) call"
  b_peers :: "peer_row list \<Rightarrow> ('b, unit) call"
  b_usernames :: "(int \<times> ustr list) list \<Rightarrow> ('b, unit) call"
  b_state :: "state_arg \<Rightarrow> ('b, unit) call"
  b_states :: "('b, (int \<times> state_row) list) call"
  b_by_id :: "int \<Rightarrow> ('b, input_peer) call"
  b_by_username :: "ustr \<Rightarrow> ('b, input_peer) call"
  b_by_phone :: "ustr \<Rightarrow> ('b, input_peer) call"
  b_export :: "(int \<Rightarrow> ('b, peer_row list) call) option"
  b_fetch :: "(int \<Rightarrow> ('b, stored_peer option) call) option"

text \<open>A storage whose calls read a clock, as a backend with the readings to come.\<close>

type_synonym 's timed = "(nat \<Rightarrow> clock_pair) \<times> 's"

definition ticked :: "(clock_pair \<Rightarrow> ('s, 'a) call) \<Rightarrow> ('s timed, 'a) call" where
  "ticked f b = (case f (fst b 0) (snd b) of (r, s) \<Rightarrow> (r, (\<lambda>n. fst b (Suc n), s)))"

datatype mirror_write =
    SESSION_WRITE "(attr \<times> val) list"
  | PEER_WRITE "peer_row list"
  | USERNAME_WRITE "(int \<times> ustr list) list"
  | STATE_WRITE int state_row
  | STATE_DELETE int

fun DROPPABLE :: "mirror_write option \<Rightarrow> bool" where
  "DROPPABLE (Some (PEER_WRITE ps)) = True"
| "DROPPABLE (Some (USERNAME_WRITE us)) = True"
| "DROPPABLE _ = False"

text \<open>Where the background task waits: for an item, for the backend, or after a failure.\<close>

datatype writer_phase = NoWriter | Waiting | Applying mirror_write | Backoff mirror_write | Returned

fun inflight :: "writer_phase \<Rightarrow> mirror_write option" where
  "inflight (Applying w) = Some w"
| "inflight (Backoff w) = Some w"
| "inflight _ = None"

text \<open>
  \<open>h_unfinished\<close> is the queue's own count of items put and not marked done; a queue of size 0 is unbounded. The item
  \<open>None\<close> tells the task to return.
\<close>

record 'b hybrid =
  h_local :: sqlite
  h_backend :: 'b
  h_string :: "ustr option"
  h_warm :: int
  h_queue :: "mirror_write option list"
  h_maxsize :: nat
  h_unfinished :: int
  h_writer :: writer_phase
  h_delay :: rat
  h_closing :: bool
  h_dropped :: nat

definition RETRY_DELAY :: rat where "RETRY_DELAY = 1"
definition MAX_RETRY_DELAY :: rat where "MAX_RETRY_DELAY = 30"

definition new_hybrid :: "sqlite \<Rightarrow> 'b \<Rightarrow> ustr option \<Rightarrow> int \<Rightarrow> nat \<Rightarrow> 'b hybrid" where
  "new_hybrid loc b str warm n =
     \<lparr>h_local = loc, h_backend = b, h_string = str, h_warm = warm, h_queue = [], h_maxsize = n, h_unfinished = 0,
      h_writer = NoWriter, h_delay = RETRY_DELAY, h_closing = False, h_dropped = 0\<rparr>"

definition on_local :: "(sqlite, 'a) call \<Rightarrow> ('b hybrid, 'a) call" where
  "on_local f s = (case f (h_local s) of (r, l) \<Rightarrow> (r, s\<lparr>h_local := l\<rparr>))"

definition on_backend :: "('b, 'a) call \<Rightarrow> ('b hybrid, 'a) call" where
  "on_backend f s = (case f (h_backend s) of (r, b) \<Rightarrow> (r, s\<lparr>h_backend := b\<rparr>))"

text \<open>A local operation that returns nothing.\<close>

definition locally :: "(sqlite \<Rightarrow> sqlite) \<Rightarrow> ('b hybrid, unit) call" where
  "locally f s = (Inr (), s\<lparr>h_local := f (h_local s)\<rparr>)"

section \<open>The queue of writes\<close>

text \<open>\<open>asyncio.QueueFull\<close> is an exception of no class the code tells apart.\<close>

abbreviation QueueFull :: py_exn where "QueueFull \<equiv> PlainException"

definition queue_full :: "'b hybrid \<Rightarrow> bool" where
  "queue_full s \<longleftrightarrow> 0 < h_maxsize s \<and> h_maxsize s \<le> length (h_queue s)"

definition put_nowait :: "mirror_write option \<Rightarrow> ('b hybrid, unit) call" where
  "put_nowait x s =
     (if queue_full s then (Inl QueueFull, s)
      else (Inr (), s\<lparr>h_queue := h_queue s @ [x], h_unfinished := h_unfinished s + 1\<rparr>))"

definition task_done :: "'b hybrid \<Rightarrow> 'b hybrid" where
  "task_done s = s\<lparr>h_unfinished := h_unfinished s - 1\<rparr>"

text \<open>The index of the first item that may be dropped, 0 if there is none.\<close>

fun first_droppable :: "nat \<Rightarrow> mirror_write option list \<Rightarrow> nat" where
  "first_droppable i [] = 0"
| "first_droppable i (x # xs) = (if DROPPABLE x then i else first_droppable (Suc i) xs)"

fun put_back :: "nat \<Rightarrow> nat \<Rightarrow> mirror_write option list \<Rightarrow> ('b hybrid, unit) call" where
  "put_back i victim [] s = (Inr (), s)"
| "put_back i victim (x # xs) s =
     chain (\<lambda>s. if i \<noteq> victim then put_nowait x s else (Inr (), s)) (\<lambda>_ s. put_back (Suc i) victim xs (task_done s)) s"

definition make_room :: "('b hybrid, unit) call" where
  "make_room s =
     (let pending = h_queue s in
      chain (put_back 0 (first_droppable 0 pending) pending) (\<lambda>_ s. (Inr (), s\<lparr>h_dropped := h_dropped s + 1\<rparr>))
        (s\<lparr>h_queue := []\<rparr>))"

definition enqueue :: "mirror_write \<Rightarrow> ('b hybrid, unit) call" where
  "enqueue w s =
     (if h_closing s then (Inr (), s)
      else (case put_nowait (Some w) s of
              (Inr _, s) \<Rightarrow> (Inr (), s)
            | (Inl _, s) \<Rightarrow> chain make_room (\<lambda>_. put_nowait (Some w)) s))"

text \<open>How many of the items were writes.\<close>

definition drain_queue :: "'b hybrid \<Rightarrow> nat \<times> 'b hybrid" where
  "drain_queue s =
     (length (filter (\<lambda>x. x \<noteq> None) (h_queue s)),
      s\<lparr>h_queue := [], h_unfinished := h_unfinished s - int (length (h_queue s))\<rparr>)"

definition pending_count :: "'b hybrid \<Rightarrow> nat" where
  "pending_count s = length (h_queue s) + (if inflight (h_writer s) \<noteq> None then 1 else 0)"

text \<open>\<open>queue.join()\<close>, which \<open>flush\<close> waits for, returns.\<close>

definition joined :: "'b hybrid \<Rightarrow> bool" where
  "joined s \<longleftrightarrow> h_unfinished s \<le> 0"

section \<open>The background task\<close>

fun apply_write :: "'b backend_ops \<Rightarrow> mirror_write \<Rightarrow> ('b, unit) call" where
  "apply_write ops (SESSION_WRITE avs) b = write_all (b_write ops) avs b"
| "apply_write ops (PEER_WRITE ps) b = b_peers ops ps b"
| "apply_write ops (USERNAME_WRITE us) b = b_usernames ops us b"
| "apply_write ops (STATE_WRITE i r) b = b_state ops (WriteState i r) b"
| "apply_write ops (STATE_DELETE i) b = b_state ops (DeleteState i) b"

definition take_write :: "'b hybrid \<Rightarrow> 'b hybrid" where
  "take_write s =
     (case h_queue s of
        [] \<Rightarrow> s
      | None # xs \<Rightarrow> task_done (s\<lparr>h_queue := xs, h_writer := Returned\<rparr>)
      | Some w # xs \<Rightarrow> s\<lparr>h_queue := xs, h_writer := Applying w\<rparr>)"

definition answered :: "'b backend_ops \<Rightarrow> mirror_write \<Rightarrow> 'b hybrid \<Rightarrow> 'b hybrid" where
  "answered ops w s =
     (case apply_write ops w (h_backend s) of
        (Inr _, b) \<Rightarrow> task_done (s\<lparr>h_backend := b, h_delay := RETRY_DELAY, h_writer := Waiting\<rparr>)
      | (Inl e, b) \<Rightarrow> s\<lparr>h_backend := b, h_writer := Backoff w\<rparr>)"

definition woken :: "mirror_write \<Rightarrow> 'b hybrid \<Rightarrow> 'b hybrid" where
  "woken w s =
     (let s = s\<lparr>h_delay := min (h_delay s * 2) MAX_RETRY_DELAY\<rparr>;
          s = snd (put_nowait (Some w) s) in
      task_done (s\<lparr>h_writer := Waiting\<rparr>))"

text \<open>The task runs to its next point of waiting, if what it waits for is there.\<close>

definition writer_step :: "'b backend_ops \<Rightarrow> 'b hybrid \<Rightarrow> 'b hybrid" where
  "writer_step ops s =
     (case h_writer s of
        Waiting \<Rightarrow> take_write s
      | Applying w \<Rightarrow> answered ops w s
      | Backoff w \<Rightarrow> woken w s
      | _ \<Rightarrow> s)"

section \<open>The operations of a storage\<close>

definition hybrid_read :: "attr \<Rightarrow> ('b hybrid, val) call" where
  "hybrid_read a = on_local (read_attr a)"

definition hybrid_write :: "attr \<Rightarrow> val \<Rightarrow> ('b hybrid, unit) call" where
  "hybrid_write a v = chain (on_local (write_attr a v)) (\<lambda>_. enqueue (SESSION_WRITE [(a, v)]))"

definition hybrid_save :: "clock_pair \<Rightarrow> ('b hybrid, unit) call" where
  "hybrid_save now =
     chain (on_local (save_sqlite now)) (\<lambda>_. chain (on_local (read_attr Date)) (\<lambda>d. enqueue (SESSION_WRITE [(Date, d)])))"

definition hybrid_peers :: "clock_pair \<Rightarrow> peer_row list \<Rightarrow> ('b hybrid, unit) call" where
  "hybrid_peers now ps =
     (if ps = [] then give () else chain (locally (update_peers now ps)) (\<lambda>_. enqueue (PEER_WRITE ps)))"

definition hybrid_usernames :: "(int \<times> ustr list) list \<Rightarrow> ('b hybrid, unit) call" where
  "hybrid_usernames us =
     (if us = [] then give () else chain (locally (update_usernames us)) (\<lambda>_. enqueue (USERNAME_WRITE us)))"

fun state_write :: "state_arg \<Rightarrow> mirror_write" where
  "state_write (WriteState i r) = STATE_WRITE i r"
| "state_write (DeleteState i) = STATE_DELETE i"

definition hybrid_state :: "state_arg \<Rightarrow> ('b hybrid, unit) call" where
  "hybrid_state v = chain (locally (update_state v)) (\<lambda>_. enqueue (state_write v))"

definition hybrid_states :: "'b hybrid \<Rightarrow> (int \<times> state_row) list" where
  "hybrid_states s = read_states (h_local s)"

fun is_KeyError :: "py_exn \<Rightarrow> bool" where
  "is_KeyError (KeyError i) = True"
| "is_KeyError (KeyErrorText t) = True"
| "is_KeyError _ = False"

text \<open>The local answer, or the other one when the local storage does not know the key.\<close>

definition local_first :: "('b hybrid, 'a) call \<Rightarrow> ('b hybrid, 'a) call \<Rightarrow> ('b hybrid, 'a) call" where
  "local_first f g s = (case f s of (Inr x, s) \<Rightarrow> (Inr x, s) | (Inl e, s) \<Rightarrow> if is_KeyError e then g s else (Inl e, s))"

definition cache_locally :: "'b backend_ops \<Rightarrow> clock_pair \<Rightarrow> int \<Rightarrow> ('b hybrid, unit) call" where
  "cache_locally ops now peer_id s =
     (case b_fetch ops of
        None \<Rightarrow> (Inr (), s)
      | Some fetch \<Rightarrow>
          (case on_backend (fetch peer_id) s of
             (Inl e, s) \<Rightarrow> (Inr (), s)
           | (Inr None, s) \<Rightarrow> (Inr (), s)
           | (Inr (Some (i, h, ty, on)), s) \<Rightarrow> locally (update_peers now [(i, h, ty, None)]) s))"

definition hybrid_by_id :: "'b backend_ops \<Rightarrow> clock_pair \<Rightarrow> int \<Rightarrow> ('b hybrid, input_peer) call" where
  "hybrid_by_id ops now peer_id =
     local_first (on_local (get_peer_by_id peer_id))
       (chain (on_backend (b_by_id ops peer_id)) (\<lambda>p. chain (cache_locally ops now peer_id) (\<lambda>_. give p)))"

definition hybrid_by_username :: "'b backend_ops \<Rightarrow> clock_pair \<Rightarrow> ustr \<Rightarrow> ('b hybrid, input_peer) call" where
  "hybrid_by_username ops now u =
     local_first (on_local (\<lambda>l. (get_peer_by_username now u l, l))) (on_backend (b_by_username ops u))"

definition hybrid_by_phone :: "'b backend_ops \<Rightarrow> ustr \<Rightarrow> ('b hybrid, input_peer) call" where
  "hybrid_by_phone ops ph =
     local_first (on_local (\<lambda>l. (get_peer_by_phone_number ph l, l))) (on_backend (b_by_phone ops ph))"

section \<open>Opening\<close>

definition SESSION_FIELDS :: "attr list" where
  "SESSION_FIELDS = [DcId, ServerAddress, Port, ApiId, TestMode, AuthKey, Date, UserId, IsBot]"

fun warm_fields :: "'b backend_ops \<Rightarrow> attr list \<Rightarrow> ('b hybrid, unit) call" where
  "warm_fields ops [] = give ()"
| "warm_fields ops (a # as) =
     chain (on_backend (b_read ops a))
       (\<lambda>v. chain (if v = NoVal then give () else on_local (write_attr a v)) (\<lambda>_. warm_fields ops as))"

definition warm_states :: "(int \<times> state_row) list \<Rightarrow> ('b hybrid, unit) call" where
  "warm_states sts = locally (fold (\<lambda>(i, r). update_state (WriteState i r)) sts)"

definition warm_peers :: "'b backend_ops \<Rightarrow> clock_pair \<Rightarrow> ('b hybrid, unit) call" where
  "warm_peers ops now s =
     (case b_export ops of
        None \<Rightarrow> (Inr (), s)
      | Some export \<Rightarrow>
          (case on_backend (export (h_warm s)) s of
             (Inl e, s) \<Rightarrow> (Inr (), s)
           | (Inr ps, s) \<Rightarrow> if ps = [] then (Inr (), s) else locally (update_peers now ps) s))"

definition warm :: "'b backend_ops \<Rightarrow> clock_pair \<Rightarrow> ('b hybrid, unit) call" where
  "warm ops now =
     chain (warm_fields ops SESSION_FIELDS)
       (\<lambda>_. chain (on_backend (b_states ops)) (\<lambda>sts. chain (warm_states sts) (\<lambda>_. warm_peers ops now)))"

definition load_both :: "(bytes \<Rightarrow> nat) \<Rightarrow> ('b hybrid, unit) call" where
  "load_both crc s =
     (case h_string s of
        Some (c # cs) \<Rightarrow> load_session_string crc hybrid_write (c # cs) s
      | _ \<Rightarrow> (Inr (), s))"

definition open_hybrid :: "'b backend_ops \<Rightarrow> (bytes \<Rightarrow> nat) \<Rightarrow> clock_pair \<Rightarrow> ('b hybrid, unit) call" where
  "open_hybrid ops crc now =
     chain (on_local (open_sqlite crc)) (\<lambda>_. chain (on_backend (b_open ops)) (\<lambda>_. chain (warm ops now)
       (\<lambda>_. chain (load_both crc)
         (\<lambda>_ s. (Inr (), s\<lparr>h_closing := False, h_writer := Waiting, h_delay := RETRY_DELAY\<rparr>)))))"

section \<open>What happens while the storage is open\<close>

datatype hybrid_event =
    WriterTurn
  | LocalFlush
  | GetAttr attr
  | SetAttr attr val
  | SaveSession clock_pair
  | StorePeers clock_pair "peer_row list"
  | StoreUsernames "(int \<times> ustr list) list"
  | StoreState state_arg
  | LookupId clock_pair int
  | LookupUsername clock_pair ustr
  | LookupPhone ustr

fun hybrid_step :: "'b backend_ops \<Rightarrow> hybrid_event \<Rightarrow> 'b hybrid \<Rightarrow> 'b hybrid" where
  "hybrid_step ops WriterTurn s = writer_step ops s"
| "hybrid_step ops LocalFlush s = snd (locally flush_later s)"
| "hybrid_step ops (GetAttr a) s = snd (hybrid_read a s)"
| "hybrid_step ops (SetAttr a v) s = snd (hybrid_write a v s)"
| "hybrid_step ops (SaveSession now) s = snd (hybrid_save now s)"
| "hybrid_step ops (StorePeers now ps) s = snd (hybrid_peers now ps s)"
| "hybrid_step ops (StoreUsernames us) s = snd (hybrid_usernames us s)"
| "hybrid_step ops (StoreState v) s = snd (hybrid_state v s)"
| "hybrid_step ops (LookupId now i) s = snd (hybrid_by_id ops now i s)"
| "hybrid_step ops (LookupUsername now u) s = snd (hybrid_by_username ops now u s)"
| "hybrid_step ops (LookupPhone ph) s = snd (hybrid_by_phone ops ph s)"

abbreviation hybrid_run :: "'b backend_ops \<Rightarrow> hybrid_event list \<Rightarrow> 'b hybrid \<Rightarrow> 'b hybrid" where
  "hybrid_run ops evs s \<equiv> fold (hybrid_step ops) evs s"

section \<open>Closing\<close>

text \<open>
  The task is cancelled where it waits. A call of the backend that is cut off leaves the backend in some state of its own.
\<close>

definition cancel_writer :: "('b \<Rightarrow> 'b) \<Rightarrow> 'b hybrid \<Rightarrow> 'b hybrid" where
  "cancel_writer left s =
     (case h_writer s of
        Applying w \<Rightarrow> task_done (s\<lparr>h_backend := left (h_backend s), h_writer := NoWriter\<rparr>)
      | Backoff w \<Rightarrow> task_done (s\<lparr>h_writer := NoWriter\<rparr>)
      | _ \<Rightarrow> s\<lparr>h_writer := NoWriter\<rparr>)"

text \<open>
  \<open>close\<close>: what happens while it waits for the queue, whether the deadline then lies ahead, and what happens while it
  waits for the task to return.
\<close>

definition begin_close :: "'b hybrid \<Rightarrow> bool \<times> 'b hybrid" where
  "begin_close s = (case put_nowait None (s\<lparr>h_closing := True\<rparr>) of (r, s) \<Rightarrow> (r = Inr (), s))"

definition cut_off :: "('b \<Rightarrow> 'b) \<Rightarrow> 'b hybrid \<Rightarrow> 'b hybrid" where
  "cut_off left s =
     (let interrupted = (if inflight (h_writer s) \<noteq> None then 1 else 0); (n, s) = drain_queue s; s = cancel_writer left s in
      s\<lparr>h_dropped := h_dropped s + (n + interrupted)\<rparr>)"

definition stop_hybrid :: "'b backend_ops \<Rightarrow> hybrid_event list \<Rightarrow> bool \<Rightarrow> hybrid_event list \<Rightarrow> ('b \<Rightarrow> 'b) \<Rightarrow> 'b hybrid \<Rightarrow> 'b hybrid" where
  "stop_hybrid ops flushing remaining returning left s =
     (let s = hybrid_run ops flushing s in
      if h_writer s = NoWriter then s\<lparr>h_closing := True\<rparr>
      else (case begin_close s of (accepted, s) \<Rightarrow>
        cut_off left (if accepted \<and> remaining then hybrid_run ops returning s else s)))"

definition close_hybrid :: "'b backend_ops \<Rightarrow> hybrid_event list \<Rightarrow> bool \<Rightarrow> hybrid_event list \<Rightarrow> ('b \<Rightarrow> 'b) \<Rightarrow> ('b hybrid, unit) call" where
  "close_hybrid ops flushing remaining returning left s =
     chain (locally close_sqlite) (\<lambda>_. on_backend (b_close ops)) (stop_hybrid ops flushing remaining returning left s)"

definition delete_hybrid :: "'b backend_ops \<Rightarrow> ('b \<Rightarrow> 'b) \<Rightarrow> ('b hybrid, unit) call" where
  "delete_hybrid ops left s =
     chain (on_backend (b_delete ops)) (\<lambda>_. locally delete_sqlite) (snd (drain_queue (cancel_writer left s)))"

end
