(* ===== verification/Remote_Storage.thy ===== *)
theory Remote_Storage
  imports Hybrid_Storage
begin

text \<open>
  The base of the storages that keep the session elsewhere (\<open>pyrogram/storage/remote_storage.py\<close>): the whole storage on
  top of the primitives a database offers, with a cached session row and a cache of peers. The primitives belong to the
  subclasses and their drivers; they are an argument, and each may raise.
\<close>

section \<open>Primitives\<close>

text \<open>A session as a dictionary of some of its fields.\<close>

type_synonym session_dict = "(attr \<times> val) list"

record 'p primitives =
  p_connect :: "('p, unit) call"
  p_disconnect :: "('p, unit) call"
  p_load_session :: "('p, session_dict option) call"
  p_save_session :: "session_dict \<Rightarrow> ('p, unit) call"
  p_upsert_peers :: "peer_row list \<Rightarrow> ('p, unit) call"
  p_fetch_peer :: "int \<Rightarrow> ('p, stored_peer option) call"
  p_fetch_by_username :: "ustr \<Rightarrow> ('p, stored_peer option) call"
  p_fetch_by_phone :: "ustr \<Rightarrow> ('p, stored_peer option) call"
  p_replace_usernames :: "(int \<times> ustr list) list \<Rightarrow> ('p, unit) call"
  p_load_states :: "('p, (int \<times> state_row) list) call"
  p_save_state :: "int \<Rightarrow> state_row \<Rightarrow> ('p, unit) call"
  p_delete_state :: "int \<Rightarrow> ('p, unit) call"
  p_purge :: "bool \<Rightarrow> ('p, unit) call"
  p_iter_peers :: "int option \<Rightarrow> ('p, peer_row list) call"
  p_load_version :: "('p, int option) call"
  p_save_version :: "int \<Rightarrow> ('p, unit) call"
  p_migrate :: "int \<Rightarrow> ('p, unit) call"

definition DEFAULT_SESSION :: session_dict where
  "DEFAULT_SESSION =
     [(DcId, IntVal 2), (ServerAddress, TextVal (ustr ''149.154.167.51'')), (Port, IntVal 443), (ApiId, NoVal), (TestMode, NoVal),
      (AuthKey, NoVal), (Date, IntVal 0), (UserId, NoVal), (IsBot, NoVal)]"

definition REMOTE_VERSION :: int where "REMOTE_VERSION = 1"

text \<open>\<open>d.get(field)\<close>, and a dictionary that may be missing or empty with one to fall back on.\<close>

definition dict_get :: "attr \<Rightarrow> session_dict \<Rightarrow> val" where
  "dict_get a d = (case map_of d a of None \<Rightarrow> NoVal | Some v \<Rightarrow> v)"

definition dict_or :: "session_dict option \<Rightarrow> session_dict \<Rightarrow> session_dict" where
  "dict_or d default_dict = (case d of Some (x # xs) \<Rightarrow> x # xs | _ \<Rightarrow> default_dict)"

section \<open>The storage\<close>

record 'p remote =
  r_store :: 'p
  r_string :: "ustr option"
  r_attrs :: "(attr, val) attr_cache"
  r_peers :: row_cache
  r_opened :: bool

definition new_remote :: "'p \<Rightarrow> ustr option \<Rightarrow> nat \<Rightarrow> 'p remote" where
  "new_remote p str n =
     \<lparr>r_store = p, r_string = str, r_attrs = Map.empty, r_peers = new_row_cache n (of_int USERNAME_TTL / 2), r_opened = False\<rparr>"

definition on_store :: "('p, 'a) call \<Rightarrow> ('p remote, 'a) call" where
  "on_store f s = (case f (r_store s) of (r, p) \<Rightarrow> (r, s\<lparr>r_store := p\<rparr>))"

definition remote_read :: "'p primitives \<Rightarrow> attr \<Rightarrow> ('p remote, val) call" where
  "remote_read prims a s =
     (if \<not> r_opened s then (Inl ConnectionError, s)
      else (case cache_get NoVal a (r_attrs s) of
              Some v \<Rightarrow> (Inr v, s)
            | None \<Rightarrow>
                chain (on_store (p_load_session prims))
                  (\<lambda>stored s. let v = dict_get a (dict_or stored []) in
                     (Inr v, s\<lparr>r_attrs := cache_remember NoVal a v (r_attrs s)\<rparr>)) s))"

definition remote_write :: "'p primitives \<Rightarrow> attr \<Rightarrow> val \<Rightarrow> ('p remote, unit) call" where
  "remote_write prims a v s =
     (if \<not> r_opened s then (Inl ConnectionError, s)
      else chain (on_store (p_save_session prims [(a, v)])) (\<lambda>_ s. (Inr (), s\<lparr>r_attrs := cache_set a v (r_attrs s)\<rparr>)) s)"

section \<open>Opening and closing\<close>

definition migrate_remote :: "'p primitives \<Rightarrow> session_dict \<Rightarrow> int option \<Rightarrow> ('p remote, session_dict) call" where
  "migrate_remote prims stored version =
     (case version of
        Some n \<Rightarrow>
          if n < REMOTE_VERSION then
            chain (on_store (p_migrate prims n)) (\<lambda>_. chain (on_store (p_save_version prims REMOTE_VERSION))
              (\<lambda>_. chain (on_store (p_load_session prims)) (\<lambda>d. give (dict_or d DEFAULT_SESSION))))
          else give stored
      | None \<Rightarrow> give stored)"

definition load_stored :: "'p primitives \<Rightarrow> session_dict option \<Rightarrow> ('p remote, unit) call" where
  "load_stored prims stored =
     (case stored of
        None \<Rightarrow>
          chain (on_store (p_save_session prims DEFAULT_SESSION)) (\<lambda>_. chain (on_store (p_save_version prims REMOTE_VERSION))
            (\<lambda>_ s. (Inr (), s\<lparr>r_attrs := cache_load DEFAULT_SESSION (r_attrs s)\<rparr>)))
      | Some d \<Rightarrow>
          chain (on_store (p_load_version prims)) (\<lambda>version. chain (migrate_remote prims d version)
            (\<lambda>d s. (Inr (), s\<lparr>r_attrs := fold (\<lambda>a. cache_remember NoVal a (dict_get a d)) SESSION_FIELDS (r_attrs s)\<rparr>))))"

definition load_remote_string :: "'p primitives \<Rightarrow> (bytes \<Rightarrow> nat) \<Rightarrow> ('p remote, unit) call" where
  "load_remote_string prims crc s =
     (case r_string s of
        Some (c # cs) \<Rightarrow> load_session_string crc (remote_write prims) (c # cs) s
      | _ \<Rightarrow> (Inr (), s))"

definition open_remote :: "'p primitives \<Rightarrow> (bytes \<Rightarrow> nat) \<Rightarrow> ('p remote, unit) call" where
  "open_remote prims crc s =
     (if r_opened s then (Inr (), s)
      else chain (on_store (p_connect prims)) (\<lambda>_ s.
        chain (on_store (p_load_session prims)) (\<lambda>stored. chain (load_stored prims stored) (\<lambda>_. load_remote_string prims crc))
          (s\<lparr>r_opened := True\<rparr>)) s)"

definition save_remote :: "'p primitives \<Rightarrow> clock_pair \<Rightarrow> ('p remote, unit) call" where
  "save_remote prims now = remote_write prims Date (IntVal \<lfloor>wall now\<rfloor>)"

definition clear_caches :: "'p remote \<Rightarrow> 'p remote" where
  "clear_caches s = s\<lparr>r_attrs := Map.empty, r_peers := clear_rows (r_peers s)\<rparr>"

definition close_remote :: "'p primitives \<Rightarrow> ('p remote, unit) call" where
  "close_remote prims s =
     (if \<not> r_opened s then (Inr (), s) else on_store (p_disconnect prims) (clear_caches (s\<lparr>r_opened := False\<rparr>)))"

text \<open>The \<open>finally\<close> clause: the first call fails after the second unless the second fails itself.\<close>

definition ensuring :: "('s, unit) call \<Rightarrow> ('s, unit) call \<Rightarrow> ('s, unit) call" where
  "ensuring f g s =
     (case f s of (r, s) \<Rightarrow> (case g s of (Inl e, s) \<Rightarrow> (Inl e, s) | (Inr _, s) \<Rightarrow> (r, s)))"

definition delete_remote :: "'p primitives \<Rightarrow> bool \<Rightarrow> ('p remote, unit) call" where
  "delete_remote prims remove_peers s =
     (let reopened = \<not> r_opened s in
      chain (if reopened then on_store (p_connect prims) else give ())
        (\<lambda>_. chain (ensuring (on_store (p_purge prims remove_peers)) (if reopened then on_store (p_disconnect prims) else give ()))
          (\<lambda>_ s. (Inr (), clear_caches s))) s)"

section \<open>Peers, usernames and update states\<close>

definition remote_peers :: "'p primitives \<Rightarrow> clock_pair \<Rightarrow> peer_row list \<Rightarrow> ('p remote, unit) call" where
  "remote_peers prims now ps s =
     (if ps = [] then (Inr (), s)
      else (let (fresh, c) = fresh_peers (mono_time now) ps (r_peers s); s = s\<lparr>r_peers := c\<rparr> in
            if fresh = [] then (Inr (), s)
            else chain (on_store (p_upsert_peers prims fresh))
                   (\<lambda>_ s. (Inr (), s\<lparr>r_peers := fold (remember_peer (mono_time now)) fresh (r_peers s)\<rparr>)) s))"

definition remote_usernames :: "'p primitives \<Rightarrow> (int \<times> ustr list) list \<Rightarrow> ('p remote, unit) call" where
  "remote_usernames prims us = (if us = [] then give () else on_store (p_replace_usernames prims us))"

definition remote_states :: "'p primitives \<Rightarrow> ('p remote, (int \<times> state_row) list) call" where
  "remote_states prims = on_store (p_load_states prims)"

definition remote_state :: "'p primitives \<Rightarrow> state_arg \<Rightarrow> ('p remote, unit) call" where
  "remote_state prims v =
     (case v of DeleteState i \<Rightarrow> on_store (p_delete_state prims i) | WriteState i r \<Rightarrow> on_store (p_save_state prims i r))"

fun stored_key :: "stored_peer \<Rightarrow> peer_key" where
  "stored_key (i, h, ty, on) = (i, h, ty)"

definition remote_by_id :: "'p primitives \<Rightarrow> int \<Rightarrow> ('p remote, input_peer) call" where
  "remote_by_id prims peer_id s =
     (case get_row peer_id (r_peers s) of (found, c) \<Rightarrow>
        (case found of
           Some row \<Rightarrow> (get_input_peer row, s\<lparr>r_peers := c\<rparr>)
         | None \<Rightarrow>
             chain (on_store (p_fetch_peer prims peer_id))
               (\<lambda>stored s. case stored of
                  None \<Rightarrow> (Inl (KeyError peer_id), s)
                | Some st \<Rightarrow> (get_input_peer (stored_key st), s\<lparr>r_peers := remember_row 0 (stored_key st) None False (r_peers s)\<rparr>)) s))"

definition remote_by_username :: "'p primitives \<Rightarrow> clock_pair \<Rightarrow> ustr \<Rightarrow> ('p remote, input_peer) call" where
  "remote_by_username prims now u =
     chain (on_store (p_fetch_by_username prims u))
       (\<lambda>stored s. case stored of
          None \<Rightarrow> (Inl (KeyErrorText u), s)
        | Some (i, h, ty, on) \<Rightarrow>
            if \<bar>wall now - of_int on\<bar> > of_int USERNAME_TTL then (Inl (KeyErrorText u), s) else (get_input_peer (i, h, ty), s))"

definition remote_by_phone :: "'p primitives \<Rightarrow> ustr \<Rightarrow> ('p remote, input_peer) call" where
  "remote_by_phone prims ph =
     chain (on_store (p_fetch_by_phone prims ph))
       (\<lambda>stored s. case stored of None \<Rightarrow> (Inl (KeyErrorText ph), s) | Some st \<Rightarrow> (get_input_peer (stored_key st), s))"

definition export_peers :: "'p primitives \<Rightarrow> int option \<Rightarrow> ('p remote, peer_row list) call" where
  "export_peers prims limit = on_store (p_iter_peers prims limit)"

section \<open>As the backend of two layers\<close>

definition remote_ops :: "'p primitives \<Rightarrow> (bytes \<Rightarrow> nat) \<Rightarrow> 'p remote timed backend_ops" where
  "remote_ops prims crc =
     \<lparr>b_open = ticked (\<lambda>_. open_remote prims crc), b_close = ticked (\<lambda>_. close_remote prims),
      b_delete = ticked (\<lambda>_. delete_remote prims True), b_read = (\<lambda>a. ticked (\<lambda>_. remote_read prims a)),
      b_write = (\<lambda>a v. ticked (\<lambda>_. remote_write prims a v)), b_peers = (\<lambda>ps. ticked (\<lambda>now. remote_peers prims now ps)),
      b_usernames = (\<lambda>us. ticked (\<lambda>_. remote_usernames prims us)), b_state = (\<lambda>v. ticked (\<lambda>_. remote_state prims v)),
      b_states = ticked (\<lambda>_. remote_states prims), b_by_id = (\<lambda>i. ticked (\<lambda>_. remote_by_id prims i)),
      b_by_username = (\<lambda>u. ticked (\<lambda>now. remote_by_username prims now u)), b_by_phone = (\<lambda>ph. ticked (\<lambda>_. remote_by_phone prims ph)),
      b_export = Some (\<lambda>n. ticked (\<lambda>_. export_peers prims (Some n))),
      b_fetch = Some (\<lambda>i. ticked (\<lambda>_. on_store (p_fetch_peer prims i)))\<rparr>"

end
