(* ===== verification/Hybrid_Laws.thy ===== *)
theory Hybrid_Laws
  imports Hybrid_Storage Sqlite_Peers
begin

text \<open>
  What the two-layer storage promises: its queue is bounded and counts what is pending, a full queue gives up a cache
  entry before anything else, the backend follows the local storage, the background task drains the queue once the
  backend answers, and closing counts every write it gives up.
\<close>

lemma chain_simps [simp]:
  "chain (give x) f = f x" "chain m f s = (case m s of (Inl e, t) \<Rightarrow> (Inl e, t) | (Inr x, t) \<Rightarrow> f x t)"
  by (simp_all add: chain_def give_def fun_eq_iff)

lemma fst_snd_case [simp]: "(case p of (Inl e, t) \<Rightarrow> (Inl e, t) | (Inr x, t) \<Rightarrow> (Inr x, t)) = p"
  by (auto split: prod.split sum.split)

section \<open>A full queue\<close>

text \<open>Putting the items back, all but the victim.\<close>

lemma put_back_past:
  assumes "h_maxsize s = 0 \<or> length (h_queue s) + length xs \<le> h_maxsize s" "victim < i"
  shows "put_back i victim xs s = (Inr (), s\<lparr>h_queue := h_queue s @ xs\<rparr>)"
  using assms
proof (induction xs arbitrary: i s)
  case (Cons x xs)
  then show ?case by (auto simp: put_nowait_def queue_full_def task_done_def)
qed simp

lemma put_back_room:
  assumes "h_maxsize s = 0 \<or> length (h_queue s) + length xs \<le> Suc (h_maxsize s)" "i \<le> victim" "victim < i + length xs"
  shows "put_back i victim xs s =
    (Inr (), s\<lparr>h_queue := h_queue s @ take (victim - i) xs @ drop (Suc (victim - i)) xs, h_unfinished := h_unfinished s - 1\<rparr>)"
  using assms
proof (induction xs arbitrary: i s)
  case (Cons x xs)
  show ?case
  proof (cases "i = victim")
    case True
    then show ?thesis using Cons.prems by (auto simp: put_back_past task_done_def)
  next
    case False
    then have "victim - i = Suc (victim - Suc i)" using Cons.prems(2) by simp
    moreover have "\<not> queue_full s" using Cons.prems False by (auto simp: queue_full_def)
    ultimately show ?thesis using Cons.prems False Cons.IH [of "task_done (snd (put_nowait x s))" "Suc i"]
      by (auto simp: put_nowait_def task_done_def)
  qed
qed simp

text \<open>The victim: the first item that may be dropped, or the oldest of all.\<close>

definition victim_of :: "mirror_write option list \<Rightarrow> nat \<Rightarrow> bool" where
  "victim_of q i \<longleftrightarrow> i < length q \<and>
     (if list_ex DROPPABLE q then DROPPABLE (q ! i) \<and> (\<forall>j<i. \<not> DROPPABLE (q ! j)) else i = 0)"

lemma first_droppable_at:
  "first_droppable k q = (case takeWhile (\<lambda>x. \<not> DROPPABLE x) q of ys \<Rightarrow> if length ys < length q then k + length ys else 0)"
  by (induction q arbitrary: k) auto

lemma first_droppable_victim: "q \<noteq> [] \<Longrightarrow> victim_of q (first_droppable 0 q)"
proof -
  assume q: "q \<noteq> []"
  let ?n = "length (takeWhile (\<lambda>x. \<not> DROPPABLE x) q)"
  have e: "first_droppable 0 q = (if ?n < length q then ?n else 0)" by (simp add: first_droppable_at)
  show ?thesis
  proof (cases "?n < length q")
    case True
    then have "DROPPABLE (q ! ?n)" by (metis nth_length_takeWhile)
    moreover have "\<forall>j<?n. \<not> DROPPABLE (q ! j)"
    proof (intro allI impI)
      fix j assume j: "j < ?n"
      from nth_mem [OF j] set_takeWhileD show "\<not> DROPPABLE (q ! j)" unfolding List.takeWhile_nth [OF j] by fast
    qed
    moreover have "list_ex DROPPABLE q" using True \<open>DROPPABLE (q ! ?n)\<close> by (auto simp: list_ex_iff)
    ultimately show ?thesis using True by (simp add: e victim_of_def)
  next
    case False
    then have "\<not> list_ex DROPPABLE q" by (induction q) (auto split: if_splits)
    then show ?thesis using q False by (simp add: e victim_of_def)
  qed
qed

lemma make_room_drops:
  assumes "h_queue s \<noteq> []" "length (h_queue s) \<le> Suc (h_maxsize s)"
  shows "\<exists>i. victim_of (h_queue s) i \<and>
    make_room s = (Inr (), s\<lparr>h_queue := take i (h_queue s) @ drop (Suc i) (h_queue s), h_unfinished := h_unfinished s - 1,
      h_dropped := h_dropped s + 1\<rparr>)"
proof (intro exI conjI)
  let ?i = "first_droppable 0 (h_queue s)"
  show v: "victim_of (h_queue s) ?i" using assms(1) by (rule first_droppable_victim)
  then show "make_room s = (Inr (), s\<lparr>h_queue := take ?i (h_queue s) @ drop (Suc ?i) (h_queue s), h_unfinished := h_unfinished s - 1,
      h_dropped := h_dropped s + 1\<rparr>)"
    using assms(2) by (simp add: make_room_def put_back_room victim_of_def Let_def)
qed

definition queue_ok :: "'b hybrid \<Rightarrow> bool" where
  "queue_ok s \<longleftrightarrow> h_unfinished s = int (pending_count s) \<and> (0 < h_maxsize s \<longrightarrow> length (h_queue s) \<le> h_maxsize s)"

lemma enqueue_cases:
  assumes "queue_ok s"
  obtains "h_closing s" "enqueue w s = (Inr (), s)"
    | "\<not> h_closing s" "\<not> queue_full s" "enqueue w s = (Inr (), s\<lparr>h_queue := h_queue s @ [Some w], h_unfinished := h_unfinished s + 1\<rparr>)"
    | i where "\<not> h_closing s" "queue_full s" "victim_of (h_queue s) i"
        "enqueue w s = (Inr (), s\<lparr>h_queue := take i (h_queue s) @ drop (Suc i) (h_queue s) @ [Some w], h_dropped := h_dropped s + 1\<rparr>)"
proof (cases "\<not> h_closing s \<and> queue_full s")
  case False
  with that(1,2) show ?thesis by (auto simp: enqueue_def put_nowait_def)
next
  case True
  then have q: "h_queue s \<noteq> []" "0 < h_maxsize s" "length (h_queue s) = h_maxsize s"
    using assms by (auto simp: queue_full_def queue_ok_def)
  from make_room_drops [of s] q obtain i where i: "victim_of (h_queue s) i"
    "make_room s = (Inr (), s\<lparr>h_queue := take i (h_queue s) @ drop (Suc i) (h_queue s), h_unfinished := h_unfinished s - 1,
      h_dropped := h_dropped s + 1\<rparr>)" by auto
  have "length (take i (h_queue s) @ drop (Suc i) (h_queue s)) < h_maxsize s" using i(1) q by (simp add: victim_of_def min_def)
  with True i show ?thesis by (intro that(3) [of i]) (auto simp: enqueue_def put_nowait_def queue_full_def)
qed

lemma enqueue_ok: "queue_ok s \<Longrightarrow> \<exists>s'. enqueue w s = (Inr (), s') \<and> queue_ok s' \<and> h_local s' = h_local s \<and> h_backend s' = h_backend s \<and>
    h_closing s' = h_closing s \<and> h_writer s' = h_writer s \<and> h_maxsize s' = h_maxsize s \<and> h_dropped s \<le> h_dropped s'"
proof -
  assume q: "queue_ok s"
  from q show ?thesis
  proof (cases rule: enqueue_cases [of s w])
    case (3 i)
    then have "i < length (h_queue s)" by (simp add: victim_of_def)
    then have "length (take i (h_queue s) @ drop (Suc i) (h_queue s) @ [Some w]) = length (h_queue s)" by simp
    with q show ?thesis unfolding queue_ok_def pending_count_def 3(4) by (simp del: length_append)
  qed (use q in \<open>auto simp: queue_ok_def pending_count_def queue_full_def\<close>)
qed

section \<open>What a write changes\<close>

text \<open>The abstract storage: the attributes and the update states.\<close>

type_synonym view = "(attr \<Rightarrow> val) \<times> (int \<Rightarrow> state_row option)"

fun effect :: "mirror_write \<Rightarrow> view \<Rightarrow> view" where
  "effect (SESSION_WRITE avs) (m, st) = (fold (\<lambda>(a, v) m. m(a := v)) avs m, st)"
| "effect (STATE_WRITE i r) (m, st) = (m, st(i \<mapsto> (case st i of None \<Rightarrow> r | Some old \<Rightarrow> merge_state r old)))"
| "effect (STATE_DELETE i) (m, st) = (m, st(i := None))"
| "effect _ x = x"

fun writable :: "mirror_write \<Rightarrow> bool" where
  "writable (SESSION_WRITE avs) = (\<forall>(a, v) \<in> set avs. storable a v)"
| "writable _ = True"

definition local_view :: "sqlite \<Rightarrow> view" where
  "local_view l = (look l, map_of (t_states (work l)))"

text \<open>Local operations, each as the write that brings a backend to the same view.\<close>

lemma view_of: "attr_cache l' = attr_cache l \<Longrightarrow> t_sessions (work l') = t_sessions (work l) \<Longrightarrow> conn l' = conn l \<Longrightarrow>
    sqlite_ok l' = sqlite_ok l \<and> look l' = look l"
  using row_val_cong [of "work l'" "work l"] by (simp add: sqlite_ok_def look_def [abs_def])

lemma peer_tables [simp]:
  "t_sessions (fold (replace_peer n) ps t) = t_sessions t" "t_states (fold (replace_peer n) ps t) = t_states t"
  by (induction ps arbitrary: t) (auto simp: replace_peer_def split: prod.split)

lemma username_tables [simp]:
  "t_sessions (fold delete_usernames is t) = t_sessions t" "t_states (fold delete_usernames is t) = t_states t"
  "t_sessions (fold insert_username ius t) = t_sessions t" "t_states (fold insert_username ius t) = t_states t"
proof -
  show "t_sessions (fold delete_usernames is t) = t_sessions t" "t_states (fold delete_usernames is t) = t_states t"
    by (induction "is" arbitrary: t) (simp_all add: delete_usernames_def)
  show "t_sessions (fold insert_username ius t) = t_sessions t" "t_states (fold insert_username ius t) = t_states t"
    by (induction ius arbitrary: t) (simp_all add: insert_username_def)
qed

lemma map_of_delete [simp]: "map_of (filter (\<lambda>kr. fst kr \<noteq> k) t) = (map_of t)(k := None)"
  by (induction t) (auto simp: fun_eq_iff)

lemma local_frames:
  assumes "sqlite_ok l"
  shows "sqlite_ok (update_peers now ps l) \<and> local_view (update_peers now ps l) = local_view l"
    "sqlite_ok (update_usernames us l) \<and> local_view (update_usernames us l) = local_view l"
    "sqlite_ok (snd (get_peer_by_id i l)) \<and> local_view (snd (get_peer_by_id i l)) = local_view l"
    "sqlite_ok (flush_later l) \<and> local_view (flush_later l) = local_view l"
    "sqlite_ok (snd (read_attr a l)) \<and> local_view (snd (read_attr a l)) = local_view l"
proof -
  have c: "conn l" using assms by (simp add: sqlite_ok_def)
  show "sqlite_ok (update_peers now ps l) \<and> local_view (update_peers now ps l) = local_view l"
    using assms view_of [of "update_peers now ps l" l]
    by (auto simp: update_peers_def Let_def local_view_def split: prod.split)
  show "sqlite_ok (update_usernames us l) \<and> local_view (update_usernames us l) = local_view l"
    using assms view_of [of "update_usernames us l" l] by (auto simp: update_usernames_def Let_def local_view_def)
  show "sqlite_ok (snd (get_peer_by_id i l)) \<and> local_view (snd (get_peer_by_id i l)) = local_view l"
    using assms view_of [of "snd (get_peer_by_id i l)" l]
    by (auto simp: get_peer_by_id_def local_view_def Let_def split: prod.split option.split)
  show "sqlite_ok (flush_later l) \<and> local_view (flush_later l) = local_view l"
    using assms view_of [of "flush_later l" l] by (simp add: local_view_def)
  show "sqlite_ok (snd (read_attr a l)) \<and> local_view (snd (read_attr a l)) = local_view l"
    using read_attr_ok [OF assms, of a] c by (auto simp: local_view_def read_attr_def split: option.split)
qed

lemma local_state:
  assumes "sqlite_ok l"
  shows "sqlite_ok (update_state v l) \<and> local_view (update_state v l) = effect (state_write v) (local_view l)"
  using assms view_of [of "update_state v l" l]
  by (cases v) (auto simp: sqlite_ok_def [of l] update_state_def upsert_state_def delete_state_def local_view_def fun_eq_iff split: option.split)

lemma local_write:
  assumes "sqlite_ok l"
  shows "if storable a v then fst (write_attr a v l) = Inr () \<and> sqlite_ok (snd (write_attr a v l)) \<and>
      local_view (snd (write_attr a v l)) = effect (SESSION_WRITE [(a, v)]) (local_view l)
    else \<exists>e. write_attr a v l = (Inl e, l)"
proof (cases "storable a v")
  case True
  then have "t_states (work (snd (write_attr a v l))) = t_states (work l)"
    using assms by (auto simp: write_attr_def update_sessions_def storable_def bindR_def split: sum.split)
  with True write_attr_ok [OF assms True] show ?thesis by (simp add: local_view_def)
next
  case False
  then show ?thesis using assms by (auto simp: write_attr_def update_sessions_def storable_def sqlite_ok_def bindR_def split: sum.split)
qed

section \<open>What an event does\<close>

text \<open>How many writes an event of the client hands to the background task.\<close>

fun handed :: "hybrid_event \<Rightarrow> 'b hybrid \<Rightarrow> nat" where
  "handed (SetAttr a v) s = (if \<not> h_closing s \<and> storable a v then 1 else 0)"
| "handed (SaveSession now) s = (if \<not> h_closing s \<and> storable Date (IntVal \<lfloor>wall now\<rfloor>) then 1 else 0)"
| "handed (StorePeers now ps) s = (if \<not> h_closing s \<and> ps \<noteq> [] then 1 else 0)"
| "handed (StoreUsernames us) s = (if \<not> h_closing s \<and> us \<noteq> [] then 1 else 0)"
| "handed (StoreState v) s = (if \<not> h_closing s then 1 else 0)"
| "handed _ s = 0"

text \<open>A lookup in the backend may change the backend's own caches, but not what \<open>Q\<close> says of it.\<close>

definition keeps :: "'b backend_ops \<Rightarrow> ('b \<Rightarrow> bool) \<Rightarrow> bool" where
  "keeps ops Q \<longleftrightarrow> (\<forall>b. Q b \<longrightarrow> (\<forall>i. Q (snd (b_by_id ops i b))) \<and> (\<forall>u. Q (snd (b_by_username ops u b))) \<and>
     (\<forall>u. Q (snd (b_by_phone ops u b))) \<and> (\<forall>fetch i. b_fetch ops = Some fetch \<longrightarrow> Q (snd (fetch i b))))"

definition h_quiet :: "('b \<Rightarrow> bool) \<Rightarrow> 'b hybrid \<Rightarrow> 'b hybrid \<Rightarrow> bool" where
  "h_quiet Q s s' \<longleftrightarrow> (\<exists>l b. s' = s\<lparr>h_local := l, h_backend := b\<rparr> \<and> sqlite_ok l \<and> local_view l = local_view (h_local s) \<and>
     (Q (h_backend s) \<longrightarrow> Q b))"

lemma quiet_refl [simp]: "sqlite_ok (h_local s) \<Longrightarrow> h_quiet Q s s"
  unfolding h_quiet_def by (intro exI [of _ "h_local s"] exI [of _ "h_backend s"]) simp

lemma quiet_trans:
  assumes "h_quiet Q s s'" "h_quiet Q s' s''"
  shows "h_quiet Q s s''"
proof -
  from assms obtain l b l' b' where "s' = s\<lparr>h_local := l, h_backend := b\<rparr>" "s'' = s'\<lparr>h_local := l', h_backend := b'\<rparr>" "sqlite_ok l'"
    "local_view l' = local_view (h_local s)" "Q (h_backend s) \<longrightarrow> Q b'" by (auto simp: h_quiet_def)
  then show ?thesis unfolding h_quiet_def by (intro exI [of _ l'] exI [of _ b']) simp
qed

lemma quiet_ok: "h_quiet Q s s' \<Longrightarrow> sqlite_ok (h_local s')"
  unfolding h_quiet_def by auto

lemma quiet_local: "sqlite_ok l \<Longrightarrow> local_view l = local_view (h_local s) \<Longrightarrow> h_quiet Q s (s\<lparr>h_local := l\<rparr>)"
  unfolding h_quiet_def by (intro exI [of _ l] exI [of _ "h_backend s"]) simp

lemma quiet_backend: "sqlite_ok (h_local s) \<Longrightarrow> (Q (h_backend s) \<Longrightarrow> Q (snd (f (h_backend s)))) \<Longrightarrow> h_quiet Q s (snd (on_backend f s))"
  unfolding h_quiet_def
  by (intro exI [of _ "h_local s"] exI [of _ "snd (f (h_backend s))"]) (simp add: on_backend_def split: prod.split)

lemma quiet_cache_locally:
  assumes "keeps ops Q" "sqlite_ok (h_local s)"
  shows "h_quiet Q s (snd (cache_locally ops now i s))"
proof (cases "b_fetch ops")
  case None
  then show ?thesis using assms by (simp add: cache_locally_def)
next
  case (Some fetch)
  have q: "h_quiet Q s (snd (on_backend (fetch i) s))" using assms Some by (intro quiet_backend) (auto simp: keeps_def)
  obtain r s' where r: "on_backend (fetch i) s = (r, s')" by fastforce
  have "h_quiet Q s' (snd (locally (update_peers now ps) s'))" for ps
    using local_frames(1) [OF quiet_ok [OF q]] by (auto simp: locally_def r intro: quiet_local)
  with q show ?thesis
    by (auto simp: cache_locally_def Some r intro: quiet_trans split: sum.split option.split)
qed

lemma quiet_local_first:
  assumes "h_quiet Q s (snd (f s))" "\<And>s'. h_quiet Q s s' \<Longrightarrow> h_quiet Q s' (snd (g s'))"
  shows "h_quiet Q s (snd (local_first f g s))"
  using assms quiet_trans [of Q s "snd (f s)"] by (cases "f s") (auto simp: local_first_def split: sum.split)

lemma quiet_read: "sqlite_ok (h_local s) \<Longrightarrow> h_quiet Q s (snd (on_local (read_attr a) s))"
  "sqlite_ok (h_local s) \<Longrightarrow> h_quiet Q s (snd (on_local (get_peer_by_id i) s))"
  "sqlite_ok (h_local s) \<Longrightarrow> h_quiet Q s (snd (on_local (\<lambda>l. (r l, l)) s))"
  using local_frames(5) [of "h_local s" a] local_frames(3) [of "h_local s" i]
  by (auto simp: on_local_def intro!: quiet_local split: prod.split)

lemma quiet_lookups:
  assumes "keeps ops Q" "sqlite_ok (h_local s)"
  shows "h_quiet Q s (snd (hybrid_by_id ops now i s))" "h_quiet Q s (snd (hybrid_by_username ops now u s))"
    "h_quiet Q s (snd (hybrid_by_phone ops ph s))"
proof -
  have b: "h_quiet Q s' (snd (on_backend (b_by_id ops i) s'))" "h_quiet Q s' (snd (on_backend (b_by_username ops u) s'))"
    "h_quiet Q s' (snd (on_backend (b_by_phone ops ph) s'))" if "h_quiet Q s s'" for s'
    using assms(1) quiet_ok [OF that] by (auto simp: keeps_def intro!: quiet_backend)
  have "h_quiet Q s' (snd (chain (on_backend (b_by_id ops i)) (\<lambda>p. chain (cache_locally ops now i) (\<lambda>_. give p)) s'))"
    if q: "h_quiet Q s s'" for s'
  proof (cases "on_backend (b_by_id ops i) s'")
    case (Pair r t)
    then have t: "h_quiet Q s' t" using b(1) [OF q] by simp
    from quiet_trans [OF t quiet_cache_locally [OF assms(1) quiet_ok [OF t], of now i]] t Pair show ?thesis
      by (auto simp: give_def split: sum.split prod.split)
  qed
  then show "h_quiet Q s (snd (hybrid_by_id ops now i s))"
    unfolding hybrid_by_id_def by (intro quiet_local_first quiet_read(2) [OF assms(2)])
  show "h_quiet Q s (snd (hybrid_by_username ops now u s))" "h_quiet Q s (snd (hybrid_by_phone ops ph s))"
    unfolding hybrid_by_username_def hybrid_by_phone_def by (intro quiet_local_first quiet_read(3) [OF assms(2)] b; assumption)+
qed

text \<open>An event of the client is quiet, or changes the local view as the write it hands over.\<close>

definition hands :: "mirror_write \<Rightarrow> 'b hybrid \<Rightarrow> 'b hybrid \<Rightarrow> bool" where
  "hands w s s' \<longleftrightarrow> (\<exists>l. s' = snd (enqueue w (s\<lparr>h_local := l\<rparr>)) \<and> sqlite_ok l \<and> local_view l = effect w (local_view (h_local s)))"

lemma local_save:
  assumes "sqlite_ok l" "storable Date d" "d = IntVal \<lfloor>wall now\<rfloor>"
  shows "\<exists>l' l''. save_sqlite now l = (Inr (), l') \<and> read_attr Date l' = (Inr d, l'') \<and> sqlite_ok l'' \<and>
    local_view l'' = effect (SESSION_WRITE [(Date, d)]) (local_view l)"
proof -
  obtain l1 where w: "write_attr Date d l = (Inr (), l1)" "sqlite_ok l1" "local_view l1 = effect (SESSION_WRITE [(Date, d)]) (local_view l)"
    using local_write [OF assms(1), of Date d] assms(2) by (cases "write_attr Date d l") auto
  let ?l = "ensure_committed l1"
  have ok: "sqlite_ok ?l" "local_view ?l = local_view l1" using w(2) by (simp_all add: local_view_def)
  have "look l1 Date = d" using w(3) by (simp add: local_view_def)
  then have "fst (read_attr Date ?l) = Inr d" using read_attr_ok [OF ok(1), of Date] by simp
  moreover have "save_sqlite now l = (Inr (), ?l)" using w(1) by (simp add: save_sqlite_def assms(3))
  ultimately show ?thesis using local_frames(5) [OF ok(1), of Date] ok(2) w(3)
    by (intro exI [of _ ?l] exI [of _ "snd (read_attr Date ?l)"]) (simp add: prod_eq_iff)
qed

lemma client_event:
  assumes "keeps ops Q" "sqlite_ok (h_local s)" "ev \<noteq> WriterTurn"
  shows "h_quiet Q s (hybrid_step ops ev s) \<and> handed ev s = 0 \<or>
    (\<exists>w. hands w s (hybrid_step ops ev s) \<and> writable w \<and> handed ev s = (if h_closing s then 0 else 1))"
proof (cases ev)
  case (SetAttr a v)
  then show ?thesis using local_write [OF assms(2), of a v] assms(2)
    by (fastforce simp: hybrid_write_def on_local_def hands_def split: if_splits prod.split sum.split)
next
  case (SaveSession now)
  show ?thesis
  proof (cases "storable Date (IntVal \<lfloor>wall now\<rfloor>)")
    case True
    from local_save [OF assms(2) this refl] obtain l' l'' where l: "save_sqlite now (h_local s) = (Inr (), l')"
      "read_attr Date l' = (Inr (IntVal \<lfloor>wall now\<rfloor>), l'')" "sqlite_ok l''"
      "local_view l'' = effect (SESSION_WRITE [(Date, IntVal \<lfloor>wall now\<rfloor>)]) (local_view (h_local s))" by auto
    have "hands (SESSION_WRITE [(Date, IntVal \<lfloor>wall now\<rfloor>)]) s (hybrid_step ops ev s)"
      unfolding hands_def using l(3,4) by (intro exI [of _ l'']) (simp add: SaveSession hybrid_save_def on_local_def l)
    with True SaveSession show ?thesis by (intro disjI2 exI conjI) auto
  next
    case False
    from local_write [OF assms(2), of Date "IntVal \<lfloor>wall now\<rfloor>"] False obtain e where
      "write_attr Date (IntVal \<lfloor>wall now\<rfloor>) (h_local s) = (Inl e, h_local s)" by auto
    then show ?thesis using False assms(2) by (simp add: SaveSession hybrid_save_def on_local_def save_sqlite_def)
  qed
next
  case (StorePeers now ps)
  show ?thesis
  proof (cases "ps = []")
    case False
    then have "hands (PEER_WRITE ps) s (hybrid_step ops ev s)" unfolding hands_def using local_frames(1) [OF assms(2), of now ps]
      by (intro exI [of _ "update_peers now ps (h_local s)"]) (simp add: StorePeers hybrid_peers_def locally_def)
    with False show ?thesis by (intro disjI2 exI [of _ "PEER_WRITE ps"]) (simp add: StorePeers)
  qed (use StorePeers assms(2) in \<open>simp add: hybrid_peers_def give_def\<close>)
next
  case (StoreUsernames us)
  show ?thesis
  proof (cases "us = []")
    case False
    then have "hands (USERNAME_WRITE us) s (hybrid_step ops ev s)" unfolding hands_def using local_frames(2) [OF assms(2), of us]
      by (intro exI [of _ "update_usernames us (h_local s)"]) (simp add: StoreUsernames hybrid_usernames_def locally_def)
    with False show ?thesis by (intro disjI2 exI [of _ "USERNAME_WRITE us"]) (simp add: StoreUsernames)
  qed (use StoreUsernames assms(2) in \<open>simp add: hybrid_usernames_def give_def\<close>)
next
  case (StoreState v)
  then have "hands (state_write v) s (hybrid_step ops ev s)" using local_state [OF assms(2), of v]
    by (auto simp: hybrid_state_def locally_def hands_def)
  then show ?thesis using StoreState by (intro disjI2 exI [of _ "state_write v"]) (cases v; simp)
next
  case LocalFlush
  then show ?thesis using local_frames(4) [OF assms(2)] by (auto simp: locally_def intro: quiet_local)
qed (use assms in \<open>simp_all add: hybrid_read_def quiet_read quiet_lookups\<close>)

section \<open>What is pending\<close>

definition h_pending :: "'b hybrid \<Rightarrow> mirror_write list" where
  "h_pending s = (case inflight (h_writer s) of None \<Rightarrow> [] | Some w \<Rightarrow> [w]) @ List.map_filter (\<lambda>x. x) (h_queue s)"

definition hybrid_ok :: "'b hybrid \<Rightarrow> bool" where
  "hybrid_ok s \<longleftrightarrow> queue_ok s \<and> sqlite_ok (h_local s) \<and> (None \<in> set (h_queue s) \<longrightarrow> h_closing s)"

lemma map_filter_id_simps [simp]:
  "List.map_filter (\<lambda>x. x) (xs @ ys) = List.map_filter (\<lambda>x. x) xs @ List.map_filter (\<lambda>x. x) ys"
  "List.map_filter (\<lambda>x. x) (None # xs) = List.map_filter (\<lambda>x. x) xs"
  "List.map_filter (\<lambda>x. x) (Some w # xs) = w # List.map_filter (\<lambda>x. x) xs"
  "List.map_filter (\<lambda>x. x) [] = []"
  by (simp_all add: List.map_filter_def)

lemma length_writes: "length (List.map_filter (\<lambda>x. x) q) = length (filter (\<lambda>x. x \<noteq> None) q)"
  by (simp add: List.map_filter_def)

lemma writes_only: "None \<notin> set q \<Longrightarrow> length (List.map_filter (\<lambda>x. x) q) = length q"
proof (induction q)
  case (Cons x q)
  then show ?case by (cases x) simp_all
qed simp

lemma pending_length: "hybrid_ok s \<Longrightarrow> \<not> h_closing s \<Longrightarrow> length (h_pending s) = pending_count s"
  by (auto simp: hybrid_ok_def h_pending_def pending_count_def writes_only split: option.split)

lemma pending_queue: "h_pending (s\<lparr>h_queue := h_queue s @ xs\<rparr>) = h_pending s @ List.map_filter (\<lambda>x. x) xs"
  by (simp add: h_pending_def)

lemma writes_frame: "h_queue s' = h_queue s \<Longrightarrow> h_writer s' = h_writer s \<Longrightarrow> h_pending s' = h_pending s"
  by (simp add: h_pending_def)

text \<open>Handing over a write.\<close>

lemma enqueue_pending:
  assumes "hybrid_ok s"
  obtains s' where "enqueue w s = (Inr (), s')" "hybrid_ok s'" "h_local s' = h_local s" "h_backend s' = h_backend s"
    "h_closing s' = h_closing s" "h_writer s' = h_writer s" "h_dropped s \<le> h_dropped s'"
    "h_dropped s' + length (h_pending s') = h_dropped s + length (h_pending s) + (if h_closing s then 0 else 1)"
    "h_dropped s' = h_dropped s \<Longrightarrow> h_pending s' = h_pending s @ (if h_closing s then [] else [w])"
proof -
  have q: "queue_ok s" using assms by (simp add: hybrid_ok_def)
  from enqueue_ok [OF q, of w] obtain s' where e: "enqueue w s = (Inr (), s')" "queue_ok s'" "h_local s' = h_local s" "h_backend s' = h_backend s"
    "h_closing s' = h_closing s" "h_writer s' = h_writer s" "h_dropped s \<le> h_dropped s'" by auto
  show thesis using q
  proof (cases rule: enqueue_cases [of s w])
    case 1
    then have "s' = s" using e(1) by simp
    with e(1) 1(1) assms show thesis by (intro that [of s]) simp_all
  next
    case 2
    then have s': "s' = s\<lparr>h_queue := h_queue s @ [Some w], h_unfinished := h_unfinished s + 1\<rparr>" using e(1) by simp
    then have "h_pending s' = h_pending s @ [w]" by (simp add: h_pending_def)
    with e 2 assms s' show thesis by (intro that [of s']) (auto simp: hybrid_ok_def)
  next
    case (3 i)
    then have s': "s' = s\<lparr>h_queue := take i (h_queue s) @ drop (Suc i) (h_queue s) @ [Some w], h_dropped := h_dropped s + 1\<rparr>"
      using e(1) by simp
    have i: "i < length (h_queue s)" using 3 by (simp add: victim_of_def)
    have n: "None \<notin> set (h_queue s)" using assms 3(1) by (auto simp: hybrid_ok_def)
    then have n': "None \<notin> set (h_queue s')" using s' by (auto dest: in_set_takeD in_set_dropD)
    have "length (h_queue s') = length (h_queue s)" using i s' by simp
    then have "length (h_pending s') = length (h_pending s)" using s' writes_only [OF n] writes_only [OF n'] by (simp add: h_pending_def)
    with e 3 n' assms s' show thesis by (intro that [of s']) (auto simp: hybrid_ok_def)
  qed
qed

section \<open>Every write is applied or counted\<close>

definition h_delivered :: "'b backend_ops \<Rightarrow> hybrid_event \<Rightarrow> 'b hybrid \<Rightarrow> nat" where
  "h_delivered ops ev s =
     (case (ev, h_writer s) of (WriterTurn, Applying w) \<Rightarrow> if fst (apply_write ops w (h_backend s)) = Inr () then 1 else 0 | _ \<Rightarrow> 0)"

text \<open>A failed write that finds the queue full when it is to be tried again.\<close>

definition abandoned :: "hybrid_event \<Rightarrow> 'b hybrid \<Rightarrow> nat" where
  "abandoned ev s = (case (ev, h_writer s) of (WriterTurn, Backoff w) \<Rightarrow> if queue_full s then 1 else 0 | _ \<Rightarrow> 0)"

fun total :: "(hybrid_event \<Rightarrow> 'b hybrid \<Rightarrow> nat) \<Rightarrow> 'b backend_ops \<Rightarrow> hybrid_event list \<Rightarrow> 'b hybrid \<Rightarrow> nat" where
  "total f ops [] s = 0"
| "total f ops (ev # evs) s = f ev s + total f ops evs (hybrid_step ops ev s)"

definition credit :: "'b hybrid \<Rightarrow> nat" where
  "credit s = h_dropped s + length (h_pending s)"

lemma turn_accounted:
  assumes "hybrid_ok s"
  shows "hybrid_ok (writer_step ops s) \<and> h_closing (writer_step ops s) = h_closing s \<and>
    (h_writer s \<noteq> NoWriter \<longrightarrow> h_writer (writer_step ops s) \<noteq> NoWriter) \<and> h_dropped (writer_step ops s) = h_dropped s \<and>
    credit (writer_step ops s) + h_delivered ops WriterTurn s + abandoned WriterTurn s = credit s"
proof (cases "h_writer s")
  case Waiting
  then show ?thesis using assms
    by (cases "h_queue s" rule: list.exhaust [case_names Nil Cons])
      (auto simp: writer_step_def take_write_def task_done_def hybrid_ok_def queue_ok_def pending_count_def credit_def h_pending_def
        h_delivered_def abandoned_def split: option.split)
next
  case (Applying w)
  then show ?thesis using assms
    by (cases "apply_write ops w (h_backend s)")
      (auto simp: writer_step_def answered_def task_done_def hybrid_ok_def queue_ok_def pending_count_def credit_def h_pending_def
        h_delivered_def abandoned_def split: sum.split)
next
  case (Backoff w)
  then show ?thesis using assms
    by (auto simp: writer_step_def woken_def task_done_def put_nowait_def hybrid_ok_def queue_ok_def pending_count_def credit_def
        h_pending_def h_delivered_def abandoned_def queue_full_def Let_def)
qed (use assms in \<open>auto simp: writer_step_def h_delivered_def abandoned_def\<close>)

lemma quiet_frame:
  assumes "h_quiet Q s s'" "hybrid_ok s"
  shows "hybrid_ok s' \<and> h_closing s' = h_closing s \<and> h_writer s' = h_writer s \<and> h_dropped s' = h_dropped s \<and> h_pending s' = h_pending s"
  using assms by (auto simp: h_quiet_def hybrid_ok_def queue_ok_def pending_count_def h_pending_def)

lemma hands_frame:
  assumes "hands w s s'" "hybrid_ok s"
  shows "hybrid_ok s' \<and> h_closing s' = h_closing s \<and> h_writer s' = h_writer s \<and> h_dropped s \<le> h_dropped s' \<and> h_backend s' = h_backend s \<and>
    local_view (h_local s') = effect w (local_view (h_local s)) \<and>
    credit s' = credit s + (if h_closing s then 0 else 1) \<and>
    (h_dropped s' = h_dropped s \<longrightarrow> h_pending s' = h_pending s @ (if h_closing s then [] else [w]))"
proof -
  from assms(1) obtain l where l: "s' = snd (enqueue w (s\<lparr>h_local := l\<rparr>))" "sqlite_ok l" "local_view l = effect w (local_view (h_local s))"
    by (auto simp: hands_def)
  have "hybrid_ok (s\<lparr>h_local := l\<rparr>)" using assms(2) l(2) by (simp add: hybrid_ok_def queue_ok_def pending_count_def)
  from enqueue_pending [OF this, of w] obtain t where t: "enqueue w (s\<lparr>h_local := l\<rparr>) = (Inr (), t)" "hybrid_ok t" "h_local t = l"
    "h_backend t = h_backend s" "h_closing t = h_closing s" "h_writer t = h_writer s" "h_dropped s \<le> h_dropped t"
    "h_dropped t + length (h_pending t) = h_dropped s + length (h_pending (s\<lparr>h_local := l\<rparr>)) + (if h_closing s then 0 else 1)"
    "h_dropped t = h_dropped s \<Longrightarrow> h_pending t = h_pending (s\<lparr>h_local := l\<rparr>) @ (if h_closing s then [] else [w])" by auto
  have "h_pending (s\<lparr>h_local := l\<rparr>) = h_pending s" by (simp add: h_pending_def)
  with t l show ?thesis by (simp add: credit_def)
qed

lemma step_accounted:
  assumes "hybrid_ok s"
  shows "hybrid_ok (hybrid_step ops ev s) \<and> h_closing (hybrid_step ops ev s) = h_closing s \<and>
    (h_writer s \<noteq> NoWriter \<longrightarrow> h_writer (hybrid_step ops ev s) \<noteq> NoWriter) \<and> h_dropped s \<le> h_dropped (hybrid_step ops ev s) \<and>
    credit (hybrid_step ops ev s) + h_delivered ops ev s + abandoned ev s = credit s + handed ev s"
proof (cases "ev = WriterTurn")
  case True
  with turn_accounted [OF assms, of ops] show ?thesis by simp
next
  case False
  have d: "h_delivered ops ev s = 0" "abandoned ev s = 0" using False by (cases ev; simp add: h_delivered_def abandoned_def)+
  have "sqlite_ok (h_local s)" using assms by (simp add: hybrid_ok_def)
  from client_event [OF _ this False, of ops "\<lambda>_. True"] show ?thesis
    using quiet_frame [OF _ assms, of "\<lambda>_. True" "hybrid_step ops ev s"] hands_frame [OF _ assms, of _ "hybrid_step ops ev s"] d
    by (auto simp: keeps_def credit_def)
qed

lemma run_accounted:
  assumes "hybrid_ok s"
  shows "hybrid_ok (hybrid_run ops evs s) \<and> h_closing (hybrid_run ops evs s) = h_closing s \<and>
    (h_writer s \<noteq> NoWriter \<longrightarrow> h_writer (hybrid_run ops evs s) \<noteq> NoWriter) \<and> h_dropped s \<le> h_dropped (hybrid_run ops evs s) \<and>
    credit (hybrid_run ops evs s) + total (h_delivered ops) ops evs s + total abandoned ops evs s = credit s + total handed ops evs s"
  using assms
proof (induction evs arbitrary: s)
  case (Cons ev evs)
  have st: "hybrid_ok (hybrid_step ops ev s)" using step_accounted [OF Cons.prems] by blast
  from step_accounted [OF Cons.prems, of ops ev] Cons.IH [OF st] show ?case by auto
qed simp

lemma closing_hands_none: "h_closing s \<Longrightarrow> hybrid_ok s \<Longrightarrow> total handed ops evs s = 0"
proof (induction evs arbitrary: s)
  case (Cons ev evs)
  from Cons step_accounted [OF Cons.prems(2), of ops ev] show ?case by (cases ev) auto
qed simp

lemma cut_off_accounted: "h_dropped (cut_off left s) = credit s"
  by (cases "h_writer s") (auto simp: cut_off_def drain_queue_def cancel_writer_def task_done_def credit_def h_pending_def length_writes)

lemma begin_close_accounted:
  "hybrid_ok s \<Longrightarrow> begin_close s = (acc, t) \<Longrightarrow> hybrid_ok t \<and> h_closing t \<and> credit t = credit s"
  by (auto simp: begin_close_def put_nowait_def queue_full_def hybrid_ok_def queue_ok_def pending_count_def credit_def h_pending_def
      split: if_splits)

text \<open>
  C19. Whatever the backend does, closing loses track of no write: each one that was pending or is handed over has been applied
  by the backend, is counted by \<open>dropped_writes\<close>, or was given up after a failure on a full queue.
\<close>

theorem writes_accounted:
  assumes "hybrid_ok s" "\<not> h_closing s" "h_writer s \<noteq> NoWriter"
    and "begin_close (hybrid_run ops flushing s) = (acc, t)" "evs = (if acc \<and> remaining then returning else [])"
  shows "h_dropped (stop_hybrid ops flushing remaining returning left s) +
      (total (h_delivered ops) ops flushing s + total (h_delivered ops) ops evs t) +
      (total abandoned ops flushing s + total abandoned ops evs t) =
    h_dropped s + length (h_pending s) + total handed ops flushing s"
proof -
  note r = run_accounted [OF assms(1), of ops flushing]
  then have t: "hybrid_ok t" "h_closing t" "credit t = credit (hybrid_run ops flushing s)"
    using begin_close_accounted [OF _ assms(4)] by auto
  have "stop_hybrid ops flushing remaining returning left s = cut_off left (hybrid_run ops evs t)"
    using r assms by (simp add: stop_hybrid_def)
  with r t run_accounted [OF t(1), of ops evs] closing_hands_none [OF t(2,1), of ops evs] cut_off_accounted [of left "hybrid_run ops evs t"]
  show ?thesis by (simp add: credit_def)
qed

section \<open>The backend follows\<close>

text \<open>
  A backend that takes every write: what \<open>bview\<close> shows of it changes as the write says, and does not change when a peer
  is looked up. \<open>bok\<close> holds of its states.
\<close>

locale mirror_backend =
  fixes ops :: "'b backend_ops"
    and bview :: "'b \<Rightarrow> view"
    and bok :: "'b \<Rightarrow> bool"
  assumes applying: "bok b \<Longrightarrow> writable w \<Longrightarrow> fst (apply_write ops w b) = Inr () \<and> bok (snd (apply_write ops w b)) \<and>
      bview (snd (apply_write ops w b)) = effect w (bview b)"
    and looking: "keeps ops (\<lambda>b. bok b \<and> bview b = v)"

text \<open>What is pending brings the backend to the state of the local storage.\<close>

definition mirrored :: "('b \<Rightarrow> view) \<Rightarrow> ('b \<Rightarrow> bool) \<Rightarrow> 'b hybrid \<Rightarrow> bool" where
  "mirrored bview bok s \<longleftrightarrow> hybrid_ok s \<and> \<not> h_closing s \<and> (h_writer s = Waiting \<or> (\<exists>w. h_writer s = Applying w)) \<and>
     bok (h_backend s) \<and> list_all writable (h_pending s) \<and> fold effect (h_pending s) (bview (h_backend s)) = local_view (h_local s)"

text \<open>How many turns the background task needs to drain the queue.\<close>

definition turns :: "'b hybrid \<Rightarrow> nat" where
  "turns s = 2 * length (h_queue s) + (if h_writer s = Waiting then 0 else 1)"

context mirror_backend
begin

lemma turn_mirrored:
  assumes "mirrored bview bok s"
  shows "mirrored bview bok (writer_step ops s) \<and> turns (writer_step ops s) = turns s - 1 \<and>
    h_dropped (writer_step ops s) = h_dropped s \<and> h_local (writer_step ops s) = h_local s"
proof -
  have ok: "hybrid_ok s" using assms by (simp add: mirrored_def)
  note t = turn_accounted [OF ok, of ops]
  consider "h_writer s = Waiting" "h_queue s = []" | x xs where "h_writer s = Waiting" "h_queue s = x # xs" | w where "h_writer s = Applying w"
    using assms by (cases "h_queue s") (auto simp: mirrored_def)
  then show ?thesis
  proof cases
    case 1
    then have "writer_step ops s = s" by (simp add: writer_step_def take_write_def)
    with 1 assms show ?thesis by (simp add: turns_def)
  next
    case (2 x xs)
    with assms obtain w where x: "x = Some w" by (cases x) (auto simp: mirrored_def hybrid_ok_def)
    have "writer_step ops s = s\<lparr>h_queue := xs, h_writer := Applying w\<rparr>" using 2 x by (simp add: writer_step_def take_write_def)
    with 2 x assms t show ?thesis by (simp add: mirrored_def turns_def h_pending_def)
  next
    case (3 w)
    then have "writable w" using assms by (simp add: mirrored_def h_pending_def)
    then obtain b where b: "apply_write ops w (h_backend s) = (Inr (), b)" "bok b" "bview b = effect w (bview (h_backend s))"
      using applying [of "h_backend s" w] assms by (cases "apply_write ops w (h_backend s)") (auto simp: mirrored_def)
    have "writer_step ops s = task_done (s\<lparr>h_backend := b, h_delay := RETRY_DELAY, h_writer := Waiting\<rparr>)"
      using 3 b by (simp add: writer_step_def answered_def)
    with 3 b assms t show ?thesis by (simp add: mirrored_def turns_def h_pending_def task_done_def)
  qed
qed

lemma step_mirrored:
  assumes "mirrored bview bok s" "h_dropped (hybrid_step ops ev s) = h_dropped s"
  shows "mirrored bview bok (hybrid_step ops ev s)"
proof (cases "ev = WriterTurn")
  case True
  with turn_mirrored [OF assms(1)] show ?thesis by simp
next
  case False
  have ok: "hybrid_ok s" "sqlite_ok (h_local s)" using assms(1) unfolding mirrored_def hybrid_ok_def by blast+
  from client_event [OF looking [of "bview (h_backend s)"] ok(2) False] show ?thesis
  proof (elim disjE exE conjE)
    assume q: "h_quiet (\<lambda>b. bok b \<and> bview b = bview (h_backend s)) s (hybrid_step ops ev s)"
    with quiet_frame [OF q ok(1)] assms(1) show ?thesis by (auto simp: mirrored_def h_quiet_def)
  next
    fix w assume "hands w s (hybrid_step ops ev s)" "writable w"
    with hands_frame [OF this(1) ok(1)] assms show ?thesis by (auto simp: mirrored_def)
  qed
qed

lemma run_mirrored:
  "mirrored bview bok s \<Longrightarrow> h_dropped (hybrid_run ops evs s) = h_dropped s \<Longrightarrow> mirrored bview bok (hybrid_run ops evs s)"
proof (induction evs arbitrary: s)
  case (Cons ev evs)
  let ?s = "hybrid_step ops ev s"
  have ok: "hybrid_ok s" using Cons.prems(1) by (simp add: mirrored_def)
  note e = step_accounted [OF ok, of ops ev]
  moreover have "h_dropped ?s \<le> h_dropped (hybrid_run ops evs ?s)" using e run_accounted [of ?s ops evs] by blast
  ultimately have "h_dropped ?s = h_dropped s" "h_dropped (hybrid_run ops evs ?s) = h_dropped ?s" using Cons.prems(2) by simp_all
  with Cons.IH [OF step_mirrored [OF Cons.prems(1)]] show ?case by simp
qed simp

lemma turns_drain:
  "mirrored bview bok s \<Longrightarrow> let t = hybrid_run ops (replicate n WriterTurn) s in
     mirrored bview bok t \<and> turns t = turns s - n \<and> h_local t = h_local s"
proof (induction n arbitrary: s)
  case (Suc n)
  from Suc.IH [of "writer_step ops s"] turn_mirrored [OF Suc.prems] show ?case by (simp add: Let_def)
qed simp

lemma drained:
  assumes "mirrored bview bok s" "turns s = 0"
  shows "joined s \<and> bview (h_backend s) = local_view (h_local s)"
proof -
  have "h_queue s = []" "h_writer s = Waiting" using assms(2) by (auto simp: turns_def split: if_splits)
  with assms(1) show ?thesis
    by (simp add: mirrored_def h_pending_def joined_def hybrid_ok_def queue_ok_def pending_count_def)
qed

lemma catches_up:
  assumes "mirrored bview bok s" "h_dropped (hybrid_run ops evs s) = h_dropped s" "2 * pending_count (hybrid_run ops evs s) \<le> n"
  shows "let t = hybrid_run ops (replicate n WriterTurn) (hybrid_run ops evs s) in
    joined t \<and> h_local t = h_local (hybrid_run ops evs s) \<and> bview (h_backend t) = local_view (h_local t)"
proof -
  let ?s = "hybrid_run ops evs s"
  have m: "mirrored bview bok ?s" using assms by (intro run_mirrored)
  have "turns ?s \<le> 2 * pending_count ?s" by (auto simp: turns_def pending_count_def split: option.split) (use m in \<open>auto simp: mirrored_def\<close>)
  with turns_drain [OF m, of n] drained assms(3) show ?thesis by (simp add: Let_def)
qed

end


text \<open>
  C33. A write handed over when the queue is full costs one write that is queued: the oldest that may be dropped if there is
  one, so that no session attribute and no update state is lost while a cache entry can go, and the oldest of all
  otherwise. The others keep their order.
\<close>

theorem overflow_victim:
  assumes "queue_ok s" "\<not> h_closing s" "queue_full s"
  shows "\<exists>i s'. enqueue w s = (Inr (), s') \<and> i < length (h_queue s) \<and>
    h_queue s' = take i (h_queue s) @ drop (Suc i) (h_queue s) @ [Some w] \<and> h_dropped s' = h_dropped s + 1 \<and>
    (if list_ex DROPPABLE (h_queue s) then DROPPABLE (h_queue s ! i) \<and> (\<forall>j<i. \<not> DROPPABLE (h_queue s ! j)) else i = 0)"
  using assms(1)
proof (cases rule: enqueue_cases [of s w])
  case (3 i)
  then show ?thesis
    by (intro exI [of _ i] exI [of _ "snd (enqueue w s)"]) (simp add: victim_of_def)
qed (use assms in simp_all)

section \<open>The attributes of a storage in two layers\<close>

text \<open>They read as last written, so a session string is loaded and exported as with one layer.\<close>

lemma hybrid_read_ok:
  assumes "hybrid_ok s"
  shows "fst (hybrid_read a s) = Inr (look (h_local s) a) \<and> hybrid_ok (snd (hybrid_read a s)) \<and>
    look (h_local (snd (hybrid_read a s))) = look (h_local s)"
proof -
  have l: "sqlite_ok (h_local s)" using assms by (simp add: hybrid_ok_def)
  have "h_quiet (\<lambda>_. True) s (snd (hybrid_read a s))" unfolding hybrid_read_def by (rule quiet_read(1) [OF l])
  from quiet_frame [OF this assms] read_attr_ok [OF l, of a] show ?thesis
    by (cases "read_attr a (h_local s)") (simp add: hybrid_read_def on_local_def)
qed

lemma hybrid_write_ok:
  assumes "hybrid_ok s" "storable a v"
  shows "fst (hybrid_write a v s) = Inr () \<and> hybrid_ok (snd (hybrid_write a v s)) \<and>
    look (h_local (snd (hybrid_write a v s))) = (look (h_local s))(a := v)"
proof -
  have l: "sqlite_ok (h_local s)" using assms(1) by (simp add: hybrid_ok_def)
  obtain l' where w: "write_attr a v (h_local s) = (Inr (), l')" "sqlite_ok l'"
    "local_view l' = effect (SESSION_WRITE [(a, v)]) (local_view (h_local s))"
    using local_write [OF l, of a v] assms(2) by (cases "write_attr a v (h_local s)") auto
  have e: "hybrid_write a v s = enqueue (SESSION_WRITE [(a, v)]) (s\<lparr>h_local := l'\<rparr>)" by (simp add: hybrid_write_def on_local_def w(1))
  have "hybrid_ok (s\<lparr>h_local := l'\<rparr>)" using assms(1) w(2) by (simp add: hybrid_ok_def queue_ok_def pending_count_def)
  from enqueue_pending [OF this] obtain s' where "hybrid_write a v s = (Inr (), s')" "hybrid_ok s'" "h_local s' = l'" unfolding e by auto
  with w(3) show ?thesis by (simp add: local_view_def)
qed

interpretation hybrid_attrs: session_store hybrid_read hybrid_write hybrid_ok storable "\<lambda>s. look (h_local s)"
  by unfold_locales (rule hybrid_read_ok, assumption, rule hybrid_write_ok)

lemma hybrid_exports: "hybrid_ok s \<Longrightarrow> fst (export_session_string crc hybrid_read s) = export_values crc (look (h_local s))"
  by (rule hybrid_attrs.export_looks)

section \<open>A SQLite storage behind the other\<close>

definition sqlite_ops :: "(bytes \<Rightarrow> nat) \<Rightarrow> sqlite timed backend_ops" where
  "sqlite_ops crc =
     \<lparr>b_open = ticked (\<lambda>_. open_sqlite crc), b_close = ticked (\<lambda>_ l. (Inr (), close_sqlite l)),
      b_delete = ticked (\<lambda>_ l. (Inr (), delete_sqlite l)), b_read = (\<lambda>a. ticked (\<lambda>_. read_attr a)),
      b_write = (\<lambda>a v. ticked (\<lambda>_. write_attr a v)), b_peers = (\<lambda>ps. ticked (\<lambda>now l. (Inr (), update_peers now ps l))),
      b_usernames = (\<lambda>us. ticked (\<lambda>_ l. (Inr (), update_usernames us l))),
      b_state = (\<lambda>v. ticked (\<lambda>_ l. (Inr (), update_state v l))), b_states = ticked (\<lambda>_ l. (Inr (read_states l), l)),
      b_by_id = (\<lambda>i. ticked (\<lambda>_. get_peer_by_id i)),
      b_by_username = (\<lambda>u. ticked (\<lambda>now l. (get_peer_by_username now u l, l))),
      b_by_phone = (\<lambda>ph. ticked (\<lambda>_ l. (get_peer_by_phone_number ph l, l))), b_export = None, b_fetch = None\<rparr>"

lemma ticked_snd: "snd (snd (ticked f b)) = snd (f (fst b 0) (snd b))" "fst (ticked f b) = fst (f (fst b 0) (snd b))"
  by (simp_all add: ticked_def split: prod.split)

lemma timed_writes:
  "sqlite_ok (snd b) \<Longrightarrow> \<forall>(a, v) \<in> set avs. storable a v \<Longrightarrow>
     fst (write_all (b_write (sqlite_ops crc)) avs b) = Inr () \<and> sqlite_ok (snd (snd (write_all (b_write (sqlite_ops crc)) avs b))) \<and>
     local_view (snd (snd (write_all (b_write (sqlite_ops crc)) avs b))) = effect (SESSION_WRITE avs) (local_view (snd b))"
proof (induction avs arbitrary: b)
  case (Cons av avs)
  obtain a v where av: "av = (a, v)" by (cases av)
  let ?b = "snd (ticked (\<lambda>_. write_attr a v) b)"
  have st: "storable a v" using Cons.prems(2) by (simp add: av)
  have w: "fst (ticked (\<lambda>_. write_attr a v) b) = Inr ()" "sqlite_ok (snd ?b)"
    "local_view (snd ?b) = effect (SESSION_WRITE [(a, v)]) (local_view (snd b))"
    using local_write [OF Cons.prems(1), of a v] st by (simp_all add: ticked_snd)
  then have "write_all (b_write (sqlite_ops crc)) (av # avs) b = write_all (b_write (sqlite_ops crc)) avs ?b"
    by (cases "ticked (\<lambda>_. write_attr a v) b") (simp add: av sqlite_ops_def)
  with Cons.IH [OF w(2)] Cons.prems(2) w(3) show ?case by (simp add: local_view_def av)
qed (simp add: local_view_def)

lemma sqlite_applies:
  assumes "sqlite_ok (snd b)" "writable w"
  shows "fst (apply_write (sqlite_ops crc) w b) = Inr () \<and> sqlite_ok (snd (snd (apply_write (sqlite_ops crc) w b))) \<and>
    local_view (snd (snd (apply_write (sqlite_ops crc) w b))) = effect w (local_view (snd b))"
proof (cases w)
  case (SESSION_WRITE avs)
  then show ?thesis using timed_writes [OF assms(1), of avs] assms(2) by simp
next
  case (PEER_WRITE ps)
  then show ?thesis using local_frames(1) [OF assms(1)] by (simp add: sqlite_ops_def ticked_snd)
next
  case (USERNAME_WRITE us)
  then show ?thesis using local_frames(2) [OF assms(1)] by (simp add: sqlite_ops_def ticked_snd)
next
  case (STATE_WRITE i r)
  then show ?thesis using local_state [OF assms(1), of "WriteState i r"] by (simp add: sqlite_ops_def ticked_snd)
next
  case (STATE_DELETE i)
  then show ?thesis using local_state [OF assms(1), of "DeleteState i"] by (simp add: sqlite_ops_def ticked_snd)
qed

interpretation sqlite_mirror: mirror_backend "sqlite_ops crc" "\<lambda>b. local_view (snd b)" "\<lambda>b. sqlite_ok (snd b)" for crc
proof unfold_locales
  show "keeps (sqlite_ops crc) (\<lambda>b. sqlite_ok (snd b) \<and> local_view (snd b) = v)" for v
    using local_frames(3) by (simp add: keeps_def sqlite_ops_def ticked_snd)
qed (use sqlite_applies in blast)

section \<open>Examples\<close>

definition two_layers :: "nat \<Rightarrow> sqlite timed hybrid" where
  "two_layers n = (new_hybrid opened (\<lambda>_. at_time 0, opened) None 0 n)\<lparr>h_writer := Waiting\<rparr>"

lemma two_layers_ok: "hybrid_ok (two_layers n)" "mirrored (\<lambda>b. local_view (snd b)) (\<lambda>b. sqlite_ok (snd b)) (two_layers n)"
  using opened_ok(1) by (simp_all add: two_layers_def new_hybrid_def hybrid_ok_def queue_ok_def pending_count_def mirrored_def h_pending_def)

lemma storable_user: "storable UserId (IntVal 5)" "storable UserId (IntVal 6)"
  by (simp_all add: storable_def check_column_def)

definition sample_run :: "hybrid_event list" where
  "sample_run = [SetAttr UserId (IntVal 5), WriterTurn, SetAttr UserId (IntVal 6)]"

lemma sample_pending:
  "let s = hybrid_run (sqlite_ops (\<lambda>_. 0)) sample_run (two_layers 0) in h_dropped s = 0 \<and> pending_count s = 2"
  by code_simp


lemma writes_accounted_witness:
  "h_dropped (stop_hybrid (sqlite_ops (\<lambda>_. 0)) sample_run False [] (\<lambda>b. b) (two_layers 0)) = 2"
proof -
  obtain acc t where t: "begin_close (hybrid_run (sqlite_ops (\<lambda>_. 0)) sample_run (two_layers 0)) = (acc, t)" by fastforce
  have "total (h_delivered (sqlite_ops (\<lambda>_. 0))) (sqlite_ops (\<lambda>_. 0)) sample_run (two_layers 0) = 0 \<and>
      total abandoned (sqlite_ops (\<lambda>_. 0)) sample_run (two_layers 0) = 0 \<and> total handed (sqlite_ops (\<lambda>_. 0)) sample_run (two_layers 0) = 2"
    by code_simp
  with writes_accounted [OF two_layers_ok(1) [of 0], of "sqlite_ops (\<lambda>_. 0)" sample_run acc t "[]" False "[]" "\<lambda>b. b"] t
  show ?thesis by (simp add: two_layers_def new_hybrid_def h_pending_def)
qed

text \<open>A queue for one write, taken by a session attribute.\<close>

definition key_queued :: "sqlite timed hybrid" where
  "key_queued = hybrid_step (sqlite_ops (\<lambda>_. 0)) (SetAttr AuthKey (BytesVal [1])) (two_layers 1)"

lemma key_queued_ok: "queue_ok key_queued \<and> \<not> h_closing key_queued"
  using step_accounted [OF two_layers_ok(1) [of 1], of "sqlite_ops (\<lambda>_. 0)" "SetAttr AuthKey (BytesVal [1])"]
  by (simp add: key_queued_def hybrid_ok_def two_layers_def new_hybrid_def)

lemma key_queue: "h_queue key_queued = [Some (SESSION_WRITE [(AuthKey, BytesVal [1])])] \<and> h_maxsize key_queued = 1"
  by code_simp

lemma overflow_victim_witness:
  "h_queue (snd (enqueue (SESSION_WRITE [(UserId, IntVal 5)]) key_queued)) = [Some (SESSION_WRITE [(UserId, IntVal 5)])]"
  using overflow_victim [of key_queued "SESSION_WRITE [(UserId, IntVal 5)]"] key_queued_ok key_queue by (auto simp: queue_full_def)

text \<open>A peer that is stored while only the key waits pushes the key out.\<close>

lemma peer_evicts_key:
  "h_queue (hybrid_step (sqlite_ops (\<lambda>_. 0)) (StorePeers (at_time 0) [user_a]) key_queued) = [Some (PEER_WRITE [user_a])]"
  by code_simp

text \<open>A write that failed is put behind a newer one of the same attribute, so the backend ends with the older value.\<close>

lemma retry_overtakes:
  assumes "h_writer s = Backoff (SESSION_WRITE [(a, v)])" "h_maxsize s = 0" "h_queue s = []" "\<not> h_closing s" "sqlite_ok (h_local s)" "storable a v'"
  shows "h_pending (hybrid_run ops [SetAttr a v', WriterTurn] s) = [SESSION_WRITE [(a, v')], SESSION_WRITE [(a, v)]]"
    "fst (fold effect [SESSION_WRITE [(a, v')], SESSION_WRITE [(a, v)]] x) a = v"
    "look (h_local (hybrid_run ops [SetAttr a v', WriterTurn] s)) a = v'"
proof -
  obtain l where l: "write_attr a v' (h_local s) = (Inr (), l)" "local_view l = effect (SESSION_WRITE [(a, v')]) (local_view (h_local s))"
    using local_write [OF assms(5), of a v'] assms(6) by (cases "write_attr a v' (h_local s)") auto
  let ?s = "snd (put_nowait (Some (SESSION_WRITE [(a, v')])) (s\<lparr>h_local := l\<rparr>))"
  have e: "hybrid_step ops (SetAttr a v') s = ?s"
    using assms(2,4) l(1) by (simp add: hybrid_write_def on_local_def enqueue_def put_nowait_def queue_full_def)
  have t: "hybrid_run ops [SetAttr a v', WriterTurn] s = woken (SESSION_WRITE [(a, v)]) ?s"
    using assms(1,2) by (simp add: e [unfolded hybrid_step.simps] writer_step_def) (simp add: put_nowait_def queue_full_def)
  show "h_pending (hybrid_run ops [SetAttr a v', WriterTurn] s) = [SESSION_WRITE [(a, v')], SESSION_WRITE [(a, v)]]"
    unfolding t using assms(2,3) by (simp add: woken_def put_nowait_def queue_full_def h_pending_def task_done_def)
  show "fst (fold effect [SESSION_WRITE [(a, v')], SESSION_WRITE [(a, v)]] x) a = v" by (cases x) simp
  have "look l a = v'" using l(2) by (simp add: local_view_def)
  then show "look (h_local (hybrid_run ops [SetAttr a v', WriterTurn] s)) a = v'"
    unfolding t using assms(2) by (simp add: woken_def put_nowait_def queue_full_def task_done_def)
qed

text \<open>A write that fails and finds the queue full is not counted as dropped.\<close>

lemma abandoned_uncounted:
  "h_writer s = Backoff w \<Longrightarrow> queue_full s \<Longrightarrow> h_dropped (writer_step ops s) = h_dropped s \<and> h_queue (writer_step ops s) = h_queue s"
  by (simp add: writer_step_def woken_def put_nowait_def task_done_def queue_full_def)

text \<open>A storage that is opened again still refuses writes while it loads its session string.\<close>

lemma closing_write:
  "h_closing s \<Longrightarrow> h_closing (snd (hybrid_write a v s)) \<and> h_queue (snd (hybrid_write a v s)) = h_queue s \<and>
    h_backend (snd (hybrid_write a v s)) = h_backend s"
  by (cases "write_attr a v (h_local s)") (auto simp: hybrid_write_def on_local_def enqueue_def split: sum.split)

lemma closing_writes:
  "h_closing s \<Longrightarrow> h_queue (snd (write_all hybrid_write avs s)) = h_queue s \<and> h_backend (snd (write_all hybrid_write avs s)) = h_backend s"
proof (induction avs arbitrary: s)
  case (Cons av avs)
  obtain a v where av: "av = (a, v)" by (cases av)
  from closing_write [OF Cons.prems, of a v] Cons.IH [of "snd (hybrid_write a v s)"] show ?case
    by (cases "hybrid_write a v s") (auto simp: av split: sum.split)
qed simp

lemma reopened_unmirrored:
  assumes "h_closing s"
  shows "h_queue (snd (load_both crc s)) = h_queue s" "h_backend (snd (load_both crc s)) = h_backend s"
  using closing_writes [OF assms]
  by (auto simp: load_both_def load_session_string_def split: option.split list.split sum.split)

end
