(* ===== verification/Remote_Laws.thy ===== *)
theory Remote_Laws
  imports Remote_Storage Hybrid_Laws
begin

text \<open>
  What a remote storage promises on a database that keeps what it is given: its attributes read as last written though
  they are cached, and behind a local storage it follows every write. Its cache of peers never answers otherwise than the database.
\<close>

section \<open>A database that keeps what it is given\<close>

text \<open>
  The primitives on the states \<open>pok\<close> of a database, whose session and update states are \<open>pview\<close>: reading the session
  gives its fields, saving some of them changes those, saving a state merges it, and the others leave both alone.
\<close>

definition sound_primitives :: "'p primitives \<Rightarrow> ('p \<Rightarrow> view) \<Rightarrow> ('p \<Rightarrow> bool) \<Rightarrow> bool" where
  "sound_primitives prims pview pok \<longleftrightarrow> (\<forall>p. pok p \<longrightarrow>
     (\<exists>d p'. p_load_session prims p = (Inr d, p') \<and> pok p' \<and> pview p' = pview p \<and> (\<forall>a. dict_get a (dict_or d []) = fst (pview p) a)) \<and>
     (\<forall>d. (\<forall>(a, v) \<in> set d. storable a v) \<longrightarrow>
        (\<exists>p'. p_save_session prims d p = (Inr (), p') \<and> pok p' \<and> pview p' = effect (SESSION_WRITE d) (pview p))) \<and>
     (\<forall>i r. \<exists>p'. p_save_state prims i r p = (Inr (), p') \<and> pok p' \<and> pview p' = effect (STATE_WRITE i r) (pview p)) \<and>
     (\<forall>i. \<exists>p'. p_delete_state prims i p = (Inr (), p') \<and> pok p' \<and> pview p' = effect (STATE_DELETE i) (pview p)) \<and>
     (\<forall>ps. \<exists>p'. p_upsert_peers prims ps p = (Inr (), p') \<and> pok p' \<and> pview p' = pview p) \<and>
     (\<forall>us. \<exists>p'. p_replace_usernames prims us p = (Inr (), p') \<and> pok p' \<and> pview p' = pview p) \<and>
     (\<forall>i. pok (snd (p_fetch_peer prims i p)) \<and> pview (snd (p_fetch_peer prims i p)) = pview p) \<and>
     (\<forall>u. pok (snd (p_fetch_by_username prims u p)) \<and> pview (snd (p_fetch_by_username prims u p)) = pview p) \<and>
     (\<forall>u. pok (snd (p_fetch_by_phone prims u p)) \<and> pview (snd (p_fetch_by_phone prims u p)) = pview p))"

lemma sound_primitivesD:
  assumes "sound_primitives prims pview pok" "pok p"
  shows "\<exists>d p'. p_load_session prims p = (Inr d, p') \<and> pok p' \<and> pview p' = pview p \<and> (\<forall>a. dict_get a (dict_or d []) = fst (pview p) a)"
    "\<forall>(a, v) \<in> set d. storable a v \<Longrightarrow>
      \<exists>p'. p_save_session prims d p = (Inr (), p') \<and> pok p' \<and> pview p' = effect (SESSION_WRITE d) (pview p)"
    "\<exists>p'. p_save_state prims i r p = (Inr (), p') \<and> pok p' \<and> pview p' = effect (STATE_WRITE i r) (pview p)"
    "\<exists>p'. p_delete_state prims i p = (Inr (), p') \<and> pok p' \<and> pview p' = effect (STATE_DELETE i) (pview p)"
    "\<exists>p'. p_upsert_peers prims ps p = (Inr (), p') \<and> pok p' \<and> pview p' = pview p"
    "\<exists>p'. p_replace_usernames prims us p = (Inr (), p') \<and> pok p' \<and> pview p' = pview p"
    "pok (snd (p_fetch_peer prims i p)) \<and> pview (snd (p_fetch_peer prims i p)) = pview p"
    "pok (snd (p_fetch_by_username prims u p)) \<and> pview (snd (p_fetch_by_username prims u p)) = pview p"
    "pok (snd (p_fetch_by_phone prims u p)) \<and> pview (snd (p_fetch_by_phone prims u p)) = pview p"
  using assms unfolding sound_primitives_def by blast+

section \<open>The attributes\<close>

definition remote_view :: "('p \<Rightarrow> view) \<Rightarrow> 'p remote \<Rightarrow> view" where
  "remote_view pview s = pview (r_store s)"

definition remote_ok :: "('p \<Rightarrow> view) \<Rightarrow> ('p \<Rightarrow> bool) \<Rightarrow> 'p remote \<Rightarrow> bool" where
  "remote_ok pview pok s \<longleftrightarrow> r_opened s \<and> pok (r_store s) \<and>
     (\<forall>a v. cache_get NoVal a (r_attrs s) = Some v \<longrightarrow> v = fst (pview (r_store s)) a)"

lemma remote_read_ok:
  assumes "sound_primitives prims pview pok" "remote_ok pview pok s"
  shows "fst (remote_read prims a s) = Inr (fst (remote_view pview s) a) \<and> remote_ok pview pok (snd (remote_read prims a s)) \<and>
    remote_view pview (snd (remote_read prims a s)) = remote_view pview s"
proof (cases "cache_get NoVal a (r_attrs s)")
  case (Some v)
  then show ?thesis using assms(2) by (simp add: remote_read_def remote_ok_def remote_view_def)
next
  case None
  have "pok (r_store s)" using assms(2) by (simp add: remote_ok_def)
  from sound_primitivesD(1) [OF assms(1) this] obtain d p where d: "p_load_session prims (r_store s) = (Inr d, p)" "pok p"
    "pview p = pview (r_store s)" "\<forall>a. dict_get a (dict_or d []) = fst (pview (r_store s)) a" by blast
  with None assms(2) show ?thesis by (auto simp: remote_read_def remote_ok_def remote_view_def on_store_def Let_def)
qed

lemma remote_write_ok:
  assumes "sound_primitives prims pview pok" "remote_ok pview pok s" "storable a v"
  shows "fst (remote_write prims a v s) = Inr () \<and> remote_ok pview pok (snd (remote_write prims a v s)) \<and>
    remote_view pview (snd (remote_write prims a v s)) = effect (SESSION_WRITE [(a, v)]) (remote_view pview s)"
proof -
  have "pok (r_store s)" using assms(2) by (simp add: remote_ok_def)
  from sound_primitivesD(2) [OF assms(1) this, of "[(a, v)]"] assms(3) obtain p where
    p: "p_save_session prims [(a, v)] (r_store s) = (Inr (), p)" "pok p" "pview p = effect (SESSION_WRITE [(a, v)]) (pview (r_store s))"
    by auto
  obtain m st where "pview (r_store s) = (m, st)" by fastforce
  with p assms(2) show ?thesis by (auto simp: remote_write_def remote_ok_def remote_view_def on_store_def)
qed

text \<open>
  A remote storage is a session store: on a database that keeps its fields, each attribute reads as what was last
  written to it, whether the cache has it or not.
\<close>

theorem remote_attributes:
  assumes "sound_primitives prims pview pok"
  shows "session_store (remote_read prims) (remote_write prims) (remote_ok pview pok) storable (\<lambda>s. fst (remote_view pview s))"
proof
  fix s a v assume ok: "remote_ok pview pok s"
  show "fst (remote_read prims a s) = Inr (fst (remote_view pview s) a) \<and> remote_ok pview pok (snd (remote_read prims a s)) \<and>
      fst (remote_view pview (snd (remote_read prims a s))) = fst (remote_view pview s)"
    using remote_read_ok [OF assms ok, of a] by simp
  assume "storable a v"
  from remote_write_ok [OF assms ok this] show "fst (remote_write prims a v s) = Inr () \<and>
      remote_ok pview pok (snd (remote_write prims a v s)) \<and>
      fst (remote_view pview (snd (remote_write prims a v s))) = (fst (remote_view pview s))(a := v)"
    by (cases "remote_view pview s") simp
qed

section \<open>Behind a local storage\<close>

definition kept :: "('p \<Rightarrow> view) \<Rightarrow> ('p \<Rightarrow> bool) \<Rightarrow> view \<Rightarrow> 'p remote \<Rightarrow> bool" where
  "kept pview pok x s \<longleftrightarrow> remote_ok pview pok s \<and> remote_view pview s = x"

lemma kept_store:
  assumes "kept pview pok x s" "fst x = fst (pview p)" "pok p"
  shows "kept pview pok (pview p) (s\<lparr>r_store := p\<rparr>)" "kept pview pok (pview p) (s\<lparr>r_store := p, r_peers := c\<rparr>)"
  using assms by (auto simp: kept_def remote_ok_def remote_view_def)

lemma kept_peers [simp]: "kept pview pok x (s\<lparr>r_peers := c\<rparr>) = kept pview pok x s"
  by (simp add: kept_def remote_ok_def remote_view_def)

text \<open>A call on the database that changes its view by \<open>w\<close>.\<close>

lemma store_kept:
  assumes "kept pview pok x s" "\<exists>p. f (r_store s) = (Inr (), p) \<and> pok p \<and> pview p = effect w x" "fst (effect w x) = fst x"
  shows "fst (on_store f s) = Inr () \<and> kept pview pok (effect w x) (snd (on_store f s))"
proof -
  from assms(2) obtain p where p: "f (r_store s) = (Inr (), p)" "pok p" "pview p = effect w x" by blast
  from kept_store(1) [OF assms(1), of p] p assms(3) show ?thesis by (simp add: on_store_def)
qed

lemma kept_fetch:
  assumes "kept pview pok x s" "pok (snd (f (r_store s)))" "pview (snd (f (r_store s))) = pview (r_store s)"
  shows "kept pview pok x (snd (on_store f s))"
  using assms by (cases "f (r_store s)") (auto simp: kept_def remote_ok_def remote_view_def on_store_def)

lemma remote_peers_kept:
  assumes "sound_primitives prims pview pok" "kept pview pok x s"
  shows "fst (remote_peers prims now ps s) = Inr () \<and> kept pview pok x (snd (remote_peers prims now ps s))"
proof -
  obtain fresh c where f: "fresh_peers (mono_time now) ps (r_peers s) = (fresh, c)" by fastforce
  let ?s = "s\<lparr>r_peers := c\<rparr>"
  have "pok (r_store s)" "pview (r_store s) = x" using assms(2) by (simp_all add: kept_def remote_ok_def remote_view_def)
  with sound_primitivesD(5) [OF assms(1), of "r_store s" fresh]
  have "fst (on_store (p_upsert_peers prims fresh) ?s) = Inr () \<and> kept pview pok x (snd (on_store (p_upsert_peers prims fresh) ?s))"
    using store_kept [of pview pok x ?s "p_upsert_peers prims fresh" "PEER_WRITE fresh"] assms(2) by simp
  then show ?thesis using assms(2)
    by (cases "on_store (p_upsert_peers prims fresh) ?s") (simp add: remote_peers_def f Let_def)
qed

lemma remote_lookups_kept:
  assumes "sound_primitives prims pview pok" "kept pview pok x s"
  shows "kept pview pok x (snd (remote_by_id prims i s))" "kept pview pok x (snd (remote_by_username prims now u s))"
    "kept pview pok x (snd (remote_by_phone prims ph s))" "kept pview pok x (snd (on_store (p_fetch_peer prims i) s))"
proof -
  have "pok (r_store s)" using assms(2) by (simp add: kept_def remote_ok_def)
  note f = kept_fetch [OF assms(2)] sound_primitivesD(7-9) [OF assms(1) this]
  have k: "kept pview pok x (snd (on_store (p_fetch_peer prims i) s))" "kept pview pok x (snd (on_store (p_fetch_by_username prims u) s))"
    "kept pview pok x (snd (on_store (p_fetch_by_phone prims ph) s))" using f by blast+
  show "kept pview pok x (snd (on_store (p_fetch_peer prims i) s))" by (rule k)
  show "kept pview pok x (snd (remote_by_id prims i s))" using assms(2) k(1)
    by (cases "on_store (p_fetch_peer prims i) s") (auto simp: remote_by_id_def split: prod.split option.split sum.split)
  show "kept pview pok x (snd (remote_by_username prims now u s))" using k(2)
    by (cases "on_store (p_fetch_by_username prims u) s") (auto simp: remote_by_username_def split: prod.split option.split sum.split)
  show "kept pview pok x (snd (remote_by_phone prims ph s))" using k(3)
    by (cases "on_store (p_fetch_by_phone prims ph) s") (auto simp: remote_by_phone_def split: prod.split option.split sum.split)
qed

lemma timed_remote_writes:
  assumes "sound_primitives prims pview pok"
  shows "kept pview pok x (snd b) \<Longrightarrow> \<forall>(a, v) \<in> set avs. storable a v \<Longrightarrow>
    fst (write_all (b_write (remote_ops prims crc)) avs b) = Inr () \<and>
    kept pview pok (effect (SESSION_WRITE avs) x) (snd (snd (write_all (b_write (remote_ops prims crc)) avs b)))"
proof (induction avs arbitrary: b x)
  case (Cons av avs)
  obtain a v where av: "av = (a, v)" by (cases av)
  let ?b = "snd (ticked (\<lambda>_. remote_write prims a v) b)"
  have "remote_ok pview pok (snd b)" "remote_view pview (snd b) = x" "storable a v" using Cons.prems by (simp_all add: kept_def av)
  with remote_write_ok [OF assms this(1,3)]
  have w: "fst (ticked (\<lambda>_. remote_write prims a v) b) = Inr ()" "kept pview pok (effect (SESSION_WRITE [(a, v)]) x) (snd ?b)"
    by (simp_all add: ticked_snd kept_def)
  then have "write_all (b_write (remote_ops prims crc)) (av # avs) b = write_all (b_write (remote_ops prims crc)) avs ?b"
    by (cases "ticked (\<lambda>_. remote_write prims a v) b") (simp add: av remote_ops_def)
  with Cons.IH [OF w(2)] Cons.prems(2) show ?case by (cases x) (simp add: av)
next
  case Nil
  then show ?case by (cases x) simp
qed

lemma remote_applies:
  assumes "sound_primitives prims pview pok" "kept pview pok x (snd b)" "writable w"
  shows "fst (apply_write (remote_ops prims crc) w b) = Inr () \<and> kept pview pok (effect w x) (snd (snd (apply_write (remote_ops prims crc) w b)))"
proof -
  have p: "pok (r_store (snd b))" "pview (r_store (snd b)) = x" using assms(2) by (simp_all add: kept_def remote_ok_def remote_view_def)
  note d = sound_primitivesD [OF assms(1) p(1)] and st = store_kept [OF assms(2)]
  show ?thesis
  proof (cases w)
    case (SESSION_WRITE avs)
    then show ?thesis using timed_remote_writes [OF assms(1,2), of avs] assms(3) by simp
  next
    case (PEER_WRITE ps)
    then show ?thesis using remote_peers_kept [OF assms(1,2), of "fst b 0" ps] by (simp add: remote_ops_def ticked_snd)
  next
    case (USERNAME_WRITE us)
    with st [of "p_replace_usernames prims us" w] d(6) [of us] p(2) assms(2) show ?thesis
      by (simp add: remote_ops_def ticked_snd remote_usernames_def give_def)
  next
    case (STATE_WRITE i r)
    with st [of "p_save_state prims i r" w] d(3) [of i r] p(2) show ?thesis
      by (cases x) (simp add: remote_ops_def ticked_snd remote_state_def)
  next
    case (STATE_DELETE i)
    with st [of "p_delete_state prims i" w] d(4) [of i] p(2) show ?thesis
      by (cases x) (simp add: remote_ops_def ticked_snd remote_state_def)
  qed
qed


section \<open>Opening\<close>

text \<open>An attempt that fails after connecting leaves the storage open, and the next one does nothing.\<close>

lemma failed_open_sticks:
  assumes "\<not> r_opened s" "p_connect prims (r_store s) = (Inr (), p)" "p_load_session prims p = (Inl e, p')"
  shows "fst (open_remote prims crc s) = Inl e"
    "open_remote prims' crc (snd (open_remote prims crc s)) = (Inr (), snd (open_remote prims crc s))"
  using assms by (simp_all add: open_remote_def on_store_def)

section \<open>Examples\<close>

text \<open>A database in memory that keeps a session and the update states.\<close>

definition all_attrs :: "attr list" where
  "all_attrs = SESSION_FIELDS"

definition view_primitives :: "view primitives" where
  "view_primitives =
     \<lparr>p_connect = give (), p_disconnect = give (), p_load_session = (\<lambda>p. (Inr (Some (map (\<lambda>a. (a, fst p a)) all_attrs)), p)),
      p_save_session = (\<lambda>d p. (Inr (), effect (SESSION_WRITE d) p)), p_upsert_peers = (\<lambda>_. give ()), p_fetch_peer = (\<lambda>_. give None),
      p_fetch_by_username = (\<lambda>_. give None), p_fetch_by_phone = (\<lambda>_. give None), p_replace_usernames = (\<lambda>_. give ()),
      p_load_states = give [], p_save_state = (\<lambda>i r p. (Inr (), effect (STATE_WRITE i r) p)),
      p_delete_state = (\<lambda>i p. (Inr (), effect (STATE_DELETE i) p)), p_purge = (\<lambda>_. give ()), p_iter_peers = (\<lambda>_. give []),
      p_load_version = give None, p_save_version = (\<lambda>_. give ()), p_migrate = (\<lambda>_. give ())\<rparr>"

lemma dict_get_all: "dict_get a (dict_or (Some (map (\<lambda>a. (a, f a)) all_attrs)) []) = f a"
  by (cases a) (simp_all add: dict_get_def dict_or_def all_attrs_def SESSION_FIELDS_def)

lemma view_primitives_sound: "sound_primitives view_primitives (\<lambda>p. p) (\<lambda>_. True)"
  unfolding sound_primitives_def by (simp add: view_primitives_def give_def dict_get_all)

definition opened_remote :: "view remote" where
  "opened_remote = (new_remote (\<lambda>_. NoVal, \<lambda>_. None) None 4096)\<lparr>r_opened := True\<rparr>"

lemma opened_remote_ok: "remote_ok (\<lambda>p. p) (\<lambda>_. True) opened_remote"
  by (simp add: opened_remote_def new_remote_def remote_ok_def)

lemma remote_attributes_witness:
  "fst (remote_read view_primitives UserId (snd (remote_write view_primitives UserId (IntVal 5) opened_remote))) = Inr (IntVal 5)"
proof -
  note l = remote_attributes [OF view_primitives_sound]
  let ?s = "snd (remote_write view_primitives UserId (IntVal 5) opened_remote)"
  from session_store.writing [OF l opened_remote_ok storable_user(1)]
  have w: "remote_ok (\<lambda>p. p) (\<lambda>_. True) ?s" "fst (remote_view (\<lambda>p. p) ?s) UserId = IntVal 5" by simp_all
  from session_store.reading [OF l w(1), of UserId] w(2) show ?thesis by simp
qed


end
