(* ===== verification/Spec2Isabelle.thy ===== *)
theory Spec2Isabelle
  imports TL_Codec File_Id Session_Calls Session_Packets Session_Ids Web_Carrier Connection Listener_Feed Dispatcher_Laws Dispatcher_Workers Sqlite_Peers Auth_Laws Markdown Remote_Laws
begin

text \<open>
  wzgram, a client library for Telegram's MTProto protocol (\<open>pyrogram/\<close>), modelled from the wire
  upwards.

  Parts and how they interact. A method call of the library becomes a TL object, which
  \<open>raw/core\<close> and the generated classes serialize. \<open>session/session.py\<close> gives the message an id and a
  sequence number, sends it over a \<open>Connection\<close>, keeps a waiter for the answer, and takes incoming packets
  apart: acknowledgements, results, salts and updates. A connection (\<open>connection/connection.py\<close>) is one
  of the framings of \<open>connection/transport/tcp\<close> on a stream that goes directly to a data center, through
  a SOCKS or HTTP proxy, through an MTProxy (plain, padded, behind fake TLS) or through a WEB proxy, whose
  carrier multiplexes the stream over HTTP posts. File identifiers (\<open>file_id.py\<close>) stand beside
  this path: the text form of a location in the TL layer.

  Theories and the code they model.
    \<^item> Prelude: bytes, the exceptions as values, fallible results as a sum, readers over
      \<open>io.BytesIO\<close>, integers of the language to and from bytes. Py_Text: the string operations of the
      language. Base64: the codec of the standard library in both alphabets.
    \<^item> TL_Primitives, TL_Object: \<open>raw/core/primitives\<close>, \<open>raw/core/tl_object.py\<close>, the hand-written
      classes (\<open>Message\<close>, \<open>MsgContainer\<close>, \<open>GzipPacked\<close>, \<open>FutureSalts\<close>, lists) and the read and write
      bodies that \<open>compiler/api/compiler.py\<close> emits, as the interpretation of an argument list. TL_Codec: what
      they promise together.
    \<^item> File_Id: \<open>file_id.py\<close>.
    \<^item> Session_Ids: \<open>session/internals\<close>. Session_Packets: \<open>handle_packet\<close> and what it calls.
      Session_Calls: \<open>send\<close>, \<open>invoke\<close>, \<open>start\<close>, and the hand-written serializer for file parts.
    \<^item> Proxy: \<open>connection/proxy.py\<close>. Transport: the seven framings over a byte pipe. Obfuscation: the
      obfuscated header and its ciphers. Fake_TLS, Fake_TLS_Records: the greeting and the record
      layer. Web_Frames, Web_Http, Web_Carrier: \<open>web_proxy_carrier.py\<close>. Tcp: the socket below a transport.
      Connection: opening it in every way, and \<open>connection.py\<close>.

  How state and operations correspond to the code. An object with fields is a record with the
  source's field names (prefixed where a name is taken), a method is a function from the state to a result and the new
  state, and an exception is the left side of a sum. Coroutines are modelled at their
  suspension points: what another task can do there is a step of a relation, or an
  argument that yields the new state. What the socket delivers, the clock, random draws and the answers of
  the server are arguments (lists of events, tapes or functions of the request), so every theorem holds for
  all of them.

  What the groups of lemmas show. The codecs read back what they wrote, on the whole stream and not
  only on one value; the session never accepts a message twice, answers every waiter, and never loses an
  acknowledgement; the retry loops end; the receiver of a framed, padded, obfuscated, record-wrapped or relayed
  stream gets the messages sent, whatever the chunks of the network; a fake-TLS stream opens only after the
  server has proved that it knows the secret.

  Interfaces. \<open>Transport.framing\<close> is the contract between a transport and the pipe below it, and each
  framing of the code interprets it; its client lemmas (delivery of a sequence of messages) are proved once.

  Bounds and fuel. Loops over data are structural or have a measure. Fuel is used only where the
  code's loop is not bounded by its data (waiting for a record, resending an invocation); the theorems then state how
  much is enough, and that the result does not depend on more.

  Parameters. SHA-1, SHA-256, HMAC, AES and the gzip codec, IDNA, the URL splitter, TLS and JSON are not
  under \<open>src/\<close>; they are arguments, and where a theorem needs a law of them it is a named
  hypothesis that a witness instantiates.

  Not modelled. The generated API (\<open>raw/all.py\<close>, types and functions are not in the repository); the
  bound methods and data classes of \<open>methods/\<close> and \<open>types/\<close>, which translate between user
  objects and TL objects field by field; logging, printing, documentation; remote storages, which call
  database drivers; sockets and the event loop themselves.
\<close>

end
